(* ===== verification/Prelude.thy ===== *)
theory Prelude
  imports Complex_Main
begin

text \<open>
  Shared vocabulary of the development: the \<^theory_text>\<open>named_theorems\<close> collections the
  component theories fill, clock readings, the values Python code passes around
  untyped (flag values, JSON documents, request metadata), error sums with their bind, and
  the list operations that stand for the deque and list loops of the sources.
\<close>

named_theorems inv_defs \<open>definitions of the invariants\<close>
named_theorems op_defs \<open>definitions of the operations of a component\<close>
named_theorems frame \<open>what an operation leaves unchanged\<close>

subsection \<open>Clock readings and floats\<close>

text \<open>
  \<open>time.monotonic()\<close> and the other finite Python floats are exact rationals: the sources
  only add, subtract, compare and scale them, and double rounding is not modelled. Where a
  float comes from outside (YAML, JSON) it may also be infinite or not a number, and the
  comparisons of the sources then answer as IEEE 754 says; \<open>pyfloat\<close> keeps that.
\<close>

type_synonym time = rat

datatype pyfloat = Finite rat | PosInf | NegInf | NaN

fun float_lt :: "pyfloat \<Rightarrow> pyfloat \<Rightarrow> bool" where
  "float_lt NaN _ = False"
| "float_lt _ NaN = False"
| "float_lt (Finite a) (Finite b) = (a < b)"
| "float_lt NegInf y = (y \<noteq> NegInf)"
| "float_lt _ NegInf = False"
| "float_lt PosInf _ = False"
| "float_lt _ PosInf = True"

lemma float_lt_Finite_iff [simp]:
  "float_lt (Finite a) y \<longleftrightarrow> (case y of Finite b \<Rightarrow> a < b | PosInf \<Rightarrow> True | _ \<Rightarrow> False)"
  by (cases y) simp_all

lemma float_lt_Finite_right [simp]:
  "float_lt x (Finite b) \<longleftrightarrow> (case x of Finite a \<Rightarrow> a < b | NegInf \<Rightarrow> True | _ \<Rightarrow> False)"
  by (cases x) simp_all

subsection \<open>Untyped Python values\<close>

datatype pyval =
    PyNone
  | PyBool bool
  | PyInt int
  | PyFloat pyfloat
  | PyStr string
  | PyList "pyval list"
  | PyDict "(string \<times> pyval) list"

text \<open>\<open>bool(v)\<close>, and \<open>d.get(k)\<close> on a dict given by its items in insertion order.\<close>

fun truthy :: "pyval \<Rightarrow> bool" where
  "truthy PyNone = False"
| "truthy (PyBool b) = b"
| "truthy (PyInt i) = (i \<noteq> 0)"
| "truthy (PyFloat f) = (f \<noteq> Finite 0)"
| "truthy (PyStr s) = (s \<noteq> [])"
| "truthy (PyList vs) = (vs \<noteq> [])"
| "truthy (PyDict kvs) = (kvs \<noteq> [])"

definition dict_get :: "(string \<times> pyval) list \<Rightarrow> string \<Rightarrow> pyval option" where
  "dict_get d k = map_of d k"

definition get_or_none :: "(string \<times> pyval) list \<Rightarrow> string \<Rightarrow> pyval" where
  "get_or_none d k = (case dict_get d k of None \<Rightarrow> PyNone | Some v \<Rightarrow> v)"

text \<open>\<open>d[k] = v\<close>: replaced in place, or appended.\<close>

fun dict_set :: "(string \<times> pyval) list \<Rightarrow> string \<Rightarrow> pyval \<Rightarrow> (string \<times> pyval) list" where
  "dict_set [] k v = [(k, v)]"
| "dict_set ((k', v') # kvs) k v =
     (if k' = k then (k, v) # kvs else (k', v') # dict_set kvs k v)"

lemma dict_get_set: "dict_get (dict_set d k v) k' = (if k' = k then Some v else dict_get d k')"
  by (induction d k v rule: dict_set.induct) (auto simp: dict_get_def)

lemma dict_set_new: "k \<notin> fst ` set d \<Longrightarrow> dict_set d k v = d @ [(k, v)]"
  by (induction d k v rule: dict_set.induct) auto

lemma dict_set_keys: "fst ` set (dict_set d k v) = insert k (fst ` set d)"
  by (induction d k v rule: dict_set.induct) auto

text \<open>\<open>{**d, **kvs}\<close>, that is \<open>d.update(kvs)\<close>.\<close>

definition set_all :: "(string \<times> pyval) list \<Rightarrow> (string \<times> pyval) list \<Rightarrow> (string \<times> pyval) list" where
  "set_all kvs d = fold (\<lambda>(k, v) d. dict_set d k v) kvs d"

lemma set_all_simps [simp]:
  "set_all [] d = d"
  "set_all ((k, v) # kvs) d = set_all kvs (dict_set d k v)"
  by (simp_all add: set_all_def)

lemma dict_get_set_all:
  "dict_get (set_all kvs d) k = (case map_of (rev kvs) k of None \<Rightarrow> dict_get d k | Some v \<Rightarrow> Some v)"
proof (induction kvs arbitrary: d)
  case (Cons kv kvs)
  then show ?case by (cases kv) (auto simp: dict_get_set map_add_def split: option.splits)
qed simp

lemma set_all_keys: "fst ` set (set_all kvs d) = fst ` set kvs \<union> fst ` set d"
proof (induction kvs arbitrary: d)
  case (Cons kv kvs)
  then show ?case by (cases kv) (simp add: dict_set_keys Un_commute insert_commute)
qed simp

lemma dict_set_distinct: "distinct (map fst d) \<Longrightarrow> distinct (map fst (dict_set d k v))"
  by (induction d k v rule: dict_set.induct, simp_all add: dict_set_keys) blast

lemma set_all_distinct: "distinct (map fst d) \<Longrightarrow> distinct (map fst (set_all kvs d))"
  by (induction kvs arbitrary: d) (auto simp: dict_set_distinct)

lemma set_all_fresh:
  "distinct (map fst kvs) \<Longrightarrow> fst ` set kvs \<inter> fst ` set d = {} \<Longrightarrow> set_all kvs d = d @ kvs"
proof (induction kvs arbitrary: d)
  case (Cons kv kvs)
  obtain k v where kv: "kv = (k, v)" by (cases kv)
  from Cons.prems have f: "k \<notin> fst ` set d" by (auto simp: kv)
  from Cons.prems have "fst ` set kvs \<inter> fst ` set (d @ [(k, v)]) = {}" by (auto simp: kv)
  with Cons.IH [of "d @ [(k, v)]"] Cons.prems show ?case by (simp add: kv dict_set_new [OF f])
qed simp

text \<open>\<open>isinstance(v, int)\<close> is true of booleans too.\<close>

fun is_py_int :: "pyval \<Rightarrow> bool" where
  "is_py_int (PyInt _) = True"
| "is_py_int (PyBool _) = True"
| "is_py_int _ = False"

fun is_py_bool :: "pyval \<Rightarrow> bool" where
  "is_py_bool (PyBool _) = True"
| "is_py_bool _ = False"

fun is_py_float :: "pyval \<Rightarrow> bool" where
  "is_py_float (PyFloat _) = True"
| "is_py_float _ = False"

fun is_py_str :: "pyval \<Rightarrow> bool" where
  "is_py_str (PyStr _) = True"
| "is_py_str _ = False"

subsection \<open>Errors as values\<close>

text \<open>
  A function that may raise returns \<open>'e + 'a\<close>, with \<open>Inl\<close> for the exception;
  \<open>rbind\<close> runs the rest of the body only when nothing was raised.
\<close>

fun rbind :: "'e + 'a \<Rightarrow> ('a \<Rightarrow> 'e + 'b) \<Rightarrow> 'e + 'b" where
  "rbind (Inl e) _ = Inl e"
| "rbind (Inr x) f = f x"

lemma rbind_eq_Inr [simp]: "rbind m f = Inr y \<longleftrightarrow> (\<exists>x. m = Inr x \<and> f x = Inr y)"
  by (cases m) auto

lemma rbind_eq_Inl: "rbind m f = Inl e \<longleftrightarrow> m = Inl e \<or> (\<exists>x. m = Inr x \<and> f x = Inl e)"
  by (cases m) auto

definition is_ok :: "'e + 'a \<Rightarrow> bool" where
  "is_ok r = (case r of Inl _ \<Rightarrow> False | Inr _ \<Rightarrow> True)"

lemma is_ok_simps [simp]: "is_ok (Inr x)" "\<not> is_ok (Inl e)"
  by (simp_all add: is_ok_def)

lemma is_ok_iff: "is_ok r \<longleftrightarrow> (\<exists>x. r = Inr x)"
  by (cases r) auto

text \<open>A loop that checks every element and stops at the first exception.\<close>

fun check_each :: "('a \<Rightarrow> 'e + unit) \<Rightarrow> 'a list \<Rightarrow> 'e + unit" where
  "check_each f [] = Inr ()"
| "check_each f (x # xs) = rbind (f x) (\<lambda>_. check_each f xs)"

lemma check_each_ok: "check_each f xs = Inr () \<longleftrightarrow> (\<forall>x \<in> set xs. f x = Inr ())"
  by (induction xs) auto

subsection \<open>List loops\<close>

text \<open>
  \<open>for i, x in enumerate(xs): if P(x): del xs[i]; return x\<close>: the first match leaves the
  list, everything else keeps its position. The bounded form examines at most \<open>n\<close>
  entries.
\<close>

fun pop_match :: "('a \<Rightarrow> bool) \<Rightarrow> 'a list \<Rightarrow> ('a \<times> 'a list) option" where
  "pop_match P [] = None"
| "pop_match P (x # xs) =
     (if P x then Some (x, xs) else map_option (\<lambda>(y, ys). (y, x # ys)) (pop_match P xs))"

fun pop_match_upto :: "nat \<Rightarrow> ('a \<Rightarrow> bool) \<Rightarrow> 'a list \<Rightarrow> ('a \<times> 'a list) option" where
  "pop_match_upto 0 P xs = None"
| "pop_match_upto (Suc n) P [] = None"
| "pop_match_upto (Suc n) P (x # xs) =
     (if P x then Some (x, xs) else map_option (\<lambda>(y, ys). (y, x # ys)) (pop_match_upto n P xs))"

lemma pop_match_Some:
  "pop_match P xs = Some (x, ys) \<Longrightarrow>
     \<exists>us vs. xs = us @ x # vs \<and> ys = us @ vs \<and> P x \<and> (\<forall>u \<in> set us. \<not> P u)"
proof (induction xs arbitrary: ys)
  case (Cons a xs)
  show ?case
  proof (cases "P a")
    case True
    with Cons.prems have "a # xs = [] @ x # ys \<and> P x" by simp
    then show ?thesis by fastforce
  next
    case False
    with Cons.prems obtain zs where "pop_match P xs = Some (x, zs)" and ys: "ys = a # zs"
      by auto
    with Cons.IH obtain us vs
      where "xs = us @ x # vs" "zs = us @ vs" "P x" "\<forall>u \<in> set us. \<not> P u" by blast
    with False ys show ?thesis by (intro exI [of _ "a # us"] exI [of _ vs]) auto
  qed
qed simp

lemma pop_match_first:
  "\<forall>u \<in> set us. \<not> P u \<Longrightarrow> P x \<Longrightarrow> pop_match P (us @ x # vs) = Some (x, us @ vs)"
  by (induction us) auto

lemma pop_match_None_iff: "pop_match P xs = None \<longleftrightarrow> (\<forall>x \<in> set xs. \<not> P x)"
  by (induction xs) auto

lemma pop_match_upto_take:
  "pop_match_upto n P xs =
     (case pop_match P (take n xs) of None \<Rightarrow> None | Some (x, ys) \<Rightarrow> Some (x, ys @ drop n xs))"
  by (induction n P xs rule: pop_match_upto.induct) (auto split: option.splits)

lemma pop_match_upto_Some:
  assumes "pop_match_upto n P xs = Some (x, ys)"
  shows "\<exists>us vs. xs = us @ x # vs \<and> ys = us @ vs \<and> P x \<and> (\<forall>u \<in> set us. \<not> P u) \<and> length us < n"
  using assms
proof (induction n P xs arbitrary: ys rule: pop_match_upto.induct)
  case (3 n P a xs)
  show ?case
  proof (cases "P a")
    case True
    with "3.prems" show ?thesis by force
  next
    case False
    with "3.prems" obtain zs where zs: "pop_match_upto n P xs = Some (x, zs)" and ys: "ys = a # zs"
      by auto
    from "3.IH" [OF False zs] obtain us vs
      where "xs = us @ x # vs" "zs = us @ vs" "P x" "\<forall>u \<in> set us. \<not> P u" "length us < n"
      by blast
    with False ys show ?thesis by (intro exI [of _ "a # us"] exI [of _ vs]) auto
  qed
qed simp_all

lemma pop_match_upto_None:
  "pop_match_upto n P xs = None \<longleftrightarrow> (\<forall>x \<in> set (take n xs). \<not> P x)"
  by (induction n P xs rule: pop_match_upto.induct) auto

subsection \<open>Bounded queues\<close>

text \<open>\<open>asyncio.Queue(maxsize=n).put_nowait\<close> with \<open>QueueFull\<close> swallowed: a full queue drops.\<close>

definition put_nowait :: "nat \<Rightarrow> 'a \<Rightarrow> 'a list \<Rightarrow> 'a list" where
  "put_nowait n x q = (if length q < n then q @ [x] else q)"

lemma put_nowait_bound: "length q \<le> n \<Longrightarrow> length (put_nowait n x q) \<le> n"
  by (simp add: put_nowait_def)

lemma put_nowait_set: "set (put_nowait n x q) \<subseteq> insert x (set q)"
  by (auto simp: put_nowait_def)

lemma put_nowait_prefix: "\<exists>zs. put_nowait n x q = q @ zs \<and> set zs \<subseteq> {x}"
  by (auto simp: put_nowait_def)

subsection \<open>Directories\<close>

text \<open>What the stores of the program rely on when they write and delete files by name.\<close>

locale directory =
  fixes look :: "'d \<Rightarrow> 'k \<Rightarrow> 'e option"
    and put :: "'k \<Rightarrow> 'e \<Rightarrow> 'd \<Rightarrow> 'd"
    and rm :: "'k \<Rightarrow> 'd \<Rightarrow> 'd"
  assumes look_put: "look (put n e d) m = (if m = n then Some e else look d m)"
    and look_rm: "look (rm n d) m = (if m = n then None else look d m)"
begin

text \<open>\<open>os.replace(tmp, name)\<close> after the content went to \<open>tmp\<close>.\<close>

lemma rename_look:
  "look (put name e (rm tmp (put tmp e' d))) m =
     (if m = name then Some e else if m = tmp then None else look d m)"
  by (simp add: look_put look_rm)

lemma unlink_tmp: "look d tmp = None \<Longrightarrow> look (rm tmp (put tmp e d)) = look d"
  by (rule ext) (simp add: look_put look_rm)

end

definition dir_look :: "('k \<times> 'e) list \<Rightarrow> 'k \<Rightarrow> 'e option" where
  "dir_look d n = map_of d n"

definition dir_rm :: "'k \<Rightarrow> ('k \<times> 'e) list \<Rightarrow> ('k \<times> 'e) list" where
  "dir_rm n d = filter (\<lambda>(m, _). m \<noteq> n) d"

definition dir_put :: "'k \<Rightarrow> 'e \<Rightarrow> ('k \<times> 'e) list \<Rightarrow> ('k \<times> 'e) list" where
  "dir_put n e d = (n, e) # dir_rm n d"

lemma dir_look_rm: "dir_look (dir_rm n d) m = (if m = n then None else dir_look d m)"
  by (induction d) (auto simp: dir_look_def dir_rm_def)

interpretation files: directory dir_look dir_put dir_rm
proof
  show "dir_look (dir_put n e d) m = (if m = n then Some e else dir_look d m)" for n e and d :: "('k \<times> 'e) list" and m
    using dir_look_rm [of n d m] by (auto simp: dir_put_def dir_look_def)
qed (rule dir_look_rm)

subsection \<open>First-in-first-out interfaces\<close>

text \<open>Taking up to \<open>n\<close> elements with a pop operation, until it answers \<open>None\<close>.\<close>

fun drain_with :: "('q \<Rightarrow> 'a option \<times> 'q) \<Rightarrow> nat \<Rightarrow> 'q \<Rightarrow> 'a list \<times> 'q" where
  "drain_with pop 0 q = ([], q)"
| "drain_with pop (Suc n) q =
     (case pop q of
        (None, q') \<Rightarrow> ([], q')
      | (Some x, q') \<Rightarrow> (case drain_with pop n q' of (xs, q'') \<Rightarrow> (x # xs, q'')))"

text \<open>
  What a client of a FIFO queue relies on: \<open>contents\<close> is the order of service, a pop takes
  its head, and the invariant survives.
\<close>

locale fifo_queue =
  fixes inv :: "'q \<Rightarrow> bool"
    and contents :: "'q \<Rightarrow> 'a list"
    and pop :: "'q \<Rightarrow> 'a option \<times> 'q"
  assumes pop_empty: "inv q \<Longrightarrow> contents q = [] \<Longrightarrow> fst (pop q) = None"
    and pop_head: "inv q \<Longrightarrow> contents q = x # xs \<Longrightarrow> fst (pop q) = Some x"
    and pop_contents: "inv q \<Longrightarrow> contents (snd (pop q)) = tl (contents q)"
    and pop_inv: "inv q \<Longrightarrow> inv (snd (pop q))"
begin

lemma drain_in_order:
  "inv q \<Longrightarrow>
     fst (drain_with pop n q) = take n (contents q) \<and>
     inv (snd (drain_with pop n q)) \<and>
     contents (snd (drain_with pop n q)) = drop n (contents q)"
proof (induction n arbitrary: q)
  case (Suc n)
  obtain r q' where pop: "pop q = (r, q')" by (cases "pop q")
  with Suc.prems pop_contents pop_inv have q': "inv q'" "contents q' = tl (contents q)"
    by force+
  show ?case
  proof (cases "contents q")
    case Nil
    with Suc.prems pop pop_empty have "r = None" by force
    with pop q' Nil show ?thesis by simp
  next
    case (Cons x xs)
    with Suc.prems pop pop_head have "r = Some x" by force
    with pop q' Cons Suc.IH [of q'] show ?thesis by (auto split: prod.splits)
  qed
qed simp

lemma drain_all: "inv q \<Longrightarrow> fst (drain_with pop (length (contents q)) q) = contents q"
  by (simp add: drain_in_order)

end

subsection \<open>Slices and rounding\<close>

text \<open>\<open>s[-n:]\<close>; \<open>s[-0:]\<close> is the whole sequence.\<close>

definition last_n :: "nat \<Rightarrow> 'a list \<Rightarrow> 'a list" where
  "last_n n s = (if n = 0 then s else drop (length s - n) s)"

lemma last_n_append: "last_n n (last_n n x @ y) = last_n n (x @ y)"
  by (cases "length x \<le> n") (auto simp: last_n_def add.commute)

lemma last_n_all: "length s \<le> n \<Longrightarrow> last_n n s = s"
  by (simp add: last_n_def)

lemma length_last_n: "0 < n \<Longrightarrow> length (last_n n s) = min n (length s)"
  by (simp add: last_n_def)

lemma last_n_suffix: "\<exists>p. s = p @ last_n n s"
  by (metis append_Nil append_take_drop_id last_n_def)

text \<open>\<open>int(x)\<close> of a finite float.\<close>

definition trunc_rat :: "rat \<Rightarrow> int" where
  "trunc_rat x = (if x < 0 then - \<lfloor>- x\<rfloor> else \<lfloor>x\<rfloor>)"

text \<open>\<open>round(x, n)\<close>: to the nearest multiple of \<open>10\<^sup>-\<^sup>n\<close>, a tie to the even one.\<close>

definition round_half_even :: "rat \<Rightarrow> int" where
  "round_half_even x =
     (let f = \<lfloor>x\<rfloor>; d = x - of_int f in
      if d < 1 / 2 then f else if 1 / 2 < d then f + 1 else if even f then f else f + 1)"

definition py_round :: "nat \<Rightarrow> rat \<Rightarrow> rat" where
  "py_round n x = of_int (round_half_even (x * 10 ^ n)) / 10 ^ n"

end
