(* ===== verification/PyStrings.thy ===== *)
theory PyStrings
  imports Prelude
begin

text \<open>
  The string operations of Python's standard library that the sources call, on ASCII text:
  \<open>lower\<close>, \<open>startswith\<close>, \<open>endswith\<close>, \<open>in\<close>, \<open>find\<close>, \<open>rfind\<close>, \<open>strip\<close>, \<open>split\<close>,
  \<open>splitlines\<close>, \<open>join\<close>, \<open>str(int)\<close> and \<open>int(str)\<close>, and the end anchor of
  \<open>re.match\<close>, which also matches before one trailing newline.
\<close>

subsection \<open>Character classes\<close>

definition code :: "char \<Rightarrow> nat" where
  "code c = of_char c"

definition newline :: char where
  "newline = CHR 0x0A"

definition is_digit :: "char \<Rightarrow> bool" where
  "is_digit c \<longleftrightarrow> 48 \<le> code c \<and> code c \<le> 57"

definition is_lower :: "char \<Rightarrow> bool" where
  "is_lower c \<longleftrightarrow> 97 \<le> code c \<and> code c \<le> 122"

definition is_upper :: "char \<Rightarrow> bool" where
  "is_upper c \<longleftrightarrow> 65 \<le> code c \<and> code c \<le> 90"

definition is_hex_lower :: "char \<Rightarrow> bool" where
  "is_hex_lower c \<longleftrightarrow> is_digit c \<or> (97 \<le> code c \<and> code c \<le> 102)"

definition is_space :: "char \<Rightarrow> bool" where
  "is_space c \<longleftrightarrow> code c = 32 \<or> (9 \<le> code c \<and> code c \<le> 13) \<or> (28 \<le> code c \<and> code c \<le> 31)"

definition to_lower :: "char \<Rightarrow> char" where
  "to_lower c = (if is_upper c then char_of (code c + 32) else c)"

lemmas char_class_defs =
  code_def newline_def is_digit_def is_lower_def is_upper_def is_hex_lower_def is_space_def

subsection \<open>Searching and slicing\<close>

definition lower :: "string \<Rightarrow> string" where
  "lower s = map to_lower s"

definition starts_with :: "string \<Rightarrow> string \<Rightarrow> bool" where
  "starts_with p s \<longleftrightarrow> take (length p) s = p"

definition ends_with :: "string \<Rightarrow> string \<Rightarrow> bool" where
  "ends_with p s \<longleftrightarrow> starts_with (rev p) (rev s)"

fun contains :: "string \<Rightarrow> string \<Rightarrow> bool" where
  "contains p [] = (p = [])"
| "contains p (c # cs) = (starts_with p (c # cs) \<or> contains p cs)"

lemma starts_with_iff: "starts_with p s \<longleftrightarrow> (\<exists>v. s = p @ v)"
  unfolding starts_with_def by (metis append_eq_conv_conj)

lemma ends_with_iff: "ends_with p s \<longleftrightarrow> (\<exists>u. s = u @ p)"
  unfolding ends_with_def starts_with_iff
  by (metis rev_append rev_rev_ident)

lemma contains_iff: "contains p s \<longleftrightarrow> (\<exists>u v. s = u @ p @ v)"
proof (induction s)
  case (Cons c cs)
  have "(\<exists>u v. c # cs = u @ p @ v) \<longleftrightarrow> (\<exists>v. c # cs = p @ v) \<or> (\<exists>u v. cs = u @ p @ v)"
    by (metis append_Cons append_Nil list.exhaust list.inject)
  with Cons.IH show ?case by (simp add: starts_with_iff)
qed auto

text \<open>\<open>s.find(p)\<close> and \<open>s.rfind(p)\<close>, with \<open>None\<close> for \<open>-1\<close>.\<close>

fun find_sub :: "string \<Rightarrow> string \<Rightarrow> nat option" where
  "find_sub p [] = (if p = [] then Some 0 else None)"
| "find_sub p (c # cs) =
     (if starts_with p (c # cs) then Some 0 else map_option Suc (find_sub p cs))"

fun rfind_sub :: "string \<Rightarrow> string \<Rightarrow> nat option" where
  "rfind_sub p [] = (if p = [] then Some 0 else None)"
| "rfind_sub p (c # cs) =
     (case rfind_sub p cs of
        Some i \<Rightarrow> Some (Suc i)
      | None \<Rightarrow> if starts_with p (c # cs) then Some 0 else None)"

lemma starts_with_Nil [simp]: "starts_with [] s"
  by (simp add: starts_with_def)

lemma starts_with_length: "starts_with p s \<Longrightarrow> length p \<le> length s"
  by (auto simp: starts_with_iff)

lemma find_sub_Some: "find_sub p s = Some i \<Longrightarrow> starts_with p (drop i s) \<and> i + length p \<le> length s"
  by (induction p s arbitrary: i rule: find_sub.induct)
     (auto dest: starts_with_length split: if_splits)

lemma rfind_sub_Some: "rfind_sub p s = Some i \<Longrightarrow> starts_with p (drop i s) \<and> i + length p \<le> length s"
  by (induction p s arbitrary: i rule: rfind_sub.induct)
     (auto dest: starts_with_length split: if_splits option.splits)

lemma rfind_sub_None: "rfind_sub p s = None \<longleftrightarrow> \<not> contains p s"
  by (induction p s rule: rfind_sub.induct) (auto split: option.splits)

lemma rfind_sub_last:
  "rfind_sub p s = Some i \<Longrightarrow> p \<noteq> [] \<Longrightarrow> \<not> contains p (drop (Suc i) s)"
proof (induction p s arbitrary: i rule: rfind_sub.induct)
  case (2 p c cs)
  then show ?case by (auto simp: rfind_sub_None split: option.splits if_splits)
qed (auto split: if_splits)

subsection \<open>Stripping and splitting\<close>

definition lstrip :: "string \<Rightarrow> string" where
  "lstrip s = dropWhile is_space s"

definition strip :: "string \<Rightarrow> string" where
  "strip s = rev (lstrip (rev (lstrip s)))"

text \<open>\<open>s.split(c)\<close> for a one-character separator, and \<open>s.split()\<close> on runs of white space.\<close>

fun split_on :: "char \<Rightarrow> string \<Rightarrow> string list" where
  "split_on d [] = [[]]"
| "split_on d (c # cs) =
     (if c = d then [] # split_on d cs
      else case split_on d cs of [] \<Rightarrow> [[c]] | w # ws \<Rightarrow> (c # w) # ws)"

definition split_ws :: "string \<Rightarrow> string list" where
  "split_ws s =
     filter (\<lambda>w. w \<noteq> []) (split_on (CHR '' '') (map (\<lambda>c. if is_space c then CHR '' '' else c) s))"

text \<open>
  \<open>splitlines\<close> on text whose only line break is the newline: no empty last line.
\<close>

definition split_lines :: "string \<Rightarrow> string list" where
  "split_lines s =
     (let ls = split_on newline s in if last ls = [] then butlast ls else ls)"

fun join :: "string \<Rightarrow> string list \<Rightarrow> string" where
  "join sep [] = []"
| "join sep [w] = w"
| "join sep (w # ws) = w @ sep @ join sep ws"

lemma split_on_nonempty [simp]: "split_on d s \<noteq> []"
  by (induction d s rule: split_on.induct) (auto split: list.splits)

lemma join_split_on: "join [d] (split_on d s) = s"
proof (induction d s rule: split_on.induct)
  case (2 d c cs)
  show ?case
  proof (cases "split_on d cs")
    case (Cons w ws)
    with 2 show ?thesis by (cases ws) auto
  qed simp
qed simp

lemma split_on_fields: "w \<in> set (split_on d s) \<Longrightarrow> d \<notin> set w"
  by (induction d s arbitrary: w rule: split_on.induct) (auto split: if_splits list.splits)

subsection \<open>End anchor\<close>

text \<open>
  \<open>re.compile(r"^...$").match(s)\<close> for a body that cannot match a newline: \<open>$\<close> accepts the
  end of the string and the position before a final newline. \<open>re.fullmatch\<close> is the body
  alone.
\<close>

definition match_dollar :: "(string \<Rightarrow> bool) \<Rightarrow> string \<Rightarrow> bool" where
  "match_dollar body s \<longleftrightarrow> body s \<or> (s \<noteq> [] \<and> last s = newline \<and> body (butlast s))"

lemma match_dollar_cases:
  "match_dollar body s \<Longrightarrow> body s \<or> (\<exists>t. s = t @ [newline] \<and> body t)"
  unfolding match_dollar_def by (metis append_butlast_last_id)

lemma match_dollar_newline: "body t \<Longrightarrow> match_dollar body (t @ [newline])"
  by (simp add: match_dollar_def)

subsection \<open>Decimal integers\<close>

definition digit_char :: "nat \<Rightarrow> char" where
  "digit_char d = char_of (48 + d)"

fun show_nat :: "nat \<Rightarrow> string" where
  "show_nat n = (if n < 10 then [digit_char n] else show_nat (n div 10) @ [digit_char (n mod 10)])"

declare show_nat.simps [simp del]

definition show_int :: "int \<Rightarrow> string" where
  "show_int i = (if i < 0 then CHR ''-'' # show_nat (nat (- i)) else show_nat (nat i))"

definition hex_value :: "char \<Rightarrow> nat option" where
  "hex_value c =
     (if is_digit c then Some (code c - 48)
      else if 97 \<le> code c \<and> code c \<le> 102 then Some (code c - 87)
      else if 65 \<le> code c \<and> code c \<le> 70 then Some (code c - 55)
      else None)"

definition all_digits :: "string \<Rightarrow> bool" where
  "all_digits s \<longleftrightarrow> s \<noteq> [] \<and> list_all is_digit s"

text \<open>
  \<open>int(s)\<close>: white space stripped, an optional sign, decimal digits with single underscores
  between them; \<open>None\<close> is the ValueError.
\<close>

fun scan_digits :: "nat \<Rightarrow> string \<Rightarrow> nat option" where
  "scan_digits acc [] = Some acc"
| "scan_digits acc (c # cs) =
     (if is_digit c then scan_digits (10 * acc + (code c - 48)) cs
      else if c = CHR ''_'' then
        (case cs of [] \<Rightarrow> None
         | d # ds \<Rightarrow> if is_digit d then scan_digits (10 * acc + (code d - 48)) ds else None)
      else None)"

definition parse_nat :: "string \<Rightarrow> nat option" where
  "parse_nat s =
     (case s of [] \<Rightarrow> None
      | c # cs \<Rightarrow> if is_digit c then scan_digits (code c - 48) cs else None)"

definition py_int :: "string \<Rightarrow> int option" where
  "py_int s =
     (case strip s of
        [] \<Rightarrow> None
      | c # cs \<Rightarrow>
          if c = CHR ''-'' then map_option (\<lambda>n. - int n) (parse_nat cs)
          else if c = CHR ''+'' then map_option int (parse_nat cs)
          else map_option int (parse_nat (c # cs)))"

lemma code_digit_char: "d < 10 \<Longrightarrow> code (digit_char d) = 48 + d"
  by (simp add: code_def digit_char_def)

lemma is_digit_digit_char: "d < 10 \<Longrightarrow> is_digit (digit_char d)"
  by (simp add: is_digit_def code_digit_char)

lemma show_nat_nonempty [simp]: "show_nat n \<noteq> []"
  by (subst show_nat.simps) simp

lemma show_nat_digits: "\<forall>c \<in> set (show_nat n). is_digit c"
proof (induction n rule: show_nat.induct)
  case (1 n)
  show ?case by (subst show_nat.simps) (use 1 in \<open>auto simp: is_digit_digit_char\<close>)
qed

lemma scan_digits_append:
  "\<forall>c \<in> set s. is_digit c \<Longrightarrow>
     scan_digits a (s @ t) = (case scan_digits a s of None \<Rightarrow> None | Some b \<Rightarrow> scan_digits b t)"
  by (induction s arbitrary: a) auto

lemma parse_nat_append:
  "s \<noteq> [] \<Longrightarrow> \<forall>c \<in> set s. is_digit c \<Longrightarrow>
     parse_nat (s @ t) = (case parse_nat s of None \<Rightarrow> None | Some b \<Rightarrow> scan_digits b t)"
  by (cases s) (auto simp: parse_nat_def scan_digits_append)

lemma parse_show_nat: "parse_nat (show_nat n) = Some n"
proof (induction n rule: show_nat.induct)
  case (1 n)
  show ?case
  proof (cases "n < 10")
    case True
    then show ?thesis
      by (subst show_nat.simps) (simp add: parse_nat_def is_digit_digit_char code_digit_char)
  next
    case False
    have d: "n mod 10 < 10" by simp
    from False "1" have "parse_nat (show_nat (n div 10)) = Some (n div 10)" by simp
    with False d show ?thesis
      by (subst show_nat.simps)
         (simp add: parse_nat_append show_nat_digits is_digit_digit_char code_digit_char)
  qed
qed

lemma lstrip_id: "s = [] \<or> \<not> is_space (hd s) \<Longrightarrow> lstrip s = s"
  by (cases s) (auto simp: lstrip_def)

lemma strip_id: "\<forall>c \<in> set s. \<not> is_space c \<Longrightarrow> strip s = s"
proof -
  assume a: "\<forall>c \<in> set s. \<not> is_space c"
  have l: "lstrip t = t" if "set t = set s" for t
    using a that by (intro lstrip_id) (cases t, auto)
  show ?thesis by (simp add: strip_def l)
qed

lemma digit_not_space: "is_digit c \<Longrightarrow> \<not> is_space c"
  by (auto simp: char_class_defs)

lemma digit_not_sign: "is_digit c \<Longrightarrow> c \<noteq> CHR ''-'' \<and> c \<noteq> CHR ''+''"
  by (auto simp: char_class_defs)

lemma py_int_show_int: "py_int (show_int i) = Some i"
proof (cases "i < 0")
  case True
  have "\<forall>c \<in> set (show_int i). \<not> is_space c"
    using show_nat_digits [of "nat (- i)"] True
    by (auto simp: show_int_def digit_not_space) (simp add: char_class_defs)
  with True show ?thesis by (simp add: py_int_def strip_id show_int_def parse_show_nat)
next
  case False
  have "\<forall>c \<in> set (show_nat (nat i)). \<not> is_space c"
    using show_nat_digits [of "nat i"] by (auto simp: digit_not_space)
  moreover obtain c cs where "show_nat (nat i) = c # cs"
    using show_nat_nonempty [of "nat i"] by (cases "show_nat (nat i)") auto
  moreover from this have "is_digit c" using show_nat_digits [of "nat i"] by simp
  moreover have "parse_nat (show_nat (nat i)) = Some (nat i)" by (rule parse_show_nat)
  ultimately show ?thesis using False
    by (simp add: py_int_def strip_id show_int_def digit_not_sign)
qed

lemma py_int_evaluates: "py_int '' 12_34 '' = Some 1234" "py_int ''1__2'' = None" "py_int ''-7'' = Some (-7)"
  by code_simp+

end
