(* ===== verification/Slots.thy ===== *)
theory Slots
  imports PyStrings
begin

text \<open>
  \<open>slot.py\<close>: the slot of one request, the states of its life cycle, the future its caller
  waits on, and the thread id derived for clients that send none. The asyncio objects a slot
  refers to are kept as their observable state: a future is pending, resolved or failed, an
  event is set or not, and an absent object is \<open>None\<close>.
\<close>

datatype slot_state =
    RECEIVED | ACCEPT_BUFFER | STAGED | LOADING | LOADING_FAIL | ACTIVE
  | GRACE | GRACE_BUSY | ACTIVE_MATCH | POPPED | IDLE_HOT | COLD

text \<open>The states in the order the enumeration lists them; comparison follows the order.\<close>

definition all_states :: "slot_state list" where
  "all_states =
     [RECEIVED, ACCEPT_BUFFER, STAGED, LOADING, LOADING_FAIL, ACTIVE, GRACE, GRACE_BUSY,
      ACTIVE_MATCH, POPPED, IDLE_HOT, COLD]"

fun state_rank :: "slot_state \<Rightarrow> nat" where
  "state_rank RECEIVED = 0"
| "state_rank ACCEPT_BUFFER = 1"
| "state_rank STAGED = 2"
| "state_rank LOADING = 3"
| "state_rank LOADING_FAIL = 4"
| "state_rank ACTIVE = 5"
| "state_rank GRACE = 6"
| "state_rank GRACE_BUSY = 7"
| "state_rank ACTIVE_MATCH = 8"
| "state_rank POPPED = 9"
| "state_rank IDLE_HOT = 10"
| "state_rank COLD = 11"

lemma state_rank_inj: "state_rank a = state_rank b \<Longrightarrow> a = b"
  by (cases a; cases b) simp_all

instantiation slot_state :: linorder
begin

definition less_eq_slot_state :: "slot_state \<Rightarrow> slot_state \<Rightarrow> bool" where
  "less_eq_slot_state a b \<longleftrightarrow> state_rank a \<le> state_rank b"

definition less_slot_state :: "slot_state \<Rightarrow> slot_state \<Rightarrow> bool" where
  "less_slot_state a b \<longleftrightarrow> state_rank a < state_rank b"

instance
  by intro_classes (auto simp: less_eq_slot_state_def less_slot_state_def dest: state_rank_inj)

end

lemma all_states_complete [simp]: "s \<in> set all_states"
  by (cases s) (simp_all add: all_states_def)

text \<open>\<open>SlotState.value\<close>: the name under which a state is stored and published.\<close>

fun state_value :: "slot_state \<Rightarrow> string" where
  "state_value RECEIVED = ''RECEIVED''"
| "state_value ACCEPT_BUFFER = ''ACCEPT_BUFFER''"
| "state_value STAGED = ''STAGED''"
| "state_value LOADING = ''LOADING''"
| "state_value LOADING_FAIL = ''LOADING_FAIL''"
| "state_value ACTIVE = ''ACTIVE''"
| "state_value GRACE = ''GRACE''"
| "state_value GRACE_BUSY = ''GRACE_BUSY''"
| "state_value ACTIVE_MATCH = ''ACTIVE_MATCH''"
| "state_value POPPED = ''POPPED''"
| "state_value IDLE_HOT = ''IDLE_HOT''"
| "state_value COLD = ''COLD''"

text \<open>
  The exceptions that reach a caller through its future. \<open>SlotEvicted\<close> is
  \<open>SlotEvictedError\<close>, \<open>Cancelled\<close> is \<open>asyncio.CancelledError\<close>, \<open>IllegalHop\<close> is
  \<open>InvalidTransition\<close>, \<open>RuntimeErr\<close> a \<open>RuntimeError\<close> with its reason and
  \<open>OtherExc\<close> whatever an injected function raised.
\<close>

datatype exn =
    SlotEvicted
  | Cancelled
  | IllegalHop slot_state slot_state
  | RuntimeErr string
  | OtherExc string

datatype future = Pending | Resolved pyval | Failed exn

record slot =
  sl_id :: string
  sl_model_tag :: string
  sl_state :: slot_state
  sl_prompt :: string
  sl_thread_id :: string
  sl_port :: "int option"
  sl_pid :: "int option"
  sl_extension_count :: nat
  sl_client_meta :: "(string \<times> pyval) list"
  sl_created_at :: time
  sl_started_active_at :: time
  sl_grace_started_at :: time
  sl_future :: "future option"
  sl_stream_ready :: "bool option"
  sl_stream_done :: "bool option"
  sl_stream_handle :: "int option"
  sl_disconnect :: "bool option"
  sl_is_evicted :: bool

text \<open>
  \<open>Slot.new\<close>: the identifier (a random UUID in the source) and the clock reading are
  arguments.
\<close>

definition new_slot ::
  "string \<Rightarrow> time \<Rightarrow> string \<Rightarrow> string \<Rightarrow> string \<Rightarrow> (string \<times> pyval) list \<Rightarrow> slot" where
  "new_slot uid now model prompt thread meta =
     \<lparr>sl_id = ''slot-'' @ take 12 uid, sl_model_tag = model, sl_state = RECEIVED,
      sl_prompt = prompt, sl_thread_id = thread, sl_port = None, sl_pid = None,
      sl_extension_count = 0, sl_client_meta = meta, sl_created_at = now,
      sl_started_active_at = 0, sl_grace_started_at = 0, sl_future = None,
      sl_stream_ready = None, sl_stream_done = None, sl_stream_handle = None,
      sl_disconnect = None, sl_is_evicted = False\<rparr>"

text \<open>\<open>slot.disconnect_event is not None and slot.disconnect_event.is_set()\<close>.\<close>

definition client_gone :: "slot \<Rightarrow> bool" where
  "client_gone sl \<longleftrightarrow> sl_disconnect sl = Some True"

subsection \<open>Futures\<close>

text \<open>
  \<open>fut.done()\<close> guards every resolution in the sources: the first outcome of a future
  stands.
\<close>

fun future_done :: "future \<Rightarrow> bool" where
  "future_done Pending = False"
| "future_done _ = True"

text \<open>\<open>TurbohaulManager._fail_completion_future\<close>.\<close>

definition fail_completion_future :: "slot \<Rightarrow> exn \<Rightarrow> slot" where
  "fail_completion_future sl e =
     (case sl_future sl of
        Some f \<Rightarrow> if future_done f then sl else sl\<lparr>sl_future := Some (Failed e)\<rparr>
      | None \<Rightarrow> sl)"

text \<open>\<open>if fut is not None and not fut.done(): fut.set_result(r)\<close>.\<close>

definition set_result :: "slot \<Rightarrow> pyval \<Rightarrow> slot" where
  "set_result sl r =
     (case sl_future sl of
        Some f \<Rightarrow> if future_done f then sl else sl\<lparr>sl_future := Some (Resolved r)\<rparr>
      | None \<Rightarrow> sl)"

definition settled :: "slot \<Rightarrow> bool" where
  "settled sl \<longleftrightarrow> (case sl_future sl of None \<Rightarrow> True | Some f \<Rightarrow> future_done f)"

lemma settled_fail [simp]: "settled (fail_completion_future sl e)"
  by (auto simp: settled_def fail_completion_future_def split: option.splits)

lemma settled_result [simp]: "settled (set_result sl r)"
  by (auto simp: settled_def set_result_def split: option.splits)

lemma fail_settled_id [simp]: "settled sl \<Longrightarrow> fail_completion_future sl e = sl"
  by (auto simp: settled_def fail_completion_future_def split: option.splits)

lemma result_settled_id [simp]: "settled sl \<Longrightarrow> set_result sl r = sl"
  by (auto simp: settled_def set_result_def split: option.splits)

lemma fail_frame [simp, frame]:
  "sl_id (fail_completion_future sl e) = sl_id sl"
  "sl_state (fail_completion_future sl e) = sl_state sl"
  "sl_model_tag (fail_completion_future sl e) = sl_model_tag sl"
  "sl_pid (fail_completion_future sl e) = sl_pid sl"
  by (auto simp: fail_completion_future_def split: option.splits)

lemma result_frame [simp, frame]:
  "sl_id (set_result sl e) = sl_id sl"
  "sl_state (set_result sl e) = sl_state sl"
  "sl_model_tag (set_result sl e) = sl_model_tag sl"
  "sl_pid (set_result sl e) = sl_pid sl"
  by (auto simp: set_result_def split: option.splits)

subsection \<open>Derived thread ids\<close>

text \<open>
  \<open>derive_thread_id_prefix_hash\<close>. SHA-256 is a parameter: the hexadecimal digest of the
  UTF-8 bytes of its argument. The prompt is normalised by joining its white-space separated
  words with single blanks, and a NUL character separates it from the model tag.
\<close>

definition thread_payload :: "string \<Rightarrow> string \<Rightarrow> string" where
  "thread_payload prompt model = model @ [CHR 0x00] @ join '' '' (split_ws prompt)"

definition derive_thread_id_prefix_hash ::
  "(string \<Rightarrow> string) \<Rightarrow> string \<Rightarrow> string \<Rightarrow> string" where
  "derive_thread_id_prefix_hash sha256 prompt model =
     ''auto-'' @ take 24 (sha256 (thread_payload prompt model))"

lemma split_at_unique:
  "c \<notin> set xs \<Longrightarrow> c \<notin> set ys \<Longrightarrow> xs @ c # us = ys @ c # vs \<Longrightarrow> xs = ys \<and> us = vs"
proof (induction xs arbitrary: ys)
  case Nil
  then show ?case by (cases ys) auto
next
  case (Cons x xs)
  then show ?case by (cases ys) auto
qed

lemma split_on_word: "d \<notin> set w \<Longrightarrow> split_on d w = [w]"
  by (induction w) auto

lemma split_on_append: "d \<notin> set w \<Longrightarrow> split_on d (w @ d # s) = w # split_on d s"
  by (induction w) auto

lemma split_on_join:
  "ws \<noteq> [] \<Longrightarrow> \<forall>w \<in> set ws. d \<notin> set w \<Longrightarrow> split_on d (join [d] ws) = ws"
  by (induction "[d]" ws rule: join.induct) (auto simp: split_on_word split_on_append)

lemma split_ws_words: "w \<in> set (split_ws s) \<Longrightarrow> w \<noteq> [] \<and> CHR '' '' \<notin> set w"
  by (auto simp: split_ws_def dest: split_on_fields)

lemma join_split_ws_injective:
  assumes "join '' '' (split_ws p) = join '' '' (split_ws q)"
  shows "split_ws p = split_ws q"
proof -
  have words: "filter (\<lambda>w. w \<noteq> []) (split_on (CHR '' '') (join '' '' (split_ws x))) = split_ws x" for x
  proof (cases "split_ws x = []")
    case False
    then have "split_on (CHR '' '') (join '' '' (split_ws x)) = split_ws x"
      by (rule split_on_join) (auto dest: split_ws_words)
    then show ?thesis by (simp add: filter_id_conv) (auto dest: split_ws_words)
  qed simp
  from assms show ?thesis by (metis words)
qed

text \<open>
  The hashed payload identifies the request: for model tags free of NUL (every
  validated tag is), two requests are hashed alike exactly when they name the same model and
  their prompts have the same words, so distinct requests share a derived thread id only
  by a collision of the truncated digest.
\<close>

theorem thread_payload_identifies_request:
  assumes "CHR 0x00 \<notin> set m1" and "CHR 0x00 \<notin> set m2"
  shows "thread_payload p1 m1 = thread_payload p2 m2 \<longleftrightarrow> m1 = m2 \<and> split_ws p1 = split_ws p2"
proof
  assume "thread_payload p1 m1 = thread_payload p2 m2"
  then have "m1 @ CHR 0x00 # join '' '' (split_ws p1) = m2 @ CHR 0x00 # join '' '' (split_ws p2)"
    by (simp add: thread_payload_def)
  from split_at_unique [OF assms this] show "m1 = m2 \<and> split_ws p1 = split_ws p2"
    by (auto intro: join_split_ws_injective)
qed (auto simp: thread_payload_def)

theorem thread_payload_identifies_request_witness:
  "thread_payload ''sum  1 2'' ''qwen'' = thread_payload ''sum 1 2 '' ''qwen'' \<and>
   thread_payload ''sum 1 2'' ''qwen'' \<noteq> thread_payload ''sum 1 3'' ''qwen''"
proof -
  have nul: "CHR 0x00 \<notin> set ''qwen''" by simp
  have w: "split_ws ''sum  1 2'' = [''sum'', ''1'', ''2'']"
    "split_ws ''sum 1 2 '' = [''sum'', ''1'', ''2'']"
    "split_ws ''sum 1 2'' = [''sum'', ''1'', ''2'']" "split_ws ''sum 1 3'' = [''sum'', ''1'', ''3'']"
    by code_simp+
  show ?thesis by (simp add: thread_payload_identifies_request [OF nul nul] w)
qed

end
