(* ===== verification/StateDb.thy ===== *)
theory StateDb
  imports Slots "HOL-Library.List_Lexorder" "HOL-Library.Char_ord"
begin

text \<open>
  \<open>state.py\<close>: the rows of \<open>state.sqlite\<close> and the statements run on them, with the
  boot-time reconciliation and the background sweep of \<open>manager.py\<close> that use them. A table
  is the list of its rows in rowid order; a statement is a function from table to table.
  Timestamps are the ISO texts the code stores, compared as text; the JSON columns hold the
  values whose JSON text is stored. SQLite itself, its locks and its connections are not
  modelled: each statement commits on its own (\<open>isolation_level=None\<close>).
\<close>

record row =
  db_slot_id :: string
  db_model_tag :: string
  db_thread_id :: "string option"
  db_state :: string
  db_port :: "int option"
  db_pid :: "int option"
  db_created_at :: string
  db_updated_at :: string
  db_ended_at :: "string option"
  db_end_reason :: "string option"
  db_extension_count :: nat
  db_client_meta :: "(string \<times> pyval) list"

record audit_event =
  ev_slot_id :: "string option"
  ev_type :: string
  ev_payload :: "(string \<times> pyval) list"
  ev_at :: string

record db =
  slots_tbl :: "row list"
  audit_tbl :: "audit_event list"

definition record_audit_event ::
  "db \<Rightarrow> string \<Rightarrow> string \<Rightarrow> (string \<times> pyval) list option \<Rightarrow> string option \<Rightarrow> db" where
  "record_audit_event d now typ payload sid =
     d\<lparr>audit_tbl := audit_tbl d @
         [\<lparr>ev_slot_id = sid, ev_type = typ,
           ev_payload = (case payload of None \<Rightarrow> [] | Some p \<Rightarrow> p), ev_at = now\<rparr>]\<rparr>"

text \<open>The dictionary passed to \<open>upsert_slot\<close>, with \<open>None\<close> for the keys left out.\<close>

record slot_fields =
  f_slot_id :: string
  f_model_tag :: string
  f_thread_id :: "string option"
  f_state :: string
  f_port :: "int option"
  f_pid :: "int option"
  f_created_at :: "string option"
  f_ended_at :: "string option"
  f_end_reason :: "string option"
  f_extension_count :: nat
  f_client_meta :: "(string \<times> pyval) list"

definition new_row :: "string \<Rightarrow> slot_fields \<Rightarrow> row" where
  "new_row now f =
     \<lparr>db_slot_id = f_slot_id f, db_model_tag = f_model_tag f, db_thread_id = f_thread_id f,
      db_state = f_state f, db_port = f_port f, db_pid = f_pid f,
      db_created_at = (case f_created_at f of Some c \<Rightarrow> if c = [] then now else c | None \<Rightarrow> now),
      db_updated_at = now, db_ended_at = f_ended_at f, db_end_reason = f_end_reason f,
      db_extension_count = f_extension_count f, db_client_meta = f_client_meta f\<rparr>"

text \<open>\<open>ON CONFLICT(slot_id) DO UPDATE\<close>: the model tag and the creation time stay.\<close>

definition update_row :: "string \<Rightarrow> slot_fields \<Rightarrow> row \<Rightarrow> row" where
  "update_row now f r =
     r\<lparr>db_state := f_state f, db_thread_id := f_thread_id f, db_port := f_port f,
       db_pid := f_pid f, db_updated_at := now, db_ended_at := f_ended_at f,
       db_end_reason := f_end_reason f, db_extension_count := f_extension_count f,
       db_client_meta := f_client_meta f\<rparr>"

definition upsert_slot :: "row list \<Rightarrow> string \<Rightarrow> slot_fields \<Rightarrow> row list" where
  "upsert_slot rs now f =
     (if \<exists>r \<in> set rs. db_slot_id r = f_slot_id f
      then map (\<lambda>r. if db_slot_id r = f_slot_id f then update_row now f r else r) rs
      else rs @ [new_row now f])"

definition terminal_state :: "string \<Rightarrow> bool" where
  "terminal_state s \<longleftrightarrow> s = ''POPPED'' \<or> s = ''COLD''"

text \<open>\<open>pid IS NOT NULL AND state NOT IN ('POPPED','COLD') AND ended_at IS NULL\<close>.\<close>

definition has_running_pid :: "row \<Rightarrow> bool" where
  "has_running_pid r \<longleftrightarrow> db_pid r \<noteq> None \<and> \<not> terminal_state (db_state r) \<and> db_ended_at r = None"

definition known_active_pids :: "row list \<Rightarrow> int list" where
  "known_active_pids rs = filter (\<lambda>p. p \<noteq> 0) (map (\<lambda>r. the (db_pid r)) (filter has_running_pid rs))"

definition end_row :: "string \<Rightarrow> string \<Rightarrow> row \<Rightarrow> row" where
  "end_row now reason r =
     r\<lparr>db_state := ''COLD'', db_ended_at := Some now, db_end_reason := Some reason,
       db_updated_at := now\<rparr>"

definition mark_slot_ended :: "row list \<Rightarrow> string \<Rightarrow> string \<Rightarrow> string \<Rightarrow> row list" where
  "mark_slot_ended rs now sid reason =
     map (\<lambda>r. if db_slot_id r = sid then end_row now reason r else r) rs"

text \<open>A loop that ends the rows of a list of ids, as both passes and the sweep do.\<close>

fun mark_all :: "row list \<Rightarrow> string \<Rightarrow> string \<Rightarrow> string list \<Rightarrow> row list" where
  "mark_all rs now reason [] = rs"
| "mark_all rs now reason (sid # sids) = mark_all (mark_slot_ended rs now sid reason) now reason sids"

text \<open>The two selects of \<open>reconcile_orphaned_slots\<close>.\<close>

definition orphaned_pid :: "int set \<Rightarrow> row \<Rightarrow> bool" where
  "orphaned_pid live r \<longleftrightarrow> has_running_pid r \<and> the (db_pid r) \<notin> live"

definition pre_active_orphan :: "row \<Rightarrow> bool" where
  "pre_active_orphan r \<longleftrightarrow>
     db_pid r = None \<and> \<not> terminal_state (db_state r) \<and> db_state r \<noteq> ''IDLE_HOT'' \<and>
     db_ended_at r = None"

definition reconcile_orphaned_slots ::
  "row list \<Rightarrow> string \<Rightarrow> int set \<Rightarrow> nat \<times> row list" where
  "reconcile_orphaned_slots rs now live =
     (let dead = map db_slot_id (filter (orphaned_pid live) rs);
          rs1 = mark_all rs now ''boot-reconcile-orphaned-pid'' dead;
          pre = map db_slot_id (filter pre_active_orphan rs1)
      in (length dead + length pre, mark_all rs1 now ''boot-reconcile-pre-active-orphan'' pre))"

text \<open>
  The database part of \<open>boot_reconcile\<close>: the pids the table believes in are probed, and the
  slots whose process is gone are ended. \<open>alive\<close> is \<open>_pid_is_alive\<close>, the answer of the
  operating system to signal 0.
\<close>

definition boot_reconcile_rows :: "row list \<Rightarrow> string \<Rightarrow> (int \<Rightarrow> bool) \<Rightarrow> nat \<times> row list" where
  "boot_reconcile_rows rs now alive =
     reconcile_orphaned_slots rs now (set (filter alive (known_active_pids rs)))"

text \<open>The outcomes of signal 0, and \<open>_pid_is_alive\<close>.\<close>

datatype kill_outcome = Delivered | NoSuchProcess | NotPermitted

fun pid_is_alive :: "kill_outcome \<Rightarrow> bool" where
  "pid_is_alive Delivered = True"
| "pid_is_alive NoSuchProcess = False"
| "pid_is_alive NotPermitted = True"

subsection \<open>The background sweep\<close>

definition sweepable :: "string \<Rightarrow> row \<Rightarrow> bool" where
  "sweepable cutoff r \<longleftrightarrow>
     db_state r = ''STAGED'' \<and> db_created_at r < cutoff \<and> db_pid r = None \<and> db_ended_at r = None"

text \<open>\<open>_run_one_sweep\<close>: the select is limited to one hundred rows.\<close>

definition run_one_sweep :: "row list \<Rightarrow> string \<Rightarrow> string \<Rightarrow> nat \<times> row list" where
  "run_one_sweep rs now cutoff =
     (let ids = take 100 (map db_slot_id (filter (sweepable cutoff) rs))
      in (length ids, mark_all rs now ''background_sweeper_evicted'' ids))"

subsection \<open>Lemmas\<close>

text \<open>The primary key.\<close>

definition keyed :: "row list \<Rightarrow> bool" where
  "keyed rs \<longleftrightarrow> distinct (map db_slot_id rs)"

lemma end_row_id [simp]: "db_slot_id (end_row now reason r) = db_slot_id r"
  by (simp add: end_row_def)

lemma update_row_id [simp]: "db_slot_id (update_row now f r) = db_slot_id r"
  by (simp add: update_row_def)

lemma end_row_not_running [simp]:
  "\<not> has_running_pid (end_row now reason r)" "\<not> pre_active_orphan (end_row now reason r)"
  "\<not> sweepable cutoff (end_row now reason r)"
  by (simp_all add: end_row_def has_running_pid_def pre_active_orphan_def sweepable_def)

lemma mark_slot_ended_ids [simp]:
  "map db_slot_id (mark_slot_ended rs now sid reason) = map db_slot_id rs"
  by (induction rs) (auto simp: mark_slot_ended_def)

lemma mark_all_map:
  "mark_all rs now reason sids =
     map (\<lambda>r. if db_slot_id r \<in> set sids then end_row now reason r else r) rs"
proof (induction sids arbitrary: rs)
  case (Cons sid sids)
  have "end_row now reason (end_row now reason r) = end_row now reason r" for r :: row
    by (simp add: end_row_def)
  with Cons show ?case by (auto simp: mark_slot_ended_def)
qed simp

lemma mark_all_ids [simp]: "map db_slot_id (mark_all rs now reason sids) = map db_slot_id rs"
  by (simp add: mark_all_map o_def)

lemma filter_marked:
  assumes "keyed rs" and "set sids = db_slot_id ` set (filter P rs)"
    and "\<And>r. Q (end_row now reason r) = False"
  shows "filter Q (mark_all rs now reason sids) = filter (\<lambda>r. Q r \<and> \<not> P r) rs"
proof -
  have key: "db_slot_id r \<in> set sids \<longleftrightarrow> P r" if "r \<in> set rs" for r
    using that assms(1,2) by (auto simp: keyed_def distinct_map inj_on_def)
  have "filter Q (map (\<lambda>r. if db_slot_id r \<in> set sids then end_row now reason r else r) ts)
      = filter (\<lambda>r. Q r \<and> \<not> P r) ts" if "set ts \<subseteq> set rs" for ts
    using that key assms(3) by (induction ts) auto
  then show ?thesis by (simp add: mark_all_map)
qed

lemma upsert_keyed: "keyed rs \<Longrightarrow> keyed (upsert_slot rs now f)"
proof -
  assume k: "keyed rs"
  have "map db_slot_id (map (\<lambda>r. if db_slot_id r = f_slot_id f then update_row now f r else r) rs)
      = map db_slot_id rs" by simp
  with k show ?thesis
    by (auto simp: keyed_def upsert_slot_def new_row_def simp del: map_map)
qed

lemma mark_keyed: "keyed rs \<Longrightarrow> keyed (mark_all rs now reason sids)"
  by (simp add: keyed_def)

lemma reconcile_rows:
  assumes "keyed rs"
  shows "fst (reconcile_orphaned_slots rs now live) =
           length (filter (orphaned_pid live) rs) + length (filter pre_active_orphan rs)"
    and "filter has_running_pid (snd (reconcile_orphaned_slots rs now live)) =
           filter (\<lambda>r. has_running_pid r \<and> the (db_pid r) \<in> live) rs"
    and "filter pre_active_orphan (snd (reconcile_orphaned_slots rs now live)) = []"
    and "keyed (snd (reconcile_orphaned_slots rs now live))"
proof -
  let ?dead = "map db_slot_id (filter (orphaned_pid live) rs)"
  let ?r1 = "mark_all rs now ''boot-reconcile-orphaned-pid'' ?dead"
  let ?pre = "map db_slot_id (filter pre_active_orphan ?r1)"
  have k1: "keyed ?r1" using assms by (rule mark_keyed)
  have p1: "filter Q ?r1 = filter (\<lambda>r. Q r \<and> \<not> orphaned_pid live r) rs"
    if "\<And>r. Q (end_row now ''boot-reconcile-orphaned-pid'' r) = False" for Q
    using filter_marked [OF assms, of ?dead "orphaned_pid live" Q] that by simp
  have excl: "pre_active_orphan r \<and> \<not> orphaned_pid live r \<longleftrightarrow> pre_active_orphan r"
    "has_running_pid r \<and> \<not> pre_active_orphan r \<longleftrightarrow> has_running_pid r"
    "has_running_pid r \<and> \<not> orphaned_pid live r \<longleftrightarrow> has_running_pid r \<and> the (db_pid r) \<in> live" for r
    by (auto simp: pre_active_orphan_def orphaned_pid_def has_running_pid_def)
  have r1: "filter pre_active_orphan ?r1 = filter pre_active_orphan rs"
    "filter has_running_pid ?r1 = filter (\<lambda>r. has_running_pid r \<and> the (db_pid r) \<in> live) rs"
    by (simp_all add: p1 excl)
  have p2: "filter Q (mark_all ?r1 now ''boot-reconcile-pre-active-orphan'' ?pre)
      = filter (\<lambda>r. Q r \<and> \<not> pre_active_orphan r) ?r1"
    if "\<And>r. Q (end_row now ''boot-reconcile-pre-active-orphan'' r) = False" for Q
    using filter_marked [OF k1, of ?pre pre_active_orphan Q] that by simp
  show "fst (reconcile_orphaned_slots rs now live) =
      length (filter (orphaned_pid live) rs) + length (filter pre_active_orphan rs)"
    by (simp add: reconcile_orphaned_slots_def Let_def r1)
  show "filter has_running_pid (snd (reconcile_orphaned_slots rs now live)) =
      filter (\<lambda>r. has_running_pid r \<and> the (db_pid r) \<in> live) rs"
    by (simp add: reconcile_orphaned_slots_def Let_def p2 excl r1(2))
  show "filter pre_active_orphan (snd (reconcile_orphaned_slots rs now live)) = []"
    by (simp add: reconcile_orphaned_slots_def Let_def p2)
  show "keyed (snd (reconcile_orphaned_slots rs now live))"
    using k1 by (simp add: reconcile_orphaned_slots_def Let_def mark_keyed)
qed

lemma known_active_pids_set:
  "p \<in> set (known_active_pids rs) \<longleftrightarrow> p \<noteq> 0 \<and> (\<exists>r \<in> set rs. has_running_pid r \<and> db_pid r = Some p)"
  by (auto simp: known_active_pids_def has_running_pid_def) force

text \<open>
  C22: after the boot reconciliation the table tells the truth. The rows that still count as
  running are exactly those that did before and whose process answers the probe, none that
  never got a process is left open, the count returned is the number of rows ended, and a
  second reconciliation ends nothing more.
\<close>

theorem boot_reconcile_exact:
  assumes "keyed rs" and "boot_reconcile_rows rs now alive = (n, rs')"
  shows "filter has_running_pid rs' =
           filter (\<lambda>r. has_running_pid r \<and> the (db_pid r) \<noteq> 0 \<and> alive (the (db_pid r))) rs \<and>
         filter pre_active_orphan rs' = [] \<and>
         n + length (filter has_running_pid rs') =
           length (filter has_running_pid rs) + length (filter pre_active_orphan rs) \<and>
         fst (boot_reconcile_rows rs' now' alive) = 0"
proof -
  let ?live = "set (filter alive (known_active_pids rs))"
  let ?keep = "\<lambda>r. has_running_pid r \<and> the (db_pid r) \<noteq> 0 \<and> alive (the (db_pid r))"
  from assms(2) have res: "n = fst (reconcile_orphaned_slots rs now ?live)"
    "rs' = snd (reconcile_orphaned_slots rs now ?live)" by (simp_all add: boot_reconcile_rows_def)
  have live: "has_running_pid r \<and> the (db_pid r) \<in> ?live \<longleftrightarrow> ?keep r" if "r \<in> set rs" for r
    using that by (auto simp: known_active_pids_set has_running_pid_def)
  have run: "filter has_running_pid rs' = filter ?keep rs"
    unfolding res reconcile_rows(2) [OF assms(1)] using live by (intro filter_cong) auto
  have pre: "filter pre_active_orphan rs' = []" and key: "keyed rs'"
    unfolding res by (rule reconcile_rows(3,4) [OF assms(1)])+
  have dead: "filter (orphaned_pid ?live) rs = filter (\<lambda>r. has_running_pid r \<and> \<not> ?keep r) rs"
    using live by (intro filter_cong) (auto simp: orphaned_pid_def)
  have "length (filter (\<lambda>r. has_running_pid r \<and> \<not> ?keep r) ts) + length (filter ?keep ts) =
      length (filter has_running_pid ts)" for ts
    by (induction ts) auto
  then have count: "n + length (filter has_running_pid rs') =
      length (filter has_running_pid rs) + length (filter pre_active_orphan rs)"
    unfolding run using reconcile_rows(1) [OF assms(1), of now ?live] res(1) dead
    by (metis (no_types, lifting) add.assoc add.commute)
  have "set (filter has_running_pid rs') = {r \<in> set rs. ?keep r}" by (simp add: run)
  then have "orphaned_pid (set (filter alive (known_active_pids rs'))) r = False" if "r \<in> set rs'" for r
    using that by (auto simp: orphaned_pid_def known_active_pids_set has_running_pid_def)
  then have "filter (orphaned_pid (set (filter alive (known_active_pids rs')))) rs' = []"
    by (simp add: filter_empty_conv)
  then have "fst (boot_reconcile_rows rs' now' alive) = 0"
    by (simp add: boot_reconcile_rows_def reconcile_rows(1) [OF key] pre)
  with run pre count show ?thesis by blast
qed

definition example_fields :: "string \<Rightarrow> string \<Rightarrow> int option \<Rightarrow> slot_fields" where
  "example_fields sid st pid =
     \<lparr>f_slot_id = sid, f_model_tag = ''m'', f_thread_id = None, f_state = st, f_port = None,
      f_pid = pid, f_created_at = None, f_ended_at = None, f_end_reason = None,
      f_extension_count = 0, f_client_meta = []\<rparr>"

definition example_rows :: "row list" where
  "example_rows =
     map (\<lambda>(i, st, pid). new_row ''2026-01-01'' (example_fields i st pid))
       [(''a'', ''ACTIVE'', Some 7), (''b'', ''ACTIVE'', Some 8), (''c'', ''STAGED'', None)]"

lemma example_rows_keyed [simp]: "keyed example_rows"
  by (simp add: keyed_def example_rows_def new_row_def example_fields_def)

theorem boot_reconcile_exact_witness:
  "fst (boot_reconcile_rows example_rows ''now'' (\<lambda>p. p = 7)) = 2 \<and>
   map db_slot_id (filter has_running_pid (snd (boot_reconcile_rows example_rows ''now'' (\<lambda>p. p = 7)))) = [''a'']"
proof -
  obtain n rs' where res: "boot_reconcile_rows example_rows ''now'' (\<lambda>p. p = 7) = (n, rs')" by fastforce
  have pre: "length (filter pre_active_orphan example_rows) = 1"
    and run: "length (filter has_running_pid example_rows) = 2"
    and alive: "map db_slot_id (filter (\<lambda>r. has_running_pid r \<and> the (db_pid r) \<noteq> 0 \<and> the (db_pid r) = 7) example_rows) = [''a'']"
    by (simp_all add: example_rows_def new_row_def example_fields_def pre_active_orphan_def
        has_running_pid_def terminal_state_def)
  note b = boot_reconcile_exact [OF example_rows_keyed res, of "''later''"]
  have t: "n + length (filter has_running_pid rs') = 3" using b pre run by linarith
  from alive b have ids: "map db_slot_id (filter has_running_pid rs') = [''a'']" by simp
  then have "length (filter has_running_pid rs') = 1" by (metis length_map length_Cons list.size(3) One_nat_def)
  with t ids res show ?thesis by simp
qed

text \<open>Sweeping again and again, as the background task does, with the rows ended per round.\<close>

fun sweep_rounds :: "nat \<Rightarrow> row list \<Rightarrow> string \<Rightarrow> string \<Rightarrow> row list" where
  "sweep_rounds 0 rs now cutoff = rs"
| "sweep_rounds (Suc k) rs now cutoff = sweep_rounds k (snd (run_one_sweep rs now cutoff)) now cutoff"

lemma run_one_sweep_rows:
  assumes "keyed rs"
  shows "filter (sweepable cutoff) (snd (run_one_sweep rs now cutoff)) = drop 100 (filter (sweepable cutoff) rs)"
    and "filter (\<lambda>r. \<not> sweepable cutoff r) rs =
           filter (\<lambda>r. db_slot_id r \<notin> db_slot_id ` set (filter (sweepable cutoff) rs)) (snd (run_one_sweep rs now cutoff))"
    and "keyed (snd (run_one_sweep rs now cutoff))"
    and "fst (run_one_sweep rs now cutoff) = min 100 (length (filter (sweepable cutoff) rs))"
proof -
  let ?sw = "filter (sweepable cutoff) rs"
  let ?ids = "map db_slot_id (take 100 ?sw)"
  let ?rs' = "mark_all rs now ''background_sweeper_evicted'' ?ids"
  have res: "run_one_sweep rs now cutoff = (length ?ids, ?rs')"
    by (simp add: run_one_sweep_def Let_def take_map)
  have inj: "inj_on db_slot_id (set rs)" and dist: "distinct rs"
    using assms by (auto simp: keyed_def distinct_map)
  have taken: "set (take 100 ?sw) \<subseteq> set rs" by (auto dest: in_set_takeD)
  have "set ?ids = db_slot_id ` set (filter (\<lambda>r. r \<in> set (take 100 ?sw)) rs)"
    using taken by auto
  from filter_marked [OF assms this, of "sweepable cutoff"]
  have "filter (sweepable cutoff) ?rs' = filter (\<lambda>r. r \<notin> set (take 100 ?sw)) ?sw"
    by (simp add: conj_commute)
  also have "\<dots> = filter (\<lambda>r. r \<notin> set (take 100 ?sw)) (take 100 ?sw @ drop 100 ?sw)" by simp
  also have "\<dots> = drop 100 ?sw"
  proof -
    have "distinct (take 100 ?sw @ drop 100 ?sw)" using dist by simp
    then have "\<forall>r \<in> set (drop 100 ?sw). r \<notin> set (take 100 ?sw)"
      unfolding distinct_append by blast
    then have "filter (\<lambda>r. r \<notin> set (take 100 ?sw)) (drop 100 ?sw) = drop 100 ?sw"
      by (simp add: filter_id_conv)
    moreover have "filter (\<lambda>r. r \<notin> set (take 100 ?sw)) (take 100 ?sw) = []"
      by (simp add: filter_empty_conv)
    ultimately show ?thesis by (simp only: filter_append append_Nil)
  qed
  finally show "filter (sweepable cutoff) (snd (run_one_sweep rs now cutoff)) = drop 100 ?sw"
    by (simp add: res)
  show "keyed (snd (run_one_sweep rs now cutoff))" using assms by (simp add: res mark_keyed)
  show "fst (run_one_sweep rs now cutoff) = min 100 (length ?sw)" by (simp add: res min.commute)
  have sub: "set ?ids \<subseteq> db_slot_id ` set ?sw" by (auto dest: in_set_takeD)
  have "filter (\<lambda>r. \<not> sweepable cutoff r) ts =
      filter (\<lambda>r. db_slot_id r \<notin> db_slot_id ` set ?sw)
        (map (\<lambda>r. if db_slot_id r \<in> set ?ids then end_row now ''background_sweeper_evicted'' r else r) ts)"
    if "set ts \<subseteq> set rs" for ts
    using that
  proof (induction ts)
    case (Cons r ts)
    have "db_slot_id r \<in> db_slot_id ` set ?sw \<longleftrightarrow> sweepable cutoff r"
      using Cons.prems inj by (auto simp: inj_on_def)
    with Cons sub show ?case by auto
  qed simp
  then show "filter (\<lambda>r. \<not> sweepable cutoff r) rs =
      filter (\<lambda>r. db_slot_id r \<notin> db_slot_id ` set ?sw) (snd (run_one_sweep rs now cutoff))"
    by (simp add: res mark_all_map)
qed

lemma sweep_rounds_rows:
  "keyed rs \<Longrightarrow>
     filter (sweepable cutoff) (sweep_rounds k rs now cutoff) = drop (100 * k) (filter (sweepable cutoff) rs)"
proof (induction k arbitrary: rs)
  case (Suc k)
  from Suc.IH [OF run_one_sweep_rows(3) [OF Suc.prems, of now cutoff]] run_one_sweep_rows(1) [OF Suc.prems]
  show ?case by (simp add: add.commute)
qed simp

text \<open>
  The sweep finalises abandoned requests and nothing else. One round ends at most a
  hundred rows, all of them STAGED, without a process, open and older than the cutoff, and
  keeps every other row as it is; and enough rounds leave no such row.
\<close>

theorem sweep_exact_and_complete:
  assumes "keyed rs"
  shows "fst (run_one_sweep rs now cutoff) = min 100 (length (filter (sweepable cutoff) rs)) \<and>
         filter (\<lambda>r. \<not> sweepable cutoff r) rs =
           filter (\<lambda>r. db_slot_id r \<notin> db_slot_id ` set (filter (sweepable cutoff) rs))
             (snd (run_one_sweep rs now cutoff)) \<and>
         (length (filter (sweepable cutoff) rs) \<le> 100 * k \<longrightarrow>
            filter (sweepable cutoff) (sweep_rounds k rs now cutoff) = [])"
  using run_one_sweep_rows(2,4) [OF assms] sweep_rounds_rows [OF assms] by simp

theorem sweep_exact_and_complete_witness:
  "fst (run_one_sweep example_rows ''2026-01-09'' ''2026-01-08'') = 1 \<and>
   filter (sweepable ''2026-01-08'') (sweep_rounds 1 example_rows ''2026-01-09'' ''2026-01-08'') = []"
proof -
  have "length (filter (sweepable ''2026-01-08'') example_rows) = 1"
    by (simp add: example_rows_def new_row_def example_fields_def sweepable_def)
  with sweep_exact_and_complete [OF example_rows_keyed, of "''2026-01-09''" "''2026-01-08''" 1]
  show ?thesis by simp
qed

end
