(* ===== verification/Fsm.thy ===== *)
theory Fsm
  imports Slots
begin

text \<open>
  \<open>fsm.py\<close>: the table of legal transitions, the guarded transition of a slot, and the
  state predicates. The table is a total function to the list of targets; the set of the
  source has no order, and none of the operations depends on one.
\<close>

fun legal_targets :: "slot_state \<Rightarrow> slot_state list" where
  "legal_targets RECEIVED = [ACCEPT_BUFFER, STAGED]"
| "legal_targets ACCEPT_BUFFER = [STAGED, COLD]"
| "legal_targets STAGED = [LOADING, COLD, ACTIVE_MATCH]"
| "legal_targets LOADING = [ACTIVE, LOADING_FAIL, COLD]"
| "legal_targets LOADING_FAIL = [STAGED, POPPED]"
| "legal_targets ACTIVE = [GRACE, ACTIVE_MATCH]"
| "legal_targets GRACE = [GRACE_BUSY, POPPED, ACTIVE]"
| "legal_targets GRACE_BUSY = [GRACE, POPPED]"
| "legal_targets ACTIVE_MATCH = [ACTIVE]"
| "legal_targets POPPED = [IDLE_HOT, STAGED, COLD]"
| "legal_targets IDLE_HOT = [ACTIVE, POPPED, COLD]"
| "legal_targets COLD = []"

definition can_move :: "slot_state \<Rightarrow> slot_state \<Rightarrow> bool" where
  "can_move s t \<longleftrightarrow> t \<in> set (legal_targets s)"

definition can_transition :: "slot \<Rightarrow> slot_state \<Rightarrow> bool" where
  "can_transition sl t \<longleftrightarrow> can_move (sl_state sl) t"

text \<open>\<open>transition\<close>: the slot with its new state, or \<open>InvalidTransition\<close>.\<close>

definition transition :: "slot \<Rightarrow> slot_state \<Rightarrow> exn + slot" where
  "transition sl t =
     (if can_move (sl_state sl) t then Inr (sl\<lparr>sl_state := t\<rparr>)
      else Inl (IllegalHop (sl_state sl) t))"

definition is_terminal :: "slot_state \<Rightarrow> bool" where
  "is_terminal s \<longleftrightarrow> legal_targets s = []"

definition is_warm_state :: "slot_state \<Rightarrow> bool" where
  "is_warm_state s \<longleftrightarrow> s \<in> set [LOADING, ACTIVE, GRACE, GRACE_BUSY, ACTIVE_MATCH, IDLE_HOT]"

definition is_request_in_flight :: "slot_state \<Rightarrow> bool" where
  "is_request_in_flight s \<longleftrightarrow> s \<in> set [ACTIVE, GRACE_BUSY, ACTIVE_MATCH]"

lemma transition_Inr [simp]:
  "transition sl t = Inr sl' \<longleftrightarrow> can_move (sl_state sl) t \<and> sl' = sl\<lparr>sl_state := t\<rparr>"
  by (auto simp: transition_def)

lemma transition_Inl [simp]:
  "transition sl t = Inl e \<longleftrightarrow> \<not> can_move (sl_state sl) t \<and> e = IllegalHop (sl_state sl) t"
  by (auto simp: transition_def)

lemma transition_ok [simp]: "can_move (sl_state sl) t \<Longrightarrow> transition sl t = Inr (sl\<lparr>sl_state := t\<rparr>)"
  by (simp add: transition_def)

lemma transition_illegal [simp]:
  "\<not> can_move (sl_state sl) t \<Longrightarrow> transition sl t = Inl (IllegalHop (sl_state sl) t)"
  by (simp add: transition_def)

lemma can_move_simps [simp]:
  "can_move RECEIVED t \<longleftrightarrow> t = ACCEPT_BUFFER \<or> t = STAGED"
  "can_move ACCEPT_BUFFER t \<longleftrightarrow> t = STAGED \<or> t = COLD"
  "can_move STAGED t \<longleftrightarrow> t = LOADING \<or> t = COLD \<or> t = ACTIVE_MATCH"
  "can_move LOADING t \<longleftrightarrow> t = ACTIVE \<or> t = LOADING_FAIL \<or> t = COLD"
  "can_move LOADING_FAIL t \<longleftrightarrow> t = STAGED \<or> t = POPPED"
  "can_move ACTIVE t \<longleftrightarrow> t = GRACE \<or> t = ACTIVE_MATCH"
  "can_move GRACE t \<longleftrightarrow> t = GRACE_BUSY \<or> t = POPPED \<or> t = ACTIVE"
  "can_move GRACE_BUSY t \<longleftrightarrow> t = GRACE \<or> t = POPPED"
  "can_move ACTIVE_MATCH t \<longleftrightarrow> t = ACTIVE"
  "can_move POPPED t \<longleftrightarrow> t = IDLE_HOT \<or> t = STAGED \<or> t = COLD"
  "can_move IDLE_HOT t \<longleftrightarrow> t = ACTIVE \<or> t = POPPED \<or> t = COLD"
  "can_move COLD t \<longleftrightarrow> False"
  by (auto simp: can_move_def)

lemma is_terminal_iff [simp]: "is_terminal s \<longleftrightarrow> s = COLD"
  by (cases s) (simp_all add: is_terminal_def)

subsection \<open>Runs\<close>

text \<open>
  The life cycle of a slot as a relation: one legal hop, and the states reachable by hops.
\<close>

inductive fsm_step :: "slot_state \<Rightarrow> slot_state \<Rightarrow> bool" where
  hop: "can_move s t \<Longrightarrow> fsm_step s t"

inductive_simps fsm_step_iff [simp]: "fsm_step s t"
inductive_cases fsm_stepE: "fsm_step s t"

inductive fsm_reach :: "slot_state \<Rightarrow> slot_state \<Rightarrow> bool" where
  here: "fsm_reach s s"
| more: "fsm_reach s t \<Longrightarrow> fsm_step t u \<Longrightarrow> fsm_reach s u"

text \<open>The hops a list of requested transitions makes, stopping at the first illegal one.\<close>

fun run_transitions :: "slot \<Rightarrow> slot_state list \<Rightarrow> exn + slot" where
  "run_transitions sl [] = Inr sl"
| "run_transitions sl (t # ts) = rbind (transition sl t) (\<lambda>sl'. run_transitions sl' ts)"

lemma run_transitions_only_state:
  "run_transitions sl ts = Inr sl' \<Longrightarrow> sl' = sl\<lparr>sl_state := sl_state sl'\<rparr>"
proof (induction ts arbitrary: sl)
  case (Cons t ts)
  then have "run_transitions (sl\<lparr>sl_state := t\<rparr>) ts = Inr sl'" by simp
  from Cons.IH [OF this] have "sl' = sl\<lparr>sl_state := t, sl_state := sl_state sl'\<rparr>" .
  then show ?case by simp
qed simp

lemma fsm_reach_trans:
  "fsm_reach t u \<Longrightarrow> fsm_reach s t \<Longrightarrow> fsm_reach s u"
  by (induction rule: fsm_reach.induct) (auto intro: fsm_reach.more)

lemma run_transitions_reach:
  "run_transitions sl ts = Inr sl' \<Longrightarrow> fsm_reach (sl_state sl) (sl_state sl')"
proof (induction ts arbitrary: sl)
  case (Cons t ts)
  then have "can_move (sl_state sl) t" and "fsm_reach t (sl_state sl')" by fastforce+
  then show ?case
    by (meson fsm_reach.here fsm_reach.more fsm_reach_trans fsm_step_iff)
qed (simp add: fsm_reach.here)

subsection \<open>Life-cycle properties\<close>

lemma run_transitions_append:
  "run_transitions sl (ts @ us) = rbind (run_transitions sl ts) (\<lambda>sl'. run_transitions sl' us)"
proof (induction ts arbitrary: sl)
  case (Cons t ts)
  then show ?case by (cases "can_move (sl_state sl) t") (simp_all add: transition_def)
qed simp

lemma unstaged_stays_unloaded:
  "sl_state sl \<in> {RECEIVED, ACCEPT_BUFFER} \<Longrightarrow> STAGED \<notin> set ts \<Longrightarrow>
     run_transitions sl ts = Inr sl' \<Longrightarrow> sl_state sl' \<in> {RECEIVED, ACCEPT_BUFFER, COLD}"
proof (induction ts arbitrary: sl)
  case (Cons t ts)
  then have t: "can_move (sl_state sl) t" "t \<noteq> STAGED"
    and run: "run_transitions (sl\<lparr>sl_state := t\<rparr>) ts = Inr sl'" by auto
  from t Cons.prems(1) have "t = ACCEPT_BUFFER \<or> t = COLD" by auto
  then show ?case
  proof
    assume "t = ACCEPT_BUFFER"
    with run have "run_transitions (sl\<lparr>sl_state := ACCEPT_BUFFER\<rparr>) ts = Inr sl'" by simp
    with Cons.IH [of "sl\<lparr>sl_state := ACCEPT_BUFFER\<rparr>"] Cons.prems(2) show ?thesis by simp
  next
    assume "t = COLD"
    with run show ?thesis by (cases ts) auto
  qed
qed auto

text \<open>
  A slot's warm life starts in staging: no sequence of legal transitions takes a freshly
  received slot to a state in which the llama-server is loaded without passing STAGED.
\<close>

theorem warm_only_through_staging:
  assumes "sl_state sl = RECEIVED" and "run_transitions sl ts = Inr sl'"
    and "is_warm_state (sl_state sl')"
  shows "STAGED \<in> set ts"
proof (rule ccontr)
  assume "STAGED \<notin> set ts"
  with assms(1,2) have "sl_state sl' \<in> {RECEIVED, ACCEPT_BUFFER, COLD}"
    by (intro unstaged_stays_unloaded) simp_all
  with assms(3) show False by (auto simp: is_warm_state_def)
qed

theorem warm_only_through_staging_witness:
  "\<exists>sl'. run_transitions (new_slot ''0'' 0 ''m'' [] [] []) [ACCEPT_BUFFER, STAGED, LOADING] = Inr sl'
     \<and> STAGED \<in> set [ACCEPT_BUFFER, STAGED, LOADING]"
proof -
  let ?s = "new_slot ''0'' 0 ''m'' [] [] []"
  let ?t = "?s\<lparr>sl_state := LOADING\<rparr>"
  have run: "run_transitions ?s [ACCEPT_BUFFER, STAGED, LOADING] = Inr ?t"
    by (simp add: new_slot_def)
  have "STAGED \<in> set [ACCEPT_BUFFER, STAGED, LOADING]"
    by (rule warm_only_through_staging [OF _ run]) (simp_all add: new_slot_def is_warm_state_def)
  with run show ?thesis by blast
qed

end
