(* ===== verification/Queues.thy ===== *)
theory Queues
  imports Fsm
begin

text \<open>
  \<open>TurbohaulQueue\<close> of \<open>queue.py\<close>: the staging queue, the acceptance buffer and the
  model-affinity pop with its run-length counter. Every method of the class takes the
  queue's lock for its whole body, so one method is one step on the queue's state. A method
  that can raise in mid-body returns the state it leaves beside the outcome.
\<close>

datatype queue_error = QueueClosed | QueueFull nat | QueueHop exn

record tq =
  staging :: "slot list"
  accept_buf :: "slot list"
  staging_max :: nat
  acceptance_max :: nat
  max_consecutive :: nat
  max_other_wait :: time
  consecutive :: nat
  last_popped :: "string option"
  closed :: bool

definition new_queue :: "nat \<Rightarrow> nat \<Rightarrow> nat \<Rightarrow> time \<Rightarrow> tq" where
  "new_queue smax amax cap wait =
     \<lparr>staging = [], accept_buf = [], staging_max = smax, acceptance_max = amax,
      max_consecutive = cap, max_other_wait = wait, consecutive = 0, last_popped = None,
      closed = False\<rparr>"

subsection \<open>Operations\<close>

text \<open>The slot is shared with the caller, so the updated slot is returned as well.\<close>

definition enqueue :: "tq \<Rightarrow> slot \<Rightarrow> queue_error + (tq \<times> slot)" where
  "enqueue q sl =
     (if closed q then Inl QueueClosed
      else if length (staging q) < staging_max q then
        (case transition sl STAGED of
           Inl e \<Rightarrow> Inl (QueueHop e)
         | Inr sl' \<Rightarrow> Inr (q\<lparr>staging := staging q @ [sl']\<rparr>, sl'))
      else if acceptance_max q \<le> length (accept_buf q) then Inl (QueueFull (acceptance_max q))
      else
        (case transition sl ACCEPT_BUFFER of
           Inl e \<Rightarrow> Inl (QueueHop e)
         | Inr sl' \<Rightarrow> Inr (q\<lparr>accept_buf := accept_buf q @ [sl']\<rparr>, sl')))"

text \<open>\<open>slot.is_evicted = True\<close> when the client has disconnected.\<close>

definition flag_evicted :: "slot \<Rightarrow> slot" where
  "flag_evicted sl = (if client_gone sl then sl\<lparr>sl_is_evicted := True\<rparr> else sl)"

text \<open>
  \<open>_pop_first_non_evicted_from\<close>. Both branches of the loop body return, so the loop never
  goes round twice.
\<close>

fun pop_first_non_evicted :: "nat \<Rightarrow> slot list \<Rightarrow> slot option \<times> slot list" where
  "pop_first_non_evicted 0 buf = (None, buf)"
| "pop_first_non_evicted (Suc n) [] = (None, [])"
| "pop_first_non_evicted (Suc n) (sl # buf) = (Some (flag_evicted sl), buf)"

definition max_drain :: nat where
  "max_drain = 10"

text \<open>\<open>_pop_first_matching_non_evicted_from\<close>.\<close>

definition pop_first_matching :: "string \<Rightarrow> nat \<Rightarrow> slot list \<Rightarrow> slot option \<times> slot list" where
  "pop_first_matching tag max_scan buf =
     (case pop_match_upto max_scan (\<lambda>sl. sl_model_tag sl = tag) buf of
        None \<Rightarrow> (None, buf)
      | Some (sl, buf') \<Rightarrow> (Some (flag_evicted sl), buf'))"

text \<open>\<open>_update_run_length_locked\<close>.\<close>

definition update_run_length :: "slot option \<Rightarrow> tq \<Rightarrow> tq" where
  "update_run_length r q =
     (case r of
        None \<Rightarrow> q
      | Some sl \<Rightarrow>
          q\<lparr>consecutive := (if Some (sl_model_tag sl) = last_popped q then Suc (consecutive q) else 1),
            last_popped := Some (sl_model_tag sl)\<rparr>)"

text \<open>One buffered slot moves to the staging tail when there is room.\<close>

definition replenish_one :: "tq \<Rightarrow> (exn + unit) \<times> tq" where
  "replenish_one q =
     (case accept_buf q of
        t # ts \<Rightarrow>
          if length (staging q) < staging_max q then
            (case transition t STAGED of
               Inl e \<Rightarrow> (Inl e, q\<lparr>accept_buf := ts\<rparr>)
             | Inr t' \<Rightarrow> (Inr (), q\<lparr>accept_buf := ts, staging := staging q @ [t']\<rparr>))
          else (Inr (), q)
      | [] \<Rightarrow> (Inr (), q))"

text \<open>The loop that drains the buffer into staging while there is room.\<close>

fun refill :: "nat \<Rightarrow> slot list \<Rightarrow> slot list \<Rightarrow> (exn + unit) \<times> slot list \<times> slot list" where
  "refill smax stg [] = (Inr (), stg, [])"
| "refill smax stg (t # ts) =
     (if length stg < smax then
        (case transition t STAGED of
           Inl e \<Rightarrow> (Inl e, stg, ts)
         | Inr t' \<Rightarrow> refill smax (stg @ [t']) ts)
      else (Inr (), stg, t # ts))"

definition refill_staging :: "tq \<Rightarrow> (exn + unit) \<times> tq" where
  "refill_staging q =
     (case refill (staging_max q) (staging q) (accept_buf q) of
        (r, stg, acc) \<Rightarrow> (r, q\<lparr>staging := stg, accept_buf := acc\<rparr>))"

text \<open>The strict FIFO path of \<open>pop_next\<close>.\<close>

definition pop_fifo :: "tq \<Rightarrow> (exn + slot option) \<times> tq" where
  "pop_fifo q =
     (case pop_first_non_evicted max_drain (staging q) of
        (Some sl, stg) \<Rightarrow>
          (case replenish_one (q\<lparr>staging := stg\<rparr>) of
             (Inl e, q') \<Rightarrow> (Inl e, q')
           | (Inr _, q') \<Rightarrow> (Inr (Some sl), update_run_length (Some sl) q'))
      | (None, stg) \<Rightarrow>
          (case refill_staging (q\<lparr>staging := stg\<rparr>) of
             (Inl e, q') \<Rightarrow> (Inl e, q')
           | (Inr _, q') \<Rightarrow>
               (case pop_first_non_evicted max_drain (staging q') of
                  (r, stg') \<Rightarrow> (Inr r, update_run_length r (q'\<lparr>staging := stg'\<rparr>)))))"

text \<open>Which entry the affinity path takes: the forced head, or the first of the warm model.\<close>

definition head_starved :: "tq \<Rightarrow> time \<Rightarrow> string \<Rightarrow> slot \<Rightarrow> bool" where
  "head_starved q now warm h \<longleftrightarrow>
     sl_model_tag h \<noteq> warm \<and> now - sl_created_at h > max_other_wait q"

definition batch_cap_hit :: "tq \<Rightarrow> bool" where
  "batch_cap_hit q \<longleftrightarrow> max_consecutive q \<le> consecutive q"

definition affinity_choice :: "tq \<Rightarrow> time \<Rightarrow> string \<Rightarrow> slot \<Rightarrow> slot option \<times> slot list" where
  "affinity_choice q now warm h =
     (if head_starved q now warm h \<or> batch_cap_hit q
      then pop_first_non_evicted max_drain (staging q)
      else (case pop_first_matching warm (staging_max q) (staging q) of
              (Some sl, stg) \<Rightarrow> (Some sl, stg)
            | (None, stg) \<Rightarrow> pop_first_non_evicted max_drain stg))"

definition pop_affinity :: "tq \<Rightarrow> time \<Rightarrow> string \<Rightarrow> slot \<Rightarrow> (exn + slot option) \<times> tq" where
  "pop_affinity q now warm h =
     (case affinity_choice q now warm h of
        (None, stg) \<Rightarrow> (Inr None, update_run_length None (q\<lparr>staging := stg\<rparr>))
      | (Some sl, stg) \<Rightarrow>
          (case replenish_one (q\<lparr>staging := stg\<rparr>) of
             (Inl e, q') \<Rightarrow> (Inl e, q')
           | (Inr _, q') \<Rightarrow> (Inr (Some sl), update_run_length (Some sl) q')))"

definition pop_next :: "tq \<Rightarrow> time \<Rightarrow> string option \<Rightarrow> (exn + slot option) \<times> tq" where
  "pop_next q now warm =
     (case (warm, staging q) of
        (Some w, h # _) \<Rightarrow> pop_affinity q now w h
      | _ \<Rightarrow> pop_fifo q)"

definition enqueue_head :: "tq \<Rightarrow> slot \<Rightarrow> queue_error + (tq \<times> slot)" where
  "enqueue_head q sl =
     (if closed q then Inl QueueClosed
      else
        (case (if sl_state sl \<noteq> STAGED then transition sl STAGED else Inr sl) of
           Inl e \<Rightarrow> Inl (QueueHop e)
         | Inr sl' \<Rightarrow> Inr (q\<lparr>staging := sl' # staging q\<rparr>, sl')))"

definition thread_match :: "string \<Rightarrow> string \<Rightarrow> slot \<Rightarrow> bool" where
  "thread_match thread tag sl \<longleftrightarrow> sl_thread_id sl = thread \<and> sl_model_tag sl = tag"

definition find_matched_thread :: "tq \<Rightarrow> string \<Rightarrow> string \<Rightarrow> slot option" where
  "find_matched_thread q thread tag =
     (if thread = [] then None else List.find (thread_match thread tag) (staging q))"

definition pop_matched_thread :: "tq \<Rightarrow> string \<Rightarrow> string \<Rightarrow> slot option \<times> tq" where
  "pop_matched_thread q thread tag =
     (if thread = [] then (None, q)
      else (case pop_match (thread_match thread tag) (staging q) of
              None \<Rightarrow> (None, q)
            | Some (sl, stg) \<Rightarrow> (Some (flag_evicted sl), q\<lparr>staging := stg\<rparr>)))"

definition remove_slot :: "tq \<Rightarrow> string \<Rightarrow> slot option \<times> tq" where
  "remove_slot q sid =
     (case pop_match (\<lambda>sl. sl_id sl = sid) (staging q) of
        Some (sl, stg) \<Rightarrow> (Some sl, q\<lparr>staging := stg\<rparr>)
      | None \<Rightarrow>
          (case pop_match (\<lambda>sl. sl_id sl = sid) (accept_buf q) of
             Some (sl, acc) \<Rightarrow> (Some sl, q\<lparr>accept_buf := acc\<rparr>)
           | None \<Rightarrow> (None, q)))"

definition peek_staging :: "tq \<Rightarrow> slot list" where
  "peek_staging q = staging q"

record queue_depth =
  acceptance_buffer_depth :: nat
  staging_queue_depth :: nat
  staging_queue_max :: nat
  acceptance_buffer_max :: nat

definition depth :: "tq \<Rightarrow> queue_depth" where
  "depth q =
     \<lparr>acceptance_buffer_depth = length (accept_buf q),
      staging_queue_depth = length (staging q),
      staging_queue_max = staging_max q,
      acceptance_buffer_max = acceptance_max q\<rparr>"

definition close :: "tq \<Rightarrow> slot list \<times> tq" where
  "close q = (staging q @ accept_buf q, q\<lparr>closed := True, accept_buf := [], staging := []\<rparr>)"

lemmas queue_op_defs =
  enqueue_def enqueue_head_def pop_fifo_def pop_affinity_def pop_next_def
  pop_matched_thread_def remove_slot_def close_def

subsection \<open>State discipline\<close>

text \<open>
  What the two buffers hold: staged slots are STAGED, buffered ones are in ACCEPT_BUFFER and
  within the buffer's cap, and the staging cap is positive (the configuration demands it).
  It is what makes the transitions inside the pops legal.
\<close>

definition queue_inv :: "tq \<Rightarrow> bool" where
  "queue_inv q \<longleftrightarrow>
     (\<forall>sl \<in> set (staging q). sl_state sl = STAGED) \<and>
     (\<forall>sl \<in> set (accept_buf q). sl_state sl = ACCEPT_BUFFER) \<and>
     0 < staging_max q \<and> length (accept_buf q) \<le> acceptance_max q"

text \<open>The requests in the queue, in the order a FIFO queue would serve them.\<close>

definition pending :: "tq \<Rightarrow> string list" where
  "pending q = map sl_id (staging q @ accept_buf q)"

lemma flag_evicted_frame [simp, frame]:
  "sl_id (flag_evicted sl) = sl_id sl"
  "sl_state (flag_evicted sl) = sl_state sl"
  "sl_model_tag (flag_evicted sl) = sl_model_tag sl"
  "sl_thread_id (flag_evicted sl) = sl_thread_id sl"
  by (auto simp: flag_evicted_def)

lemma update_run_length_frame [simp, frame]:
  "staging (update_run_length r q) = staging q"
  "accept_buf (update_run_length r q) = accept_buf q"
  "staging_max (update_run_length r q) = staging_max q"
  "acceptance_max (update_run_length r q) = acceptance_max q"
  "max_consecutive (update_run_length r q) = max_consecutive q"
  "max_other_wait (update_run_length r q) = max_other_wait q"
  "closed (update_run_length r q) = closed q"
  by (auto simp: update_run_length_def split: option.splits)

lemma update_run_length_None [simp]: "update_run_length None q = q"
  by (simp add: update_run_length_def)

lemma pop_first_max_drain:
  "pop_first_non_evicted max_drain buf =
     (case buf of [] \<Rightarrow> (None, []) | sl # rest \<Rightarrow> (Some (flag_evicted sl), rest))"
  by (cases buf) (auto simp: max_drain_def eval_nat_numeral)

lemma refill_ok:
  "\<forall>sl \<in> set acc. sl_state sl = ACCEPT_BUFFER \<Longrightarrow>
     refill smax stg acc =
       (Inr (), stg @ map (\<lambda>t. t\<lparr>sl_state := STAGED\<rparr>) (take (smax - length stg) acc),
        drop (smax - length stg) acc)"
proof (induction acc arbitrary: stg)
  case (Cons t ts)
  show ?case
  proof (cases "length stg < smax")
    case True
    then have "smax - length stg = Suc (smax - Suc (length stg))" by simp
    with True Cons show ?thesis by simp
  qed simp
qed simp

definition conserves :: "tq \<Rightarrow> tq \<Rightarrow> bool" where
  "conserves q q' \<longleftrightarrow>
     staging_max q' = staging_max q \<and> acceptance_max q' = acceptance_max q \<and>
     max_consecutive q' = max_consecutive q \<and> max_other_wait q' = max_other_wait q \<and>
     closed q' = closed q"

lemma replenish_one_ok:
  assumes "queue_inv q"
  obtains q' where "replenish_one q = (Inr (), q')" and "queue_inv q'" and "conserves q q'"
    and "pending q' = pending q" and "\<exists>ts. staging q' = staging q @ ts"
    and "consecutive q' = consecutive q" and "last_popped q' = last_popped q"
proof (cases "accept_buf q")
  case Nil
  with assms that [of q] show thesis by (simp add: replenish_one_def conserves_def)
next
  case (Cons t ts)
  with assms have t: "sl_state t = ACCEPT_BUFFER" by (auto simp: queue_inv_def)
  show thesis
  proof (cases "length (staging q) < staging_max q")
    case True
    let ?q = "q\<lparr>accept_buf := ts, staging := staging q @ [t\<lparr>sl_state := STAGED\<rparr>]\<rparr>"
    from True Cons t have "replenish_one q = (Inr (), ?q)" by (simp add: replenish_one_def)
    moreover from assms Cons have "queue_inv ?q" by (auto simp: queue_inv_def)
    ultimately show thesis
      using Cons by (intro that [of ?q]) (auto simp: conserves_def pending_def)
  next
    case False
    with assms Cons that [of q] show thesis by (simp add: replenish_one_def conserves_def)
  qed
qed

lemma refill_staging_ok:
  assumes "queue_inv q"
  obtains q' where "refill_staging q = (Inr (), q')" and "queue_inv q'" and "conserves q q'"
    and "pending q' = pending q" and "staging q' = [] \<longleftrightarrow> pending q = []"
    and "consecutive q' = consecutive q" and "last_popped q' = last_popped q"
    and "accept_buf q' \<noteq> [] \<longrightarrow> staging_max q' \<le> length (staging q')"
proof -
  let ?k = "staging_max q - length (staging q)"
  let ?q = "q\<lparr>staging := staging q @ map (\<lambda>t. t\<lparr>sl_state := STAGED\<rparr>) (take ?k (accept_buf q)),
              accept_buf := drop ?k (accept_buf q)\<rparr>"
  have buf: "\<forall>sl \<in> set (accept_buf q). sl_state sl = ACCEPT_BUFFER"
    and pos: "0 < staging_max q" using assms by (auto simp: queue_inv_def)
  have "refill_staging q = (Inr (), ?q)"
    by (simp add: refill_staging_def refill_ok [OF buf])
  moreover from assms have "queue_inv ?q"
    by (auto simp: queue_inv_def dest: in_set_takeD in_set_dropD)
  moreover have "pending ?q = pending q"
    using append_take_drop_id [of ?k "map sl_id (accept_buf q)"]
    by (simp add: pending_def o_def take_map drop_map)
  moreover have "staging ?q = [] \<longleftrightarrow> pending q = []"
    using pos by (auto simp: pending_def)
  ultimately show thesis by (intro that [of ?q]) (auto simp: conserves_def)
qed

subsection \<open>What a pop delivers\<close>

text \<open>
  The contract of every pop of the queue: it does not raise, it keeps the state discipline
  and the settings, and the requests that were pending are the one it returns together with
  those still pending.
\<close>

definition pop_ok :: "tq \<Rightarrow> (exn + slot option) \<times> tq \<Rightarrow> bool" where
  "pop_ok q res \<longleftrightarrow>
     queue_inv (snd res) \<and> conserves q (snd res) \<and>
     (case fst res of
        Inl _ \<Rightarrow> False
      | Inr None \<Rightarrow> pending q = [] \<and> pending (snd res) = []
      | Inr (Some sl) \<Rightarrow>
          sl_state sl = STAGED \<and>
          (\<exists>us vs. pending q = us @ sl_id sl # vs \<and> pending (snd res) = us @ vs))"

lemma queue_inv_update [simp]: "queue_inv (update_run_length r q) = queue_inv q"
  by (simp add: queue_inv_def)

lemma pending_update [simp]: "pending (update_run_length r q) = pending q"
  by (simp add: pending_def)

lemma conserves_update [simp]: "conserves q (update_run_length r q') = conserves q q'"
  by (simp add: conserves_def)

lemma pop_from_staging_ok:
  assumes "queue_inv q" and "staging q = us @ sl # vs"
  shows "pop_ok q
           (case replenish_one (q\<lparr>staging := us @ vs\<rparr>) of
              (Inl e, q') \<Rightarrow> (Inl e, q')
            | (Inr _, q') \<Rightarrow> (Inr (Some (flag_evicted sl)), update_run_length (Some (flag_evicted sl)) q'))"
proof -
  from assms have "queue_inv (q\<lparr>staging := us @ vs\<rparr>)" by (auto simp: queue_inv_def)
  then obtain q' where q': "replenish_one (q\<lparr>staging := us @ vs\<rparr>) = (Inr (), q')" "queue_inv q'"
      "conserves (q\<lparr>staging := us @ vs\<rparr>) q'" "pending q' = pending (q\<lparr>staging := us @ vs\<rparr>)"
    by (rule replenish_one_ok)
  from assms have "sl_state sl = STAGED" by (auto simp: queue_inv_def)
  moreover have "pending q = map sl_id us @ sl_id sl # map sl_id (vs @ accept_buf q)"
    using assms(2) by (simp add: pending_def)
  moreover have "pending q' = map sl_id us @ map sl_id (vs @ accept_buf q)"
    using q'(4) by (simp add: pending_def)
  ultimately show ?thesis using q' by (auto simp: pop_ok_def conserves_def)
qed

lemma staging_Nil_id [simp]: "staging q = [] \<Longrightarrow> q\<lparr>staging := []\<rparr> = q"
  by simp

lemma pop_fifo_Nil:
  assumes "queue_inv q" and "staging q = []"
  shows "pop_ok q (pop_fifo q)"
proof -
  from assms(1) obtain q' where q': "refill_staging q = (Inr (), q')" "queue_inv q'" "conserves q q'"
      "pending q' = pending q" "staging q' = [] \<longleftrightarrow> pending q = []"
    by (rule refill_staging_ok)
  have pop: "pop_fifo q =
      (case pop_first_non_evicted max_drain (staging q') of
         (r, stg') \<Rightarrow> (Inr r, update_run_length r (q'\<lparr>staging := stg'\<rparr>)))"
    using q'(1) assms(2) by (simp add: pop_fifo_def pop_first_max_drain)
  show ?thesis
  proof (cases "staging q'")
    case Nil
    with q' pop show ?thesis by (simp add: pop_first_max_drain pop_ok_def)
  next
    case (Cons sl stg)
    with q' have "sl_state sl = STAGED" "queue_inv (q'\<lparr>staging := stg\<rparr>)" by (auto simp: queue_inv_def)
    moreover from Cons q' have "pending q = [] @ sl_id sl # pending (q'\<lparr>staging := stg\<rparr>)"
      by (simp add: pending_def)
    ultimately show ?thesis using q' pop Cons
      by (force simp: pop_first_max_drain pop_ok_def conserves_def)
  qed
qed

lemma pop_fifo_Cons:
  assumes "queue_inv q" and "staging q = sl # stg"
  shows "pop_ok q (pop_fifo q)"
  using pop_from_staging_ok [OF assms(1), of "[]" sl stg] assms(2)
  by (simp add: pop_fifo_def pop_first_max_drain)

lemma pop_fifo_ok: "queue_inv q \<Longrightarrow> pop_ok q (pop_fifo q)"
  by (cases "staging q") (simp_all add: pop_fifo_Nil pop_fifo_Cons)

lemma affinity_choice_split:
  assumes "staging q = h # rest"
  obtains us sl vs where "staging q = us @ sl # vs"
    and "affinity_choice q now w h = (Some (flag_evicted sl), us @ vs)"
proof (cases "\<not> (head_starved q now w h \<or> batch_cap_hit q) \<and>
    pop_match_upto (staging_max q) (\<lambda>sl. sl_model_tag sl = w) (staging q) \<noteq> None")
  case True
  then obtain sl stg
    where m: "pop_match_upto (staging_max q) (\<lambda>sl. sl_model_tag sl = w) (staging q) = Some (sl, stg)"
    by auto
  from pop_match_upto_Some [OF m] obtain us vs where st: "staging q = us @ sl # vs" "stg = us @ vs"
    by blast
  moreover from True m st(2) have "affinity_choice q now w h = (Some (flag_evicted sl), us @ vs)"
    by (simp add: affinity_choice_def pop_first_matching_def)
  ultimately show thesis by (intro that)
next
  case False
  with assms have "affinity_choice q now w h = (Some (flag_evicted h), [] @ rest)"
    by (auto simp: affinity_choice_def pop_first_matching_def pop_first_max_drain split: option.splits)
  with assms show thesis by (intro that [of "[]" h rest]) simp_all
qed

lemma pop_affinity_ok:
  assumes "queue_inv q" and "staging q = h # rest"
  shows "pop_ok q (pop_affinity q now w h)"
proof -
  obtain us sl vs where st: "staging q = us @ sl # vs"
    and c: "affinity_choice q now w h = (Some (flag_evicted sl), us @ vs)"
    using assms(2) by (rule affinity_choice_split)
  show ?thesis
    unfolding pop_affinity_def c using pop_from_staging_ok [OF assms(1) st] by simp
qed

lemma pop_next_ok: "queue_inv q \<Longrightarrow> pop_ok q (pop_next q now warm)"
  by (auto simp: pop_next_def pop_fifo_ok pop_affinity_ok split: option.splits list.splits)

text \<open>
  C8: popping is total and loses nothing. On a queue whose buffers hold what they should,
  \<open>pop_next\<close> never raises, whatever model is warm: it returns nothing exactly when no
  request is pending; otherwise it returns one staged request, removes that one and leaves
  every other request in its place.
\<close>

theorem pop_next_serves_one_request:
  assumes "queue_inv q"
  shows "case pop_next q now warm of
           (Inl e, q') \<Rightarrow> False
         | (Inr None, q') \<Rightarrow> pending q = [] \<and> pending q' = [] \<and> queue_inv q'
         | (Inr (Some sl), q') \<Rightarrow>
             sl_state sl = STAGED \<and> queue_inv q' \<and>
             (\<exists>us vs. pending q = us @ sl_id sl # vs \<and> pending q' = us @ vs)"
proof -
  obtain r q' where res: "pop_next q now warm = (r, q')" by (cases "pop_next q now warm")
  from pop_next_ok [OF assms, of now warm] show ?thesis
    unfolding res pop_ok_def by (cases r) (auto split: option.splits)
qed

definition two_slot_queue :: tq where
  "two_slot_queue =
     (new_queue 1 8 3 20)
       \<lparr>staging := [(new_slot ''a'' 1 ''m'' [] [] [])\<lparr>sl_state := STAGED\<rparr>],
        accept_buf := [(new_slot ''b'' 2 ''n'' [] [] [])\<lparr>sl_state := ACCEPT_BUFFER\<rparr>]\<rparr>"

lemma two_slot_queue_inv [simp]: "queue_inv two_slot_queue"
  by (simp add: queue_inv_def two_slot_queue_def new_queue_def)

theorem pop_next_serves_one_request_witness:
  "queue_inv (snd (pop_next two_slot_queue 5 (Some ''n''))) \<and> pending two_slot_queue = [''slot-a'', ''slot-b'']"
proof -
  have "pending two_slot_queue = [''slot-a'', ''slot-b'']"
    by (simp add: pending_def two_slot_queue_def new_slot_def new_queue_def)
  with pop_next_serves_one_request [OF two_slot_queue_inv, of 5 "Some ''n''"] show ?thesis
    by (auto split: prod.splits sum.splits option.splits)
qed

subsection \<open>The strict FIFO path refines a FIFO queue\<close>

text \<open>
  Without removals in the middle of staging, the buffer is only used while staging is full,
  so the two tiers together are one FIFO queue in order of arrival.
\<close>

definition fifo_inv :: "tq \<Rightarrow> bool" where
  "fifo_inv q \<longleftrightarrow> queue_inv q \<and> (accept_buf q \<noteq> [] \<longrightarrow> staging_max q \<le> length (staging q))"

text \<open>\<open>pop_next()\<close> with no warm model, as the identifier it delivers.\<close>

definition pop_id :: "tq \<Rightarrow> string option \<times> tq" where
  "pop_id q =
     (case pop_fifo q of (Inl _, q') \<Rightarrow> (None, q') | (Inr r, q') \<Rightarrow> (map_option sl_id r, q'))"

lemma fifo_inv_queue_inv [simp]: "fifo_inv q \<Longrightarrow> queue_inv q"
  by (simp add: fifo_inv_def)

lemma fifo_inv_staging_Nil: "fifo_inv q \<Longrightarrow> staging q = [] \<longleftrightarrow> pending q = []"
  by (auto simp: fifo_inv_def queue_inv_def pending_def)

lemma pop_fifo_head:
  assumes "fifo_inv q" and "staging q = sl # stg"
  shows "\<exists>q'. pop_fifo q = (Inr (Some (flag_evicted sl)), q') \<and> fifo_inv q' \<and>
           pending q = sl_id sl # pending q'"
proof -
  let ?p = "q\<lparr>staging := stg\<rparr>"
  from assms have p: "queue_inv ?p" by (auto simp: fifo_inv_def queue_inv_def)
  obtain q' where q': "replenish_one ?p = (Inr (), q')" "queue_inv q'" "pending q' = pending ?p"
      "conserves ?p q'"
    using p by (rule replenish_one_ok)
  have "accept_buf q' \<noteq> [] \<longrightarrow> staging_max q' \<le> length (staging q')"
    using q'(1) assms by (auto simp: replenish_one_def fifo_inv_def queue_inv_def split: list.splits if_splits sum.splits)
  with q' assms show ?thesis
    by (auto simp: pop_fifo_def pop_first_max_drain pending_def fifo_inv_def)
qed

lemma pop_fifo_empty:
  assumes "fifo_inv q" and "staging q = []"
  shows "pop_fifo q = (Inr None, q)"
proof -
  from assms have "accept_buf q = []" by (auto simp: fifo_inv_def queue_inv_def)
  then have "q\<lparr>staging := [], accept_buf := []\<rparr> = q" using assms(2) by simp
  with assms(2) \<open>accept_buf q = []\<close> show ?thesis
    by (simp add: pop_fifo_def pop_first_max_drain refill_staging_def)
qed

interpretation strict: fifo_queue fifo_inv pending pop_id
proof unfold_locales
  fix q :: tq and x xs
  assume inv: "fifo_inv q"
  show "fst (pop_id q) = None" if "pending q = []"
    using inv that pop_fifo_empty [of q] by (simp add: pop_id_def fifo_inv_staging_Nil)
  show "fst (pop_id q) = Some x" if "pending q = x # xs"
  proof -
    from inv that obtain sl stg where "staging q = sl # stg"
      by (cases "staging q") (auto simp: fifo_inv_staging_Nil)
    with pop_fifo_head [OF inv this] that show ?thesis by (auto simp: pop_id_def)
  qed
  have pop: "pending (snd (pop_id q)) = tl (pending q) \<and> fifo_inv (snd (pop_id q))"
  proof (cases "staging q")
    case Nil
    with inv pop_fifo_empty [of q] show ?thesis by (simp add: pop_id_def fifo_inv_staging_Nil)
  next
    case (Cons sl stg)
    from pop_fifo_head [OF inv Cons] show ?thesis by (auto simp: pop_id_def)
  qed
  then show "pending (snd (pop_id q)) = tl (pending q)" and "fifo_inv (snd (pop_id q))" by simp_all
qed

lemma enqueue_fifo:
  assumes "fifo_inv q" and "enqueue q sl = Inr (q', sl')"
  shows "fifo_inv q' \<and> pending q' = pending q @ [sl_id sl]"
proof (cases "length (staging q) < staging_max q")
  case True
  with assms(1) have "accept_buf q = []" by (auto simp: fifo_inv_def)
  with True assms show ?thesis
    by (auto simp: enqueue_def fifo_inv_def queue_inv_def pending_def split: if_splits sum.splits)
next
  case False
  with assms show ?thesis
    by (auto simp: enqueue_def fifo_inv_def queue_inv_def pending_def split: if_splits sum.splits)
qed

text \<open>Submitting a list of slots one after the other.\<close>

fun enqueue_all :: "tq \<Rightarrow> slot list \<Rightarrow> queue_error + tq" where
  "enqueue_all q [] = Inr q"
| "enqueue_all q (sl # sls) = rbind (enqueue q sl) (\<lambda>(q', _). enqueue_all q' sls)"

lemma enqueue_all_fifo:
  "fifo_inv q \<Longrightarrow> enqueue_all q sls = Inr q' \<Longrightarrow>
     fifo_inv q' \<and> pending q' = pending q @ map sl_id sls"
proof (induction sls arbitrary: q)
  case (Cons sl sls)
  then obtain p sl' where "enqueue q sl = Inr (p, sl')" "enqueue_all p sls = Inr q'" by auto
  with Cons.IH [of p] enqueue_fifo [OF Cons.prems(1)] show ?case by auto
qed simp

text \<open>
  In strict FIFO use the two tiers are one queue. Requests that are accepted one after
  the other, through staging or through the acceptance buffer, are served in exactly that
  order.
\<close>

theorem fifo_order_of_service:
  assumes "fifo_inv q" and "pending q = []" and "enqueue_all q sls = Inr q'"
  shows "fst (drain_with pop_id (length sls) q') = map sl_id sls"
proof -
  from assms have "fifo_inv q'" and p: "pending q' = map sl_id sls"
    by (auto dest: enqueue_all_fifo)
  from strict.drain_all [OF this(1)] p show ?thesis by simp
qed

theorem fifo_order_of_service_witness:
  "\<exists>q'. enqueue_all (new_queue 1 8 3 20) (map (\<lambda>i. new_slot i 0 ''m'' [] [] []) [''a'', ''b'', ''c'']) = Inr q' \<and>
        fst (drain_with pop_id 3 q') = [''slot-a'', ''slot-b'', ''slot-c'']"
proof -
  let ?q = "new_queue 1 8 3 20" and ?s = "map (\<lambda>i. new_slot i 0 ''m'' [] [] []) [''a'', ''b'', ''c'']"
  have "fifo_inv ?q" and "pending ?q = []"
    by (simp_all add: fifo_inv_def queue_inv_def new_queue_def pending_def)
  moreover obtain q' where q': "enqueue_all ?q ?s = Inr q'"
    by (simp add: enqueue_def new_queue_def new_slot_def del: rbind_eq_Inr)
  ultimately have "fst (drain_with pop_id (length ?s) q') = map sl_id ?s"
    by (rule fifo_order_of_service)
  moreover have "length ?s = 3" and "map sl_id ?s = [''slot-a'', ''slot-b'', ''slot-c'']"
    by (simp_all add: new_slot_def)
  ultimately have "fst (drain_with pop_id 3 q') = [''slot-a'', ''slot-b'', ''slot-c'']"
    by (simp only:)
  with q' show ?thesis by blast
qed

subsection \<open>Affinity: bounded overtaking\<close>

text \<open>
  One affinity pop over a head of another model: the head is served, or it stays at the head
  and a slot of the warm model is served on the account of the run-length counter.
\<close>

lemma affinity_step:
  assumes inv: "queue_inv q" and stg: "staging q = h # rest" and other: "sl_model_tag h \<noteq> w"
  obtains q' where "pop_next q now (Some w) = (Inr (Some (flag_evicted h)), q')"
  | sl q' where "pop_next q now (Some w) = (Inr (Some sl), q')" and "queue_inv q'" and "conserves q q'"
    and "\<exists>rest'. staging q' = h # rest'" and "sl_model_tag sl = w" and "last_popped q' = Some w"
    and "consecutive q' = (if last_popped q = Some w then Suc (consecutive q) else 1)"
    and "consecutive q < max_consecutive q" and "now - sl_created_at h \<le> max_other_wait q"
proof (cases "pop_match_upto (staging_max q) (\<lambda>sl. sl_model_tag sl = w) (staging q)")
  case None
  then have choice: "affinity_choice q now w h = (Some (flag_evicted h), rest)"
    using stg by (simp add: affinity_choice_def pop_first_matching_def pop_first_max_drain)
  from inv stg have "queue_inv (q\<lparr>staging := rest\<rparr>)" by (simp add: queue_inv_def)
  then obtain p where "replenish_one (q\<lparr>staging := rest\<rparr>) = (Inr (), p)" by (rule replenish_one_ok)
  with choice stg that(1) show thesis by (simp add: pop_next_def pop_affinity_def)
next
  case (Some found)
  obtain sl zs where found: "found = (sl, zs)" by (cases found)
  from pop_match_upto_Some [OF Some [unfolded found]] obtain us vs
    where us: "staging q = us @ sl # vs" "zs = us @ vs" "sl_model_tag sl = w" by blast
  show thesis
  proof (cases "head_starved q now w h \<or> batch_cap_hit q")
    case True
    then have choice: "affinity_choice q now w h = (Some (flag_evicted h), rest)"
      using stg by (auto simp: affinity_choice_def pop_first_max_drain)
    from inv stg have "queue_inv (q\<lparr>staging := rest\<rparr>)" by (simp add: queue_inv_def)
    then obtain p where "replenish_one (q\<lparr>staging := rest\<rparr>) = (Inr (), p)" by (rule replenish_one_ok)
    with choice stg that(1) show thesis by (simp add: pop_next_def pop_affinity_def)
  next
    case False
    with Some found have choice: "affinity_choice q now w h = (Some (flag_evicted sl), us @ vs)"
      by (simp add: affinity_choice_def pop_first_matching_def us(2))
    from us stg other obtain us' where us': "us = h # us'" by (cases us) auto
    from inv us(1) have p: "queue_inv (q\<lparr>staging := us @ vs\<rparr>)" by (auto simp: queue_inv_def)
    obtain q' where q': "replenish_one (q\<lparr>staging := us @ vs\<rparr>) = (Inr (), q')" "queue_inv q'"
        "conserves (q\<lparr>staging := us @ vs\<rparr>) q'" "\<exists>ts. staging q' = staging (q\<lparr>staging := us @ vs\<rparr>) @ ts"
        "consecutive q' = consecutive (q\<lparr>staging := us @ vs\<rparr>)"
        "last_popped q' = last_popped (q\<lparr>staging := us @ vs\<rparr>)"
      using p by (rule replenish_one_ok)
    let ?r = "update_run_length (Some (flag_evicted sl)) q'"
    from choice q'(1) stg have "pop_next q now (Some w) = (Inr (Some (flag_evicted sl)), ?r)"
      by (simp add: pop_next_def pop_affinity_def)
    moreover from q' us' us(3) have "\<exists>rest'. staging ?r = h # rest'" by auto
    moreover from q' us(3) have "last_popped ?r = Some w"
      "consecutive ?r = (if last_popped q = Some w then Suc (consecutive q) else 1)"
      by (auto simp: update_run_length_def)
    moreover from False other have "consecutive q < max_consecutive q"
      "now - sl_created_at h \<le> max_other_wait q"
      by (auto simp: batch_cap_hit_def head_starved_def)
    ultimately show thesis
      using q'(2,3) us(3) by (intro that(2) [of "flag_evicted sl" ?r]) (auto simp: conserves_def)
  qed
qed

text \<open>The slots a sequence of pops with the same warm model delivers, at the given times.\<close>

fun serve :: "tq \<Rightarrow> string \<Rightarrow> time list \<Rightarrow> slot list" where
  "serve q w [] = []"
| "serve q w (now # ts) =
     (case pop_next q now (Some w) of
        (Inr (Some sl), q') \<Rightarrow> sl # serve q' w ts
      | _ \<Rightarrow> [])"

lemma serve_within_cap:
  assumes "queue_inv q" and "staging q = h # rest" and "sl_model_tag h \<noteq> w"
    and "last_popped q = Some w" and "max_consecutive q - consecutive q < length ts"
  shows "flag_evicted h \<in> set (serve q w ts)"
  using assms
proof (induction ts arbitrary: q rest)
  case (Cons now ts)
  from Cons.prems(1-3) show ?case
  proof (cases rule: affinity_step [where now = now])
    case (2 sl q')
    then obtain rest' where "staging q' = h # rest'" by blast
    moreover from 2 Cons.prems(4) have "consecutive q' = Suc (consecutive q)" by simp
    with 2 Cons.prems(5) have "max_consecutive q' - consecutive q' < length ts"
      by (auto simp: conserves_def)
    ultimately have "flag_evicted h \<in> set (serve q' w ts)"
      using Cons.IH [of q' rest'] 2 Cons.prems(3) by simp
    with 2 show ?thesis by simp
  qed simp
qed simp

text \<open>
  C7: model affinity cannot starve another model by count: while one model stays warm, a
  request of another model at the head of staging is served at the latest after
  \<open>max_consecutive_same_model\<close> slots of the warm model went first, whenever the pops
  happen.
\<close>

theorem affinity_overtaking_bounded:
  assumes inv: "queue_inv q" and stg: "staging q = h # rest" and other: "sl_model_tag h \<noteq> w"
    and enough: "max_consecutive q < length ts"
  shows "flag_evicted h \<in> set (serve q w ts)"
proof (cases ts)
  case (Cons now us)
  from inv stg other show ?thesis
  proof (cases rule: affinity_step [where now = now])
    case (2 sl q')
    then obtain rest' where rest': "staging q' = h # rest'" by blast
    have "max_consecutive q' - consecutive q' < length us"
      using 2 enough Cons by (auto simp: conserves_def split: if_splits)
    with serve_within_cap [of q' h rest' w us] 2 rest' other
    have "flag_evicted h \<in> set (serve q' w us)" by simp
    with 2 Cons show ?thesis by simp
  qed (use Cons in simp)
qed (use enough in simp)

definition overtaking_example :: tq where
  "overtaking_example =
     (new_queue 8 8 2 1000)
       \<lparr>staging := map (\<lambda>(i, m). (new_slot i 0 m [] [] [])\<lparr>sl_state := STAGED\<rparr>)
          [(''x'', ''cold''), (''a'', ''warm''), (''b'', ''warm''), (''c'', ''warm'')]\<rparr>"

theorem affinity_overtaking_bounded_witness:
  "map sl_id (serve overtaking_example ''warm'' [1, 2, 3]) = [''slot-a'', ''slot-b'', ''slot-x''] \<and>
   (new_slot ''x'' 0 ''cold'' [] [] [])\<lparr>sl_state := STAGED\<rparr> \<in> set (serve overtaking_example ''warm'' [1, 2, 3])"
proof -
  let ?x = "(new_slot ''x'' 0 ''cold'' [] [] [])\<lparr>sl_state := STAGED\<rparr>"
  have "flag_evicted ?x \<in> set (serve overtaking_example ''warm'' [1, 2, 3])"
    by (rule affinity_overtaking_bounded)
       (simp_all add: overtaking_example_def queue_inv_def new_queue_def new_slot_def)
  moreover have "flag_evicted ?x = ?x" by (simp add: flag_evicted_def client_gone_def new_slot_def)
  moreover have "map sl_id (serve overtaking_example ''warm'' [1, 2, 3]) = [''slot-a'', ''slot-b'', ''slot-x'']"
    by code_simp
  ultimately show ?thesis by simp
qed

text \<open>
  Nor by time: a head of another model that has waited longer than
  \<open>max_other_model_wait_s\<close> is the next slot served, whatever the counter says.
\<close>

theorem starved_head_is_served:
  assumes "queue_inv q" and "staging q = h # rest" and "sl_model_tag h \<noteq> w"
    and "now - sl_created_at h > max_other_wait q"
  shows "\<exists>q'. pop_next q now (Some w) = (Inr (Some (flag_evicted h)), q')"
  using assms(1-3) by (cases rule: affinity_step [where now = now]) (use assms(4) in auto)

theorem starved_head_is_served_witness:
  "\<exists>q'. pop_next overtaking_example 1001 (Some ''warm'') =
          (Inr (Some ((new_slot ''x'' 0 ''cold'' [] [] [])\<lparr>sl_state := STAGED\<rparr>)), q')"
proof -
  let ?x = "(new_slot ''x'' 0 ''cold'' [] [] [])\<lparr>sl_state := STAGED\<rparr>"
  have "\<exists>q'. pop_next overtaking_example 1001 (Some ''warm'') = (Inr (Some (flag_evicted ?x)), q')"
    by (rule starved_head_is_served)
       (simp_all add: overtaking_example_def queue_inv_def new_queue_def new_slot_def)
  then show ?thesis by (simp add: flag_evicted_def client_gone_def new_slot_def)
qed

end
