(* ===== verification/QueueRuns.thy ===== *)
theory QueueRuns
  imports Queues "HOL-Library.Multiset"
begin

text \<open>
  The queue under arbitrary interleavings of its methods. Each method body runs under the
  queue's lock, so an execution is a sequence of whole methods; between them clients may
  disconnect. Beside the queue the run records which requests were accepted and which left
  the queue, so that the conservation of requests can be stated.
\<close>

record qrun =
  rq :: tq
  accepted :: "string list"
  departed :: "string list"

definition init_run :: "tq \<Rightarrow> qrun" where
  "init_run q = \<lparr>rq = q, accepted = pending q, departed = []\<rparr>"

text \<open>The client of a request sets its disconnect event: the slots of that id see it.\<close>

definition disconnect_slot :: "string \<Rightarrow> slot \<Rightarrow> slot" where
  "disconnect_slot sid sl =
     (if sl_id sl = sid \<and> sl_disconnect sl \<noteq> None then sl\<lparr>sl_disconnect := Some True\<rparr> else sl)"

definition client_disconnects :: "string \<Rightarrow> tq \<Rightarrow> tq" where
  "client_disconnects sid q =
     q\<lparr>staging := map (disconnect_slot sid) (staging q),
       accept_buf := map (disconnect_slot sid) (accept_buf q)\<rparr>"

inductive queue_step :: "qrun \<Rightarrow> qrun \<Rightarrow> bool" where
  submit: "enqueue (rq s) sl = Inr (q', sl') \<Longrightarrow>
    queue_step s (s\<lparr>rq := q', accepted := sl_id sl # accepted s\<rparr>)"
| submit_head: "enqueue_head (rq s) sl = Inr (q', sl') \<Longrightarrow>
    queue_step s (s\<lparr>rq := q', accepted := sl_id sl # accepted s\<rparr>)"
| pop: "pop_next (rq s) now warm = (Inr (Some sl), q') \<Longrightarrow>
    queue_step s (s\<lparr>rq := q', departed := sl_id sl # departed s\<rparr>)"
| pop_raise: "pop_next (rq s) now warm = (Inl e, q') \<Longrightarrow> queue_step s (s\<lparr>rq := q'\<rparr>)"
| pop_none: "pop_next (rq s) now warm = (Inr None, q') \<Longrightarrow> queue_step s (s\<lparr>rq := q'\<rparr>)"
| rematch: "pop_matched_thread (rq s) thread tag = (Some sl, q') \<Longrightarrow>
    queue_step s (s\<lparr>rq := q', departed := sl_id sl # departed s\<rparr>)"
| remove: "remove_slot (rq s) sid = (Some sl, q') \<Longrightarrow>
    queue_step s (s\<lparr>rq := q', departed := sl_id sl # departed s\<rparr>)"
| shut: "close (rq s) = (cleared, q') \<Longrightarrow>
    queue_step s (s\<lparr>rq := q', departed := map sl_id cleared @ departed s\<rparr>)"
| drop_client: "queue_step s (s\<lparr>rq := client_disconnects sid (rq s)\<rparr>)"

inductive queue_reach :: "tq \<Rightarrow> qrun \<Rightarrow> bool" where
  start: "queue_reach q (init_run q)"
| step: "queue_reach q s \<Longrightarrow> queue_step s s' \<Longrightarrow> queue_reach q s'"

subsection \<open>Each method keeps the invariant and the books\<close>

lemma enqueue_books:
  "queue_inv q \<Longrightarrow> enqueue q sl = Inr (q', sl') \<Longrightarrow>
     queue_inv q' \<and> mset (pending q') = mset (pending q) + {#sl_id sl#}"
  by (auto simp: enqueue_def queue_inv_def pending_def split: if_splits sum.splits)

lemma enqueue_head_books:
  "queue_inv q \<Longrightarrow> enqueue_head q sl = Inr (q', sl') \<Longrightarrow>
     queue_inv q' \<and> mset (pending q') = mset (pending q) + {#sl_id sl#}"
  by (auto simp: enqueue_head_def queue_inv_def pending_def split: if_splits sum.splits)

lemma pop_matched_books:
  assumes "queue_inv q" and "pop_matched_thread q thread tag = (Some sl, q')"
  shows "queue_inv q' \<and> mset (pending q) = mset (pending q') + {#sl_id sl#}"
proof -
  from assms(2) obtain m stg where m: "pop_match (thread_match thread tag) (staging q) = Some (m, stg)"
    and sl: "sl = flag_evicted m" "q' = q\<lparr>staging := stg\<rparr>"
    by (auto simp: pop_matched_thread_def split: if_splits option.splits)
  from pop_match_Some [OF m] obtain us vs where "staging q = us @ m # vs" "stg = us @ vs" by blast
  with assms(1) sl show ?thesis by (auto simp: queue_inv_def pending_def)
qed

lemma remove_books:
  assumes "queue_inv q" and "remove_slot q sid = (Some sl, q')"
  shows "queue_inv q' \<and> mset (pending q) = mset (pending q') + {#sl_id sl#}"
proof (cases "pop_match (\<lambda>sl. sl_id sl = sid) (staging q)")
  case None
  with assms(2) obtain acc
    where m: "pop_match (\<lambda>sl. sl_id sl = sid) (accept_buf q) = Some (sl, acc)"
      and q': "q' = q\<lparr>accept_buf := acc\<rparr>"
    by (auto simp: remove_slot_def split: option.splits)
  from pop_match_Some [OF m] obtain us vs where "accept_buf q = us @ sl # vs" "acc = us @ vs" by blast
  with assms(1) q' show ?thesis by (auto simp: queue_inv_def pending_def)
next
  case (Some found)
  with assms(2) obtain stg
    where m: "pop_match (\<lambda>sl. sl_id sl = sid) (staging q) = Some (sl, stg)"
      and q': "q' = q\<lparr>staging := stg\<rparr>"
    by (auto simp: remove_slot_def split: option.splits prod.splits)
  from pop_match_Some [OF m] obtain us vs where "staging q = us @ sl # vs" "stg = us @ vs" by blast
  with assms(1) q' show ?thesis by (auto simp: queue_inv_def pending_def)
qed

lemma close_books:
  "queue_inv q \<Longrightarrow> close q = (cleared, q') \<Longrightarrow>
     queue_inv q' \<and> pending q = map sl_id cleared \<and> pending q' = []"
  by (auto simp: close_def queue_inv_def pending_def)

lemma disconnect_slot_frame [simp, frame]:
  "sl_id (disconnect_slot sid sl) = sl_id sl"
  "sl_state (disconnect_slot sid sl) = sl_state sl"
  by (auto simp: disconnect_slot_def)

lemma disconnect_books:
  "queue_inv q \<Longrightarrow> queue_inv (client_disconnects sid q) \<and> pending (client_disconnects sid q) = pending q"
  by (auto simp: client_disconnects_def queue_inv_def pending_def)

lemma pop_next_books:
  assumes "queue_inv q" and "pop_next q now warm = (Inr (Some sl), q')"
  shows "queue_inv q' \<and> mset (pending q) = mset (pending q') + {#sl_id sl#}"
  using pop_next_ok [OF assms(1), of now warm] assms(2) by (auto simp: pop_ok_def)

lemmas queue_books =
  enqueue_books enqueue_head_books pop_matched_books remove_books close_books pop_next_books

definition run_inv :: "qrun \<Rightarrow> bool" where
  "run_inv s \<longleftrightarrow>
     queue_inv (rq s) \<and> mset (accepted s) = mset (departed s) + mset (pending (rq s))"

lemma queue_step_inv: "queue_step s s' \<Longrightarrow> run_inv s \<Longrightarrow> run_inv s'"
proof (induction rule: queue_step.induct)
  case (pop_raise s now warm e q')
  then have "pop_ok (rq s) (Inl e, q')" using pop_next_ok [of "rq s" now warm] by (simp add: run_inv_def)
  then show ?case by (simp add: pop_ok_def)
next
  case (pop_none s now warm q')
  then show ?case using pop_next_ok [of "rq s" now warm] by (simp add: run_inv_def pop_ok_def)
qed (auto simp: run_inv_def disconnect_books dest: queue_books)

lemma queue_reach_inv: "queue_reach q s \<Longrightarrow> queue_inv q \<Longrightarrow> run_inv s"
proof (induction rule: queue_reach.induct)
  case (start q)
  then show ?case by (simp add: run_inv_def init_run_def)
qed (blast intro: queue_step_inv)

text \<open>
  C6: conservation under concurrency. In every execution of the queue, whatever the order
  of submissions, head insertions, pops, rematches, removals, disconnects and the final
  close, the requests accepted so far are exactly those delivered plus those still pending:
  none is lost and none is served twice; and no pop ever raises.
\<close>

theorem queue_conserves_requests:
  assumes "queue_inv q" and "queue_reach q s"
  shows "mset (accepted s) = mset (departed s) + mset (pending (rq s)) \<and>
         (\<forall>now warm. is_ok (fst (pop_next (rq s) now warm)))"
proof -
  from assms have "run_inv s" by (blast intro: queue_reach_inv)
  then have "queue_inv (rq s)" by (simp add: run_inv_def)
  then have "is_ok (fst (pop_next (rq s) now warm))" for now warm
    using pop_next_ok [of "rq s" now warm] by (auto simp: pop_ok_def is_ok_def split: sum.splits)
  with \<open>run_inv s\<close> show ?thesis by (simp add: run_inv_def)
qed

theorem queue_conserves_requests_witness:
  "\<exists>s. queue_reach two_slot_queue s \<and> departed s = [''slot-a''] \<and>
       mset (accepted s) = mset (departed s) + mset (pending (rq s))"
proof -
  obtain sl q' where p: "pop_next two_slot_queue 5 None = (Inr (Some sl), q')" "sl_id sl = ''slot-a''"
    by (simp add: two_slot_queue_def pop_next_def pop_fifo_def pop_first_max_drain replenish_one_def
        new_queue_def new_slot_def flag_evicted_def client_gone_def)
  let ?s = "(init_run two_slot_queue)\<lparr>rq := q', departed := [sl_id sl]\<rparr>"
  have "queue_step (init_run two_slot_queue) ?s"
    using queue_step.pop [of "init_run two_slot_queue" 5 None sl q'] p by (simp add: init_run_def)
  with queue_reach.start have reach: "queue_reach two_slot_queue ?s" by (rule queue_reach.step)
  with queue_conserves_requests [OF two_slot_queue_inv this] p(2) show ?thesis by (intro exI [of _ ?s]) simp
qed

subsection \<open>Where the two tiers are not one queue\<close>

text \<open>
  Removing a slot from the middle of staging (a rematch in the grace window) leaves the
  acceptance buffer as it is, so the next submission takes the free staging place ahead of
  every buffered request that arrived before it.
\<close>

theorem rematch_lets_newcomers_overtake:
  assumes "queue_inv q" and "closed q = False" and "length (staging q) = staging_max q"
    and "accept_buf q = old # olds"
    and "pop_matched_thread q thread tag = (Some sl, q')" and "sl_state new = RECEIVED"
  shows "\<exists>q'' us. enqueue q' new = Inr (q'', new\<lparr>sl_state := STAGED\<rparr>) \<and>
           pending q'' = us @ sl_id new # sl_id old # map sl_id olds"
proof -
  from assms(5) obtain m stg where m: "pop_match (thread_match thread tag) (staging q) = Some (m, stg)"
    and q': "q' = q\<lparr>staging := stg\<rparr>"
    by (auto simp: pop_matched_thread_def split: if_splits option.splits)
  from pop_match_Some [OF m] obtain us vs where "staging q = us @ m # vs" "stg = us @ vs" by blast
  with assms(3) have "length stg < staging_max q" by simp
  with assms(2,4,6) q' show ?thesis by (simp add: enqueue_def pending_def)
qed

definition full_queue :: tq where
  "full_queue =
     (new_queue 1 8 3 20)
       \<lparr>staging := [(new_slot ''a'' 1 ''m'' [] ''t'' [])\<lparr>sl_state := STAGED\<rparr>],
        accept_buf := [(new_slot ''b'' 2 ''m'' [] ''u'' [])\<lparr>sl_state := ACCEPT_BUFFER\<rparr>]\<rparr>"

theorem rematch_lets_newcomers_overtake_witness:
  "\<exists>q'' us. enqueue (snd (pop_matched_thread full_queue ''t'' ''m'')) (new_slot ''c'' 9 ''m'' [] ''v'' [])
       = Inr (q'', (new_slot ''c'' 9 ''m'' [] ''v'' [])\<lparr>sl_state := STAGED\<rparr>) \<and>
     pending q'' = us @ [''slot-c'', ''slot-b'']"
proof -
  let ?a = "(new_slot ''a'' 1 ''m'' [] ''t'' [])\<lparr>sl_state := STAGED\<rparr>"
  let ?b = "(new_slot ''b'' 2 ''m'' [] ''u'' [])\<lparr>sl_state := ACCEPT_BUFFER\<rparr>"
  let ?c = "new_slot ''c'' 9 ''m'' [] ''v'' []"
  have pop: "pop_matched_thread full_queue ''t'' ''m'' = (Some ?a, full_queue\<lparr>staging := []\<rparr>)"
    by (simp add: full_queue_def pop_matched_thread_def thread_match_def new_slot_def new_queue_def
        flag_evicted_def client_gone_def)
  have "\<exists>q'' us. enqueue (full_queue\<lparr>staging := []\<rparr>) ?c = Inr (q'', ?c\<lparr>sl_state := STAGED\<rparr>) \<and>
      pending q'' = us @ sl_id ?c # sl_id ?b # map sl_id ([] :: slot list)"
    using pop
    by (intro rematch_lets_newcomers_overtake [of full_queue ?b "[]" "''t''" "''m''" ?a _ ?c])
       (simp_all add: full_queue_def queue_inv_def new_queue_def new_slot_def)
  with pop show ?thesis by (simp add: new_slot_def)
qed

text \<open>
  The staging cap binds \<open>enqueue\<close> only. Inserting at the head always succeeds on an
  open queue for a slot that may be staged, so it takes a full staging queue past
  \<open>staging_max\<close>, by one for every head insertion.
\<close>

theorem enqueue_head_ignores_cap:
  assumes "closed q = False" and "sl_state sl = STAGED \<or> can_move (sl_state sl) STAGED"
    and "length (staging q) \<ge> staging_max q"
  shows "\<exists>q'. enqueue_head q sl = Inr (q', sl\<lparr>sl_state := STAGED\<rparr>) \<and>
           length (staging q') > staging_max q' \<and> hd (pending q') = sl_id sl"
  using assms by (auto simp: enqueue_head_def pending_def)

theorem enqueue_head_ignores_cap_witness:
  "\<exists>q'. enqueue_head full_queue (new_slot ''c'' 9 ''m'' [] ''v'' []) =
       Inr (q', (new_slot ''c'' 9 ''m'' [] ''v'' [])\<lparr>sl_state := STAGED\<rparr>) \<and>
     length (staging q') > staging_max q' \<and> hd (pending q') = ''slot-c''"
proof -
  let ?c = "new_slot ''c'' 9 ''m'' [] ''v'' []"
  have "\<exists>q'. enqueue_head full_queue ?c = Inr (q', ?c\<lparr>sl_state := STAGED\<rparr>) \<and>
      length (staging q') > staging_max q' \<and> hd (pending q') = sl_id ?c"
    by (rule enqueue_head_ignores_cap) (simp_all add: full_queue_def new_queue_def new_slot_def)
  then show ?thesis by (simp add: new_slot_def)
qed

end
