(* ===== verification/Timers.thy ===== *)
theory Timers
  imports Prelude
begin

text \<open>
  The timers of \<open>queue.py\<close>: the grace window after a slot completes, with its cap on
  extensions, and the idle window of a warm model. Every method that reads
  \<open>time.monotonic()\<close> takes the reading as its argument. The keep-alive arithmetic of
  \<open>manager.py\<close> that chooses the idle window is here too, with \<open>KEEP_ALIVE_MAX_S\<close> of
  \<open>config.py\<close>.
\<close>

subsection \<open>The grace timer\<close>

record grace_timer =
  g_seconds :: time
  g_max_extensions :: nat
  g_started_at :: "time option"
  g_thread_id :: "string option"
  g_model_tag :: "string option"
  g_extension_count :: nat

definition new_grace :: "time \<Rightarrow> nat \<Rightarrow> grace_timer" where
  "new_grace secs ext =
     \<lparr>g_seconds = secs, g_max_extensions = ext, g_started_at = None, g_thread_id = None,
      g_model_tag = None, g_extension_count = 0\<rparr>"

definition grace_start :: "grace_timer \<Rightarrow> time \<Rightarrow> string \<Rightarrow> string \<Rightarrow> grace_timer" where
  "grace_start g now thread tag =
     g\<lparr>g_started_at := Some now, g_thread_id := Some thread, g_model_tag := Some tag,
       g_extension_count := 0\<rparr>"

definition restart_for_followup :: "grace_timer \<Rightarrow> time \<Rightarrow> bool \<times> grace_timer" where
  "restart_for_followup g now =
     (if g_max_extensions g \<le> g_extension_count g then (False, g)
      else (True, g\<lparr>g_extension_count := Suc (g_extension_count g), g_started_at := Some now\<rparr>))"

definition grace_remaining :: "grace_timer \<Rightarrow> time \<Rightarrow> time" where
  "grace_remaining g now =
     (case g_started_at g of None \<Rightarrow> 0 | Some s \<Rightarrow> max 0 (g_seconds g - (now - s)))"

definition grace_expired :: "grace_timer \<Rightarrow> time \<Rightarrow> bool" where
  "grace_expired g now \<longleftrightarrow> g_started_at g = None \<or> grace_remaining g now \<le> 0"

definition grace_matches :: "grace_timer \<Rightarrow> time \<Rightarrow> string \<Rightarrow> string \<Rightarrow> bool" where
  "grace_matches g now thread tag \<longleftrightarrow>
     g_started_at g \<noteq> None \<and> g_thread_id g = Some thread \<and> g_model_tag g = Some tag \<and>
     \<not> grace_expired g now"

definition grace_reset :: "grace_timer \<Rightarrow> grace_timer" where
  "grace_reset g =
     g\<lparr>g_started_at := None, g_thread_id := None, g_model_tag := None, g_extension_count := 0\<rparr>"

lemma grace_expired_iff:
  "grace_expired g now \<longleftrightarrow>
     (case g_started_at g of None \<Rightarrow> True | Some s \<Rightarrow> s + g_seconds g \<le> now)"
  by (auto simp: grace_expired_def grace_remaining_def split: option.splits)

lemma grace_reset_never_matches: "\<not> grace_matches (grace_reset g) now thread tag"
  by (simp add: grace_matches_def grace_reset_def)

text \<open>
  What \<open>submit\<close> does to the timer for a request of a thread: a matching request restarts
  the window while extensions remain.
\<close>

definition grace_submit :: "grace_timer \<Rightarrow> string \<Rightarrow> string \<Rightarrow> time \<Rightarrow> grace_timer" where
  "grace_submit g thread tag now =
     (if grace_matches g now thread tag then snd (restart_for_followup g now) else g)"

fun grace_run :: "grace_timer \<Rightarrow> (time \<times> string \<times> string) list \<Rightarrow> grace_timer" where
  "grace_run g [] = g"
| "grace_run g ((now, thread, tag) # rs) = grace_run (grace_submit g thread tag now) rs"

definition grace_bounded :: "time \<Rightarrow> grace_timer \<Rightarrow> bool" where
  "grace_bounded t0 g \<longleftrightarrow>
     g_extension_count g \<le> g_max_extensions g \<and>
     (\<exists>s. g_started_at g = Some s \<and> s \<le> t0 + of_nat (g_extension_count g) * g_seconds g)"

lemma grace_submit_bounded:
  assumes "grace_bounded t0 g"
  shows "grace_bounded t0 (grace_submit g thread tag now)"
proof (cases "grace_matches g now thread tag \<and> g_extension_count g < g_max_extensions g")
  case True
  from assms obtain s where s: "g_started_at g = Some s"
    "s \<le> t0 + of_nat (g_extension_count g) * g_seconds g"
    by (auto simp: grace_bounded_def)
  from True s(1) have "now < s + g_seconds g"
    by (auto simp: grace_matches_def grace_expired_iff)
  with s(2) have "now \<le> t0 + of_nat (Suc (g_extension_count g)) * g_seconds g"
    by (simp add: algebra_simps)
  with True show ?thesis
    by (simp add: grace_bounded_def grace_submit_def restart_for_followup_def)
next
  case False
  with assms show ?thesis
    by (auto simp: grace_submit_def restart_for_followup_def)
qed

lemma grace_submit_frame [simp, frame]:
  "g_seconds (grace_submit g thread tag now) = g_seconds g"
  "g_max_extensions (grace_submit g thread tag now) = g_max_extensions g"
  by (simp_all add: grace_submit_def restart_for_followup_def)

lemma grace_run_bounded:
  "grace_bounded t0 g \<Longrightarrow>
     grace_bounded t0 (grace_run g rs) \<and> g_seconds (grace_run g rs) = g_seconds g \<and>
     g_max_extensions (grace_run g rs) = g_max_extensions g"
proof (induction rs arbitrary: g)
  case (Cons r rs)
  obtain now thread tag where r: "r = (now, thread, tag)" by (cases r)
  from Cons.IH [of "grace_submit g thread tag now"] Cons.prems
  show ?case by (simp add: r grace_submit_bounded)
qed simp



subsection \<open>The idle timer\<close>

record idle_timer =
  i_seconds :: time
  i_started_at :: "time option"
  i_model_tag :: "string option"

definition new_idle :: "time \<Rightarrow> idle_timer" where
  "new_idle secs = \<lparr>i_seconds = secs, i_started_at = None, i_model_tag = None\<rparr>"

definition idle_start :: "idle_timer \<Rightarrow> time \<Rightarrow> string \<Rightarrow> idle_timer" where
  "idle_start i now tag = i\<lparr>i_started_at := Some now, i_model_tag := Some tag\<rparr>"

definition idle_remaining :: "idle_timer \<Rightarrow> time \<Rightarrow> time" where
  "idle_remaining i now =
     (case i_started_at i of None \<Rightarrow> 0 | Some s \<Rightarrow> max 0 (i_seconds i - (now - s)))"

definition idle_expired :: "idle_timer \<Rightarrow> time \<Rightarrow> bool" where
  "idle_expired i now \<longleftrightarrow> i_started_at i = None \<or> idle_remaining i now \<le> 0"

definition matches_same_model :: "idle_timer \<Rightarrow> time \<Rightarrow> string \<Rightarrow> bool" where
  "matches_same_model i now tag \<longleftrightarrow>
     i_started_at i \<noteq> None \<and> i_model_tag i = Some tag \<and> \<not> idle_expired i now"

definition idle_reset :: "idle_timer \<Rightarrow> idle_timer" where
  "idle_reset i = i\<lparr>i_started_at := None, i_model_tag := None\<rparr>"

lemma idle_expired_iff:
  "idle_expired i now \<longleftrightarrow>
     (case i_started_at i of None \<Rightarrow> True | Some s \<Rightarrow> s + i_seconds i \<le> now)"
  by (auto simp: idle_expired_def idle_remaining_def split: option.splits)

subsection \<open>Keep-alive arithmetic\<close>

definition KEEP_ALIVE_MAX_S :: int where
  "KEEP_ALIVE_MAX_S = 1800"

text \<open>\<open>_idle_window_seconds\<close>, and the same arithmetic at the end of \<open>_process_slot\<close>.\<close>

definition idle_window_seconds :: "int option \<Rightarrow> int \<Rightarrow> int" where
  "idle_window_seconds keep dflt =
     (case keep of
        None \<Rightarrow> dflt
      | Some k \<Rightarrow> if k < 0 then KEEP_ALIVE_MAX_S else min k KEEP_ALIVE_MAX_S)"

text \<open>\<open>ka_clamped\<close>, the audit flag for a keep-alive that was cut.\<close>

definition keep_alive_clamped :: "int option \<Rightarrow> bool" where
  "keep_alive_clamped keep \<longleftrightarrow> (case keep of None \<Rightarrow> False | Some k \<Rightarrow> 0 \<le> k \<and> KEEP_ALIVE_MAX_S < k)"

text \<open>The per-model default of a resident's driver, from the manifest's idle seconds.\<close>

definition per_model_idle :: "int \<Rightarrow> int \<Rightarrow> int" where
  "per_model_idle sleep_idle dflt =
     (if sleep_idle = -1 then KEEP_ALIVE_MAX_S else if 0 < sleep_idle then sleep_idle else dflt)"

text \<open>
  A client's keep-alive can pin a model for at most \<open>KEEP_ALIVE_MAX_S\<close> and never
  makes the window negative; a request of zero disables the warm hold, a negative one asks
  for the maximum, and only the absence of a request uses the configured default.
\<close>

theorem idle_window_spec:
  "idle_window_seconds None dflt = dflt \<and>
   idle_window_seconds (Some k) dflt \<in> {0..KEEP_ALIVE_MAX_S} \<and>
   (idle_window_seconds (Some k) dflt = 0 \<longleftrightarrow> k = 0) \<and>
   (idle_window_seconds (Some k) dflt \<noteq> k \<longleftrightarrow> k < 0 \<or> keep_alive_clamped (Some k))"
  by (auto simp: idle_window_seconds_def KEEP_ALIVE_MAX_S_def keep_alive_clamped_def)

end
