(* ===== verification/GpuBackend.thy ===== *)
theory GpuBackend
  imports Slots
begin

text \<open>
  \<open>gpu_backend.py\<close>: the two GPU back ends, the parsing of what their tools print, the
  detection of a back end and the cached choice. What a tool prints on one call is an input
  (\<open>None\<close> when the call fails); the JSON text of \<open>rocm-smi\<close> arrives as the value
  \<open>json.loads\<close> makes of it (\<open>None\<close> when it does not parse).
\<close>

subsection \<open>nvidia-smi\<close>

definition first_field :: "string \<Rightarrow> string" where
  "first_field line = strip (hd (split_on (CHR '','') (strip line)))"

definition parse_csv_ints :: "string option \<Rightarrow> int list option" where
  "parse_csv_ints raw =
     (case raw of
        None \<Rightarrow> None
      | Some text \<Rightarrow>
          (let vals = List.map_filter (\<lambda>line. py_int (first_field line)) (split_lines (strip text))
           in if vals = [] then None else Some vals))"

definition first_value :: "int list option \<Rightarrow> int option" where
  "first_value vals = (case vals of Some (v # _) \<Rightarrow> Some v | _ \<Rightarrow> None)"

text \<open>\<open>NvidiaBackend.scan_compute_apps\<close>: (pid, used MiB) per well-formed line.\<close>

definition parse_app_line :: "string \<Rightarrow> (int \<times> int) option" where
  "parse_app_line raw =
     (let line = strip raw; parts = map strip (split_on (CHR '','') line)
      in if line = [] then None
         else case parts of
           p # u # _ \<Rightarrow>
             (case (py_int p, py_int u) of (Some pid, Some used) \<Rightarrow> Some (pid, used) | _ \<Rightarrow> None)
         | _ \<Rightarrow> None)"

definition nvidia_scan_compute_apps :: "string option \<Rightarrow> (int \<times> int) list" where
  "nvidia_scan_compute_apps out =
     (case out of None \<Rightarrow> [] | Some text \<Rightarrow> List.map_filter parse_app_line (split_lines text))"

subsection \<open>rocm-smi\<close>

text \<open>
  \<open>int(v)\<close> on a JSON value: a number is truncated, a string parsed, anything else is a
  TypeError or ValueError (\<open>IntBad\<close>); an infinite float raises OverflowError, which the
  caller does not catch.
\<close>

datatype int_conv = IntOk int | IntBad | IntOverflow

fun int_of_json :: "pyval \<Rightarrow> int_conv" where
  "int_of_json (PyInt i) = IntOk i"
| "int_of_json (PyBool b) = IntOk (if b then 1 else 0)"
| "int_of_json (PyFloat (Finite x)) = IntOk (if x < 0 then - \<lfloor>- x\<rfloor> else \<lfloor>x\<rfloor>)"
| "int_of_json (PyFloat NaN) = IntBad"
| "int_of_json (PyFloat _) = IntOverflow"
| "int_of_json (PyStr s) = (case py_int s of None \<Rightarrow> IntBad | Some i \<Rightarrow> IntOk i)"
| "int_of_json _ = IntBad"

record vram_dev =
  vd_total :: int
  vd_used :: int
  vd_free :: int

definition MIB :: int where
  "MIB = 1024 * 1024"

definition vram_device :: "int \<Rightarrow> int \<Rightarrow> vram_dev" where
  "vram_device tot used =
     \<lparr>vd_total = tot div MIB, vd_used = used div MIB, vd_free = (tot - used) div MIB\<rparr>"

text \<open>One entry of the document: skipped, a device, or an escaping OverflowError.\<close>

definition vram_entry :: "pyval \<Rightarrow> exn + vram_dev option" where
  "vram_entry v =
     (case v of
        PyDict d \<Rightarrow>
          (case dict_get d ''vram'' of
             Some (PyDict vr) \<Rightarrow>
               (let tot = (case dict_get vr ''total'' of Some x \<Rightarrow> x | None \<Rightarrow> PyInt 0);
                    used = (case dict_get vr ''used'' of Some x \<Rightarrow> x | None \<Rightarrow> PyInt 0)
                in case (int_of_json tot, int_of_json used) of
                     (IntOk t, IntOk u) \<Rightarrow> Inr (Some (vram_device t u))
                   | (IntOverflow, _) \<Rightarrow> Inl (OtherExc ''OverflowError'')
                   | (IntOk _, IntOverflow) \<Rightarrow> Inl (OtherExc ''OverflowError'')
                   | _ \<Rightarrow> Inr None)
           | _ \<Rightarrow> Inr None)
      | _ \<Rightarrow> Inr None)"

fun vram_entries :: "(string \<times> pyval) list \<Rightarrow> exn + vram_dev list" where
  "vram_entries [] = Inr []"
| "vram_entries ((k, v) # kvs) =
     rbind (vram_entry v) (\<lambda>e. rbind (vram_entries kvs) (\<lambda>ds.
       Inr (case e of None \<Rightarrow> ds | Some d \<Rightarrow> d # ds)))"

definition parse_vram_json :: "pyval option \<Rightarrow> exn + vram_dev list option" where
  "parse_vram_json data =
     (case data of
        Some (PyDict kvs) \<Rightarrow>
          rbind (vram_entries kvs) (\<lambda>ds. Inr (if ds = [] then None else Some ds))
      | _ \<Rightarrow> Inr None)"

definition rocm_free :: "pyval option \<Rightarrow> exn + int list option" where
  "rocm_free data = rbind (parse_vram_json data) (\<lambda>r. Inr (map_option (map vd_free) r))"

definition rocm_total :: "pyval option \<Rightarrow> exn + int list option" where
  "rocm_total data = rbind (parse_vram_json data) (\<lambda>r. Inr (map_option (map vd_total) r))"

text \<open>\<open>get_gpu_used_mib\<close>: two calls of the tool, so two documents.\<close>

definition rocm_used :: "pyval option \<Rightarrow> pyval option \<Rightarrow> exn + int option" where
  "rocm_used d1 d2 =
     rbind (rocm_free d1) (\<lambda>free. rbind (rocm_total d2) (\<lambda>tot.
       Inr (case (free, tot) of (Some (f # _), Some (t # _)) \<Rightarrow> Some (t - f) | _ \<Rightarrow> None)))"

definition rocm_pid_line :: "string \<Rightarrow> (int \<times> int) option" where
  "rocm_pid_line raw =
     (let line = strip raw
      in if line = [] \<or> starts_with ''/'' line \<or> contains ''PID'' line \<or> contains ''---'' line then None
         else case split_ws line of
           p # _ # _ \<Rightarrow> map_option (\<lambda>pid. (pid, 0)) (py_int p)
         | _ \<Rightarrow> None)"

definition rocm_scan_compute_apps :: "string option \<Rightarrow> (int \<times> int) list" where
  "rocm_scan_compute_apps raw =
     (case raw of
        None \<Rightarrow> []
      | Some text \<Rightarrow>
          if text = [] \<or> contains ''error'' (lower text) \<or> contains ''usage'' (lower text)
             \<or> contains ''ambiguous'' (lower text) then []
          else List.map_filter rocm_pid_line (split_lines text))"

subsection \<open>Detection and the cached back end\<close>

datatype backend = Nvidia | Rocm

text \<open>What the tools answer when probed.\<close>

record gpu_tools =
  nv_free :: "string option"
  nv_apps :: "string option"
  rocm_mem :: "pyval option"
  rocm_pids :: "string option"

definition usable :: "gpu_tools \<Rightarrow> backend \<Rightarrow> exn + bool" where
  "usable t b =
     (case b of
        Nvidia \<Rightarrow> Inr (parse_csv_ints (nv_free t) \<noteq> None \<or> nvidia_scan_compute_apps (nv_apps t) \<noteq> [])
      | Rocm \<Rightarrow> rbind (rocm_free (rocm_mem t)) (\<lambda>free.
                  Inr (free \<noteq> None \<or> rocm_scan_compute_apps (rocm_pids t) \<noteq> [])))"

fun first_usable :: "gpu_tools \<Rightarrow> backend list \<Rightarrow> exn + backend option" where
  "first_usable t [] = Inr None"
| "first_usable t (b # bs) =
     rbind (usable t b) (\<lambda>u. if u then Inr (Some b) else first_usable t bs)"

definition detect_backend :: "gpu_tools \<Rightarrow> string \<Rightarrow> exn + backend option" where
  "detect_backend t preferred =
     (if preferred = ''nvidia'' then first_usable t [Nvidia]
      else if preferred = ''rocm'' then first_usable t [Rocm]
      else first_usable t [Nvidia, Rocm])"

text \<open>The module variable \<open>_backend\<close> is the state.\<close>

definition get_backend :: "gpu_tools \<Rightarrow> backend option \<Rightarrow> exn + backend option" where
  "get_backend t cached = (case cached of None \<Rightarrow> detect_backend t ''auto'' | Some b \<Rightarrow> Inr (Some b))"

datatype backend_choice = ByName string | ByObject "backend option"

definition set_backend :: "gpu_tools \<Rightarrow> backend_choice \<Rightarrow> exn + backend option" where
  "set_backend t c =
     (case c of ByName n \<Rightarrow> detect_backend t n | ByObject b \<Rightarrow> Inr b)"

definition reset_backend :: "backend option" where
  "reset_backend = None"

text \<open>\<open>_read_free_vram_all_mib\<close> and \<open>_read_total_vram_all_mib\<close> of \<open>safety.py\<close>.\<close>

record gpu_readings =
  gr_nv_free :: "string option"
  gr_nv_total :: "string option"
  gr_rocm :: "pyval option"

definition read_free_vram_all :: "backend option \<Rightarrow> gpu_readings \<Rightarrow> exn + int list option" where
  "read_free_vram_all b r =
     (case b of
        None \<Rightarrow> Inr None
      | Some Nvidia \<Rightarrow> Inr (parse_csv_ints (gr_nv_free r))
      | Some Rocm \<Rightarrow> rocm_free (gr_rocm r))"

definition read_total_vram_all :: "backend option \<Rightarrow> gpu_readings \<Rightarrow> exn + int list option" where
  "read_total_vram_all b r =
     (case b of
        None \<Rightarrow> Inr None
      | Some Nvidia \<Rightarrow> Inr (parse_csv_ints (gr_nv_total r))
      | Some Rocm \<Rightarrow> rocm_total (gr_rocm r))"

subsection \<open>Lemmas\<close>

text \<open>A reading is never an empty list: the callers may take its first element.\<close>

lemma parse_csv_ints_nonempty: "parse_csv_ints raw \<noteq> Some []"
  by (auto simp: parse_csv_ints_def Let_def split: option.splits)

lemma parse_vram_json_nonempty: "parse_vram_json data \<noteq> Inr (Some [])"
  by (auto simp: parse_vram_json_def split: option.splits pyval.splits)

lemma read_free_nonempty: "read_free_vram_all b r \<noteq> Inr (Some [])"
  using parse_csv_ints_nonempty [of "gr_nv_free r"] parse_vram_json_nonempty [of "gr_rocm r"]
  by (auto simp: read_free_vram_all_def rocm_free_def split: option.splits backend.splits)

text \<open>
  The documented way to disable GPU probing does not disable it. After
  \<open>set_backend(None)\<close> the cached choice is the one of a fresh start, so the next
  \<open>get_backend\<close> detects again and answers a back end whenever a tool does.
\<close>

theorem set_backend_None_redetects:
  "rbind (set_backend t (ByObject None)) (get_backend t) = detect_backend t ''auto'' \<and>
   set_backend t (ByObject None) = Inr reset_backend"
  by (simp add: set_backend_def get_backend_def reset_backend_def)

end
