(* ===== verification/Safety.thy ===== *)
theory Safety
  imports GpuBackend
begin

text \<open>
  \<open>safety.py\<close>: the gates a cold spawn has to pass. What the probes read (the text of
  \<open>/proc/meminfo\<close> and \<open>/proc/stat\<close>, the load average, the free VRAM per card) is an
  input. The human-readable \<open>detail\<close> of a \<open>GateResult\<close> is a constructor that carries the
  numbers the source formats into the string.
\<close>

subsection \<open>Probes\<close>

definition split_once :: "char \<Rightarrow> string \<Rightarrow> (string \<times> string) option" where
  "split_once d s =
     (case dropWhile (\<lambda>c. c \<noteq> d) s of
        [] \<Rightarrow> None
      | _ # rest \<Rightarrow> Some (takeWhile (\<lambda>c. c \<noteq> d) s, rest))"

definition meminfo_line :: "string \<Rightarrow> (string \<times> int) option" where
  "meminfo_line line =
     (case split_once (CHR '':'') line of
        None \<Rightarrow> None
      | Some (name, val) \<Rightarrow>
          (case split_ws (strip val) of
             [] \<Rightarrow> None
           | w # _ \<Rightarrow>
               if list_all is_digit w then map_option (\<lambda>n. (strip name, int n)) (parse_nat w)
               else None))"

definition read_meminfo_kib :: "string option \<Rightarrow> string \<rightharpoonup> int" where
  "read_meminfo_kib text =
     (case text of
        None \<Rightarrow> Map.empty
      | Some t \<Rightarrow>
          foldl (\<lambda>m line. case meminfo_line line of None \<Rightarrow> m | Some (k, v) \<Rightarrow> m(k \<mapsto> v))
            Map.empty (split_lines t))"

definition read_stat_iowait_jiffies :: "string option \<Rightarrow> (int \<times> int) option" where
  "read_stat_iowait_jiffies text =
     (case text of
        None \<Rightarrow> None
      | Some t \<Rightarrow>
          (let parts = split_ws (hd (split_on newline t))
           in if length parts < 6 \<or> hd parts \<noteq> ''cpu'' then None
              else (let nums = map py_int (tl parts)
                    in if None \<in> set nums then None
                       else Some (sum_list (map the nums), the (nums ! 4)))))"

subsection \<open>Results\<close>

datatype gate = Ram | Vram | KvCacheFit | CpuLoad | Iowait

datatype gate_detail =
    PassedNoProbe
  | PassedNoProbeSecond
  | PassedZeroDelta
  | PassedInsufficientInput
  | RamFree int
  | RamShort int int
  | VramFree int nat int int
  | VramShort int nat int int int
  | LoadIs rat
  | LoadOver rat rat
  | IowaitIs rat
  | IowaitOver rat rat
  | BlindParallel int
  | MeasuredFits int int
  | MeasuredShort int int
  | HostKvFits int int int "int option"
  | HostKvVramShort int int int
  | HostKvRamShort int int
  | ClosedFormFits int int int
  | ClosedFormShort int int int

record gate_result =
  g_name :: gate
  g_ok :: bool
  g_detail :: gate_detail

definition gate_result :: "gate \<Rightarrow> bool \<Rightarrow> gate_detail \<Rightarrow> gate_result" where
  "gate_result n ok d = \<lparr>g_name = n, g_ok = ok, g_detail = d\<rparr>"

lemma gate_result_sels [simp]:
  "g_name (gate_result n ok d) = n" "g_ok (gate_result n ok d) = ok"
  "g_detail (gate_result n ok d) = d"
  by (simp_all add: gate_result_def)

subsection \<open>RAM, load and I/O wait\<close>

definition check_free_ram :: "string option \<Rightarrow> int \<Rightarrow> gate_result" where
  "check_free_ram meminfo min_free_mib =
     (case read_meminfo_kib meminfo ''MemAvailable'' of
        None \<Rightarrow> gate_result Ram True PassedNoProbe
      | Some avail_kib \<Rightarrow>
          (let avail_mib = avail_kib div 1024
           in if avail_mib < min_free_mib then gate_result Ram False (RamShort avail_mib min_free_mib)
              else gate_result Ram True (RamFree avail_mib)))"

text \<open>\<open>os.cpu_count() or 1\<close>: both \<open>None\<close> and \<open>0\<close> give one core.\<close>

definition cpu_cores :: "nat option \<Rightarrow> nat" where
  "cpu_cores n = (case n of None \<Rightarrow> 1 | Some 0 \<Rightarrow> 1 | Some (Suc k) \<Rightarrow> Suc k)"

definition check_load_avg :: "rat option \<Rightarrow> nat option \<Rightarrow> rat \<Rightarrow> gate_result" where
  "check_load_avg load1 cpus max_per_core =
     (case load1 of
        None \<Rightarrow> gate_result CpuLoad True PassedNoProbe
      | Some l \<Rightarrow>
          (let per_core = l / of_nat (cpu_cores cpus)
           in if max_per_core < per_core then gate_result CpuLoad False (LoadOver per_core max_per_core)
              else gate_result CpuLoad True (LoadIs per_core)))"

definition check_iowait :: "string option \<Rightarrow> string option \<Rightarrow> rat \<Rightarrow> gate_result" where
  "check_iowait stat_a stat_b max_percent =
     (case read_stat_iowait_jiffies stat_a of
        None \<Rightarrow> gate_result Iowait True PassedNoProbe
      | Some (total_a, io_a) \<Rightarrow>
          (case read_stat_iowait_jiffies stat_b of
             None \<Rightarrow> gate_result Iowait True PassedNoProbeSecond
           | Some (total_b, io_b) \<Rightarrow>
               (let d_total = total_b - total_a; d_iowait = io_b - io_a
                in if d_total \<le> 0 then gate_result Iowait True PassedZeroDelta
                   else (let pct = 100 * of_int d_iowait / of_int d_total
                         in if max_percent < pct then gate_result Iowait False (IowaitOver pct max_percent)
                            else gate_result Iowait True (IowaitIs pct)))))"

subsection \<open>The VRAM budget\<close>

text \<open>
  \<open>vals\<close> is the reading of \<open>_read_free_vram_all_mib\<close>; the answer is (free_for_fit,
  min_per_card_free, n_cards). An empty \<open>split_mode\<close> stands for ''layer''.
\<close>

definition vram_budget :: "int list option \<Rightarrow> string \<Rightarrow> int \<Rightarrow> (int \<times> int \<times> nat) option" where
  "vram_budget vals split_mode main_gpu =
     (case vals of
        None \<Rightarrow> None
      | Some [] \<Rightarrow> None
      | Some (v # vs) \<Rightarrow>
          (let all = v # vs in
           if lower (if split_mode = [] then ''layer'' else split_mode) = ''none'' then
             (let idx = (if 0 \<le> main_gpu \<and> main_gpu < int (length all) then nat main_gpu else 0)
              in Some (all ! idx, all ! idx, 1))
           else Some (sum_list all, Min (set all), length all)))"

definition MIB_BYTES :: int where
  "MIB_BYTES = 1024 * 1024"

definition check_free_vram ::
  "int list option \<Rightarrow> int \<Rightarrow> int \<Rightarrow> string \<Rightarrow> int \<Rightarrow> gate_result" where
  "check_free_vram vals min_free_mib expected_bytes split_mode main_gpu =
     (case vram_budget vals split_mode main_gpu of
        None \<Rightarrow> gate_result Vram True PassedNoProbe
      | Some (free_fit, min_card, n) \<Rightarrow>
          (let expected_mib = expected_bytes div MIB_BYTES;
               threshold = max min_free_mib expected_mib
           in if free_fit < threshold
              then gate_result Vram False (VramShort free_fit n threshold min_free_mib expected_mib)
              else gate_result Vram True (VramFree free_fit n min_card threshold)))"

subsection \<open>The KV-cache estimate\<close>

definition KV_QUANT_SCALE :: "(string \<times> rat) list" where
  "KV_QUANT_SCALE =
     [(''f32'', 2), (''f16'', 1), (''bf16'', 1), (''q8_0'', 1 / 2), (''q4_0'', 1 / 4),
      (''q4_1'', 1 / 4), (''iq4_nl'', 1 / 4), (''q5_0'', 8 / 25), (''q5_1'', 8 / 25),
      (''turbo2'', 1 / 8), (''turbo3'', 3 / 16), (''turbo4'', 1 / 4)]"

definition PER_SLOT_COMPUTE_FLOOR_MIB :: int where
  "PER_SLOT_COMPUTE_FLOOR_MIB = 256"

definition quant_scale :: "string \<Rightarrow> rat" where
  "quant_scale q = (case map_of KV_QUANT_SCALE (lower q) of None \<Rightarrow> 1 | Some s \<Rightarrow> s)"

definition estimate_kv_cache_mib :: "int \<Rightarrow> int \<Rightarrow> string \<Rightarrow> int" where
  "estimate_kv_cache_mib ctx_size gguf_size_bytes kv_cache_quant =
     (if ctx_size \<le> 0 \<or> gguf_size_bytes \<le> 0 then 0
      else (let gguf_mib = gguf_size_bytes div MIB_BYTES;
                per_token_f16 = (9 * gguf_mib) div 1024;
                per_token = \<lfloor>of_int per_token_f16 * quant_scale kv_cache_quant\<rfloor>;
                total_kib = per_token * ctx_size
            in total_kib div 1024))"

text \<open>The arguments of \<open>check_kv_cache_fit\<close>.\<close>

record kv_request =
  kv_ctx :: int
  kv_gguf :: int
  kv_overhead :: int
  kv_quant :: string
  kv_no_offload :: bool
  kv_parallel :: int
  kv_split :: string
  kv_main_gpu :: int
  kv_expected_mib :: int
  kv_cpu_moe :: bool

definition check_kv_cache_fit ::
  "int list option \<Rightarrow> string option \<Rightarrow> kv_request \<Rightarrow> gate_result" where
  "check_kv_cache_fit vals meminfo r =
     (if kv_ctx r \<le> 0 \<or> kv_gguf r \<le> 0 then gate_result KvCacheFit True PassedInsufficientInput
      else let p = max 1 (kv_parallel r) in
      case vram_budget vals (kv_split r) (kv_main_gpu r) of
        None \<Rightarrow>
          if 1 < p then gate_result KvCacheFit False (BlindParallel p)
          else gate_result KvCacheFit True PassedNoProbe
      | Some (free_mib, _, _) \<Rightarrow>
          let gguf_mib = kv_gguf r div MIB_BYTES;
              kv_mib = estimate_kv_cache_mib (kv_ctx r) (kv_gguf r) (kv_quant r);
              par_extra_mib = (p - 1) * PER_SLOT_COMPUTE_FLOOR_MIB
          in
          if kv_cpu_moe r \<and> 0 < kv_expected_mib r then
            let need = kv_expected_mib r + kv_overhead r + par_extra_mib in
            if free_mib < need then gate_result KvCacheFit False (MeasuredShort need free_mib)
            else gate_result KvCacheFit True (MeasuredFits need free_mib)
          else if kv_no_offload r then
            let scratch = kv_overhead r + kv_ctx r div 128 + par_extra_mib;
                need = gguf_mib + scratch
            in
            if free_mib < need then gate_result KvCacheFit False (HostKvVramShort need kv_mib free_mib)
            else (case read_meminfo_kib meminfo ''MemAvailable'' of
                    Some kib \<Rightarrow>
                      if kib div 1024 < kv_mib
                      then gate_result KvCacheFit False (HostKvRamShort kv_mib (kib div 1024))
                      else gate_result KvCacheFit True (HostKvFits need free_mib kv_mib (Some (kib div 1024)))
                  | None \<Rightarrow> gate_result KvCacheFit True (HostKvFits need free_mib kv_mib None))
          else
            let need = gguf_mib + kv_mib + kv_overhead r + par_extra_mib in
            if free_mib < need then gate_result KvCacheFit False (ClosedFormShort need kv_mib free_mib)
            else gate_result KvCacheFit True (ClosedFormFits need kv_mib free_mib))"

subsection \<open>All gates\<close>

text \<open>
  What the host answers while the gates run: each gate probes anew, so the VRAM and the
  \<open>/proc/meminfo\<close> readings come twice.
\<close>

record host_probe =
  hp_mem1 :: "string option"
  hp_vram1 :: "int list option"
  hp_vram2 :: "int list option"
  hp_mem2 :: "string option"
  hp_load1 :: "rat option"
  hp_cpus :: "nat option"
  hp_stat_a :: "string option"
  hp_stat_b :: "string option"

record gate_limits =
  gl_min_ram :: int
  gl_min_vram :: int
  gl_max_load :: rat
  gl_max_iowait :: rat

definition all_safety_gates ::
  "host_probe \<Rightarrow> gate_limits \<Rightarrow> int \<Rightarrow> kv_request \<Rightarrow> gate_result list" where
  "all_safety_gates h lims expected_bytes r =
     [check_free_ram (hp_mem1 h) (gl_min_ram lims),
      check_free_vram (hp_vram1 h) (gl_min_vram lims) expected_bytes (kv_split r) (kv_main_gpu r),
      check_kv_cache_fit (hp_vram2 h) (hp_mem2 h)
        (r\<lparr>kv_expected_mib := expected_bytes div MIB_BYTES\<rparr>),
      check_load_avg (hp_load1 h) (hp_cpus h) (gl_max_load lims),
      check_iowait (hp_stat_a h) (hp_stat_b h) (gl_max_iowait lims)]"

definition failed_gates :: "gate_result list \<Rightarrow> gate_result list" where
  "failed_gates rs = filter (\<lambda>g. \<not> g_ok g) rs"


subsection \<open>What a spawn demands, and the verdict\<close>

text \<open>
  The demand on VRAM and on host RAM, stated once for the three accounting branches (measured
  footprint, KV cache in host RAM, closed form).
\<close>

definition measured :: "kv_request \<Rightarrow> bool" where
  "measured r \<longleftrightarrow> kv_cpu_moe r \<and> 0 < kv_expected_mib r"

definition kv_mib :: "kv_request \<Rightarrow> int" where
  "kv_mib r = estimate_kv_cache_mib (kv_ctx r) (kv_gguf r) (kv_quant r)"

definition vram_demand :: "kv_request \<Rightarrow> int" where
  "vram_demand r =
     kv_overhead r + 256 * (max 1 (kv_parallel r) - 1) +
     (if measured r then kv_expected_mib r
      else kv_gguf r div MIB_BYTES + (if kv_no_offload r then kv_ctx r div 128 else kv_mib r))"

definition host_ram_fits :: "string option \<Rightarrow> kv_request \<Rightarrow> bool" where
  "host_ram_fits meminfo r \<longleftrightarrow>
     measured r \<or> \<not> kv_no_offload r \<or>
     (case read_meminfo_kib meminfo ''MemAvailable'' of
        None \<Rightarrow> True | Some kib \<Rightarrow> kv_mib r \<le> kib div 1024)"

definition blind :: "int list option \<Rightarrow> bool" where
  "blind vals \<longleftrightarrow> vals = None \<or> vals = Some []"

definition budget :: "int list option \<Rightarrow> kv_request \<Rightarrow> int" where
  "budget vals r = (case vram_budget vals (kv_split r) (kv_main_gpu r) of
                      None \<Rightarrow> 0 | Some (free, _, _) \<Rightarrow> free)"

lemma vram_budget_None_iff: "vram_budget vals sm mg = None \<longleftrightarrow> blind vals"
  by (auto simp: vram_budget_def blind_def Let_def split: option.splits list.splits)

text \<open>
  C21: the fit gate refuses exactly the spawns that do not fit. With a model of known size
  and context it passes iff either no card can be read and a single slot is asked for, or the
  demand on VRAM is within the budget and, when the KV cache lives in host RAM and free RAM
  is known, the cache fits there.
\<close>

theorem kv_fit_exact:
  assumes "0 < kv_ctx r" and "0 < kv_gguf r"
  shows "g_ok (check_kv_cache_fit vals meminfo r) \<longleftrightarrow>
           (if blind vals then kv_parallel r \<le> 1
            else vram_demand r \<le> budget vals r \<and> host_ram_fits meminfo r)"
proof (cases "vram_budget vals (kv_split r) (kv_main_gpu r)")
  case None
  then have "blind vals" by (simp add: vram_budget_None_iff)
  with None assms show ?thesis by (auto simp: check_kv_cache_fit_def Let_def)
next
  case (Some b)
  obtain free mc n where b: "b = (free, mc, n)" by (cases b)
  have nb: "\<not> blind vals" using Some by (metis option.distinct(1) vram_budget_None_iff)
  show ?thesis
    using assms Some b nb
    by (auto simp: check_kv_cache_fit_def Let_def vram_demand_def host_ram_fits_def measured_def
        kv_mib_def budget_def PER_SLOT_COMPUTE_FLOOR_MIB_def algebra_simps
        split: option.splits)
qed

text \<open>A 17 GiB model with a 64K context, two slots, spread over two cards.\<close>

definition example_request :: kv_request where
  "example_request =
     \<lparr>kv_ctx = 65536, kv_gguf = 17 * 1024 * 1024 * 1024, kv_overhead = 1024, kv_quant = ''Q8_0'',
      kv_no_offload = False, kv_parallel = 2, kv_split = ''layer'', kv_main_gpu = 0,
      kv_expected_mib = 0, kv_cpu_moe = False\<rparr>"

lemma example_demand: "vram_demand example_request = 17408 + 4864 + 1024 + 256"
  by code_simp

lemma calibration: "estimate_kv_cache_mib 65536 (17 * 1024 * 1024 * 1024) ''f16'' = 9792"
  by code_simp

theorem kv_fit_exact_witness:
  "\<not> g_ok (check_kv_cache_fit (Some [12000, 11000]) None example_request) \<and>
   g_ok (check_kv_cache_fit (Some [12000, 11552]) None example_request)"
proof -
  have pos: "0 < kv_ctx example_request" "0 < kv_gguf example_request" by code_simp+
  have "vram_demand example_request = 23552" by code_simp
  moreover have "budget (Some [12000, 11000]) example_request = 23000"
    "budget (Some [12000, 11552]) example_request = 23552"
    "host_ram_fits None example_request"
    "\<not> blind (Some [12000, 11000])" "\<not> blind (Some [12000, 11552])" by code_simp+
  ultimately show ?thesis by (simp add: kv_fit_exact [OF pos])
qed

lemma quant_scale_nonneg: "0 \<le> quant_scale q"
  by (auto simp: quant_scale_def KV_QUANT_SCALE_def)

definition kib_per_token :: "int \<Rightarrow> string \<Rightarrow> int" where
  "kib_per_token g q = \<lfloor>of_int ((9 * (g div MIB_BYTES)) div 1024) * quant_scale q\<rfloor>"

lemma estimate_eq:
  "0 < ctx \<Longrightarrow> 0 < g \<Longrightarrow> estimate_kv_cache_mib ctx g q = kib_per_token g q * ctx div 1024"
  by (simp add: estimate_kv_cache_mib_def Let_def kib_per_token_def)

lemma kib_per_token_nonneg: "0 < g \<Longrightarrow> 0 \<le> kib_per_token g q"
  by (auto simp: kib_per_token_def MIB_BYTES_def pos_imp_zdiv_nonneg_iff
      intro!: mult_nonneg_nonneg quant_scale_nonneg)

lemma kib_per_token_mono: "g \<le> g' \<Longrightarrow> kib_per_token g q \<le> kib_per_token g' q"
  unfolding kib_per_token_def
  by (intro floor_mono mult_right_mono)
     (auto simp: MIB_BYTES_def quant_scale_nonneg intro!: zdiv_mono1 mult_left_mono)

lemma estimate_mono:
  assumes "ctx \<le> ctx'" and "g \<le> g'"
  shows "estimate_kv_cache_mib ctx g q \<le> estimate_kv_cache_mib ctx' g' q"
proof (cases "0 < ctx \<and> 0 < g")
  case False
  have "0 \<le> estimate_kv_cache_mib ctx' g' q"
    by (cases "0 < ctx' \<and> 0 < g'")
       (auto simp: estimate_eq kib_per_token_nonneg pos_imp_zdiv_nonneg_iff
             intro!: mult_nonneg_nonneg, auto simp: estimate_kv_cache_mib_def)
  with False show ?thesis by (auto simp: estimate_kv_cache_mib_def)
next
  case True
  with assms have "kib_per_token g q * ctx \<le> kib_per_token g' q * ctx'"
    by (intro mult_mono kib_per_token_mono kib_per_token_nonneg) auto
  then have "kib_per_token g q * ctx div 1024 \<le> kib_per_token g' q * ctx' div 1024"
    by (intro zdiv_mono1) auto
  with True assms show ?thesis by (simp add: estimate_eq)
qed

text \<open>\<open>smaller r r'\<close>: the same placement and accounting, asking for no more.\<close>

definition smaller :: "kv_request \<Rightarrow> kv_request \<Rightarrow> bool" where
  "smaller r r' \<longleftrightarrow>
     kv_ctx r \<le> kv_ctx r' \<and> kv_gguf r \<le> kv_gguf r' \<and> kv_overhead r \<le> kv_overhead r' \<and>
     kv_parallel r \<le> kv_parallel r' \<and> kv_expected_mib r = kv_expected_mib r' \<and>
     kv_quant r = kv_quant r' \<and> kv_no_offload r = kv_no_offload r' \<and>
     kv_cpu_moe r = kv_cpu_moe r' \<and> kv_split r = kv_split r' \<and> kv_main_gpu r = kv_main_gpu r'"

lemma demand_mono: "smaller r r' \<Longrightarrow> vram_demand r \<le> vram_demand r'"
  by (auto simp: smaller_def vram_demand_def measured_def kv_mib_def MIB_BYTES_def
      intro!: add_mono estimate_mono zdiv_mono1)

lemma host_ram_mono: "smaller r r' \<Longrightarrow> host_ram_fits meminfo r' \<Longrightarrow> host_ram_fits meminfo r"
  using estimate_mono [of "kv_ctx r" "kv_ctx r'" "kv_gguf r" "kv_gguf r'" "kv_quant r'"]
  by (auto simp: smaller_def host_ram_fits_def measured_def kv_mib_def split: option.splits)

text \<open>
  Asking for less never turns a pass into a refusal. A spawn with a smaller context,
  model, overhead or slot count than one the gate admits is admitted too, on the same
  readings.
\<close>

theorem kv_fit_monotone:
  assumes "smaller r r'" and "g_ok (check_kv_cache_fit vals meminfo r')"
  shows "g_ok (check_kv_cache_fit vals meminfo r)"
proof (cases "0 < kv_ctx r \<and> 0 < kv_gguf r")
  case False
  then show ?thesis by (auto simp: check_kv_cache_fit_def)
next
  case True
  with assms have pos: "0 < kv_ctx r'" "0 < kv_gguf r'" by (auto simp: smaller_def)
  have eq: "budget vals r = budget vals r'" using assms by (simp add: budget_def smaller_def)
  from assms True pos eq demand_mono [of r r'] host_ram_mono [of r r' meminfo]
  show ?thesis by (auto simp: kv_fit_exact smaller_def split: if_splits)
qed

theorem kv_fit_monotone_witness:
  "g_ok (check_kv_cache_fit (Some [24000]) None (example_request\<lparr>kv_ctx := 4096, kv_parallel := 1\<rparr>))"
proof (rule kv_fit_monotone [of _ example_request])
  show "smaller (example_request\<lparr>kv_ctx := 4096, kv_parallel := 1\<rparr>) example_request" by code_simp
  show "g_ok (check_kv_cache_fit (Some [24000]) None example_request)" by code_simp
qed

text \<open>
  On a host with one card the placement flags do not matter: every gate gives the same
  verdict and the same numbers whatever \<open>split_mode\<close> and \<open>main_gpu\<close> say.
\<close>

theorem single_gpu_collapse:
  "all_safety_gates (h\<lparr>hp_vram1 := Some [v], hp_vram2 := Some [w]\<rparr>) lims eb
      (r\<lparr>kv_split := sm, kv_main_gpu := mg\<rparr>) =
   all_safety_gates (h\<lparr>hp_vram1 := Some [v], hp_vram2 := Some [w]\<rparr>) lims eb r"
proof -
  have b: "vram_budget (Some [x]) s m = Some (x, x, 1)" for x s m
    by (simp add: vram_budget_def Let_def)
  show ?thesis by (simp add: all_safety_gates_def check_free_vram_def check_kv_cache_fit_def b
      Let_def kv_request.simps cong: if_cong)
qed


definition example_host :: host_probe where
  "example_host =
     \<lparr>hp_mem1 = Some ''MemAvailable: 4096 kB'',
      hp_vram1 = Some [24000, 23000], hp_vram2 = Some [24000, 23000],
      hp_mem2 = None, hp_load1 = Some 2, hp_cpus = Some 8,
      hp_stat_a = Some ''cpu  10 0 10 80 1 0'', hp_stat_b = None\<rparr>"

definition example_limits :: gate_limits where
  "example_limits = \<lparr>gl_min_ram = 3, gl_min_vram = 512, gl_max_load = 2, gl_max_iowait = 30\<rparr>"


end
