(* ===== verification/Manifests.thy ===== *)
theory Manifests
  imports PyStrings
begin

text \<open>
  The validation half of \<open>manifest.py\<close>: the closed allowlist of llama-server flags with its
  bounds and enums, the denylist, the suffix guard, the tag rule, the cross-field rule for
  \<open>parallel\<close>, and the translation of a flags dict into an argument vector. A
  ManifestValidationError is \<open>Inl\<close> of the rule that was broken. \<open>str(value)\<close> of floats and
  of containers is a parameter (\<open>text_of\<close>), everything else is spelled out.
\<close>

subsection \<open>Tables\<close>

datatype flag_type = TInt | TFloat | TBool | TStr | AnyOf "flag_type list"

definition SAFE_LLAMA_FLAGS :: "(string \<times> flag_type) list" where
  "SAFE_LLAMA_FLAGS = [
     (''ctx_size'', TInt), (''n_gpu_layers'', AnyOf [TInt, TStr]), (''threads'', TInt),
     (''threads_batch'', TInt), (''threads_http'', TInt), (''parallel'', TInt),
     (''batch_size'', TInt), (''ubatch_size'', TInt), (''n_predict'', TInt), (''keep'', TInt),
     (''flash_attn'', AnyOf [TBool, TStr]), (''mlock'', TBool), (''no_mmap'', TBool),
     (''numa'', TStr), (''swa_full'', TBool), (''no_perf'', TBool),
     (''sleep_idle_seconds'', TInt), (''cache_reuse'', TInt), (''no_context_shift'', TBool),
     (''slot_prompt_similarity'', TFloat), (''warmup'', TBool), (''check_tensors'', TBool),
     (''repack'', TBool), (''op_offload'', TBool), (''no_host'', TBool),
     (''direct_io'', TBool), (''cont_batching'', TBool), (''cache_type_k'', TStr),
     (''cache_type_v'', TStr), (''kv_offload'', TBool), (''no_kv_offload'', TBool),
     (''kv_unified'', TBool), (''cache_idle_slots'', TBool), (''cache_prompt'', TBool),
     (''cache_ram'', TInt), (''ctx_checkpoints'', TInt), (''checkpoint_every_n_tokens'', TInt),
     (''rope_scaling'', TStr), (''rope_scale'', TFloat), (''rope_freq_base'', TFloat),
     (''rope_freq_scale'', TFloat), (''yarn_orig_ctx'', TInt), (''yarn_ext_factor'', TFloat),
     (''yarn_attn_factor'', TFloat), (''yarn_beta_slow'', TFloat),
     (''yarn_beta_fast'', TFloat), (''cpu_moe'', TBool), (''n_cpu_moe'', TInt),
     (''split_mode'', TStr), (''main_gpu'', TInt), (''fit'', TStr), (''fit_ctx'', TInt),
     (''temp'', TFloat), (''top_k'', TInt), (''top_p'', TFloat), (''min_p'', TFloat),
     (''typical_p'', TFloat), (''top_n_sigma'', TFloat), (''repeat_penalty'', TFloat),
     (''repeat_last_n'', TInt), (''presence_penalty'', TFloat),
     (''frequency_penalty'', TFloat), (''seed'', TInt), (''mirostat'', TInt),
     (''mirostat_lr'', TFloat), (''mirostat_ent'', TFloat), (''xtc_probability'', TFloat),
     (''xtc_threshold'', TFloat), (''dynatemp_range'', TFloat), (''dynatemp_exp'', TFloat),
     (''dry_multiplier'', TFloat), (''dry_base'', TFloat), (''dry_allowed_length'', TInt),
     (''dry_penalty_last_n'', TInt), (''adaptive_target'', TFloat),
     (''adaptive_decay'', TFloat), (''ignore_eos'', TBool), (''chat_template'', TStr),
     (''jinja'', TBool), (''skip_chat_parsing'', TBool), (''special'', TBool),
     (''spm_infill'', TBool), (''reasoning_format'', TStr), (''reasoning'', TStr),
     (''reasoning_budget'', TInt), (''spec_type'', TStr), (''spec_draft_n_max'', TInt),
     (''spec_draft_n_min'', TInt), (''spec_draft_p_min'', TFloat),
     (''spec_draft_p_split'', TFloat), (''spec_draft_ngl'', TInt),
     (''spec_draft_backend_sampling'', TBool), (''metrics'', TBool), (''slots'', TBool),
     (''props'', TBool), (''embeddings'', TBool), (''reranking'', TBool), (''pooling'', TStr),
     (''offline'', TBool), (''verbose'', TBool), (''log_disable'', TBool),
     (''log_colors'', TStr), (''log_prefix'', TBool), (''log_timestamps'', TBool),
     (''log_verbosity'', TInt)]"

definition SAFE_LLAMA_FLAG_BOUNDS :: "(string \<times> int \<times> int) list" where
  "SAFE_LLAMA_FLAG_BOUNDS = [
     (''ctx_size'', 1, 2000000), (''n_gpu_layers'', - 1, 999), (''n_predict'', - 1, 1000000),
     (''threads'', - 1, 256), (''threads_batch'', - 1, 256), (''threads_http'', - 1, 256),
     (''parallel'', 1, 256), (''batch_size'', 1, 65536), (''ubatch_size'', 1, 65536),
     (''keep'', - 1, 65536), (''sleep_idle_seconds'', - 1, 86400), (''cache_reuse'', 0, 65536),
     (''n_cpu_moe'', 0, 256), (''main_gpu'', 0, 16), (''fit_ctx'', 1, 2000000),
     (''cache_ram'', 0, 262144), (''ctx_checkpoints'', 0, 1024),
     (''checkpoint_every_n_tokens'', 1, 1000000), (''yarn_orig_ctx'', 0, 2000000),
     (''temp'', 0, 10), (''top_k'', 0, 10000), (''top_p'', 0, 1), (''min_p'', 0, 1),
     (''typical_p'', 0, 1), (''top_n_sigma'', - 1, 100), (''repeat_penalty'', 0, 10),
     (''repeat_last_n'', - 1, 65536), (''presence_penalty'', - 10, 10),
     (''frequency_penalty'', - 10, 10), (''seed'', - 1, 9223372036854775807),
     (''mirostat'', 0, 2), (''mirostat_lr'', 0, 1), (''mirostat_ent'', 0, 100),
     (''xtc_probability'', 0, 1), (''xtc_threshold'', 0, 1), (''dynatemp_range'', 0, 10),
     (''dynatemp_exp'', 0, 10), (''dry_multiplier'', 0, 10), (''dry_base'', 1, 10),
     (''dry_allowed_length'', 0, 65536), (''dry_penalty_last_n'', - 1, 65536),
     (''adaptive_target'', - 1, 100), (''adaptive_decay'', 0, 1),
     (''slot_prompt_similarity'', 0, 1), (''rope_scale'', 0, 1000),
     (''rope_freq_base'', 0, 10000000), (''rope_freq_scale'', 0, 100),
     (''yarn_ext_factor'', - 1, 100), (''yarn_attn_factor'', - 1, 100),
     (''yarn_beta_slow'', - 1, 100), (''yarn_beta_fast'', - 1, 100),
     (''reasoning_budget'', - 1, 1000000), (''log_verbosity'', 0, 4),
     (''spec_draft_n_max'', 0, 64), (''spec_draft_n_min'', 0, 64),
     (''spec_draft_p_min'', 0, 1), (''spec_draft_p_split'', 0, 1),
     (''spec_draft_ngl'', - 1, 999)]"

definition SAFE_LLAMA_FLAG_STRING_ENUMS :: "(string \<times> string list) list" where
  "SAFE_LLAMA_FLAG_STRING_ENUMS = [
     (''numa'', [''none'', ''distribute'', ''isolate'', ''numactl'']),
     (''cache_type_k'', [''f32'', ''f16'', ''bf16'', ''q8_0'', ''q4_0'', ''q4_1'', ''iq4_nl'', ''q5_0'', ''q5_1'', ''turbo2'', ''turbo3'', ''turbo4'']),
     (''cache_type_v'', [''f32'', ''f16'', ''bf16'', ''q8_0'', ''q4_0'', ''q4_1'', ''iq4_nl'', ''q5_0'', ''q5_1'', ''turbo2'', ''turbo3'', ''turbo4'']),
     (''rope_scaling'', [''none'', ''linear'', ''yarn'']),
     (''split_mode'', [''none'', ''layer'', ''row'', ''tensor'']),
     (''fit'', [''on'', ''off'']),
     (''reasoning_format'', [''none'', ''deepseek'', ''deepseek-legacy'', ''auto'']),
     (''reasoning'', [''on'', ''off'', ''auto'']),
     (''pooling'', [''none'', ''mean'', ''cls'', ''last'', ''rank'']),
     (''log_colors'', [''on'', ''off'', ''auto'']),
     (''spec_type'', [''draft-mtp''])]"

definition FLASH_ATTN_STR_VALUES :: "string list" where
  "FLASH_ATTN_STR_VALUES = [
     ''on'', ''off'', ''auto'', ''enabled'', ''disabled'']"

definition N_GPU_LAYERS_STR_VALUES :: "string list" where
  "N_GPU_LAYERS_STR_VALUES = [
     ''all'', ''auto'']"

definition SAFE_CHAT_TEMPLATE_NAMES :: "string list" where
  "SAFE_CHAT_TEMPLATE_NAMES = [
     ''chatml'', ''llama2'', ''llama3'', ''llama3.1'', ''llama3.2'', ''llama3.3'', ''gemma'',
     ''gemma2'', ''gemma3'', ''gemma4'', ''mistral'', ''mistral-v1'', ''mistral-v3'',
     ''mistral-v3-tekken'', ''mistral-v7'', ''phi3'', ''phi4'', ''deepseek'', ''deepseek2'',
     ''deepseek-r1'', ''qwen'', ''qwen2'', ''qwen2.5'', ''qwen3'', ''qwen3.5'', ''qwen3.6'',
     ''command-r'', ''command-r-plus'', ''vicuna'', ''alpaca'', ''zephyr'', ''chatglm3'',
     ''chatglm4'', ''openchat'', ''orion'', ''yi'', ''monarch'', ''smollm'', ''minicpm'',
     ''exaone3'', ''rwkv-world'', ''granite'', ''qwen3-thinking'', ''qwq'', ''default'']"

definition DENIED_FLAGS :: "string list" where
  "DENIED_FLAGS = [
     ''mmproj'', ''lora'', ''lora_base'', ''lora_scaled'', ''grammar_file'',
     ''json_schema_file'', ''log_file'', ''slot_save_path'', ''chat_template_file'',
     ''in_prefix_file'', ''in_suffix_file'', ''hf_token'', ''override_kv'',
     ''cache_prompt_file'', ''binary_override'', ''model'', ''alias'', ''rpc'', ''host'',
     ''port'', ''model_draft'', ''model_url'', ''model_url_draft'', ''hf_repo'',
     ''hf_repo_draft'', ''hf_file'', ''hf_repo_v'', ''hf_file_v'', ''docker_repo'',
     ''api_key'', ''api_key_file'', ''ssl_key_file'', ''ssl_cert_file'',
     ''lookup_cache_static'', ''lookup_cache_dynamic'', ''model_vocoder'',
     ''webui_config_file'', ''webui_mcp_proxy'', ''path'', ''media_path'', ''models_dir'',
     ''models_preset'', ''control_vector'', ''control_vector_scaled'', ''tools'', ''grammar'',
     ''tensor_split'', ''samplers'', ''dry_sequence_breaker'', ''chat_template_kwargs'',
     ''reasoning_budget_message'', ''fit_target'']"

definition SUFFIX_GUARD_SUFFIXES :: "string list" where
  "SUFFIX_GUARD_SUFFIXES = [
     ''_file'', ''_path'', ''_dir'', ''_url'', ''_repo'', ''_key'']"

definition SUFFIX_GUARD_PREFIXES :: "string list" where
  "SUFFIX_GUARD_PREFIXES = [
     ''hf_'', ''lora'', ''control_vector'', ''lookup_cache_'', ''ssl_'', ''api_key'',
     ''slot_save_'', ''webui_'', ''docker_'']"

definition PER_SLOT_CTX_FLOOR :: int where
  "PER_SLOT_CTX_FLOOR = 8192"

text \<open>\<open>_SUFFIX_GUARD_EXCEPTIONS\<close> is empty in the sources and is left out.\<close>

subsection \<open>Validation\<close>

datatype manifest_error =
    BadTag
  | Denied string
  | SuffixGuard string
  | NotAllowed string
  | BadType string
  | BadEnum string
  | BelowMin string
  | AboveMax string
  | JinjaConstruct
  | TemplateTooLong
  | TemplateChars
  | NeedsUnifiedKv
  | CtxNotDivisible
  | PerSlotTooSmall
  | BadSha256
  | BadField string
  | NotAMapping
  | PathRefused

fun isinstance :: "pyval \<Rightarrow> flag_type \<Rightarrow> bool" where
  "isinstance v TInt = is_py_int v"
| "isinstance v TFloat = is_py_float v"
| "isinstance v TBool = is_py_bool v"
| "isinstance v TStr = is_py_str v"
| "isinstance v (AnyOf ts) = list_ex (isinstance v) ts"

text \<open>\<open>re.compile(".*_file$").match(key)\<close> and \<open>re.compile("^hf_").match(key)\<close>.\<close>

definition suffix_pattern :: "string \<Rightarrow> string \<Rightarrow> bool" where
  "suffix_pattern suf key \<longleftrightarrow>
     match_dollar (\<lambda>s. ends_with suf s \<and> newline \<notin> set (take (length s - length suf) s)) key"

definition suffix_guarded :: "string \<Rightarrow> bool" where
  "suffix_guarded key \<longleftrightarrow>
     list_ex (\<lambda>s. suffix_pattern s key) SUFFIX_GUARD_SUFFIXES \<or>
     list_ex (\<lambda>p. starts_with p key) SUFFIX_GUARD_PREFIXES"

definition suffix_guard_check :: "string \<Rightarrow> manifest_error + unit" where
  "suffix_guard_check key = (if suffix_guarded key then Inl (SuffixGuard key) else Inr ())"

definition tag_start :: "char \<Rightarrow> bool" where
  "tag_start c \<longleftrightarrow> is_lower c \<or> is_digit c"

definition tag_char :: "char \<Rightarrow> bool" where
  "tag_char c \<longleftrightarrow> is_lower c \<or> is_digit c \<or> c = CHR ''.'' \<or> c = CHR ''_'' \<or> c = CHR ''-''"

definition tag_body :: "string \<Rightarrow> bool" where
  "tag_body s \<longleftrightarrow> s \<noteq> [] \<and> tag_start (hd s) \<and> list_all tag_char (tl s) \<and> length (tl s) \<le> 63"

definition tag_matches :: "string \<Rightarrow> bool" where
  "tag_matches tag \<longleftrightarrow> match_dollar tag_body tag"

definition validate_tag :: "pyval \<Rightarrow> manifest_error + unit" where
  "validate_tag tag =
     (case tag of
        PyStr s \<Rightarrow> if tag_matches s then Inr () else Inl BadTag
      | _ \<Rightarrow> Inl BadTag)"

definition check_jinja_injection :: "string \<Rightarrow> manifest_error + unit" where
  "check_jinja_injection s =
     (if contains ''{%'' s \<or> contains ''{{'' s then Inl JinjaConstruct else Inr ())"

definition template_char :: "char \<Rightarrow> bool" where
  "template_char c \<longleftrightarrow> is_upper c \<or> tag_char c"

definition template_body :: "string \<Rightarrow> bool" where
  "template_body s \<longleftrightarrow> s \<noteq> [] \<and> list_all template_char s"

text \<open>The number a bounds comparison sees.\<close>

fun numeric :: "pyval \<Rightarrow> pyfloat option" where
  "numeric (PyInt i) = Some (Finite (of_int i))"
| "numeric (PyFloat f) = Some f"
| "numeric _ = None"

definition check_bounds :: "string \<Rightarrow> pyval \<Rightarrow> manifest_error + unit" where
  "check_bounds key v =
     (case map_of SAFE_LLAMA_FLAG_BOUNDS key of
        None \<Rightarrow> Inr ()
      | Some (lo, hi) \<Rightarrow>
          (case numeric v of
             None \<Rightarrow> Inr ()
           | Some x \<Rightarrow>
               if float_lt x (Finite (of_int lo)) then Inl (BelowMin key)
               else if float_lt (Finite (of_int hi)) x then Inl (AboveMax key)
               else Inr ()))"

definition check_type :: "string \<Rightarrow> flag_type \<Rightarrow> pyval \<Rightarrow> manifest_error + unit" where
  "check_type key expected v =
     (case expected of
        AnyOf ts \<Rightarrow> if isinstance v (AnyOf ts) then Inr () else Inl (BadType key)
      | TBool \<Rightarrow> if is_py_bool v then Inr () else Inl (BadType key)
      | TInt \<Rightarrow> if is_py_bool v then Inl (BadType key)
                else if is_py_int v then Inr () else Inl (BadType key)
      | TFloat \<Rightarrow> if is_py_int v \<and> \<not> is_py_bool v then Inr ()
                  else if is_py_float v then Inr () else Inl (BadType key)
      | TStr \<Rightarrow> if is_py_str v then Inr () else Inl (BadType key))"

definition validate_flash_attn :: "pyval \<Rightarrow> manifest_error + unit" where
  "validate_flash_attn v =
     (case v of
        PyBool _ \<Rightarrow> Inr ()
      | PyStr s \<Rightarrow> if lower s \<in> set FLASH_ATTN_STR_VALUES then Inr () else Inl (BadType ''flash_attn'')
      | _ \<Rightarrow> Inl (BadType ''flash_attn''))"

definition validate_n_gpu_layers :: "pyval \<Rightarrow> manifest_error + unit" where
  "validate_n_gpu_layers v =
     (case v of
        PyInt i \<Rightarrow> check_bounds ''n_gpu_layers'' (PyInt i)
      | PyStr s \<Rightarrow> if lower s \<in> set N_GPU_LAYERS_STR_VALUES then Inr () else Inl (BadType ''n_gpu_layers'')
      | _ \<Rightarrow> Inl (BadType ''n_gpu_layers''))"

definition validate_chat_template :: "pyval \<Rightarrow> manifest_error + unit" where
  "validate_chat_template v =
     (case v of
        PyStr s \<Rightarrow>
          rbind (check_jinja_injection s) (\<lambda>_.
            if s \<in> set SAFE_CHAT_TEMPLATE_NAMES then Inr ()
            else if 256 < length s then Inl TemplateTooLong
            else if match_dollar template_body s then Inr ()
            else Inl TemplateChars)
      | _ \<Rightarrow> Inl (BadType ''chat_template''))"

text \<open>\<open>_validate_flag_value\<close>; the caller has looked \<open>key\<close> up in the allowlist.\<close>

definition validate_flag_value :: "string \<Rightarrow> flag_type \<Rightarrow> pyval \<Rightarrow> manifest_error + unit" where
  "validate_flag_value key expected v =
     (if key = ''flash_attn'' then validate_flash_attn v
      else if key = ''n_gpu_layers'' then validate_n_gpu_layers v
      else if key = ''chat_template'' then validate_chat_template v
      else case map_of SAFE_LLAMA_FLAG_STRING_ENUMS key of
        Some allowed \<Rightarrow>
          (case v of
             PyStr s \<Rightarrow> if s \<in> set allowed then Inr () else Inl (BadEnum key)
           | _ \<Rightarrow> Inl (BadType key))
      | None \<Rightarrow> rbind (check_type key expected v) (\<lambda>_. check_bounds key v))"

text \<open>\<open>flags.get\<close> on the dict given by its items.\<close>

definition validate_parallel_ctx :: "(string \<times> pyval) list \<Rightarrow> manifest_error + unit" where
  "validate_parallel_ctx flags =
     (case dict_get flags ''parallel'' of
        Some (PyInt n) \<Rightarrow>
          if n \<le> 1 then Inr ()
          else if \<not> (case dict_get flags ''kv_unified'' of None \<Rightarrow> False | Some u \<Rightarrow> truthy u)
            then Inl NeedsUnifiedKv
          else (case dict_get flags ''ctx_size'' of
                  Some (PyInt ctx) \<Rightarrow>
                    if ctx mod n \<noteq> 0 then Inl CtxNotDivisible
                    else if ctx div n < PER_SLOT_CTX_FLOOR then Inl PerSlotTooSmall
                    else Inr ()
                | _ \<Rightarrow> Inr ())
      | _ \<Rightarrow> Inr ())"

definition validate_flag :: "string \<times> pyval \<Rightarrow> manifest_error + unit" where
  "validate_flag kv =
     (case kv of (key, v) \<Rightarrow>
        if key \<in> set DENIED_FLAGS then Inl (Denied key)
        else rbind (suffix_guard_check key) (\<lambda>_.
          case map_of SAFE_LLAMA_FLAGS key of
            None \<Rightarrow> Inl (NotAllowed key)
          | Some expected \<Rightarrow> validate_flag_value key expected v))"

definition flags_allowlist :: "(string \<times> pyval) list \<Rightarrow> manifest_error + (string \<times> pyval) list" where
  "flags_allowlist flags =
     rbind (check_each validate_flag flags) (\<lambda>_.
       rbind (validate_parallel_ctx flags) (\<lambda>_. Inr flags))"

subsection \<open>The argument vector\<close>

text \<open>\<open>str(value)\<close>, with \<open>text_of\<close> for floats and containers.\<close>

fun str_of :: "(pyval \<Rightarrow> string) \<Rightarrow> pyval \<Rightarrow> string" where
  "str_of text_of PyNone = ''None''"
| "str_of text_of (PyBool b) = (if b then ''True'' else ''False'')"
| "str_of text_of (PyInt i) = show_int i"
| "str_of text_of (PyStr s) = s"
| "str_of text_of v = text_of v"

definition dashes :: "string \<Rightarrow> string" where
  "dashes key = map (\<lambda>c. if c = CHR ''_'' then CHR ''-'' else c) key"

definition cli_key :: "string \<Rightarrow> string" where
  "cli_key key = ''--'' @ dashes key"

definition flag_argv :: "(pyval \<Rightarrow> string) \<Rightarrow> string \<Rightarrow> pyval \<Rightarrow> string list" where
  "flag_argv text_of key v =
     (if key = ''flash_attn'' then
        (case v of
           PyBool b \<Rightarrow> [cli_key key, if b then ''on'' else ''off'']
         | _ \<Rightarrow> [cli_key key, lower (str_of text_of v)])
      else case v of
        PyBool b \<Rightarrow> if b then [cli_key key] else []
      | _ \<Rightarrow> [cli_key key, str_of text_of v])"

fun flags_to_argv :: "(pyval \<Rightarrow> string) \<Rightarrow> (string \<times> pyval) list \<Rightarrow> manifest_error + string list" where
  "flags_to_argv text_of [] = Inr []"
| "flags_to_argv text_of ((key, v) # flags) =
     (if map_of SAFE_LLAMA_FLAGS key = None \<or> key \<in> set DENIED_FLAGS then Inl (NotAllowed key)
      else rbind (flags_to_argv text_of flags) (\<lambda>rest. Inr (flag_argv text_of key v @ rest)))"

subsection \<open>Facts about the tables\<close>

lemma denied_not_allowed: "list_all (\<lambda>d. map_of SAFE_LLAMA_FLAGS d = None) DENIED_FLAGS"
  by code_simp

lemma guard_spares_allowed: "list_all (\<lambda>(k, _). \<not> suffix_guarded k) SAFE_LLAMA_FLAGS"
  by code_simp

lemma no_dash_in_keys:
  "list_all (\<lambda>k. CHR ''-'' \<notin> set k) DENIED_FLAGS"
  "list_all (\<lambda>(k, _). CHR ''-'' \<notin> set k) SAFE_LLAMA_FLAGS"
  by code_simp+

lemma enums_not_bounded:
  "list_all (\<lambda>(k, _). map_of SAFE_LLAMA_FLAG_BOUNDS k = None) SAFE_LLAMA_FLAG_STRING_ENUMS"
  "map_of SAFE_LLAMA_FLAG_BOUNDS ''flash_attn'' = None"
  "map_of SAFE_LLAMA_FLAG_BOUNDS ''chat_template'' = None"
  by code_simp+

lemma string_flags_are_enums:
  "list_all (\<lambda>(k, t). t = TStr \<longrightarrow> k = ''chat_template'' \<or> map_of SAFE_LLAMA_FLAG_STRING_ENUMS k \<noteq> None)
     SAFE_LLAMA_FLAGS"
  by code_simp

lemma enum_values_undashed:
  "list_all (\<lambda>(_, vs). list_all (\<lambda>v. \<not> starts_with ''--'' v) vs) SAFE_LLAMA_FLAG_STRING_ENUMS"
  "list_all (\<lambda>v. \<not> starts_with ''--'' v) FLASH_ATTN_STR_VALUES"
  "list_all (\<lambda>v. \<not> starts_with ''--'' v) N_GPU_LAYERS_STR_VALUES"
  by code_simp+

lemma union_types_are_special:
  "list_all (\<lambda>(k, t). k = ''flash_attn'' \<or> k = ''n_gpu_layers'' \<or> t \<in> {TInt, TFloat, TBool, TStr})
     SAFE_LLAMA_FLAGS"
  by code_simp

lemma map_of_all: "list_all (\<lambda>(k, v). P k v) kvs \<Longrightarrow> map_of kvs k = Some v \<Longrightarrow> P k v"
  by (auto simp: list_all_iff dest: map_of_SomeD)

subsection \<open>What validation guarantees\<close>

fun in_range :: "pyfloat \<Rightarrow> int \<Rightarrow> int \<Rightarrow> bool" where
  "in_range (Finite x) lo hi \<longleftrightarrow> of_int lo \<le> x \<and> x \<le> of_int hi"
| "in_range NaN lo hi \<longleftrightarrow> True"
| "in_range _ lo hi \<longleftrightarrow> False"

text \<open>The value constraint of one flag, independent of the order the code tests in.\<close>

definition value_ok :: "string \<Rightarrow> pyval \<Rightarrow> bool" where
  "value_ok key v \<longleftrightarrow>
     (case map_of SAFE_LLAMA_FLAG_BOUNDS key of
        None \<Rightarrow> True
      | Some (lo, hi) \<Rightarrow> (case numeric v of None \<Rightarrow> True | Some x \<Rightarrow> in_range x lo hi)) \<and>
     (case map_of SAFE_LLAMA_FLAG_STRING_ENUMS key of
        None \<Rightarrow> True
      | Some allowed \<Rightarrow> v \<in> PyStr ` set allowed)"

lemma check_bounds_ok:
  "check_bounds key v = Inr () \<longleftrightarrow>
     (case map_of SAFE_LLAMA_FLAG_BOUNDS key of
        None \<Rightarrow> True
      | Some (lo, hi) \<Rightarrow> (case numeric v of None \<Rightarrow> True | Some x \<Rightarrow> in_range x lo hi))"
  by (auto simp: check_bounds_def not_less split: option.splits pyfloat.splits)

lemma enum_keys:
  "map_of SAFE_LLAMA_FLAG_STRING_ENUMS ''flash_attn'' = None"
  "map_of SAFE_LLAMA_FLAG_STRING_ENUMS ''n_gpu_layers'' = None"
  "map_of SAFE_LLAMA_FLAG_STRING_ENUMS ''chat_template'' = None"
  by code_simp+

lemma value_ok_if_validated:
  assumes "validate_flag_value key t v = Inr ()"
  shows "value_ok key v"
proof -
  consider "key = ''flash_attn''" | "key = ''n_gpu_layers''" | "key = ''chat_template''"
    | "key \<noteq> ''flash_attn''" "key \<noteq> ''n_gpu_layers''" "key \<noteq> ''chat_template''" by blast
  then show ?thesis
  proof cases
    case 2
    with assms show ?thesis
      by (auto simp: validate_flag_value_def validate_n_gpu_layers_def value_ok_def enum_keys check_bounds_ok
          split: pyval.splits if_splits option.splits)
  next
    case 4
    show ?thesis
    proof (cases "map_of SAFE_LLAMA_FLAG_STRING_ENUMS key")
      case None
      with 4 assms show ?thesis
        by (simp add: validate_flag_value_def value_ok_def check_bounds_ok)
    next
      case (Some allowed)
      from map_of_all [OF enums_not_bounded(1) Some] Some 4 assms show ?thesis
        by (auto simp: validate_flag_value_def value_ok_def split: pyval.splits if_splits)
    qed
  qed (simp_all add: value_ok_def enum_keys enums_not_bounded)
qed

lemma allowlist_ok:
  "flags_allowlist flags = Inr fs \<longleftrightarrow>
     fs = flags \<and> (\<forall>kv \<in> set flags. validate_flag kv = Inr ()) \<and> validate_parallel_ctx flags = Inr ()"
  by (auto simp: flags_allowlist_def check_each_ok)

lemma validate_flag_ok:
  "validate_flag (key, v) = Inr () \<longleftrightarrow>
     key \<notin> set DENIED_FLAGS \<and> \<not> suffix_guarded key \<and>
     (\<exists>t. map_of SAFE_LLAMA_FLAGS key = Some t \<and> validate_flag_value key t v = Inr ())"
  by (auto simp: validate_flag_def suffix_guard_check_def split: option.splits)


definition example_flags :: "(string \<times> pyval) list" where
  "example_flags =
     [(''ctx_size'', PyInt 32768), (''parallel'', PyInt 2), (''kv_unified'', PyBool True),
      (''flash_attn'', PyStr ''Auto''), (''temp'', PyFloat (Finite (7 / 10))), (''n_gpu_layers'', PyInt (-1)),
      (''cache_type_k'', PyStr ''q8_0''), (''mlock'', PyBool False)]"

lemma example_flags_accepted: "flags_allowlist example_flags = Inr example_flags"
  by code_simp


subsection \<open>The argument vector of accepted flags\<close>

definition dashed :: "string \<Rightarrow> bool" where
  "dashed s \<longleftrightarrow> starts_with ''--'' s"

lemma code_to_lower: "is_upper c \<Longrightarrow> code (to_lower c) = code c + 32"
  by (auto simp: to_lower_def char_class_defs)

lemma to_lower_dash: "to_lower c = CHR ''-'' \<longleftrightarrow> c = CHR ''-''"
proof (cases "is_upper c")
  case True
  then have "code (to_lower c) \<noteq> code (CHR ''-'')" "c \<noteq> CHR ''-''"
    by (auto simp: code_to_lower is_upper_def) (auto simp: code_def)
  with True show ?thesis by metis
qed (simp add: to_lower_def)

lemma dashed_iff: "dashed s \<longleftrightarrow> (\<exists>t. s = CHR ''-'' # CHR ''-'' # t)"
  by (auto simp: dashed_def starts_with_iff)

lemma dashed_lower: "dashed (lower s) \<longleftrightarrow> dashed s"
  by (auto simp: dashed_iff lower_def map_eq_Cons_conv to_lower_dash)

lemma show_nat_undashed: "show_nat n \<noteq> CHR ''-'' # t"
  using show_nat_digits [of n] by (auto simp: is_digit_def code_def)

lemma dashed_show_int: "\<not> dashed (show_int i)"
  using show_nat_undashed by (auto simp: dashed_iff show_int_def)

lemma flag_values_undashed:
  assumes "validate_flag (key, v) = Inr ()" and "\<And>f. \<not> dashed (text_of (PyFloat f))"
    and "key \<noteq> ''chat_template''" and "x \<in> set (flag_argv text_of key v)" and "x \<noteq> cli_key key"
  shows "\<not> dashed x"
proof -
  have on_off: "\<not> dashed ''on''" "\<not> dashed ''off''" by (simp_all add: dashed_iff)
  from assms(1) obtain t where t: "map_of SAFE_LLAMA_FLAGS key = Some t"
    and val: "validate_flag_value key t v = Inr ()" by (auto simp: validate_flag_ok)
  consider "key = ''flash_attn''" | "key = ''n_gpu_layers''"
    | (enum) vs where "key \<noteq> ''flash_attn''" "key \<noteq> ''n_gpu_layers''"
        "map_of SAFE_LLAMA_FLAG_STRING_ENUMS key = Some vs"
    | (typed) "key \<noteq> ''flash_attn''" "key \<noteq> ''n_gpu_layers''"
        "map_of SAFE_LLAMA_FLAG_STRING_ENUMS key = None" by blast
  then show ?thesis
  proof cases
    case 1
    with val assms(4,5) on_off enum_values_undashed(2) show ?thesis
      by (auto simp: validate_flag_value_def validate_flash_attn_def flag_argv_def list_all_iff
          dashed_def [symmetric] split: pyval.splits if_splits)
  next
    case 2
    with val assms(4,5) enum_values_undashed(3) show ?thesis
      by (auto simp: validate_flag_value_def validate_n_gpu_layers_def flag_argv_def list_all_iff
          dashed_def [symmetric] dashed_lower dashed_show_int split: pyval.splits if_splits)
  next
    case enum
    with val assms(3,4,5) map_of_all [OF enum_values_undashed(1) enum(3)] show ?thesis
      by (auto simp: validate_flag_value_def flag_argv_def list_all_iff dashed_def
          split: pyval.splits if_splits)
  next
    case typed
    from typed map_of_all [OF string_flags_are_enums t] map_of_all [OF union_types_are_special t] assms(3)
    have "t \<in> {TInt, TFloat, TBool}" by auto
    with typed val assms(2-5) show ?thesis
      by (cases v)
         (auto simp: validate_flag_value_def flag_argv_def check_type_def dashed_show_int split: if_splits)
  qed
qed

lemma dashes_inj:
  "CHR ''-'' \<notin> set k \<Longrightarrow> CHR ''-'' \<notin> set k' \<Longrightarrow> dashes k = dashes k' \<Longrightarrow> k = k'"
proof (induction k arbitrary: k')
  case Nil
  then show ?case by (simp add: dashes_def)
next
  case (Cons a k)
  then obtain b l where k': "k' = b # l" by (cases k') (auto simp: dashes_def)
  with Cons.prems have "a = b" by (simp add: dashes_def split: if_splits)
  moreover from Cons k' have "k = l" by (simp add: dashes_def)
  ultimately show ?case using k' by simp
qed

lemma cli_key_not_denied:
  assumes "map_of SAFE_LLAMA_FLAGS key = Some t" and "d \<in> set DENIED_FLAGS"
  shows "cli_key key \<noteq> cli_key d"
proof
  assume "cli_key key = cli_key d"
  moreover have "CHR ''-'' \<notin> set key" "CHR ''-'' \<notin> set d"
    using assms no_dash_in_keys map_of_all [OF no_dash_in_keys(2) assms(1)] by (auto simp: list_all_iff)
  ultimately have "key = d" using dashes_inj by (simp add: cli_key_def)
  with assms denied_not_allowed show False by (auto simp: list_all_iff)
qed

lemma flags_to_argv_parts:
  "\<forall>kv \<in> set flags. validate_flag kv = Inr () \<Longrightarrow>
     flags_to_argv text_of flags = Inr (concat (map (\<lambda>(k, v). flag_argv text_of k v) flags))"
  by (induction flags) (auto simp: validate_flag_ok)

lemma cli_key_dashed: "dashed (cli_key k)"
  by (simp add: dashed_iff cli_key_def)


definition example_text_of :: "pyval \<Rightarrow> string" where
  "example_text_of v = (case v of PyFloat (Finite x) \<Rightarrow> ''0.7'' | PyFloat _ \<Rightarrow> ''nan'' | _ \<Rightarrow> [])"

lemma example_text_undashed: "\<not> dashed (example_text_of (PyFloat f))"
  by (cases f) (simp_all add: example_text_of_def dashed_iff)


subsection \<open>Concurrent slots\<close>

text \<open>
  A dict that asks for more than one server slot and is accepted has a unified KV pool,
  and its context, when given, splits evenly into windows of at least \<open>PER_SLOT_CTX_FLOOR\<close>
  tokens, so the whole context is at least the slot count times that floor.
\<close>

theorem parallel_split_is_even:
  assumes "flags_allowlist flags = Inr fs" and "dict_get flags ''parallel'' = Some (PyInt n)" and "1 < n"
  shows "(\<exists>u. dict_get flags ''kv_unified'' = Some u \<and> truthy u) \<and>
         (\<forall>ctx. dict_get flags ''ctx_size'' = Some (PyInt ctx) \<longrightarrow>
            n dvd ctx \<and> PER_SLOT_CTX_FLOOR \<le> ctx div n \<and> n * PER_SLOT_CTX_FLOOR \<le> ctx)"
proof -
  from assms have v: "validate_parallel_ctx flags = Inr ()" by (simp add: allowlist_ok)
  have "n * PER_SLOT_CTX_FLOOR \<le> ctx" if "PER_SLOT_CTX_FLOOR \<le> ctx div n" for ctx
    using mult_left_mono [OF that, of n] assms(3) by (smt (verit) div_mult_mod_eq mult.commute pos_mod_sign)
  with v assms(2,3) show ?thesis
    by (auto simp: validate_parallel_ctx_def dvd_eq_mod_eq_0 split: option.splits if_splits)
qed

theorem parallel_split_is_even_witness: "2 * PER_SLOT_CTX_FLOOR \<le> (32768 :: int)"
proof -
  have "dict_get example_flags ''parallel'' = Some (PyInt 2)"
    "dict_get example_flags ''ctx_size'' = Some (PyInt 32768)" by code_simp+
  with parallel_split_is_even [OF example_flags_accepted, of 2] show ?thesis by simp
qed

subsection \<open>Tags\<close>

lemma tag_char_safe: "tag_char c \<Longrightarrow> c \<noteq> CHR ''/'' \<and> c \<noteq> newline \<and> code c < 128 \<and> 32 < code c"
  by (auto simp: tag_char_def char_class_defs)

lemma tag_body_chars: "tag_body s \<Longrightarrow> c \<in> set s \<Longrightarrow> tag_char c"
  by (cases s) (auto simp: tag_body_def tag_start_def tag_char_def list_all_iff)

lemma tag_start_dot: "\<not> tag_start (CHR ''.'')"
  by (simp add: tag_start_def char_class_defs)

lemma tag_body_shape:
  "tag_body t \<Longrightarrow> CHR ''/'' \<notin> set t \<and> t \<noteq> [] \<and> hd t \<noteq> CHR ''.'' \<and> length t \<le> 64"
  using tag_body_chars [of t] tag_char_safe tag_start_dot unfolding tag_body_def
  by (cases t) auto

lemma validate_tag_iff:
  "validate_tag (PyStr s) = Inr () \<longleftrightarrow> tag_body s \<or> (\<exists>t. s = t @ [newline] \<and> tag_body t)"
  by (force simp: validate_tag_def tag_matches_def match_dollar_newline dest: match_dollar_cases
      intro: match_dollar_def [THEN iffD2])

lemma tag_shape:
  assumes "validate_tag (PyStr s) = Inr ()"
  shows "CHR ''/'' \<notin> set s \<and> s \<noteq> [] \<and> hd s \<noteq> CHR ''.'' \<and> length s \<le> 65"
proof -
  have nl: "newline \<noteq> CHR ''/''" by (simp add: newline_def)
  from assms consider "tag_body s" | t where "s = t @ [newline]" "tag_body t"
    using validate_tag_iff by blast
  then show ?thesis by cases (use tag_body_shape nl in fastforce)+
qed

text \<open>
  What the tag rule lets through. A tag is the documented form (a lower-case letter or
  digit, then at most 63 of letters, digits, dot, underscore, dash), or such a form followed
  by one newline, which \<open>$\<close> does not exclude. Either way it is a single path component: no
  slash, not \<open>.\<close> or \<open>..\<close>, not hidden, at most 65 characters.
\<close>

theorem tag_rule_exact:
  "(validate_tag (PyStr s) = Inr () \<longleftrightarrow> tag_body s \<or> (\<exists>t. s = t @ [newline] \<and> tag_body t)) \<and>
   (validate_tag (PyStr s) = Inr () \<longrightarrow>
      CHR ''/'' \<notin> set s \<and> s \<noteq> [] \<and> hd s \<noteq> CHR ''.'' \<and> length s \<le> 65)"
  using validate_tag_iff tag_shape by blast

text \<open>A tag with a trailing newline, and one that the documented form allows.\<close>

theorem tag_rule_exact_witness:
  "CHR ''/'' \<notin> set ''qwen3-4b'' \<and> validate_tag (PyStr (''qwen3-4b'' @ [newline])) = Inr ()"
proof -
  have "tag_body ''qwen3-4b''" by code_simp
  then show ?thesis
    using tag_rule_exact [of "''qwen3-4b''"] tag_rule_exact [of "''qwen3-4b'' @ [newline]"] by blast
qed

end
