(* ===== verification/ManifestStore.thy ===== *)
theory ManifestStore
  imports Manifests "HOL-Library.List_Lexorder" "HOL-Library.Char_ord"
begin

text \<open>
  The storage half of \<open>manifest.py\<close> and the routes of \<open>api/manifests.py\<close>: one directory of
  YAML files, optimistic concurrency by ETag, and the temp-file-and-rename write with its
  failure points. The YAML library and pydantic's field parsing are parameters (\<open>codec\<close>);
  the validators pydantic calls are those of \<open>Manifests\<close>.
\<close>

subsection \<open>Directories\<close>

datatype entry = Regular string | Symlink | Subdir

type_synonym dir = "(string \<times> entry) list"

subsection \<open>The manifest and its codec\<close>

record manifest =
  mf_tag :: string
  mf_display :: string
  mf_description :: string
  mf_sha256 :: string
  mf_size :: int
  mf_context :: int
  mf_vram :: int
  mf_revision :: int
  mf_flags :: "(string \<times> pyval) list"
  mf_system :: string
  mf_stops :: "string list"

text \<open>
  \<open>yaml.safe_load\<close> (\<open>None\<close> is a YAMLError), \<open>yaml.safe_dump\<close> of \<open>model_dump\<close>, and the
  field parsing of \<open>Manifest(**data)\<close> before its own validators run (unknown keys, missing
  keys, types).
\<close>

record codec =
  c_load :: "string \<Rightarrow> pyval option"
  c_dump :: "manifest \<Rightarrow> string"
  c_fields :: "(string \<times> pyval) list \<Rightarrow> manifest_error + manifest"

definition sha256_format :: "string \<Rightarrow> manifest_error + string" where
  "sha256_format s = (if length s = 64 \<and> list_all is_hex_lower s then Inr s else Inl BadSha256)"

definition field_ge :: "string \<Rightarrow> int \<Rightarrow> int \<Rightarrow> manifest_error + unit" where
  "field_ge name lo v = (if lo \<le> v then Inr () else Inl (BadField name))"

definition validate_manifest :: "manifest \<Rightarrow> manifest_error + manifest" where
  "validate_manifest mf =
     rbind (validate_tag (PyStr (mf_tag mf))) (\<lambda>_.
     rbind (sha256_format (mf_sha256 mf)) (\<lambda>_.
     rbind (field_ge ''gguf_size_bytes'' 0 (mf_size mf)) (\<lambda>_.
     rbind (field_ge ''context_size'' 1 (mf_context mf)) (\<lambda>_.
     rbind (field_ge ''expected_vram_bytes'' 0 (mf_vram mf)) (\<lambda>_.
     rbind (field_ge ''revision'' 1 (mf_revision mf)) (\<lambda>_.
     rbind (flags_allowlist (mf_flags mf)) (\<lambda>_. Inr mf)))))))"

definition build_manifest :: "codec \<Rightarrow> (string \<times> pyval) list \<Rightarrow> manifest_error + manifest" where
  "build_manifest c data = rbind (c_fields c data) validate_manifest"

text \<open>
  \<open>Refused\<close> is a ManifestValidationError the store raises itself, \<open>Invalid\<close> one raised
  inside pydantic, which arrives wrapped as a ValidationError.
\<close>

datatype store_error =
  Refused manifest_error | Invalid manifest_error | NotFound | Concurrency | YamlError | OsError

definition safe_manifest_path :: "dir \<Rightarrow> string \<Rightarrow> store_error + string" where
  "safe_manifest_path d tag =
     (case validate_tag (PyStr tag) of
        Inl e \<Rightarrow> Inl (Refused e)
      | Inr _ \<Rightarrow>
          (case dir_look d (tag @ ''.yaml'') of
             Some Symlink \<Rightarrow> Inl (Refused PathRefused)
           | _ \<Rightarrow> Inr (tag @ ''.yaml'')))"

definition read_manifest :: "codec \<Rightarrow> dir \<Rightarrow> string \<Rightarrow> store_error + manifest" where
  "read_manifest c d tag =
     rbind (safe_manifest_path d tag) (\<lambda>path.
       case dir_look d path of
         None \<Rightarrow> Inl NotFound
       | Some (Regular text) \<Rightarrow>
           (case c_load c text of
              None \<Rightarrow> Inl YamlError
            | Some (PyDict data) \<Rightarrow>
                (case build_manifest c data of Inl e \<Rightarrow> Inl (Invalid e) | Inr mf \<Rightarrow> Inr mf)
            | Some _ \<Rightarrow> Inl (Refused NotAMapping))
       | Some _ \<Rightarrow> Inl OsError)"

definition etag :: "int \<Rightarrow> string" where
  "etag revision = [CHR 0x22] @ show_int revision @ [CHR 0x22]"

definition manifest_etag :: "codec \<Rightarrow> dir \<Rightarrow> string \<Rightarrow> store_error + string" where
  "manifest_etag c d tag = rbind (read_manifest c d tag) (\<lambda>mf. Inr (etag (mf_revision mf)))"

subsection \<open>The atomic write\<close>

text \<open>
  Where the sequence of system calls fails, if it does. \<open>FaultWrite n\<close> leaves \<open>n\<close>
  characters in the temporary file. The answer lists the directory after each call; the
  flag is false when an exception escapes.
\<close>

datatype fault = NoFault | FaultMkstemp | FaultWrite nat | FaultChmod | FaultReplace | FaultDirSync

definition replace_atomically ::
  "fault \<Rightarrow> string \<Rightarrow> string \<Rightarrow> string \<Rightarrow> dir \<Rightarrow> bool \<times> dir list" where
  "replace_atomically fault tmp name text d =
     (let d1 = dir_put tmp (Regular []) d;
          d2 = dir_put tmp (Regular text) d;
          d3 = dir_put name (Regular text) (dir_rm tmp d2)
      in case fault of
           FaultMkstemp \<Rightarrow> (False, [d])
         | FaultWrite n \<Rightarrow>
             (let part = dir_put tmp (Regular (take n text)) d in (False, [d1, part, dir_rm tmp part]))
         | FaultChmod \<Rightarrow> (False, [d1, d2, dir_rm tmp d2])
         | FaultReplace \<Rightarrow> (False, [d1, d2, dir_rm tmp d2])
         | FaultDirSync \<Rightarrow> (False, [d1, d2, d3, dir_rm tmp d3])
         | NoFault \<Rightarrow> (True, [d1, d2, d3]))"

text \<open>\<open>write_manifest_atomic\<close>: the checks, then the write; the answer carries the last directory.\<close>

definition next_revision :: "codec \<Rightarrow> dir \<Rightarrow> manifest \<Rightarrow> string option \<Rightarrow> store_error + (string \<times> manifest)" where
  "next_revision c d mf if_match =
     rbind (safe_manifest_path d (mf_tag mf)) (\<lambda>path.
       if dir_look d path = None then Inr (path, mf)
       else rbind (read_manifest c d (mf_tag mf)) (\<lambda>existing.
         if if_match \<noteq> Some (etag (mf_revision existing)) then Inl Concurrency
         else Inr (path, mf\<lparr>mf_revision := mf_revision existing + 1\<rparr>)))"

definition write_manifest_atomic ::
  "codec \<Rightarrow> fault \<Rightarrow> string \<Rightarrow> dir \<Rightarrow> manifest \<Rightarrow> string option \<Rightarrow> (store_error + manifest) \<times> dir" where
  "write_manifest_atomic c fault tmp d mf if_match =
     (case next_revision c d mf if_match of
        Inl e \<Rightarrow> (Inl e, d)
      | Inr (path, mf') \<Rightarrow>
          (case replace_atomically fault tmp path (c_dump c mf') d of
             (ok, states) \<Rightarrow> (if ok then Inr mf' else Inl OsError, last states)))"

subsection \<open>Listing and deleting\<close>

text \<open>\<open>p.suffix\<close> and \<open>p.stem\<close> for a name that does not start with a dot.\<close>

definition yaml_stem :: "string \<Rightarrow> string option" where
  "yaml_stem name =
     (if ends_with ''.yaml'' name \<and> \<not> starts_with ''.'' name
      then Some (take (length name - 5) name) else None)"

definition list_manifests :: "dir option \<Rightarrow> string list" where
  "list_manifests folder =
     (case folder of
        None \<Rightarrow> []
      | Some d \<Rightarrow> sort (filter tag_matches (List.map_filter (\<lambda>(n, _). yaml_stem n) d)))"

definition delete_manifest :: "dir \<Rightarrow> string \<Rightarrow> (store_error + bool) \<times> dir" where
  "delete_manifest d tag =
     (case safe_manifest_path d tag of
        Inl e \<Rightarrow> (Inl e, d)
      | Inr path \<Rightarrow>
          (case dir_look d path of
             None \<Rightarrow> (Inr False, d)
           | Some Subdir \<Rightarrow> (Inl OsError, d)
           | Some _ \<Rightarrow> (Inr True, dir_rm path d)))"

subsection \<open>The routes\<close>

text \<open>
  A status code with what the handler returns; an exception no handler catches is a 500.
  \<open>None\<close> in the place of the ETag header means the handler sets none.
\<close>

datatype 'a response = Ok 'a "string option" | Http nat

definition get_manifest_route :: "codec \<Rightarrow> dir \<Rightarrow> string \<Rightarrow> manifest response" where
  "get_manifest_route c d tag =
     (case validate_tag (PyStr tag) of
        Inl _ \<Rightarrow> Http 400
      | Inr _ \<Rightarrow>
          (case read_manifest c d tag of
             Inr mf \<Rightarrow> Ok mf (Some (etag (mf_revision mf)))
           | Inl NotFound \<Rightarrow> Http 404
           | Inl (Refused _) \<Rightarrow> Http 400
           | Inl _ \<Rightarrow> Http 500))"

definition put_manifest_route ::
  "codec \<Rightarrow> fault \<Rightarrow> string \<Rightarrow> dir \<Rightarrow> string \<Rightarrow> (string \<times> pyval) list \<Rightarrow> string option
     \<Rightarrow> manifest response \<times> dir" where
  "put_manifest_route c fault tmp d tag payload if_match =
     (case validate_tag (PyStr tag) of
        Inl _ \<Rightarrow> (Http 400, d)
      | Inr _ \<Rightarrow>
          (case build_manifest c (dict_set payload ''model_tag'' (PyStr tag)) of
             Inl _ \<Rightarrow> (Http 400, d)
           | Inr mf \<Rightarrow>
               (case write_manifest_atomic c fault tmp d mf if_match of
                  (Inr written, d') \<Rightarrow> (Ok written (Some (etag (mf_revision written))), d')
                | (Inl Concurrency, d') \<Rightarrow> (Http 412, d')
                | (Inl (Refused _), d') \<Rightarrow> (Http 400, d')
                | (Inl _, d') \<Rightarrow> (Http 500, d'))))"

definition delete_manifest_route :: "dir \<Rightarrow> string \<Rightarrow> unit response \<times> dir" where
  "delete_manifest_route d tag =
     (case validate_tag (PyStr tag) of
        Inl _ \<Rightarrow> (Http 400, d)
      | Inr _ \<Rightarrow>
          (case delete_manifest d tag of
             (Inr True, d') \<Rightarrow> (Ok () None, d')
           | (Inr False, d') \<Rightarrow> (Http 404, d')
           | (Inl _, d') \<Rightarrow> (Http 500, d')))"

subsection \<open>What a write guarantees\<close>

text \<open>
  C13: a manifest file is replaced as a whole. Whatever call fails, at every moment the file
  holds its old content or the complete new one and no other file changes; in the end the
  temporary file is gone. A reported success means the new content is in place, and a
  reported failure that it is not, except when only the directory sync failed.
\<close>

theorem replace_is_atomic:
  assumes "dir_look d tmp = None" and "tmp \<noteq> name"
    and "replace_atomically fault tmp name text d = (ok, states)"
  shows "(\<forall>s \<in> set states. dir_look s name \<in> {dir_look d name, Some (Regular text)}) \<and>
         (\<forall>s \<in> set states. \<forall>m. m \<noteq> name \<and> m \<noteq> tmp \<longrightarrow> dir_look s m = dir_look d m) \<and>
         dir_look (last states) tmp = None \<and>
         (ok \<longrightarrow> dir_look (last states) name = Some (Regular text)) \<and>
         (\<not> ok \<and> fault \<noteq> FaultDirSync \<longrightarrow> dir_look (last states) = dir_look d)"
  using assms
  by (cases fault)
     (auto simp: replace_atomically_def Let_def files.look_put files.look_rm fun_eq_iff)

theorem replace_is_atomic_witness:
  "dir_look (last (snd (replace_atomically (FaultWrite 3) ''.tmp_1.yaml'' ''m.yaml'' ''new text''
      [(''m.yaml'', Regular ''old'')]))) ''m.yaml'' = Some (Regular ''old'')"
proof -
  have "dir_look [(''m.yaml'', Regular ''old'')] ''.tmp_1.yaml'' = None"
    "dir_look [(''m.yaml'', Regular ''old'')] ''m.yaml'' = Some (Regular ''old'')"
    by (simp_all add: dir_look_def)
  moreover have "''.tmp_1.yaml'' \<noteq> ''m.yaml''" by simp
  moreover obtain ok states where
    r: "replace_atomically (FaultWrite 3) ''.tmp_1.yaml'' ''m.yaml'' ''new text''
      [(''m.yaml'', Regular ''old'')] = (ok, states)" by (metis surj_pair)
  moreover from r have "\<not> ok" by (auto simp: replace_atomically_def Let_def)
  ultimately show ?thesis using replace_is_atomic [OF _ _ r] by simp
qed

lemma etag_inj: "etag a = etag b \<longleftrightarrow> a = b"
  by (auto simp: etag_def) (metis option.inject py_int_show_int)

text \<open>
  What the YAML library and pydantic document: a dumped manifest loads to a mapping whose
  fields parse back to it.
\<close>

definition codec_roundtrip :: "codec \<Rightarrow> manifest \<Rightarrow> bool" where
  "codec_roundtrip c mf \<longleftrightarrow>
     (case c_load c (c_dump c mf) of
        Some (PyDict data) \<Rightarrow> c_fields c data = Inr mf
      | _ \<Rightarrow> False)"

lemma tmp_not_tag:
  assumes "validate_tag (PyStr tag) = Inr ()" and "starts_with ''.tmp_'' tmp"
  shows "tmp \<noteq> tag @ ''.yaml''"
proof
  assume "tmp = tag @ ''.yaml''"
  moreover have "hd tmp = CHR ''.''" using assms(2) by (auto simp: starts_with_iff)
  moreover have "tag \<noteq> [] \<and> hd tag \<noteq> CHR ''.''" using assms(1) tag_shape by blast
  ultimately show False by (cases tag) auto
qed

lemma validate_manifest_ok:
  "validate_manifest mf = Inr mf' \<longleftrightarrow>
     mf' = mf \<and> validate_tag (PyStr (mf_tag mf)) = Inr () \<and> (\<exists>s. sha256_format (mf_sha256 mf) = Inr s) \<and>
     0 \<le> mf_size mf \<and> 1 \<le> mf_context mf \<and> 0 \<le> mf_vram mf \<and> 1 \<le> mf_revision mf \<and>
     (\<exists>fs. flags_allowlist (mf_flags mf) = Inr fs)"
  by (auto simp: validate_manifest_def field_ge_def split: if_splits)

lemma validate_manifest_revision:
  "validate_manifest mf = Inr mf \<Longrightarrow> 1 \<le> r \<Longrightarrow> validate_manifest (mf\<lparr>mf_revision := r\<rparr>) = Inr (mf\<lparr>mf_revision := r\<rparr>)"
  by (simp add: validate_manifest_ok)

lemma build_valid: "build_manifest c data = Inr mf \<Longrightarrow> validate_manifest mf = Inr mf"
  by (auto simp: build_manifest_def validate_manifest_ok)

lemma read_valid:
  assumes "read_manifest c d tag = Inr mf"
  shows "validate_manifest mf = Inr mf"
proof -
  from assms obtain path where
    r: "(case dir_look d path of
         None \<Rightarrow> Inl NotFound
       | Some (Regular text) \<Rightarrow>
           (case c_load c text of
              None \<Rightarrow> Inl YamlError
            | Some (PyDict data) \<Rightarrow>
                (case build_manifest c data of Inl e \<Rightarrow> Inl (Invalid e) | Inr mf \<Rightarrow> Inr mf)
            | Some _ \<Rightarrow> Inl (Refused NotAMapping))
       | Some _ \<Rightarrow> Inl OsError) = Inr mf"
    by (auto simp: read_manifest_def)
  then obtain data where "build_manifest c data = Inr mf"
    by (auto split: option.split_asm entry.split_asm pyval.split_asm sum.split_asm)
  then show ?thesis by (rule build_valid)
qed

lemma safe_path_ok:
  "safe_manifest_path d tag = Inr path \<longleftrightarrow>
     validate_tag (PyStr tag) = Inr () \<and> dir_look d path \<noteq> Some Symlink \<and> path = tag @ ''.yaml''"
  by (auto simp: safe_manifest_path_def split: sum.splits option.splits entry.splits)

lemma next_revision_cases:
  assumes "next_revision c d mf im = Inr (path, mf')"
  shows "safe_manifest_path d (mf_tag mf) = Inr path \<and>
         (dir_look d path = None \<and> mf' = mf \<or>
          (\<exists>old. read_manifest c d (mf_tag mf) = Inr old \<and> im = Some (etag (mf_revision old)) \<and>
             mf' = mf\<lparr>mf_revision := mf_revision old + 1\<rparr>))"
  using assms by (auto simp: next_revision_def split: if_splits)

lemma next_revision_valid:
  assumes "validate_manifest mf = Inr mf" and "next_revision c d mf im = Inr (path, mf')"
  shows "path = mf_tag mf @ ''.yaml'' \<and> mf_tag mf' = mf_tag mf \<and> validate_manifest mf' = Inr mf'"
proof -
  from next_revision_cases [OF assms(2)]
  consider "mf' = mf" | old where "read_manifest c d (mf_tag mf) = Inr old"
      "mf' = mf\<lparr>mf_revision := mf_revision old + 1\<rparr>" by blast
  then have "mf_tag mf' = mf_tag mf \<and> validate_manifest mf' = Inr mf'"
  proof cases
    case 2
    have "1 \<le> mf_revision old" using read_valid [OF 2(1)] by (simp add: validate_manifest_ok)
    with 2 assms(1) show ?thesis by (simp add: validate_manifest_revision)
  qed (use assms in simp)
  with next_revision_cases [OF assms(2)] show ?thesis by (simp add: safe_path_ok)
qed

lemma read_back:
  assumes "codec_roundtrip c mf" and "validate_manifest mf = Inr mf"
    and "dir_look d (mf_tag mf @ ''.yaml'') = Some (Regular (c_dump c mf))"
  shows "read_manifest c d (mf_tag mf) = Inr mf"
proof -
  obtain data where "c_load c (c_dump c mf) = Some (PyDict data)" "c_fields c data = Inr mf"
    using assms(1) by (auto simp: codec_roundtrip_def split: option.splits pyval.splits)
  moreover have "validate_tag (PyStr (mf_tag mf)) = Inr ()"
    using assms(2) by (simp add: validate_manifest_ok)
  ultimately show ?thesis using assms(2,3)
    by (simp add: read_manifest_def safe_manifest_path_def build_manifest_def)
qed

lemma read_exists:
  assumes "read_manifest c d tag = Inr mf"
  shows "safe_manifest_path d tag = Inr (tag @ ''.yaml'') \<and> dir_look d (tag @ ''.yaml'') \<noteq> None"
proof -
  from assms obtain path where p: "safe_manifest_path d tag = Inr path" by (auto simp: read_manifest_def)
  then have e: "path = tag @ ''.yaml''" by (simp add: safe_path_ok)
  have "dir_look d path = None \<Longrightarrow> False" using assms p by (simp add: read_manifest_def del: rbind_eq_Inr)
  with p e show ?thesis by blast
qed

lemma write_success:
  assumes "write_manifest_atomic c fault tmp d mf im = (Inr mf', d')"
  shows "\<exists>path. next_revision c d mf im = Inr (path, mf') \<and> fault = NoFault \<and>
           d' = dir_put path (Regular (c_dump c mf')) (dir_rm tmp (dir_put tmp (Regular (c_dump c mf')) d))"
  using assms
  by (cases fault)
     (auto simp: write_manifest_atomic_def replace_atomically_def Let_def split: sum.splits prod.splits)

lemma write_reads_back:
  assumes "codec_roundtrip c mf'" and "validate_manifest mf = Inr mf"
    and "write_manifest_atomic c fault tmp d mf im = (Inr mf', d')"
  shows "read_manifest c d' (mf_tag mf) = Inr mf'"
proof -
  from write_success [OF assms(3)] obtain path where n: "next_revision c d mf im = Inr (path, mf')"
    and d': "d' = dir_put path (Regular (c_dump c mf')) (dir_rm tmp (dir_put tmp (Regular (c_dump c mf')) d))"
    by blast
  from next_revision_valid [OF assms(2) n] have v: "path = mf_tag mf @ ''.yaml''" "mf_tag mf' = mf_tag mf"
    "validate_manifest mf' = Inr mf'" by auto
  then have "dir_look d' (mf_tag mf' @ ''.yaml'') = Some (Regular (c_dump c mf'))"
    using d' by (simp add: files.rename_look)
  from read_back [OF assms(1) v(3) this] v show ?thesis by simp
qed

text \<open>
  C12: no update is lost. Every successful write can be read back; one over an existing file
  was made against its current ETag and raises the revision by one; and a second writer that
  still holds the ETag the first one used is refused with the file unchanged.
\<close>

theorem no_lost_update:
  assumes "codec_roundtrip c mf'" and "validate_manifest mf = Inr mf"
    and "write_manifest_atomic c fault tmp d mf im = (Inr mf', d')"
    and "read_manifest c d (mf_tag mf) = Inr old"
    and "mf_tag mf2 = mf_tag mf"
  shows "read_manifest c d' (mf_tag mf) = Inr mf' \<and>
         im = Some (etag (mf_revision old)) \<and> mf_revision mf' = mf_revision old + 1 \<and>
         write_manifest_atomic c fault2 tmp2 d' mf2 im = (Inl Concurrency, d')"
proof -
  from write_success [OF assms(3)] obtain path where n: "next_revision c d mf im = Inr (path, mf')"
    by blast
  have "dir_look d (mf_tag mf @ ''.yaml'') \<noteq> None" using read_exists [OF assms(4)] by blast
  with next_revision_cases [OF n] assms(4) have im: "im = Some (etag (mf_revision old))"
    and rev: "mf' = mf\<lparr>mf_revision := mf_revision old + 1\<rparr>" by (auto simp: safe_path_ok)
  have rb: "read_manifest c d' (mf_tag mf) = Inr mf'" by (rule write_reads_back [OF assms(1-3)])
  from read_exists [OF rb] assms(5)
  have "safe_manifest_path d' (mf_tag mf2) = Inr (mf_tag mf2 @ ''.yaml'')"
    "dir_look d' (mf_tag mf2 @ ''.yaml'') \<noteq> None" by simp_all
  moreover have "read_manifest c d' (mf_tag mf2) = Inr mf'" using rb assms(5) by simp
  moreover have "im \<noteq> Some (etag (mf_revision mf'))" using im rev etag_inj by simp
  ultimately have "next_revision c d' mf2 im = Inl Concurrency" by (simp add: next_revision_def)
  with rb im rev show ?thesis by (simp add: write_manifest_atomic_def)
qed

text \<open>
  Creation does not look at If-Match. When no file of the tag exists, the write does the
  same with any If-Match as with none, although the documented contract refuses a create that
  carries one. A client that updates a manifest deleted in the meantime brings it back, with
  the revision it sends.
\<close>

theorem create_ignores_if_match:
  assumes "dir_look d (mf_tag mf @ ''.yaml'') = None"
  shows "write_manifest_atomic c fault tmp d mf im = write_manifest_atomic c fault tmp d mf None \<and>
         (validate_tag (PyStr (mf_tag mf)) = Inr () \<longrightarrow>
            fst (write_manifest_atomic c NoFault tmp d mf im) = Inr mf)"
  using assms
  by (auto simp: write_manifest_atomic_def next_revision_def safe_manifest_path_def
      replace_atomically_def Let_def split: sum.splits)

subsection \<open>A concrete codec\<close>

text \<open>
  A codec that keeps only the revision in the file, enough to run the store: the text of a
  manifest is its revision, and the other fields are those of \<open>example_manifest\<close>.
\<close>

definition example_manifest :: manifest where
  "example_manifest =
     \<lparr>mf_tag = ''m'', mf_display = [], mf_description = [], mf_sha256 = replicate 64 (CHR ''a''),
      mf_size = 10, mf_context = 2048, mf_vram = 0, mf_revision = 1, mf_flags = [],
      mf_system = [], mf_stops = []\<rparr>"

definition example_codec :: codec where
  "example_codec =
     \<lparr>c_load = (\<lambda>text. map_option (\<lambda>r. PyDict [(''revision'', PyInt r)]) (py_int text)),
      c_dump = (\<lambda>mf. show_int (mf_revision mf)),
      c_fields = (\<lambda>data. case dict_get data ''revision'' of
                     Some (PyInt r) \<Rightarrow> Inr (example_manifest\<lparr>mf_revision := r\<rparr>)
                   | _ \<Rightarrow> Inl (BadField ''revision''))\<rparr>"

lemma example_roundtrip: "codec_roundtrip example_codec (example_manifest\<lparr>mf_revision := r\<rparr>)"
  by (simp add: codec_roundtrip_def example_codec_def py_int_show_int dict_get_def)

lemma example_manifest_valid: "validate_manifest example_manifest = Inr example_manifest"
  by code_simp

theorem no_lost_update_witness:
  "snd (write_manifest_atomic example_codec NoFault ''.tmp_2.yaml''
      (snd (write_manifest_atomic example_codec NoFault ''.tmp_1.yaml''
        [(''m.yaml'', Regular ''4'')] example_manifest (Some (etag 4))))
      (example_manifest\<lparr>mf_context := 4096\<rparr>) (Some (etag 4))) =
   snd (write_manifest_atomic example_codec NoFault ''.tmp_1.yaml''
        [(''m.yaml'', Regular ''4'')] example_manifest (Some (etag 4)))"
proof -
  have old: "read_manifest example_codec [(''m.yaml'', Regular ''4'')] (mf_tag example_manifest) =
      Inr (example_manifest\<lparr>mf_revision := 4\<rparr>)" by code_simp
  obtain d' where w: "write_manifest_atomic example_codec NoFault ''.tmp_1.yaml''
        [(''m.yaml'', Regular ''4'')] example_manifest (Some (etag 4)) =
      (Inr (example_manifest\<lparr>mf_revision := 5\<rparr>), d')"
  proof -
    have "fst (write_manifest_atomic example_codec NoFault ''.tmp_1.yaml''
        [(''m.yaml'', Regular ''4'')] example_manifest (Some (etag 4))) =
      Inr (example_manifest\<lparr>mf_revision := 5\<rparr>)" by code_simp
    then show thesis by (metis that prod.collapse)
  qed
  show ?thesis
    using no_lost_update [OF example_roundtrip example_manifest_valid w old,
        of "example_manifest\<lparr>mf_context := 4096\<rparr>" NoFault "''.tmp_2.yaml''"] w
    by simp
qed

theorem create_ignores_if_match_witness:
  "fst (write_manifest_atomic example_codec NoFault ''.tmp_1.yaml'' [] example_manifest (Some (etag 7))) =
   Inr example_manifest"
proof -
  have "dir_look [] (mf_tag example_manifest @ ''.yaml'') = None" by (simp add: dir_look_def)
  moreover have "validate_tag (PyStr (mf_tag example_manifest)) = Inr ()" by code_simp
  ultimately show ?thesis using create_ignores_if_match by blast
qed

subsection \<open>The listing\<close>

lemma in_map_filter: "x \<in> set (List.map_filter f xs) \<longleftrightarrow> (\<exists>y \<in> set xs. f y = Some x)"
  by (induction xs) (auto simp: List.map_filter_simps split: option.splits)

lemma yaml_stem_tag: "tag_matches t \<Longrightarrow> yaml_stem n = Some t \<longleftrightarrow> n = t @ ''.yaml''"
proof -
  assume t: "tag_matches t"
  then have "t \<noteq> []" "hd t \<noteq> CHR ''.''" using tag_shape [of t] by (simp_all add: validate_tag_def)
  then have "\<not> starts_with ''.'' (t @ ''.yaml'')" by (cases t) (auto simp: starts_with_def)
  then show ?thesis by (auto simp: yaml_stem_def ends_with_iff)
qed

text \<open>
  The listing is exact. It names every valid tag that has a file in the folder, and
  nothing else, in order and without repetition.
\<close>

theorem listing_is_exact:
  assumes "distinct (map fst d)"
  shows "set (list_manifests (Some d)) = {t. tag_matches t \<and> dir_look d (t @ ''.yaml'') \<noteq> None} \<and>
         sorted (list_manifests (Some d)) \<and> distinct (list_manifests (Some d))"
proof -
  let ?ts = "filter tag_matches (List.map_filter (\<lambda>(n, _). yaml_stem n) d)"
  have set: "t \<in> set ?ts \<longleftrightarrow> tag_matches t \<and> dir_look d (t @ ''.yaml'') \<noteq> None" for t
  proof -
    have "t \<in> set ?ts \<longleftrightarrow> tag_matches t \<and> (\<exists>p \<in> set d. yaml_stem (fst p) = Some t)"
      by (auto simp: in_map_filter case_prod_beta)
    also have "\<dots> \<longleftrightarrow> tag_matches t \<and> t @ ''.yaml'' \<in> fst ` set d"
      using yaml_stem_tag [of t] by (metis (no_types, lifting) imageE imageI)
    finally show ?thesis by (simp add: dir_look_def map_of_eq_None_iff)
  qed
  have "distinct ?ts" using assms
  proof (induction d)
    case (Cons p d)
    obtain n e where p: "p = (n, e)" by (cases p)
    show ?case
    proof (cases "yaml_stem n")
      case (Some t)
      have "t \<notin> set (filter tag_matches (List.map_filter (\<lambda>(n, _). yaml_stem n) d))"
        if "tag_matches t"
      proof
        assume "t \<in> set (filter tag_matches (List.map_filter (\<lambda>(n, _). yaml_stem n) d))"
        then obtain n' e' where "(n', e') \<in> set d" "yaml_stem n' = Some t"
          by (auto simp: in_map_filter)
        with Some that yaml_stem_tag have "(n, e') \<in> set d" by metis
        with Cons.prems p show False by force
      qed
      with Cons Some p show ?thesis by (simp add: List.map_filter_simps)
    qed (use Cons p in \<open>simp add: List.map_filter_simps\<close>)
  qed (simp add: List.map_filter_simps)
  with set show ?thesis by (simp add: list_manifests_def set_eq_iff)
qed

theorem listing_is_exact_witness:
  "set (list_manifests (Some [(''qwen.yaml'', Regular []), (''.tmp_1.yaml'', Regular []), (''A.yaml'', Regular [])])) =
   {t. tag_matches t \<and> t @ ''.yaml'' = ''qwen.yaml''}"
proof -
  have "distinct (map fst [(''qwen.yaml'', Regular []), (''.tmp_1.yaml'', Regular []), (''A.yaml'', Regular [])])"
    by simp
  note listing_is_exact [OF this]
  moreover have "\<not> tag_matches ''A''" "\<not> tag_matches ''.tmp_1''" by code_simp+
  ultimately show ?thesis by (auto simp: dir_look_def split: if_splits)
qed

end
