(* ===== verification/Registry.thy ===== *)
theory Registry
  imports QueueRuns Timers Safety ManifestStore
begin

text \<open>
  The multi-slot half of \<open>manager.py\<close> (\<open>max_parallel_sidecars >= 2\<close>): the registry of
  resident models, the dispatcher that routes a popped request to a resident or reserves a
  new one, the driver of each resident, eviction and the exactly-once teardown. The
  \<open>Resident\<close> objects live in a list indexed by a reference; \<open>_residents\<close> maps tags to
  references in insertion order. A critical section under \<open>_registry_lock\<close> never suspends,
  so it is one step, and so is the code between two suspension points of a driver; the
  detached tasks of \<open>_spawn_bg\<close> are a list any of whose members may run next.
\<close>

subsection \<open>State\<close>

datatype resident_state = ReservedLoading | RActive | RGrace | IdleEvictable | Dead

text \<open>
  Where a driver (\<open>_drive_resident\<close>) is suspended. The slot a phase carries is the local
  variable \<open>slot\<close> while nothing else refers to it; while a slot is served it is
  \<open>r.active_slot\<close>, and \<open>r.inflight\<close> holds the other riders of a fan-out.
\<close>

datatype phase =
    Start
  | Loading slot
  | Booting slot int
  | Ready slot
  | Serving
  | FanOut
  | Served
  | Matching slot
  | Parked
  | Exiting "slot option"
  | Gone

record resident =
  r_tag :: string
  r_state :: resident_state
  r_handle :: "int option"
  r_booting :: "int option"
  r_port :: "int option"
  r_inflight :: "slot list"
  r_active :: "slot option"
  r_spawn_seq :: nat
  r_idle_expires :: "time option"
  r_keep_alive :: "int option"
  r_need :: int
  r_parallel :: int
  r_main_gpu :: int
  r_split :: string
  r_sleep_idle :: int
  r_last_active :: time
  r_torn_down :: bool
  r_inbox :: "slot list option"
  r_phase :: phase

text \<open>Detached tasks; \<open>ReapPid\<close> is a teardown that already claimed its process.\<close>

datatype task =
    RequeueOne slot
  | RequeueBatch "slot list"
  | EvictTeardown nat
  | ReapPid int
  | ReapDead nat

text \<open>
  \<open>m_procs\<close> are the sidecar processes alive, with their ports; \<open>m_done\<close> the requests the
  manager is finished with, \<open>m_lost\<close> those it dropped without resolving them,
  \<open>m_claimed\<close> the processes some teardown took charge of.
\<close>

record mgr =
  m_queue :: tq
  m_dict :: "(string \<times> nat) list"
  m_heap :: "resident list"
  m_tasks :: "task list"
  m_defers :: "string \<Rightarrow> nat"
  m_done :: "slot list"
  m_lost :: "slot list"
  m_accepted :: "string list"
  m_procs :: "(int \<times> int) list"
  m_pids :: "int list"
  m_claimed :: "int list"
  m_evictions :: nat
  m_stop :: bool
  m_cap :: nat
  m_port_base :: int
  m_idle_default :: int

definition SINGLETON :: string where
  "SINGLETON = ''__phase0_singleton__''"

definition MAX_DISPATCH_DEFERS :: nat where
  "MAX_DISPATCH_DEFERS = 50"

definition blank_resident :: resident where
  "blank_resident =
     \<lparr>r_tag = [], r_state = RActive, r_handle = None, r_booting = None, r_port = None,
      r_inflight = [], r_active = None, r_spawn_seq = 0, r_idle_expires = None,
      r_keep_alive = None, r_need = 0, r_parallel = 1, r_main_gpu = 0, r_split = ''layer'',
      r_sleep_idle = 0, r_last_active = 0, r_torn_down = False, r_inbox = None, r_phase = Gone\<rparr>"

text \<open>The registry after \<open>__init__\<close>: only the permanent singleton entry.\<close>

definition init_mgr :: "tq \<Rightarrow> nat \<Rightarrow> int \<Rightarrow> int \<Rightarrow> mgr" where
  "init_mgr q cap port_base idle_default =
     \<lparr>m_queue = q, m_dict = [(SINGLETON, 0)], m_heap = [blank_resident], m_tasks = [],
      m_defers = (\<lambda>_. 0), m_done = [], m_lost = [], m_accepted = pending q, m_procs = [],
      m_pids = [], m_claimed = [], m_evictions = 0, m_stop = False, m_cap = cap,
      m_port_base = port_base, m_idle_default = idle_default\<rparr>"

definition res :: "mgr \<Rightarrow> nat \<Rightarrow> resident" where
  "res m rid = m_heap m ! rid"

definition upd :: "nat \<Rightarrow> (resident \<Rightarrow> resident) \<Rightarrow> mgr \<Rightarrow> mgr" where
  "upd rid f m = m\<lparr>m_heap := (m_heap m)[rid := f (res m rid)]\<rparr>"

definition add_task :: "task \<Rightarrow> mgr \<Rightarrow> mgr" where
  "add_task t m = m\<lparr>m_tasks := m_tasks m @ [t]\<rparr>"

definition finish :: "slot \<Rightarrow> mgr \<Rightarrow> mgr" where
  "finish sl m = m\<lparr>m_done := m_done m @ [sl]\<rparr>"

definition fail_slot :: "slot \<Rightarrow> exn \<Rightarrow> mgr \<Rightarrow> mgr" where
  "fail_slot sl e m = finish (fail_completion_future sl e) m"

subsection \<open>Lookups\<close>

definition model_residents :: "mgr \<Rightarrow> nat list" where
  "model_residents m =
     map snd (filter (\<lambda>(k, rid). k \<noteq> SINGLETON \<and> r_state (res m rid) \<noteq> Dead) (m_dict m))"

definition live_resident_for :: "mgr \<Rightarrow> string \<Rightarrow> nat option" where
  "live_resident_for m tag =
     (case map_of (m_dict m) tag of
        None \<Rightarrow> None
      | Some rid \<Rightarrow> if r_state (res m rid) = Dead then None else Some rid)"

text \<open>Python's \<open>max\<close> and \<open>min\<close> with a key: the first of the extreme elements.\<close>

fun first_max :: "('a \<Rightarrow> time) \<Rightarrow> 'a list \<Rightarrow> 'a option" where
  "first_max f [] = None"
| "first_max f (x # xs) =
     (case first_max f xs of
        None \<Rightarrow> Some x
      | Some y \<Rightarrow> if f x < f y then Some y else Some x)"

definition first_min :: "('a \<Rightarrow> time) \<Rightarrow> 'a list \<Rightarrow> 'a option" where
  "first_min f xs = first_max (\<lambda>x. - f x) xs"

definition dispatch_warm_hint :: "mgr \<Rightarrow> string option" where
  "dispatch_warm_hint m =
     map_option (\<lambda>rid. r_tag (res m rid))
       (first_max (\<lambda>rid. r_last_active (res m rid)) (model_residents m))"

definition evictable :: "resident \<Rightarrow> bool" where
  "evictable r \<longleftrightarrow> r_state r = IdleEvictable \<and> r_active r = None \<and> r_inflight r = []"

definition lru_idle_evictable :: "mgr \<Rightarrow> nat option" where
  "lru_idle_evictable m =
     first_min (\<lambda>rid. r_last_active (res m rid))
       (filter (\<lambda>rid. evictable (res m rid)) (model_residents m))"

definition alloc_port :: "mgr \<Rightarrow> int" where
  "alloc_port m =
     (let held = List.map_filter (\<lambda>(_, rid). r_port (res m rid)) (m_dict m)
      in case List.find (\<lambda>p. p \<notin> set held) (map (\<lambda>i. m_port_base m + int i) [0..<100]) of
           Some p \<Rightarrow> p
         | None \<Rightarrow> m_port_base m)"

definition live_handle_pids :: "mgr \<Rightarrow> int set" where
  "live_handle_pids m =
     set (concat (map (\<lambda>(_, rid).
        (case r_handle (res m rid) of
           Some pid \<Rightarrow> if pid \<in> fst ` set (m_procs m) then [pid] else []
         | None \<Rightarrow> []) @
        (case r_booting (res m rid) of Some pid \<Rightarrow> [pid] | None \<Rightarrow> [])) (m_dict m)))"

subsection \<open>The footprint of a model\<close>

record footprint =
  f_need :: int
  f_parallel :: int
  f_main_gpu :: int
  f_split :: string
  f_sleep_idle :: int

text \<open>\<open>int(flags.get(key) or dflt)\<close> on validated flags, and the string form.\<close>

definition flag_int :: "(string \<times> pyval) list \<Rightarrow> string \<Rightarrow> int \<Rightarrow> int" where
  "flag_int flags key dflt =
     (case dict_get flags key of Some (PyInt i) \<Rightarrow> if i = 0 then dflt else i | _ \<Rightarrow> dflt)"

definition flag_str :: "(string \<times> pyval) list \<Rightarrow> string \<Rightarrow> string \<Rightarrow> string" where
  "flag_str flags key dflt =
     (case dict_get flags key of Some (PyStr s) \<Rightarrow> if s = [] then dflt else s | _ \<Rightarrow> dflt)"

definition flag_true :: "(string \<times> pyval) list \<Rightarrow> string \<Rightarrow> bool" where
  "flag_true flags key = (case dict_get flags key of Some v \<Rightarrow> truthy v | None \<Rightarrow> False)"

definition footprint_of :: "manifest \<Rightarrow> footprint" where
  "footprint_of mf =
     (let flags = mf_flags mf;
          gguf_mib = mf_size mf div MIB_BYTES;
          ctx = flag_int flags ''ctx_size'' (mf_context mf);
          kv_mib = estimate_kv_cache_mib ctx (mf_size mf) (flag_str flags ''cache_type_k'' ''f16'');
          par = max 1 (flag_int flags ''parallel'' 1);
          par_extra = (par - 1) * PER_SLOT_COMPUTE_FLOOR_MIB;
          expected_mib = mf_vram mf div MIB_BYTES;
          cpu_moe = (flag_true flags ''cpu_moe'' \<or> 0 < flag_int flags ''n_cpu_moe'' 0)
      in \<lparr>f_need = (if cpu_moe \<and> 0 < expected_mib then expected_mib + par_extra
                     else max expected_mib (gguf_mib + kv_mib) + par_extra),
          f_parallel = par,
          f_main_gpu = flag_int flags ''main_gpu'' 0,
          f_split = flag_str flags ''split_mode'' ''layer'',
          f_sleep_idle = flag_int flags ''sleep_idle_seconds'' 0\<rparr>)"

definition read_model_footprint :: "store_error + manifest \<Rightarrow> store_error + footprint" where
  "read_model_footprint read =
     (case read of
        Inr mf \<Rightarrow> Inr (footprint_of mf)
      | Inl NotFound \<Rightarrow>
          Inr \<lparr>f_need = 0, f_parallel = 1, f_main_gpu = 0, f_split = ''layer'', f_sleep_idle = 0\<rparr>
      | Inl e \<Rightarrow> Inl e)"

definition norm_split :: "string \<Rightarrow> string" where
  "norm_split s = lower (if s = [] then ''layer'' else s)"

text \<open>The over-commit gate between residents; \<open>vals\<close> is the free VRAM per card, if read.\<close>

definition vram_admits :: "mgr \<Rightarrow> footprint \<Rightarrow> int list option \<Rightarrow> bool" where
  "vram_admits m fp vals =
     (let siblings = model_residents m in
      if siblings \<noteq> [] \<and> norm_split (f_split fp) \<noteq> ''none'' then False
      else if list_ex (\<lambda>rid. norm_split (r_split (res m rid)) \<noteq> ''none'' \<or>
                             r_main_gpu (res m rid) = f_main_gpu fp) siblings then False
      else case vram_budget vals (f_split fp) (f_main_gpu fp) of
        None \<Rightarrow> siblings = []
      | Some (free, _, _) \<Rightarrow>
          f_need fp \<le> free - sum_list (map (\<lambda>rid. r_need (res m rid))
            (filter (\<lambda>rid. r_state (res m rid) = ReservedLoading \<and>
                           r_main_gpu (res m rid) = f_main_gpu fp) siblings)))"

subsection \<open>Eviction\<close>

definition dict_del :: "string \<Rightarrow> (string \<times> nat) list \<Rightarrow> (string \<times> nat) list" where
  "dict_del k d = filter (\<lambda>(k', _). k' \<noteq> k) d"

definition deregister :: "nat \<Rightarrow> mgr \<Rightarrow> mgr" where
  "deregister rid m =
     (let tag = r_tag (res m rid) in
      if map_of (m_dict m) tag = Some rid then m\<lparr>m_dict := dict_del tag (m_dict m)\<rparr> else m)"

definition drain_inbox :: "nat \<Rightarrow> mgr \<Rightarrow> mgr" where
  "drain_inbox rid m =
     (case r_inbox (res m rid) of
        None \<Rightarrow> m
      | Some [] \<Rightarrow> m
      | Some ss \<Rightarrow> add_task (RequeueBatch ss) (upd rid (r_inbox_update (\<lambda>_. Some [])) m))"

definition begin_evict :: "nat \<Rightarrow> mgr \<Rightarrow> mgr" where
  "begin_evict rid m =
     (let m1 = drain_inbox rid m in
      if r_state (res m1 rid) = Dead then m1
      else add_task (EvictTeardown rid) (deregister rid (upd rid (r_state_update (\<lambda>_. Dead)) m1)))"

text \<open>
  The exactly-once claim shared by \<open>_evict_teardown\<close> and the driver's \<open>finally\<close>: whoever
  sets \<open>torn_down\<close> takes the handle, or the pid of a sidecar still booting.
\<close>

definition reap_target :: "mgr \<Rightarrow> resident \<Rightarrow> int option" where
  "reap_target m r =
     (case r_handle r of
        Some pid \<Rightarrow> if pid \<in> fst ` set (m_procs m) then Some pid else r_booting r
      | None \<Rightarrow> r_booting r)"

definition claim_process :: "nat \<Rightarrow> mgr \<Rightarrow> mgr" where
  "claim_process rid m =
     (let t = reap_target m (res m rid);
          m1 = upd rid (\<lambda>r. r\<lparr>r_torn_down := True, r_handle := None, r_booting := None\<rparr>) m
      in case t of
           None \<Rightarrow> m1
         | Some pid \<Rightarrow> add_task (ReapPid pid) (m1\<lparr>m_claimed := m_claimed m1 @ [pid]\<rparr>))"

definition evict_teardown :: "nat \<Rightarrow> mgr \<Rightarrow> mgr" where
  "evict_teardown rid m = (if r_torn_down (res m rid) then m else claim_process rid m)"

subsection \<open>The dispatcher\<close>

definition defer_unroutable :: "slot \<Rightarrow> mgr \<Rightarrow> mgr" where
  "defer_unroutable sl m =
     (let n = Suc (m_defers m (sl_id sl)); m1 = m\<lparr>m_defers := (m_defers m)(sl_id sl := n)\<rparr>
      in if MAX_DISPATCH_DEFERS < n then fail_slot sl (RuntimeErr ''no capacity'') m1
         else add_task (RequeueOne sl) m1)"

definition new_resident :: "string \<Rightarrow> footprint \<Rightarrow> int \<Rightarrow> time \<Rightarrow> slot \<Rightarrow> resident" where
  "new_resident tag fp port now sl =
     blank_resident\<lparr>r_tag := tag, r_state := ReservedLoading, r_port := Some port,
       r_need := f_need fp, r_parallel := f_parallel fp, r_main_gpu := f_main_gpu fp,
       r_split := f_split fp, r_sleep_idle := f_sleep_idle fp, r_last_active := now,
       r_inbox := Some [sl], r_phase := Start\<rparr>"

definition dict_put :: "string \<Rightarrow> nat \<Rightarrow> (string \<times> nat) list \<Rightarrow> (string \<times> nat) list" where
  "dict_put k v d =
     (if k \<in> fst ` set d then map (\<lambda>(k', v'). if k' = k then (k', v) else (k', v')) d
      else d @ [(k, v)])"

definition reserve_and_start ::
  "time \<Rightarrow> store_error + footprint \<Rightarrow> int list option \<Rightarrow> slot \<Rightarrow> mgr \<Rightarrow> mgr" where
  "reserve_and_start now foot vals sl m =
     (case foot of
        Inl _ \<Rightarrow> fail_slot sl (RuntimeErr ''dispatch routing failed'') m
      | Inr fp \<Rightarrow>
          if \<not> vram_admits m fp vals
          then fail_slot sl (RuntimeErr ''cross-resident VRAM gate refused'') m
          else m\<lparr>m_heap := m_heap m @ [new_resident (sl_model_tag sl) fp (alloc_port m) now sl],
                 m_dict := dict_put (sl_model_tag sl) (length (m_heap m)) (m_dict m)\<rparr>)"

definition route_or_reserve ::
  "time \<Rightarrow> store_error + footprint \<Rightarrow> int list option \<Rightarrow> slot \<Rightarrow> mgr \<Rightarrow> mgr" where
  "route_or_reserve now foot vals sl m =
     (case live_resident_for m (sl_model_tag sl) of
        Some rid \<Rightarrow>
          (let m1 = upd rid (\<lambda>r. r\<lparr>r_state := (if r_state r = IdleEvictable then RActive else r_state r),
                                  r_last_active := now\<rparr>) m
           in case r_inbox (res m rid) of
                Some ss \<Rightarrow> upd rid (r_inbox_update (\<lambda>_. Some (ss @ [sl]))) m1
              | None \<Rightarrow> m1\<lparr>m_lost := m_lost m1 @ [sl]\<rparr>)
      | None \<Rightarrow>
          if m_cap m \<le> length (model_residents m) then
            (case lru_idle_evictable m of
               None \<Rightarrow> defer_unroutable sl m
             | Some victim \<Rightarrow> reserve_and_start now foot vals sl (begin_evict victim m))
          else reserve_and_start now foot vals sl m)"

definition handle_evicted_slot :: "slot \<Rightarrow> mgr \<Rightarrow> mgr" where
  "handle_evicted_slot sl m =
     (fail_slot sl SlotEvicted m)\<lparr>m_evictions := Suc (m_evictions m)\<rparr>"

text \<open>One turn of \<open>_dispatch_loop\<close> on what the queue answered.\<close>

definition dispatch_popped ::
  "time \<Rightarrow> store_error + footprint \<Rightarrow> int list option \<Rightarrow> slot \<Rightarrow> mgr \<Rightarrow> mgr" where
  "dispatch_popped now foot vals sl m =
     (if sl_is_evicted sl then handle_evicted_slot sl m else route_or_reserve now foot vals sl m)"

definition dispatch_turn ::
  "time \<Rightarrow> store_error + footprint \<Rightarrow> int list option \<Rightarrow> mgr \<Rightarrow> mgr" where
  "dispatch_turn now foot vals m =
     (case pop_next (m_queue m) now (dispatch_warm_hint m) of
        (Inr (Some sl), q) \<Rightarrow> dispatch_popped now foot vals sl (m\<lparr>m_queue := q\<rparr>)
      | (_, q) \<Rightarrow> m\<lparr>m_queue := q\<rparr>)"

subsection \<open>Detached tasks\<close>

text \<open>\<open>_requeue_after_backoff\<close> and one round of \<open>_requeue_slots_or_fail\<close>.\<close>

definition requeue_slot :: "slot \<Rightarrow> mgr \<Rightarrow> mgr" where
  "requeue_slot sl m =
     (case enqueue_head (m_queue m) sl of
        Inr (q, _) \<Rightarrow> m\<lparr>m_queue := q\<rparr>
      | Inl QueueClosed \<Rightarrow> fail_slot sl (OtherExc ''QueueClosed'') m
      | Inl (QueueFull _) \<Rightarrow> fail_slot sl (OtherExc ''QueueFull'') m
      | Inl (QueueHop e) \<Rightarrow> fail_slot sl e m)"

fun requeue_batch :: "slot list \<Rightarrow> mgr \<Rightarrow> mgr" where
  "requeue_batch [] m = m"
| "requeue_batch (sl # ss) m = requeue_batch ss (requeue_slot sl m)"

text \<open>\<open>os.kill\<close> and \<open>waitpid\<close>, or the drained SIGTERM of a handle: the process is gone.\<close>

definition kill_proc :: "int \<Rightarrow> mgr \<Rightarrow> mgr" where
  "kill_proc pid m = m\<lparr>m_procs := filter (\<lambda>(p, _). p \<noteq> pid) (m_procs m)\<rparr>"

definition fail_all :: "slot list \<Rightarrow> exn \<Rightarrow> mgr \<Rightarrow> mgr" where
  "fail_all ss e m = m\<lparr>m_done := m_done m @ map (\<lambda>sl. fail_completion_future sl e) ss\<rparr>"

text \<open>
  \<open>_reap_dead_resident\<close>: fails what the dead driver left in \<open>active_slot\<close> and \<open>inflight\<close>
  (the objects stay referenced there), then evicts.
\<close>

definition reap_dead_resident :: "nat \<Rightarrow> mgr \<Rightarrow> mgr" where
  "reap_dead_resident rid m =
     (let e = RuntimeErr ''driver died'';
          f = (\<lambda>sl. (fail_completion_future sl e)\<lparr>sl_stream_done := map_option (\<lambda>_. True) (sl_stream_done sl)\<rparr>)
      in begin_evict rid (upd rid (\<lambda>r. r\<lparr>r_active := map_option f (r_active r), r_inflight := map f (r_inflight r)\<rparr>) m))"

fun run_task :: "task \<Rightarrow> mgr \<Rightarrow> mgr" where
  "run_task (RequeueOne sl) m = requeue_slot sl m"
| "run_task (RequeueBatch ss) m = requeue_batch ss m"
| "run_task (EvictTeardown rid) m = evict_teardown rid m"
| "run_task (ReapPid pid) m = kill_proc pid m"
| "run_task (ReapDead rid) m = reap_dead_resident rid m"

text \<open>Cancellation at shutdown: the requeue tasks fail what they carry.\<close>

fun cancel_task :: "task \<Rightarrow> mgr \<Rightarrow> mgr" where
  "cancel_task (RequeueOne sl) m = fail_slot sl (RuntimeErr ''requeue cancelled during shutdown'') m"
| "cancel_task (RequeueBatch ss) m = fail_all ss (RuntimeErr ''inbox-drain requeue cancelled'') m"
| "cancel_task _ m = m"

definition drop_task :: "nat \<Rightarrow> mgr \<Rightarrow> mgr" where
  "drop_task i m = m\<lparr>m_tasks := take i (m_tasks m) @ drop (Suc i) (m_tasks m)\<rparr>"

subsection \<open>The driver of a resident\<close>

definition set_phase :: "nat \<Rightarrow> phase \<Rightarrow> mgr \<Rightarrow> mgr" where
  "set_phase rid p m = upd rid (r_phase_update (\<lambda>_. p)) m"

text \<open>\<open>slot = await r.inbox.get()\<close>, at the start and when parked.\<close>

definition take_inbox :: "nat \<Rightarrow> (slot \<Rightarrow> phase) \<Rightarrow> mgr \<Rightarrow> mgr" where
  "take_inbox rid mk m =
     (case r_inbox (res m rid) of
        Some (sl # ss) \<Rightarrow> upd rid (\<lambda>r. r\<lparr>r_inbox := Some ss, r_phase := mk sl\<rparr>) m
      | _ \<Rightarrow> m)"

text \<open>\<open>_spawn_for_resident\<close>: refused, spawned with a fresh pid, unhealthy, healthy.\<close>

definition spawn_refused :: "nat \<Rightarrow> slot \<Rightarrow> mgr \<Rightarrow> mgr" where
  "spawn_refused rid sl m =
     set_phase rid (Exiting (Some (fail_completion_future sl (RuntimeErr ''safety gates refused spawn'')))) m"

definition spawned :: "nat \<Rightarrow> slot \<Rightarrow> int \<Rightarrow> mgr \<Rightarrow> mgr" where
  "spawned rid sl pid m =
     (let port = (case r_port (res m rid) of Some p \<Rightarrow> p | None \<Rightarrow> 0);
          sl' = sl\<lparr>sl_port := Some port, sl_pid := Some pid\<rparr>
      in upd rid (\<lambda>r. r\<lparr>r_booting := Some pid, r_phase := Booting sl' pid\<rparr>)
           (m\<lparr>m_procs := m_procs m @ [(pid, port)], m_pids := pid # m_pids m\<rparr>))"

definition unhealthy :: "nat \<Rightarrow> slot \<Rightarrow> int \<Rightarrow> mgr \<Rightarrow> mgr" where
  "unhealthy rid sl pid m =
     (let sl' = fail_completion_future sl (RuntimeErr ''loading-fail-health-timeout'');
          m1 = upd rid (\<lambda>r. r\<lparr>r_booting := None, r_phase := Exiting (Some sl')\<rparr>) m
      in if pid \<in> fst ` set (m_procs m)
         then add_task (ReapPid pid) (m1\<lparr>m_claimed := m_claimed m1 @ [pid]\<rparr>) else m1)"

definition healthy :: "nat \<Rightarrow> slot \<Rightarrow> int \<Rightarrow> mgr \<Rightarrow> mgr" where
  "healthy rid sl pid m =
     upd rid (\<lambda>r. r\<lparr>r_handle := Some pid, r_booting := None, r_state := RActive,
                  r_spawn_seq := Suc (r_spawn_seq r), r_phase := Ready sl\<rparr>) m"

text \<open>The head of the serve loop.\<close>

definition begin_serve :: "nat \<Rightarrow> slot \<Rightarrow> time \<Rightarrow> mgr \<Rightarrow> mgr" where
  "begin_serve rid sl now m =
     (if m_stop m \<or> r_state (res m rid) = Dead then set_phase rid (Exiting (Some sl)) m
      else upd rid (\<lambda>r. r\<lparr>r_state := RActive, r_active := Some sl, r_last_active := now,
                         r_inflight := [],
                         r_phase := (if 1 < r_parallel r then FanOut else Serving)\<rparr>) m)"

definition settle :: "exn + pyval \<Rightarrow> slot \<Rightarrow> slot" where
  "settle out sl = (case out of Inl e \<Rightarrow> fail_completion_future sl e | Inr v \<Rightarrow> set_result sl v)"

text \<open>
  Serving alone: the completion answers. (When it raises, the driver dies: \<open>crash\<close>.)
\<close>

definition complete_anchor :: "nat \<Rightarrow> pyval \<Rightarrow> mgr \<Rightarrow> mgr" where
  "complete_anchor rid v m =
     upd rid (\<lambda>r. r\<lparr>r_active := map_option (\<lambda>sl. set_result sl v) (r_active r), r_phase := Served\<rparr>) m"

text \<open>
  Fan-out: a rider is admitted from the inbox while fewer than \<open>parallel\<close> are in flight
  (\<open>busy\<close> counts the anchor while it runs); a task ends; the anchor's task ends.
\<close>

definition admit_rider :: "nat \<Rightarrow> mgr \<Rightarrow> mgr" where
  "admit_rider rid m =
     (let r = res m rid;
          busy = length (r_inflight r) + (case r_active r of Some a \<Rightarrow> if settled a then 0 else 1 | None \<Rightarrow> 0)
      in case r_inbox r of
           Some (sl # ss) \<Rightarrow>
             if int busy < r_parallel r then
               (if sl_is_evicted sl
                then fail_slot sl SlotEvicted (upd rid (r_inbox_update (\<lambda>_. Some ss)) m)
                else upd rid (\<lambda>r. r\<lparr>r_inbox := Some ss, r_inflight := r_inflight r @ [sl]\<rparr>) m)
             else m
         | _ \<Rightarrow> m)"

definition rider_done :: "nat \<Rightarrow> nat \<Rightarrow> exn + pyval \<Rightarrow> mgr \<Rightarrow> mgr" where
  "rider_done rid i out m =
     (let fl = r_inflight (res m rid)
      in finish (settle out (fl ! i))
           (upd rid (r_inflight_update (\<lambda>_. take i fl @ drop (Suc i) fl)) m))"

definition anchor_done :: "nat \<Rightarrow> exn + pyval \<Rightarrow> mgr \<Rightarrow> mgr" where
  "anchor_done rid out m = upd rid (\<lambda>r. r\<lparr>r_active := map_option (settle out) (r_active r)\<rparr>) m"

text \<open>Grace: a staged request of the same thread is served on the warm sidecar.\<close>

definition match_begin :: "nat \<Rightarrow> mgr \<Rightarrow> mgr" where
  "match_begin rid m =
     (case r_active (res m rid) of
        None \<Rightarrow> m
      | Some anchor \<Rightarrow>
          (case pop_matched_thread (m_queue m) (sl_thread_id anchor) (sl_model_tag anchor) of
             (Some sl, q) \<Rightarrow>
               upd rid (\<lambda>r. r\<lparr>r_active := Some sl, r_phase := Matching anchor\<rparr>) (m\<lparr>m_queue := q\<rparr>)
           | (None, q) \<Rightarrow> m\<lparr>m_queue := q\<rparr>))"

definition match_end :: "nat \<Rightarrow> slot \<Rightarrow> exn + pyval \<Rightarrow> mgr \<Rightarrow> mgr" where
  "match_end rid anchor out m =
     (case r_active (res m rid) of
        None \<Rightarrow> m
      | Some sl \<Rightarrow>
          finish (settle out sl) (upd rid (\<lambda>r. r\<lparr>r_active := Some anchor, r_phase := Served\<rparr>) m))"

text \<open>After the serve: park, or evict at once when the idle window is empty.\<close>

definition resident_idle_window :: "mgr \<Rightarrow> resident \<Rightarrow> int" where
  "resident_idle_window m r =
     idle_window_seconds (r_keep_alive r) (per_model_idle (r_sleep_idle r) (m_idle_default m))"

definition retire_active :: "nat \<Rightarrow> time \<Rightarrow> mgr \<Rightarrow> mgr" where
  "retire_active rid now m =
     (case r_active (res m rid) of
        None \<Rightarrow> upd rid (\<lambda>r. r\<lparr>r_last_active := now\<rparr>) m
      | Some sl \<Rightarrow> finish sl (upd rid (\<lambda>r. r\<lparr>r_active := None, r_last_active := now\<rparr>) m))"

definition park :: "nat \<Rightarrow> int option \<Rightarrow> time \<Rightarrow> mgr \<Rightarrow> mgr" where
  "park rid keep now m =
     (let m0 = upd rid (r_keep_alive_update (\<lambda>_. keep)) m;
          w = resident_idle_window m0 (res m0 rid)
      in if r_state (res m0 rid) = Dead then set_phase rid (Exiting None) m0
         else let m1 = retire_active rid now m0 in
         if w \<le> 0 then begin_evict rid (set_phase rid (Exiting None) m1)
         else upd rid (\<lambda>r. r\<lparr>r_state := IdleEvictable, r_idle_expires := Some (now + of_int w),
                            r_phase := Parked\<rparr>) m1)"

text \<open>
  The idle timer fires. With work waiting the driver takes it. Otherwise an idle resident is
  evicted, and the driver of any other goes round the loop once more with the slot it has
  served: it leaves when the resident is dead, and would fail on the illegal transition out
  of POPPED when it were not.
\<close>

definition idle_timeout :: "nat \<Rightarrow> mgr \<Rightarrow> mgr" where
  "idle_timeout rid m =
     (let r = res m rid in
      case r_inbox r of
        Some (sl # ss) \<Rightarrow> take_inbox rid Ready m
      | _ \<Rightarrow>
          if r_state r = IdleEvictable then begin_evict rid (set_phase rid (Exiting None) m)
          else set_phase rid (Exiting None) m)"

text \<open>An exception or a cancellation; a fan-out fails its riders on the way out.\<close>

definition hand :: "phase \<Rightarrow> slot option" where
  "hand p =
     (case p of
        Loading sl \<Rightarrow> Some sl | Booting sl _ \<Rightarrow> Some sl | Ready sl \<Rightarrow> Some sl
      | Matching sl \<Rightarrow> Some sl | Exiting s \<Rightarrow> s | _ \<Rightarrow> None)"

definition crash :: "nat \<Rightarrow> mgr \<Rightarrow> mgr" where
  "crash rid m =
     (let r = res m rid;
          e = RuntimeErr ''fan-out interrupted'';
          m1 = fail_all (r_inflight r) e (upd rid (\<lambda>r. r\<lparr>r_inflight := [],
                 r_active := (if r_phase r = FanOut then map_option (\<lambda>sl. fail_completion_future sl e) (r_active r)
                              else r_active r)\<rparr>) m)
      in set_phase rid (Exiting (hand (r_phase r))) m1)"

text \<open>
  The \<open>finally\<close> of the driver and its done-callback. Only the claimer of \<open>torn_down\<close> cleans
  up: in one critical section it takes the process, deregisters the resident and empties its
  inbox, then it hands the waiting slots back and fails the slot in hand. A driver that comes
  second leaves whatever it holds.
\<close>

definition abandon :: "slot option \<Rightarrow> mgr \<Rightarrow> mgr" where
  "abandon h m =
     (case h of
        None \<Rightarrow> m
      | Some sl \<Rightarrow> if settled sl then finish sl m else m\<lparr>m_lost := m_lost m @ [sl]\<rparr>)"

definition mark_dead :: "nat \<Rightarrow> mgr \<Rightarrow> mgr" where
  "mark_dead rid m =
     (if map_of (m_dict m) (r_tag (res m rid)) = Some rid
      then deregister rid (upd rid (r_state_update (\<lambda>_. Dead)) m) else m)"

definition clean_up :: "nat \<Rightarrow> slot option \<Rightarrow> mgr \<Rightarrow> mgr" where
  "clean_up rid h m =
     (let m1 = drain_inbox rid (claim_process rid (mark_dead rid m)) in
      case h of
        None \<Rightarrow> m1
      | Some sl \<Rightarrow> fail_slot sl (RuntimeErr ''driver exited before serve'') m1)"

definition driver_exit :: "nat \<Rightarrow> slot option \<Rightarrow> mgr \<Rightarrow> mgr" where
  "driver_exit rid h m =
     add_task (ReapDead rid) (set_phase rid Gone
       (if r_torn_down (res m rid) then abandon h m else clean_up rid h m))"

subsection \<open>Steps\<close>

definition accept :: "slot \<Rightarrow> tq \<Rightarrow> mgr \<Rightarrow> mgr" where
  "accept sl q m = m\<lparr>m_queue := q, m_accepted := m_accepted m @ [sl_id sl]\<rparr>"

definition proc_exits :: "int \<Rightarrow> mgr \<Rightarrow> mgr" where
  "proc_exits pid m = kill_proc pid m"

definition close_queue :: "mgr \<Rightarrow> mgr" where
  "close_queue m =
     (case close (m_queue m) of (cleared, q) \<Rightarrow> fail_all cleared Cancelled (m\<lparr>m_queue := q\<rparr>))"

definition at_phase :: "mgr \<Rightarrow> nat \<Rightarrow> phase \<Rightarrow> bool" where
  "at_phase m rid p \<longleftrightarrow> rid < length (m_heap m) \<and> r_phase (res m rid) = p"

inductive mstep :: "mgr \<Rightarrow> mgr \<Rightarrow> bool" where
  m_submit: "enqueue (m_queue m) sl = Inr (q, sl') \<Longrightarrow> sl_id sl \<notin> set (m_accepted m) \<Longrightarrow>
    mstep m (accept sl q m)"
| m_submit_head: "enqueue_head (m_queue m) sl = Inr (q, sl') \<Longrightarrow> sl_id sl \<notin> set (m_accepted m) \<Longrightarrow>
    mstep m (accept sl q m)"
| m_disconnect: "mstep m (m\<lparr>m_queue := client_disconnects sid (m_queue m)\<rparr>)"
| m_dispatch: "\<not> m_stop m \<Longrightarrow> mstep m (dispatch_turn now foot vals m)"
| m_task: "i < length (m_tasks m) \<Longrightarrow> mstep m (run_task (m_tasks m ! i) (drop_task i m))"
| m_cancel: "m_stop m \<Longrightarrow> i < length (m_tasks m) \<Longrightarrow> mstep m (cancel_task (m_tasks m ! i) (drop_task i m))"
| m_start: "at_phase m rid Start \<Longrightarrow> mstep m (take_inbox rid Loading m)"
| m_refused: "at_phase m rid (Loading sl) \<Longrightarrow> mstep m (spawn_refused rid sl m)"
| m_spawned: "at_phase m rid (Loading sl) \<Longrightarrow> pid \<notin> set (m_pids m) \<Longrightarrow> mstep m (spawned rid sl pid m)"
| m_unhealthy: "at_phase m rid (Booting sl pid) \<Longrightarrow> mstep m (unhealthy rid sl pid m)"
| m_healthy: "at_phase m rid (Booting sl pid) \<Longrightarrow> mstep m (healthy rid sl pid m)"
| m_serve: "at_phase m rid (Ready sl) \<Longrightarrow> mstep m (begin_serve rid sl now m)"
| m_complete: "at_phase m rid Serving \<Longrightarrow> mstep m (complete_anchor rid v m)"
| m_admit: "at_phase m rid FanOut \<Longrightarrow> mstep m (admit_rider rid m)"
| m_rider: "at_phase m rid FanOut \<Longrightarrow> i < length (r_inflight (res m rid)) \<Longrightarrow> mstep m (rider_done rid i out m)"
| m_anchor: "at_phase m rid FanOut \<Longrightarrow> mstep m (anchor_done rid out m)"
| m_drained: "at_phase m rid FanOut \<Longrightarrow> r_inflight (res m rid) = [] \<Longrightarrow>
    (\<And>a. r_active (res m rid) = Some a \<Longrightarrow> settled a) \<Longrightarrow> mstep m (set_phase rid Served m)"
| m_match: "at_phase m rid Served \<Longrightarrow> mstep m (match_begin rid m)"
| m_matched: "at_phase m rid (Matching anchor) \<Longrightarrow> mstep m (match_end rid anchor out m)"
| m_park: "at_phase m rid Served \<Longrightarrow> mstep m (park rid keep now m)"
| m_wake: "at_phase m rid Parked \<Longrightarrow> mstep m (take_inbox rid Ready m)"
| m_timeout: "at_phase m rid Parked \<Longrightarrow> mstep m (idle_timeout rid m)"
| m_crash: "at_phase m rid p \<Longrightarrow> p \<noteq> Gone \<Longrightarrow> (\<forall>h. p \<noteq> Exiting h) \<Longrightarrow> mstep m (crash rid m)"
| m_exit: "at_phase m rid (Exiting h) \<Longrightarrow> mstep m (driver_exit rid h m)"
| m_proc_exit: "mstep m (proc_exits pid m)"
| m_signal: "mstep m (m\<lparr>m_stop := True\<rparr>)"
| m_close: "m_stop m \<Longrightarrow> mstep m (close_queue m)"

inductive mreach :: "mgr \<Rightarrow> mgr \<Rightarrow> bool" where
  m_init: "mreach m m"
| m_next: "mreach m m' \<Longrightarrow> mstep m' m'' \<Longrightarrow> mreach m m''"

end
