(* ===== verification/RegistryBooks.thy ===== *)
theory RegistryBooks
  imports Registry
begin

text \<open>
  Conservation of requests in the registry: wherever the interleaving of the dispatcher, the
  drivers and the detached tasks leads, every accepted request is in exactly one place. The
  account is a multiset of request ids over the queue, the residents, the tasks and the two
  logs of finished and lost requests.
\<close>

subsection \<open>Updates of one resident\<close>

lemma upd_frame [simp, frame]:
  "m_queue (upd rid f m) = m_queue m" "m_dict (upd rid f m) = m_dict m"
  "m_tasks (upd rid f m) = m_tasks m" "m_defers (upd rid f m) = m_defers m"
  "m_done (upd rid f m) = m_done m" "m_lost (upd rid f m) = m_lost m"
  "m_accepted (upd rid f m) = m_accepted m" "m_procs (upd rid f m) = m_procs m"
  "m_pids (upd rid f m) = m_pids m" "m_claimed (upd rid f m) = m_claimed m"
  "m_evictions (upd rid f m) = m_evictions m" "m_stop (upd rid f m) = m_stop m"
  "m_cap (upd rid f m) = m_cap m" "m_port_base (upd rid f m) = m_port_base m"
  "m_idle_default (upd rid f m) = m_idle_default m"
  "length (m_heap (upd rid f m)) = length (m_heap m)"
  by (simp_all add: upd_def)

lemma res_upd:
  "rid < length (m_heap m) \<Longrightarrow> res (upd rid f m) rid' = (if rid' = rid then f (res m rid) else res m rid')"
  by (auto simp: res_def upd_def)

lemma res_frame [simp, frame]:
  "res (m\<lparr>m_queue := q\<rparr>) = res m" "res (m\<lparr>m_dict := d\<rparr>) = res m" "res (m\<lparr>m_tasks := ts\<rparr>) = res m"
  "res (m\<lparr>m_defers := df\<rparr>) = res m" "res (m\<lparr>m_done := dn\<rparr>) = res m" "res (m\<lparr>m_lost := ls\<rparr>) = res m"
  "res (m\<lparr>m_accepted := acs\<rparr>) = res m" "res (m\<lparr>m_procs := ps\<rparr>) = res m" "res (m\<lparr>m_pids := pids\<rparr>) = res m"
  "res (m\<lparr>m_claimed := cl\<rparr>) = res m" "res (m\<lparr>m_evictions := ev\<rparr>) = res m" "res (m\<lparr>m_stop := st\<rparr>) = res m"
  by (auto simp: res_def)

subsection \<open>The account\<close>

definition opt_ids :: "slot option \<Rightarrow> string list" where
  "opt_ids s = (case s of None \<Rightarrow> [] | Some sl \<Rightarrow> [sl_id sl])"

definition inbox_ids :: "slot list option \<Rightarrow> string list" where
  "inbox_ids b = (case b of None \<Rightarrow> [] | Some ss \<Rightarrow> map sl_id ss)"

definition res_ids :: "resident \<Rightarrow> string multiset" where
  "res_ids r = mset (inbox_ids (r_inbox r)) + mset (map sl_id (r_inflight r)) +
               mset (opt_ids (r_active r)) + mset (opt_ids (hand (r_phase r)))"

fun task_ids :: "task \<Rightarrow> string multiset" where
  "task_ids (RequeueOne sl) = {#sl_id sl#}"
| "task_ids (RequeueBatch ss) = mset (map sl_id ss)"
| "task_ids _ = {#}"

definition ids :: "mgr \<Rightarrow> string multiset" where
  "ids m = mset (pending (m_queue m)) + sum_list (map res_ids (m_heap m)) +
           sum_list (map task_ids (m_tasks m)) + mset (map sl_id (m_done m)) + mset (map sl_id (m_lost m))"

lemma opt_ids_simps [simp]: "opt_ids None = []" "opt_ids (Some sl) = [sl_id sl]"
  by (simp_all add: opt_ids_def)

lemma inbox_ids_simps [simp]: "inbox_ids None = []" "inbox_ids (Some ss) = map sl_id ss"
  by (simp_all add: inbox_ids_def)

lemma opt_ids_map [simp]:
  "(\<And>sl. sl_id (f sl) = sl_id sl) \<Longrightarrow> opt_ids (map_option f s) = opt_ids s"
  by (cases s) simp_all

lemma slot_id_frame [simp, frame]:
  "sl_id (fail_completion_future sl e) = sl_id sl" "sl_id (set_result sl v) = sl_id sl"
  "sl_id (settle out sl) = sl_id sl"
  by (auto simp: fail_completion_future_def set_result_def settle_def split: option.splits sum.splits)

lemma sum_list_update:
  fixes xs :: "'a multiset list"
  shows "i < length xs \<Longrightarrow> sum_list (xs[i := y]) + xs ! i = sum_list xs + y"
proof (induction xs arbitrary: i)
  case (Cons x xs)
  show ?case
  proof (cases i)
    case (Suc j)
    with Cons have "sum_list (xs[j := y]) + xs ! j = sum_list xs + y" by simp
    with Suc show ?thesis by (metis (no_types, lifting) list_update_code(3) nth_Cons_Suc sum_list.Cons
        union_assoc)
  qed (simp add: ac_simps)
qed simp

text \<open>
  Changing one resident moves what it held: \<open>A\<close> leaves it and \<open>B\<close> enters.
\<close>

lemma ids_upd:
  assumes "rid < length (m_heap m)" and "res_ids (f (res m rid)) + A = res_ids (res m rid) + B"
  shows "ids (upd rid f m) + A = ids m + B"
proof -
  let ?ls = "map res_ids (m_heap m)"
  have "sum_list (?ls[rid := res_ids (f (res m rid))]) + ?ls ! rid = sum_list ?ls + res_ids (f (res m rid))"
    using assms(1) by (intro sum_list_update) simp
  then have "sum_list (map res_ids ((m_heap m)[rid := f (res m rid)])) + res_ids (res m rid) =
      sum_list ?ls + res_ids (f (res m rid))"
    using assms(1) by (simp add: map_update res_def)
  then have "sum_list (map res_ids ((m_heap m)[rid := f (res m rid)])) + A + res_ids (res m rid) =
      sum_list ?ls + B + res_ids (res m rid)"
    using assms(2) by (metis (no_types, lifting) union_assoc union_commute)
  then have "sum_list (map res_ids ((m_heap m)[rid := f (res m rid)])) + A = sum_list ?ls + B" by simp
  then show ?thesis by (simp add: ids_def upd_def ac_simps)
qed

lemma ids_upd_same:
  "rid < length (m_heap m) \<Longrightarrow> res_ids (f (res m rid)) = res_ids (res m rid) \<Longrightarrow> ids (upd rid f m) = ids m"
  using ids_upd [of rid m f "{#}" "{#}"] by simp

lemma ids_finish [simp]: "ids (finish sl m) = ids m + {#sl_id sl#}"
  by (simp add: ids_def finish_def)

lemma ids_fail_slot [simp]: "ids (fail_slot sl e m) = ids m + {#sl_id sl#}"
  by (simp add: fail_slot_def)

lemma ids_fail_all [simp]: "ids (fail_all ss e m) = ids m + mset (map sl_id ss)"
  by (simp add: ids_def fail_all_def o_def ac_simps)

lemma ids_add_task [simp]: "ids (add_task t m) = ids m + task_ids t"
  by (simp add: ids_def add_task_def)

lemma ids_frame [simp, frame]:
  "ids (m\<lparr>m_dict := d\<rparr>) = ids m" "ids (m\<lparr>m_defers := df\<rparr>) = ids m" "ids (m\<lparr>m_procs := ps\<rparr>) = ids m"
  "ids (m\<lparr>m_pids := pids\<rparr>) = ids m" "ids (m\<lparr>m_claimed := cl\<rparr>) = ids m"
  "ids (m\<lparr>m_evictions := ev\<rparr>) = ids m" "ids (m\<lparr>m_stop := st\<rparr>) = ids m"
  by (simp_all add: ids_def)

lemma ids_lose: "ids (m\<lparr>m_lost := m_lost m @ [sl]\<rparr>) = ids m + {#sl_id sl#}"
  by (simp add: ids_def)

lemma ids_queue:
  "mset (pending q) + A = mset (pending (m_queue m)) + B \<Longrightarrow> ids (m\<lparr>m_queue := q\<rparr>) + A = ids m + B"
  by (simp add: ids_def ac_simps)

lemma ids_deregister [simp]: "ids (deregister rid m) = ids m"
  by (simp add: deregister_def Let_def)

lemma ids_drop_task:
  assumes "i < length (m_tasks m)"
  shows "ids (drop_task i m) + task_ids (m_tasks m ! i) = ids m"
proof -
  have "sum_list (map task_ids (m_tasks m)) =
      sum_list (map task_ids (take i (m_tasks m))) + (task_ids (m_tasks m ! i) +
      sum_list (map task_ids (drop (Suc i) (m_tasks m))))"
    using assms by (metis (no_types, lifting) id_take_nth_drop list.simps(9) map_append sum_list.Cons sum_list.append)
  then show ?thesis by (simp add: ids_def drop_task_def ac_simps)
qed

subsection \<open>Well-formed registries\<close>

text \<open>
  What a phase says of the resident: nothing is served or in flight while the driver waits
  for or holds a request, and only a fan-out has riders. References are valid.
\<close>

fun waiting :: "phase \<Rightarrow> bool" where
  "waiting Start = True"
| "waiting (Loading _) = True"
| "waiting (Booting _ _) = True"
| "waiting (Ready _) = True"
| "waiting Parked = True"
| "waiting _ = False"

definition phase_ok :: "resident \<Rightarrow> bool" where
  "phase_ok r \<longleftrightarrow>
     (r_phase r \<noteq> FanOut \<longrightarrow> r_inflight r = []) \<and> (waiting (r_phase r) \<longrightarrow> r_active r = None)"

fun task_ok :: "nat \<Rightarrow> task \<Rightarrow> bool" where
  "task_ok n (EvictTeardown rid) \<longleftrightarrow> rid < n"
| "task_ok n (ReapDead rid) \<longleftrightarrow> rid < n"
| "task_ok n _ \<longleftrightarrow> True"

definition wf :: "mgr \<Rightarrow> bool" where
  "wf m \<longleftrightarrow> queue_inv (m_queue m) \<and> list_all phase_ok (m_heap m) \<and>
     (\<forall>p \<in> set (m_dict m). snd p < length (m_heap m)) \<and>
     list_all (task_ok (length (m_heap m))) (m_tasks m)"

lemma wf_phase: "wf m \<Longrightarrow> rid < length (m_heap m) \<Longrightarrow> phase_ok (res m rid)"
  by (simp add: wf_def res_def list_all_length)

lemma wf_upd: "wf m \<Longrightarrow> rid < length (m_heap m) \<Longrightarrow> phase_ok (f (res m rid)) \<Longrightarrow> wf (upd rid f m)"
  by (auto simp: wf_def upd_def list_all_iff dest: set_update_subset_insert [THEN subsetD])

lemma wf_frame [simp, frame]:
  "wf (m\<lparr>m_defers := df\<rparr>) = wf m" "wf (m\<lparr>m_done := dn\<rparr>) = wf m" "wf (m\<lparr>m_lost := ls\<rparr>) = wf m"
  "wf (m\<lparr>m_accepted := acs\<rparr>) = wf m" "wf (m\<lparr>m_procs := ps\<rparr>) = wf m" "wf (m\<lparr>m_pids := pids\<rparr>) = wf m"
  "wf (m\<lparr>m_claimed := cl\<rparr>) = wf m" "wf (m\<lparr>m_evictions := ev\<rparr>) = wf m" "wf (m\<lparr>m_stop := st\<rparr>) = wf m"
  "wf (finish sl m) = wf m" "wf (fail_slot sl e m) = wf m" "wf (fail_all ss e m) = wf m"
  "wf (kill_proc pid m) = wf m"
  by (simp_all add: wf_def finish_def fail_slot_def fail_all_def kill_proc_def)

lemma heap_frame [simp, frame]:
  "m_heap (finish sl m) = m_heap m" "m_heap (fail_slot sl e m) = m_heap m"
  "m_heap (fail_all ss e m) = m_heap m" "m_heap (add_task t m) = m_heap m"
  "m_heap (deregister rid m) = m_heap m" "m_heap (drop_task i m) = m_heap m"
  "m_heap (kill_proc pid m) = m_heap m"
  by (simp_all add: finish_def fail_slot_def fail_all_def add_task_def deregister_def drop_task_def
      kill_proc_def Let_def)

lemma fields_frame [simp, frame]:
  "m_dict (finish sl m) = m_dict m" "m_dict (fail_slot sl e m) = m_dict m"
  "m_dict (fail_all ss e m) = m_dict m" "m_dict (add_task t m) = m_dict m"
  "m_dict (drop_task i m) = m_dict m" "m_dict (kill_proc pid m) = m_dict m"
  "m_accepted (finish sl m) = m_accepted m" "m_accepted (fail_slot sl e m) = m_accepted m"
  "m_accepted (fail_all ss e m) = m_accepted m" "m_accepted (add_task t m) = m_accepted m"
  "m_accepted (drop_task i m) = m_accepted m" "m_accepted (kill_proc pid m) = m_accepted m"
  "m_accepted (deregister rid m) = m_accepted m"
  "m_cap (finish sl m) = m_cap m" "m_cap (fail_slot sl e m) = m_cap m"
  "m_cap (fail_all ss e m) = m_cap m" "m_cap (add_task t m) = m_cap m"
  "m_cap (drop_task i m) = m_cap m" "m_cap (kill_proc pid m) = m_cap m"
  "m_cap (deregister rid m) = m_cap m"
  "m_port_base (finish sl m) = m_port_base m" "m_port_base (fail_slot sl e m) = m_port_base m"
  "m_port_base (fail_all ss e m) = m_port_base m" "m_port_base (add_task t m) = m_port_base m"
  "m_port_base (drop_task i m) = m_port_base m" "m_port_base (kill_proc pid m) = m_port_base m"
  "m_port_base (deregister rid m) = m_port_base m"
  by (simp_all add: finish_def fail_slot_def fail_all_def add_task_def deregister_def drop_task_def
      kill_proc_def Let_def)

lemma res_frame' [simp, frame]:
  "res (finish sl m) = res m" "res (fail_slot sl e m) = res m" "res (fail_all ss e m) = res m"
  "res (add_task t m) = res m" "res (deregister rid m) = res m" "res (drop_task i m) = res m"
  "res (kill_proc pid m) = res m"
  by (auto simp: res_def)

lemma wf_add_task: "wf m \<Longrightarrow> task_ok (length (m_heap m)) t \<Longrightarrow> wf (add_task t m)"
  by (simp add: wf_def add_task_def)

lemma wf_deregister [simp]: "wf m \<Longrightarrow> wf (deregister rid m)"
  by (auto simp: wf_def deregister_def dict_del_def Let_def)

lemma wf_drop_task: "wf m \<Longrightarrow> wf (drop_task i m)"
  by (auto simp: wf_def drop_task_def list_all_iff dest: in_set_takeD in_set_dropD)

lemma wf_queue: "wf m \<Longrightarrow> queue_inv q \<Longrightarrow> wf (m\<lparr>m_queue := q\<rparr>)"
  by (simp add: wf_def)

text \<open>
  What every step does to the account: the registry stays well formed, and the requests
  \<open>A\<close> come in from outside.
\<close>

definition moves :: "mgr \<Rightarrow> string multiset \<Rightarrow> mgr \<Rightarrow> bool" where
  "moves m A m' \<longleftrightarrow> wf m' \<and> ids m' = ids m + A \<and> length (m_heap m) \<le> length (m_heap m') \<and>
     m_accepted m' = m_accepted m"

lemma phase_ok_frame [simp]:
  "phase_ok (r\<lparr>r_inbox := b\<rparr>) = phase_ok r" "phase_ok (r\<lparr>r_state := st\<rparr>) = phase_ok r"
  "phase_ok (r\<lparr>r_last_active := t\<rparr>) = phase_ok r" "phase_ok (r\<lparr>r_keep_alive := k\<rparr>) = phase_ok r"
  "phase_ok (r\<lparr>r_torn_down := td, r_handle := h, r_booting := bo\<rparr>) = phase_ok r"
  by (simp_all add: phase_ok_def)

lemma drain_inbox_moves:
  assumes "wf m" and "rid < length (m_heap m)"
  shows "moves m {#} (drain_inbox rid m)"
proof (cases "r_inbox (res m rid)")
  case None
  with assms show ?thesis by (simp add: drain_inbox_def moves_def)
next
  case (Some ss)
  have "ids (upd rid (r_inbox_update (\<lambda>_. Some [])) m) + mset (map sl_id ss) = ids m + {#}"
    using Some assms(2) by (intro ids_upd) (simp_all add: res_ids_def)
  with Some assms show ?thesis
    by (cases ss) (auto simp: drain_inbox_def moves_def intro!: wf_add_task wf_upd wf_phase)
qed

lemma drain_inbox_frame [simp, frame]:
  "length (m_heap (drain_inbox rid m)) = length (m_heap m)" "m_dict (drain_inbox rid m) = m_dict m"
  "m_accepted (drain_inbox rid m) = m_accepted m"
  by (auto simp: drain_inbox_def split: option.splits list.splits)

lemma begin_evict_moves:
  assumes "wf m" and "rid < length (m_heap m)"
  shows "moves m {#} (begin_evict rid m)"
proof -
  let ?m = "drain_inbox rid m"
  from drain_inbox_moves [OF assms] have d: "wf ?m" "ids ?m = ids m" by (auto simp: moves_def)
  let ?u = "upd rid (r_state_update (\<lambda>_. Dead)) ?m"
  have "ids ?u = ids ?m" using assms by (intro ids_upd_same) (simp_all add: res_ids_def)
  moreover have "wf ?u" using d assms by (intro wf_upd) (simp_all add: wf_phase)
  ultimately show ?thesis using d assms
    by (auto simp: begin_evict_def Let_def moves_def intro!: wf_add_task wf_deregister)
qed

lemma begin_evict_frame [simp, frame]: "length (m_heap (begin_evict rid m)) = length (m_heap m)"
  by (auto simp: begin_evict_def Let_def)

lemma claim_process_moves:
  assumes "wf m" and "rid < length (m_heap m)"
  shows "moves m {#} (claim_process rid m)"
proof -
  let ?u = "upd rid (\<lambda>r. r\<lparr>r_torn_down := True, r_handle := None, r_booting := None\<rparr>) m"
  have "ids ?u = ids m" using assms by (intro ids_upd_same) (simp_all add: res_ids_def)
  moreover have "wf ?u" using assms by (intro wf_upd) (simp_all add: wf_phase)
  ultimately show ?thesis
    by (auto simp: claim_process_def Let_def moves_def intro!: wf_add_task split: option.splits)
qed

lemma requeue_slot_moves:
  assumes "wf m"
  shows "moves m {#sl_id sl#} (requeue_slot sl m)"
proof (cases "enqueue_head (m_queue m) sl")
  case (Inl e)
  with assms show ?thesis by (cases e) (simp_all add: requeue_slot_def moves_def)
next
  case (Inr r)
  obtain q sl' where r: "r = (q, sl')" by (cases r)
  with Inr assms enqueue_head_books [of "m_queue m" sl q sl']
  have b: "queue_inv q" "mset (pending q) = mset (pending (m_queue m)) + {#sl_id sl#}"
    by (auto simp: wf_def)
  then have "ids (m\<lparr>m_queue := q\<rparr>) + {#} = ids m + {#sl_id sl#}" by (intro ids_queue) simp
  with Inr r b assms show ?thesis by (simp add: requeue_slot_def moves_def wf_queue)
qed

lemma requeue_batch_moves: "wf m \<Longrightarrow> moves m (mset (map sl_id ss)) (requeue_batch ss m)"
proof (induction ss arbitrary: m)
  case (Cons sl ss)
  from requeue_slot_moves [OF Cons.prems, of sl] Cons.IH [of "requeue_slot sl m"]
  show ?case by (auto simp: moves_def ac_simps)
qed (simp add: moves_def)

subsection \<open>The dispatcher\<close>

lemma movesD: "moves m A m' \<Longrightarrow> wf m' \<and> ids m' = ids m + A \<and> length (m_heap m) \<le> length (m_heap m') \<and>
    m_accepted m' = m_accepted m"
  by (simp add: moves_def)

lemma moves_trans: "moves m A m' \<Longrightarrow> moves m' B m'' \<Longrightarrow> moves m (A + B) m''"
  by (auto simp: moves_def ac_simps)

lemma moves_fail: "wf m \<Longrightarrow> moves m {#sl_id sl#} (fail_slot sl e m)"
  by (simp add: moves_def)

lemma moves_upd:
  assumes "wf m" and "rid < length (m_heap m)" and "phase_ok (f (res m rid))"
    and "res_ids (f (res m rid)) = res_ids (res m rid) + A"
  shows "moves m A (upd rid f m)"
  using assms ids_upd [of rid m f "{#}" A] by (simp add: moves_def wf_upd)

lemma task_ok_mono: "task_ok n t \<Longrightarrow> task_ok (Suc n) t"
  by (cases t) simp_all

lemma add_resident_moves:
  assumes "wf m" and "phase_ok r"
  shows "moves m (res_ids r) (m\<lparr>m_heap := m_heap m @ [r], m_dict := dict_put tag (length (m_heap m)) (m_dict m)\<rparr>)"
proof -
  let ?m = "m\<lparr>m_heap := m_heap m @ [r], m_dict := dict_put tag (length (m_heap m)) (m_dict m)\<rparr>"
  have "snd p < Suc (length (m_heap m))" if "p \<in> set (dict_put tag (length (m_heap m)) (m_dict m))" for p
    using that assms(1) by (auto simp: dict_put_def wf_def less_Suc_eq split: if_splits)
  moreover have "list_all (task_ok (Suc (length (m_heap m)))) (m_tasks m)"
    using assms(1) task_ok_mono by (auto simp: wf_def list_all_iff)
  ultimately have "wf ?m" using assms by (simp add: wf_def)
  then show ?thesis by (simp add: moves_def ids_def ac_simps)
qed

lemma reserve_moves:
  assumes "wf m"
  shows "moves m {#sl_id sl#} (reserve_and_start now foot vals sl m)"
proof -
  have "phase_ok (new_resident tag fp port now sl)" "res_ids (new_resident tag fp port now sl) = {#sl_id sl#}"
    for tag fp port
    by (simp_all add: new_resident_def blank_resident_def phase_ok_def hand_def res_ids_def)
  with add_resident_moves [OF assms] moves_fail [OF assms] show ?thesis
    by (auto simp: reserve_and_start_def split: sum.splits) (metis+)
qed

lemma defer_moves: "wf m \<Longrightarrow> moves m {#sl_id sl#} (defer_unroutable sl m)"
  by (auto simp: defer_unroutable_def Let_def moves_def intro!: wf_add_task)

lemma live_resident_valid: "wf m \<Longrightarrow> live_resident_for m tag = Some rid \<Longrightarrow> rid < length (m_heap m)"
  by (auto simp: live_resident_for_def wf_def split: option.splits if_splits dest!: map_of_SomeD)

lemma first_max_in: "first_max f xs = Some x \<Longrightarrow> x \<in> set xs"
  by (induction xs arbitrary: x) (auto split: option.splits if_splits)

lemma model_residents_valid: "wf m \<Longrightarrow> rid \<in> set (model_residents m) \<Longrightarrow> rid < length (m_heap m)"
  by (auto simp: model_residents_def wf_def)

lemma lru_valid: "wf m \<Longrightarrow> lru_idle_evictable m = Some rid \<Longrightarrow> rid < length (m_heap m)"
  by (auto simp: lru_idle_evictable_def first_min_def dest!: first_max_in intro: model_residents_valid)

lemma route_moves:
  assumes wf: "wf m"
  shows "moves m {#sl_id sl#} (route_or_reserve now foot vals sl m)"
proof (cases "live_resident_for m (sl_model_tag sl)")
  case None
  have "moves m {#sl_id sl#} (reserve_and_start now foot vals sl (begin_evict victim m))"
    if "lru_idle_evictable m = Some victim" for victim
  proof -
    have e: "moves m {#} (begin_evict victim m)" using begin_evict_moves [OF wf lru_valid [OF wf that]] .
    from moves_trans [OF e reserve_moves] movesD [OF e] show ?thesis by simp
  qed
  with None wf show ?thesis
    by (auto simp: route_or_reserve_def defer_moves reserve_moves split: option.splits)
next
  case (Some rid)
  from live_resident_valid [OF wf Some] have v: "rid < length (m_heap m)" .
  let ?f = "\<lambda>r. r\<lparr>r_state := (if r_state r = IdleEvictable then RActive else r_state r), r_last_active := now\<rparr>"
  have u: "moves m {#} (upd rid ?f m)"
    using wf v wf_phase [OF wf v] by (intro moves_upd) (simp_all add: phase_ok_def res_ids_def)
  show ?thesis
  proof (cases "r_inbox (res m rid)")
    case None
    with Some u ids_lose [of "upd rid ?f m" sl] show ?thesis by (simp add: route_or_reserve_def moves_def)
  next
    case (Some ss)
    let ?g = "r_inbox_update (\<lambda>_. Some (ss @ [sl]))"
    have "moves (upd rid ?f m) {#sl_id sl#} (upd rid ?g (upd rid ?f m))"
      using movesD [OF u] v Some wf_phase [OF wf v]
      by (intro moves_upd) (simp_all add: phase_ok_def res_upd res_ids_def)
    from moves_trans [OF u this] Some \<open>live_resident_for m (sl_model_tag sl) = Some rid\<close>
    show ?thesis by (simp add: route_or_reserve_def Let_def)
  qed
qed

lemma dispatch_moves:
  assumes wf: "wf m"
  shows "moves m {#} (dispatch_turn now foot vals m)"
proof -
  obtain out q where p: "pop_next (m_queue m) now (dispatch_warm_hint m) = (out, q)" by fastforce
  with pop_next_ok [of "m_queue m" now "dispatch_warm_hint m"] wf have ok: "pop_ok (m_queue m) (out, q)"
    by (simp add: wf_def)
  then obtain r where out: "out = Inr r" by (cases out) (simp_all add: pop_ok_def)
  show ?thesis
  proof (cases r)
    case None
    with ok out have "queue_inv q" "pending q = pending (m_queue m)" by (simp_all add: pop_ok_def)
    with wf p out None show ?thesis by (simp add: dispatch_turn_def moves_def wf_queue ids_def)
  next
    case (Some sl)
    with ok out have b: "queue_inv q" "mset (pending (m_queue m)) = mset (pending q) + {#sl_id sl#}"
      by (auto simp: pop_ok_def)
    let ?m = "m\<lparr>m_queue := q\<rparr>"
    have i: "ids ?m + {#sl_id sl#} = ids m"
      using b(2) ids_queue [of q "{#sl_id sl#}" m "{#}"] by simp
    have w: "wf ?m" using wf b(1) by (rule wf_queue)
    have "moves ?m {#sl_id sl#} (dispatch_popped now foot vals sl ?m)"
      using route_moves [OF w] moves_fail [OF w]
      by (simp add: dispatch_popped_def handle_evicted_slot_def moves_def)
    with i p out Some show ?thesis by (simp add: dispatch_turn_def moves_def)
  qed
qed

subsection \<open>Drivers and tasks\<close>

lemma moves_refl: "wf m \<Longrightarrow> moves m {#} m"
  by (simp add: moves_def)

lemma moves_out:
  assumes "wf m" and "rid < length (m_heap m)" and "phase_ok (f (res m rid))"
    and "res_ids (f (res m rid)) + {#sl_id sl#} = res_ids (res m rid)"
  shows "moves m {#} (finish sl (upd rid f m))"
  using wf_upd [of m rid f] ids_upd [of rid m f "{#sl_id sl#}" "{#}"] assms by (simp add: moves_def)

lemma moves_out_all:
  assumes "wf m" and "rid < length (m_heap m)" and "phase_ok (f (res m rid))"
    and "res_ids (f (res m rid)) + mset (map sl_id ss) = res_ids (res m rid)"
  shows "moves m {#} (fail_all ss e (upd rid f m))"
  using wf_upd [of m rid f] ids_upd [of rid m f "mset (map sl_id ss)" "{#}"] assms by (simp add: moves_def)

lemma take_inbox_moves:
  assumes "wf m" and "rid < length (m_heap m)" and "hand (r_phase (res m rid)) = None"
    and "waiting (r_phase (res m rid))" and "\<And>sl. hand (mk sl) = Some sl" and "\<And>sl. waiting (mk sl)"
  shows "moves m {#} (take_inbox rid mk m)"
proof (cases "r_inbox (res m rid)")
  case (Some b)
  show ?thesis
  proof (cases b)
    case (Cons sl ss)
    have "mk sl \<noteq> FanOut" using assms(6) [of sl] by auto
    with assms Some Cons wf_phase [OF assms(1,2)]
    have "moves m {#} (upd rid (\<lambda>r. r\<lparr>r_inbox := Some ss, r_phase := mk sl\<rparr>) m)"
      by (intro moves_upd) (auto simp: res_ids_def phase_ok_def split: if_splits)
    with Some Cons show ?thesis by (simp add: take_inbox_def)
  qed (use assms Some in \<open>simp add: take_inbox_def moves_refl\<close>)
qed (use assms in \<open>simp add: take_inbox_def moves_refl\<close>)

lemma set_phase_moves:
  assumes "wf m" and "rid < length (m_heap m)" and "hand p = hand (r_phase (res m rid))"
    and "phase_ok ((res m rid)\<lparr>r_phase := p\<rparr>)"
  shows "moves m {#} (set_phase rid p m)"
  unfolding set_phase_def using assms by (intro moves_upd) (simp_all add: res_ids_def)

lemma hand_simps [simp]:
  "hand Start = None" "hand (Loading sl) = Some sl" "hand (Booting sl pid) = Some sl"
  "hand (Ready sl) = Some sl" "hand Serving = None" "hand FanOut = None" "hand Served = None"
  "hand (Matching sl) = Some sl" "hand Parked = None" "hand (Exiting h) = h" "hand Gone = None"
  by (simp_all add: hand_def)

lemma spawn_moves:
  assumes "wf m" and "at_phase m rid (Loading sl)"
  shows "moves m {#} (spawn_refused rid sl m)" and "moves m {#} (spawned rid sl pid m)"
proof -
  from assms(2) have v: "rid < length (m_heap m)" "r_phase (res m rid) = Loading sl"
    by (simp_all add: at_phase_def)
  have ok: "r_active (res m rid) = None" "r_inflight (res m rid) = []"
    using wf_phase [OF assms(1) v(1)] v(2) by (simp_all add: phase_ok_def)
  show "moves m {#} (spawn_refused rid sl m)"
    unfolding spawn_refused_def set_phase_def using assms v ok
    by (intro moves_upd) (simp_all add: res_ids_def phase_ok_def)
  have "moves (m\<lparr>m_procs := ps, m_pids := pids\<rparr>) {#}
      (upd rid (\<lambda>r. r\<lparr>r_booting := Some pid, r_phase := Booting (sl\<lparr>sl_port := Some port, sl_pid := Some pid\<rparr>) pid\<rparr>)
        (m\<lparr>m_procs := ps, m_pids := pids\<rparr>))" for ps pids port
    using assms v ok by (intro moves_upd) (simp_all add: res_ids_def phase_ok_def)
  then show "moves m {#} (spawned rid sl pid m)"
    by (simp add: spawned_def Let_def moves_def)
qed

lemma boot_moves:
  assumes "wf m" and "at_phase m rid (Booting sl pid)"
  shows "moves m {#} (unhealthy rid sl pid m)" and "moves m {#} (healthy rid sl pid m)"
proof -
  from assms(2) have v: "rid < length (m_heap m)" "r_phase (res m rid) = Booting sl pid"
    by (simp_all add: at_phase_def)
  have ok: "r_active (res m rid) = None" "r_inflight (res m rid) = []"
    using wf_phase [OF assms(1) v(1)] v(2) by (simp_all add: phase_ok_def)
  have "moves m {#} (upd rid (\<lambda>r. r\<lparr>r_booting := None, r_phase := Exiting (Some (fail_completion_future sl e))\<rparr>) m)" for e
    using assms v ok by (intro moves_upd) (simp_all add: res_ids_def phase_ok_def)
  then show "moves m {#} (unhealthy rid sl pid m)"
    by (auto simp: unhealthy_def Let_def moves_def intro!: wf_add_task)
  show "moves m {#} (healthy rid sl pid m)"
    unfolding healthy_def using assms v ok by (intro moves_upd) (simp_all add: res_ids_def phase_ok_def)
qed

lemma begin_serve_moves:
  assumes "wf m" and "at_phase m rid (Ready sl)"
  shows "moves m {#} (begin_serve rid sl now m)"
proof -
  from assms(2) have v: "rid < length (m_heap m)" "r_phase (res m rid) = Ready sl"
    by (simp_all add: at_phase_def)
  have ok: "r_active (res m rid) = None" "r_inflight (res m rid) = []"
    using wf_phase [OF assms(1) v(1)] v(2) by (simp_all add: phase_ok_def)
  have "moves m {#} (set_phase rid (Exiting (Some sl)) m)"
    using assms v ok by (intro set_phase_moves) (simp_all add: phase_ok_def)
  moreover have "moves m {#} (upd rid (\<lambda>r. r\<lparr>r_state := RActive, r_active := Some sl, r_last_active := now,
      r_inflight := [], r_phase := (if 1 < r_parallel r then FanOut else Serving)\<rparr>) m)"
    using assms v ok by (intro moves_upd) (simp_all add: res_ids_def phase_ok_def)
  ultimately show ?thesis by (simp add: begin_serve_def)
qed

lemma complete_moves:
  assumes "wf m" and "at_phase m rid Serving"
  shows "moves m {#} (complete_anchor rid v m)"
  unfolding complete_anchor_def using assms wf_phase [of m rid]
  by (intro moves_upd) (auto simp: at_phase_def res_ids_def phase_ok_def)

lemma admit_moves:
  assumes "wf m" and "at_phase m rid FanOut"
  shows "moves m {#} (admit_rider rid m)"
proof (cases "r_inbox (res m rid)")
  case (Some b)
  from assms(2) have v: "rid < length (m_heap m)" "r_phase (res m rid) = FanOut"
    by (simp_all add: at_phase_def)
  show ?thesis
  proof (cases b)
    case (Cons sl ss)
    have "moves m {#} (fail_slot sl SlotEvicted (upd rid (r_inbox_update (\<lambda>_. Some ss)) m))"
      unfolding fail_slot_def using Some Cons assms v by (intro moves_out) (simp_all add: res_ids_def wf_phase)
    moreover have "moves m {#} (upd rid (\<lambda>r. r\<lparr>r_inbox := Some ss, r_inflight := r_inflight r @ [sl]\<rparr>) m)"
      using Some Cons assms v by (intro moves_upd) (simp_all add: res_ids_def phase_ok_def)
    ultimately show ?thesis using Some Cons assms by (simp add: admit_rider_def Let_def moves_refl)
  qed (use Some assms in \<open>simp add: admit_rider_def Let_def moves_refl\<close>)
qed (use assms in \<open>simp add: admit_rider_def Let_def moves_refl\<close>)

lemma mset_drop_nth: "i < length xs \<Longrightarrow> mset (take i xs @ drop (Suc i) xs) + {#xs ! i#} = mset xs"
  by (metis add.commute add_mset_add_single id_take_nth_drop mset.simps(2) mset_append union_mset_add_mset_right)

lemma rider_moves:
  assumes "wf m" and "at_phase m rid FanOut" and "i < length (r_inflight (res m rid))"
  shows "moves m {#} (rider_done rid i out m)"
proof -
  let ?fl = "r_inflight (res m rid)"
  have "mset (map sl_id (take i ?fl @ drop (Suc i) ?fl)) + {#sl_id (?fl ! i)#} = mset (map sl_id ?fl)"
    using mset_drop_nth [of i "map sl_id ?fl"] assms(3) by (simp add: take_map drop_map)
  then have "res_ids ((res m rid)\<lparr>r_inflight := take i ?fl @ drop (Suc i) ?fl\<rparr>) +
      {#sl_id (settle out (?fl ! i))#} = res_ids (res m rid)"
    using assms(2) by (simp add: res_ids_def at_phase_def)
  then show ?thesis using assms unfolding rider_done_def Let_def
    by (intro moves_out) (simp_all add: at_phase_def phase_ok_def)
qed

lemma anchor_moves:
  assumes "wf m" and "at_phase m rid FanOut"
  shows "moves m {#} (anchor_done rid out m)"
  unfolding anchor_done_def using assms
  by (intro moves_upd) (auto simp: at_phase_def res_ids_def phase_ok_def)

lemma match_begin_moves:
  assumes "wf m" and "at_phase m rid Served"
  shows "moves m {#} (match_begin rid m)"
proof (cases "r_active (res m rid)")
  case (Some anchor)
  from assms(2) have v: "rid < length (m_heap m)" "r_phase (res m rid) = Served"
    by (simp_all add: at_phase_def)
  have ok: "r_inflight (res m rid) = []" using wf_phase [OF assms(1) v(1)] v(2) by (simp add: phase_ok_def)
  obtain out q where p: "pop_matched_thread (m_queue m) (sl_thread_id anchor) (sl_model_tag anchor) = (out, q)"
    by fastforce
  show ?thesis
  proof (cases out)
    case None
    with p have "q = m_queue m" by (auto simp: pop_matched_thread_def split: if_splits option.splits)
    with None p Some assms(1) show ?thesis by (simp add: match_begin_def moves_refl)
  next
    case out: (Some sl)
    with p pop_matched_books [of "m_queue m" "sl_thread_id anchor" "sl_model_tag anchor" sl q] assms(1)
    have b: "queue_inv q" "mset (pending (m_queue m)) = mset (pending q) + {#sl_id sl#}" by (auto simp: wf_def)
    let ?m = "m\<lparr>m_queue := q\<rparr>"
    have i: "ids ?m + {#sl_id sl#} = ids m" using b(2) ids_queue [of q "{#sl_id sl#}" m "{#}"] by simp
    have "moves ?m {#sl_id sl#} (upd rid (\<lambda>r. r\<lparr>r_active := Some sl, r_phase := Matching anchor\<rparr>) ?m)"
      using wf_queue [OF assms(1) b(1)] v Some ok by (intro moves_upd) (simp_all add: res_ids_def phase_ok_def)
    with i p out Some show ?thesis by (simp add: match_begin_def moves_def)
  qed
qed (use assms in \<open>simp add: match_begin_def moves_refl\<close>)

lemma match_end_moves:
  assumes "wf m" and "at_phase m rid (Matching anchor)"
  shows "moves m {#} (match_end rid anchor out m)"
proof (cases "r_active (res m rid)")
  case (Some sl)
  from assms wf_phase [of m rid] Some show ?thesis unfolding match_end_def
    by (auto intro!: moves_out simp: at_phase_def res_ids_def phase_ok_def)
qed (use assms in \<open>simp add: match_end_def moves_refl\<close>)

lemma retire_moves:
  assumes "wf m" and "rid < length (m_heap m)"
  shows "moves m {#} (retire_active rid now m)"
proof (cases "r_active (res m rid)")
  case None
  with assms wf_phase [OF assms] show ?thesis unfolding retire_active_def
    by (auto intro!: moves_upd simp: res_ids_def phase_ok_def)
next
  case (Some sl)
  with assms wf_phase [OF assms] show ?thesis unfolding retire_active_def
    by (auto intro!: moves_out simp: res_ids_def phase_ok_def)
qed

lemma retire_frame [simp]:
  "rid < length (m_heap m) \<Longrightarrow> r_phase (res (retire_active rid now m) rid) = r_phase (res m rid)"
  "rid < length (m_heap m) \<Longrightarrow> r_active (res (retire_active rid now m) rid) = None"
  "rid < length (m_heap m) \<Longrightarrow> r_inflight (res (retire_active rid now m) rid) = r_inflight (res m rid)"
  "length (m_heap (retire_active rid now m)) = length (m_heap m)"
  by (auto simp: retire_active_def res_upd split: option.splits)

lemma evict_exit_moves:
  assumes "wf m" and "rid < length (m_heap m)" and "hand (r_phase (res m rid)) = None"
    and "r_inflight (res m rid) = []"
  shows "moves m {#} (begin_evict rid (set_phase rid (Exiting None) m))"
proof -
  have p: "moves m {#} (set_phase rid (Exiting None) m)"
    using assms by (intro set_phase_moves) (simp_all add: phase_ok_def)
  have "moves (set_phase rid (Exiting None) m) {#} (begin_evict rid (set_phase rid (Exiting None) m))"
    using movesD [OF p] assms by (intro begin_evict_moves) (simp_all add: set_phase_def)
  from moves_trans [OF p this] show ?thesis by simp
qed

lemma park_moves:
  assumes "wf m" and "at_phase m rid Served"
  shows "moves m {#} (park rid keep now m)"
proof -
  from assms(2) have v: "rid < length (m_heap m)" "r_phase (res m rid) = Served"
    by (simp_all add: at_phase_def)
  have ok: "r_inflight (res m rid) = []" using wf_phase [OF assms(1) v(1)] v(2) by (simp add: phase_ok_def)
  let ?k = "upd rid (r_keep_alive_update (\<lambda>_. keep)) m"
  let ?r = "retire_active rid now ?k"
  have k: "moves m {#} ?k" using assms(1) v wf_phase [OF assms(1) v(1)]
    by (intro moves_upd) (simp_all add: res_ids_def)
  have r: "moves ?k {#} ?r" using movesD [OF k] v by (intro retire_moves) simp_all
  have st: "r_phase (res ?r rid) = Served" "r_active (res ?r rid) = None" "r_inflight (res ?r rid) = []"
    using v ok by (simp_all add: res_upd)
  have "moves ?k {#} (set_phase rid (Exiting None) ?k)"
    using movesD [OF k] v ok by (intro set_phase_moves) (simp_all add: res_upd phase_ok_def)
  moreover have "moves ?r {#} (begin_evict rid (set_phase rid (Exiting None) ?r))"
    using movesD [OF r] v st by (intro evict_exit_moves) simp_all
  moreover have "moves ?r {#} (upd rid (\<lambda>r. r\<lparr>r_state := IdleEvictable, r_idle_expires := e, r_phase := Parked\<rparr>) ?r)"
    for e using movesD [OF r] v st by (intro moves_upd) (simp_all add: res_ids_def phase_ok_def)
  ultimately show ?thesis using k r by (auto simp: park_def Let_def moves_def)
qed

lemma timeout_moves:
  assumes "wf m" and "at_phase m rid Parked"
  shows "moves m {#} (idle_timeout rid m)"
proof -
  from assms(2) have v: "rid < length (m_heap m)" "r_phase (res m rid) = Parked"
    by (simp_all add: at_phase_def)
  have ok: "r_inflight (res m rid) = []" using wf_phase [OF assms(1) v(1)] v(2) by (simp add: phase_ok_def)
  have "moves m {#} (take_inbox rid Ready m)" using assms v by (intro take_inbox_moves) simp_all
  moreover have "moves m {#} (begin_evict rid (set_phase rid (Exiting None) m))"
    using assms v ok by (intro evict_exit_moves) simp_all
  moreover have "moves m {#} (set_phase rid (Exiting None) m)"
    using assms v ok by (intro set_phase_moves) (simp_all add: phase_ok_def)
  ultimately show ?thesis by (auto simp: idle_timeout_def Let_def split: option.splits list.splits)
qed

lemma crash_moves:
  assumes "wf m" and "rid < length (m_heap m)"
  shows "moves m {#} (crash rid m)"
proof -
  let ?r = "res m rid" and ?e = "RuntimeErr ''fan-out interrupted''"
  let ?f = "\<lambda>r. r\<lparr>r_inflight := [],
      r_active := (if r_phase r = FanOut then map_option (\<lambda>sl. fail_completion_future sl ?e) (r_active r) else r_active r)\<rparr>"
  let ?u = "fail_all (r_inflight ?r) ?e (upd rid ?f m)"
  have u: "moves m {#} ?u"
    using assms wf_phase [OF assms] by (intro moves_out_all) (simp_all add: res_ids_def phase_ok_def)
  have "moves ?u {#} (set_phase rid (Exiting (hand (r_phase ?r))) ?u)"
    using movesD [OF u] assms by (intro set_phase_moves) (simp_all add: res_upd phase_ok_def)
  from moves_trans [OF u this] show ?thesis by (simp add: crash_def Let_def)
qed

lemma reap_dead_moves:
  assumes "wf m" and "rid < length (m_heap m)"
  shows "moves m {#} (reap_dead_resident rid m)"
proof -
  let ?f = "\<lambda>sl. (fail_completion_future sl (RuntimeErr ''driver died''))
      \<lparr>sl_stream_done := map_option (\<lambda>_. True) (sl_stream_done sl)\<rparr>"
  let ?u = "upd rid (\<lambda>r. r\<lparr>r_active := map_option ?f (r_active r), r_inflight := map ?f (r_inflight r)\<rparr>) m"
  have u: "moves m {#} ?u" using assms wf_phase [OF assms]
    by (intro moves_upd) (simp_all add: res_ids_def phase_ok_def o_def)
  have "moves ?u {#} (begin_evict rid ?u)" using movesD [OF u] assms by (intro begin_evict_moves) simp_all
  from moves_trans [OF u this] show ?thesis by (simp add: reap_dead_resident_def Let_def)
qed

lemma evict_teardown_moves:
  "wf m \<Longrightarrow> rid < length (m_heap m) \<Longrightarrow> moves m {#} (evict_teardown rid m)"
  by (simp add: evict_teardown_def claim_process_moves moves_refl)

lemma run_task_moves:
  assumes "wf m" and "task_ok (length (m_heap m)) t"
  shows "moves m (task_ids t) (run_task t m)"
  using assms requeue_slot_moves requeue_batch_moves evict_teardown_moves reap_dead_moves
  by (cases t) (auto simp: moves_def kill_proc_def ids_frame)

lemma cancel_task_moves: "wf m \<Longrightarrow> moves m (task_ids t) (cancel_task t m)"
  by (cases t) (simp_all add: moves_def)

lemma drop_then_run:
  assumes "wf m" and "i < length (m_tasks m)"
    and "\<And>m'. wf m' \<Longrightarrow> length (m_heap m') = length (m_heap m) \<Longrightarrow>
           moves m' (task_ids (m_tasks m ! i)) (f m')"
  shows "moves m {#} (f (drop_task i m))"
  using assms(3) [of "drop_task i m"] wf_drop_task [OF assms(1), of i] ids_drop_task [OF assms(2)]
  by (auto simp: moves_def)

lemma moves_add_task:
  "moves m A m' \<Longrightarrow> task_ids t = {#} \<Longrightarrow> task_ok (length (m_heap m')) t \<Longrightarrow> moves m A (add_task t m')"
  by (auto simp: moves_def intro: wf_add_task)

text \<open>Dropping the phase gives up the slot in hand, which went to one of the logs before.\<close>

lemma gone_moves:
  assumes "moves m (mset (opt_ids h)) m'" and "rid < length (m_heap m)"
    and "r_phase (res m' rid) = Exiting h" and "r_inflight (res m' rid) = []"
  shows "moves m {#} (set_phase rid Gone m')"
proof -
  from assms(1) have w: "wf m'" "ids m' = ids m + mset (opt_ids h)"
    "length (m_heap m) \<le> length (m_heap m')" "m_accepted m' = m_accepted m" by (auto simp: moves_def)
  have "ids (set_phase rid Gone m') + mset (opt_ids h) = ids m' + {#}"
    unfolding set_phase_def using w assms by (intro ids_upd) (simp_all add: res_ids_def)
  moreover have "wf (set_phase rid Gone m')"
    unfolding set_phase_def using w assms by (intro wf_upd) (simp_all add: phase_ok_def)
  ultimately show ?thesis using w by (simp add: moves_def set_phase_def)
qed

lemma abandon_moves: "wf m \<Longrightarrow> moves m (mset (opt_ids h)) (abandon h m)"
  using ids_lose by (auto simp: abandon_def moves_def split: option.splits)

lemma res_abandon [simp]: "res (abandon h m) = res m"
  by (auto simp: abandon_def split: option.splits)

lemma mark_dead_moves:
  assumes "wf m" and "rid < length (m_heap m)"
  shows "moves m {#} (mark_dead rid m)"
proof -
  have "moves m {#} (upd rid (r_state_update (\<lambda>_. Dead)) m)"
    using assms by (intro moves_upd) (simp_all add: res_ids_def wf_phase)
  with assms show ?thesis by (auto simp: mark_dead_def moves_def)
qed

lemma length_frame [simp, frame]:
  "length (m_heap (claim_process rid m)) = length (m_heap m)"
  "length (m_heap (mark_dead rid m)) = length (m_heap m)"
  by (auto simp: claim_process_def mark_dead_def Let_def split: option.splits)

lemma clean_up_moves:
  assumes "wf m" and "rid < length (m_heap m)"
  shows "moves m (mset (opt_ids h)) (clean_up rid h m)"
proof -
  let ?d = "mark_dead rid m" and ?c = "claim_process rid (mark_dead rid m)"
  have d: "moves m {#} ?d" using assms by (intro mark_dead_moves)
  from movesD [OF d] assms have "moves ?d {#} ?c" by (intro claim_process_moves) simp_all
  from moves_trans [OF d this] have c: "moves m {#} ?c" by simp
  from movesD [OF c] assms have "moves ?c {#} (drain_inbox rid ?c)" by (intro drain_inbox_moves) simp_all
  from moves_trans [OF c this] have k: "moves m {#} (drain_inbox rid ?c)" by simp
  with moves_trans [OF k moves_fail] movesD [OF k] show ?thesis
    by (cases h) (auto simp: clean_up_def Let_def)
qed

lemma claim_process_res:
  assumes "rid < length (m_heap m)"
  shows "res (claim_process rid m) rid' =
           (if rid' = rid then (res m rid)\<lparr>r_torn_down := True, r_handle := None, r_booting := None\<rparr>
            else res m rid')"
  using assms by (auto simp: claim_process_def Let_def res_upd split: option.splits)

lemma drain_inbox_res:
  assumes "rid < length (m_heap m)"
  shows "res (drain_inbox rid m) rid' =
           (if rid' = rid then (res m rid)\<lparr>r_inbox := map_option (\<lambda>_. []) (r_inbox (res m rid))\<rparr>
            else res m rid')"
  using assms by (auto simp: drain_inbox_def res_upd split: option.splits list.splits)

lemma mark_dead_res:
  assumes "rid < length (m_heap m)"
  shows "\<exists>st. res (mark_dead rid m) rid' = (if rid' = rid then (res m rid)\<lparr>r_state := st\<rparr> else res m rid')"
  using assms by (auto simp: mark_dead_def res_upd intro: exI [of _ "r_state (res m rid)"])

lemma clean_up_frame:
  assumes "rid < length (m_heap m)"
  shows "r_phase (res (clean_up rid h m) rid) = r_phase (res m rid)"
    and "r_inflight (res (clean_up rid h m) rid) = r_inflight (res m rid)"
proof -
  obtain st where "res (mark_dead rid m) rid = (res m rid)\<lparr>r_state := st\<rparr>"
    using mark_dead_res [OF assms, of rid] by auto
  then show "r_phase (res (clean_up rid h m) rid) = r_phase (res m rid)"
    and "r_inflight (res (clean_up rid h m) rid) = r_inflight (res m rid)"
    using assms by (cases h; simp add: clean_up_def Let_def drain_inbox_res claim_process_res)+
qed

lemma driver_exit_moves:
  assumes "wf m" and "at_phase m rid (Exiting h)"
  shows "moves m {#} (driver_exit rid h m)"
proof -
  from assms(2) have v: "rid < length (m_heap m)" "r_phase (res m rid) = Exiting h"
    by (simp_all add: at_phase_def)
  have ok: "r_inflight (res m rid) = []" using wf_phase [OF assms(1) v(1)] v(2) by (simp add: phase_ok_def)
  let ?m = "if r_torn_down (res m rid) then abandon h m else clean_up rid h m"
  have "moves m (mset (opt_ids h)) ?m" using assms(1) v by (simp add: abandon_moves clean_up_moves)
  then have g: "moves m {#} (set_phase rid Gone ?m)"
    using v ok clean_up_frame [OF v(1), of h] by (intro gone_moves) auto
  then show ?thesis unfolding driver_exit_def using movesD [OF g] v by (intro moves_add_task) auto
qed

subsection \<open>Every run\<close>

definition books :: "mgr \<Rightarrow> bool" where
  "books m \<longleftrightarrow> wf m \<and> ids m = mset (m_accepted m) \<and> distinct (m_accepted m)"

lemma books_moves: "books m \<Longrightarrow> moves m {#} m' \<Longrightarrow> books m'"
  by (simp add: books_def moves_def)

lemma step_moves:
  assumes "mstep m m'" and "wf m"
  shows "moves m {#} m' \<or> (\<exists>sl q sl'. (enqueue (m_queue m) sl = Inr (q, sl') \<or> enqueue_head (m_queue m) sl = Inr (q, sl')) \<and>
           sl_id sl \<notin> set (m_accepted m) \<and> m' = accept sl q m)"
  using assms
proof (induction rule: mstep.induct)
  case (m_disconnect m sid)
  then have "queue_inv (m_queue m)" by (simp add: wf_def)
  from disconnect_books [OF this, of sid] m_disconnect show ?case
    by (simp add: moves_def wf_queue ids_def)
next
  case (m_task i m)
  have "moves m {#} (run_task (m_tasks m ! i) (drop_task i m))"
    using m_task by (intro drop_then_run run_task_moves) (auto simp: wf_def list_all_length)
  then show ?case ..
next
  case (m_cancel m i)
  have "moves m {#} (cancel_task (m_tasks m ! i) (drop_task i m))"
    using m_cancel by (intro drop_then_run cancel_task_moves)
  then show ?case ..
next
  case (m_start m rid)
  then have "moves m {#} (take_inbox rid Loading m)"
    by (intro take_inbox_moves) (simp_all add: at_phase_def)
  then show ?case ..
next
  case (m_wake m rid)
  then have "moves m {#} (take_inbox rid Ready m)"
    by (intro take_inbox_moves) (simp_all add: at_phase_def)
  then show ?case ..
next
  case (m_drained m rid)
  then have "moves m {#} (set_phase rid Served m)"
    by (intro set_phase_moves) (simp_all add: at_phase_def phase_ok_def)
  then show ?case ..
next
  case (m_crash m rid p)
  then have "moves m {#} (crash rid m)" by (intro crash_moves) (simp_all add: at_phase_def)
  then show ?case ..
next
  case (m_proc_exit m pid)
  then show ?case by (simp add: proc_exits_def kill_proc_def moves_def)
next
  case (m_signal m)
  then show ?case by (simp add: moves_def)
next
  case (m_close m)
  obtain cleared q where c: "close (m_queue m) = (cleared, q)" by fastforce
  from m_close have qi: "queue_inv (m_queue m)" by (simp add: wf_def)
  from close_books [OF qi c] have b: "queue_inv q" "mset (pending (m_queue m)) = mset (map sl_id cleared)"
    "pending q = []" by auto
  then have "ids (m\<lparr>m_queue := q\<rparr>) + mset (map sl_id cleared) = ids m" by (simp add: ids_def ac_simps)
  with c m_close wf_queue [OF _ b(1)] show ?case by (simp add: close_queue_def moves_def)
qed (blast intro: dispatch_moves spawn_moves boot_moves begin_serve_moves complete_moves admit_moves
    rider_moves anchor_moves match_begin_moves match_end_moves park_moves timeout_moves driver_exit_moves)+

lemma accept_books:
  assumes "books m" and "enqueue (m_queue m) sl = Inr (q, sl') \<or> enqueue_head (m_queue m) sl = Inr (q, sl')"
    and "sl_id sl \<notin> set (m_accepted m)"
  shows "books (accept sl q m)"
proof -
  from assms(1) have qi: "queue_inv (m_queue m)" by (simp add: books_def wf_def)
  with assms(2) enqueue_books [OF qi] enqueue_head_books [OF qi]
  have b: "queue_inv q" "mset (pending q) = mset (pending (m_queue m)) + {#sl_id sl#}" by blast+
  with assms(1,3) show ?thesis by (simp add: books_def accept_def wf_def ids_def)
qed

lemma step_books: "mstep m m' \<Longrightarrow> books m \<Longrightarrow> books m'"
  using step_moves [of m m'] books_moves accept_books by (metis books_def)

lemma reach_books: "mreach m m' \<Longrightarrow> books m \<Longrightarrow> books m'"
  by (induction rule: mreach.induct) (blast intro: step_books)+

end
