(* ===== verification/RegistrySafety.thy ===== *)
theory RegistrySafety
  imports RegistryBooks
begin

text \<open>
  What the registry keeps true at every moment: at most \<open>max_parallel_sidecars\<close> residents,
  each alone on its card and its port once there are two, dead residents never routed to,
  and each sidecar process torn down by exactly one party and never forgotten.
\<close>

subsection \<open>The invariant\<close>

fun booting_phase :: "phase \<Rightarrow> bool" where
  "booting_phase Start = True"
| "booting_phase (Loading _) = True"
| "booting_phase (Booting _ _) = True"
| "booting_phase _ = False"

text \<open>A registered resident under key \<open>k\<close>.\<close>

definition entry :: "resident \<Rightarrow> string \<Rightarrow> bool" where
  "entry r k \<longleftrightarrow> r_tag r = k \<and> r_state r \<noteq> Dead \<and> r_inbox r \<noteq> None \<and> \<not> r_torn_down r \<and> r_port r \<noteq> None"

text \<open>Any resident but the singleton.\<close>

definition res_ok :: "resident \<Rightarrow> bool" where
  "res_ok r \<longleftrightarrow>
     (booting_phase (r_phase r) \<longrightarrow> r_state r = ReservedLoading \<and> \<not> r_torn_down r \<and> r_handle r = None) \<and>
     (\<forall>sl pid. r_phase r = Booting sl pid \<longrightarrow> r_booting r = Some pid) \<and>
     (r_phase r = Gone \<longrightarrow> r_torn_down r) \<and>
     (r_torn_down r \<longrightarrow> r_handle r = None \<and> r_booting r = None) \<and>
     (r_handle r \<noteq> None \<longrightarrow> r_booting r = None) \<and>
     (r_phase r = Start \<or> (\<exists>sl. r_phase r = Loading sl) \<longrightarrow> r_booting r = None)"

fun task_safe :: "mgr \<Rightarrow> task \<Rightarrow> bool" where
  "task_safe m (EvictTeardown rid) \<longleftrightarrow> 0 < rid \<and> rid < length (m_heap m) \<and> r_state (res m rid) = Dead"
| "task_safe m (ReapDead rid) \<longleftrightarrow> 0 < rid \<and> rid < length (m_heap m) \<and> r_phase (res m rid) = Gone"
| "task_safe m _ \<longleftrightarrow> True"

definition registered :: "mgr \<Rightarrow> nat list" where
  "registered m = map snd (filter (\<lambda>(k, _). k \<noteq> SINGLETON) (m_dict m))"

text \<open>Two residents may live together only on distinct cards, unsplit, on distinct ports.\<close>

definition apart :: "resident \<Rightarrow> resident \<Rightarrow> bool" where
  "apart r s \<longleftrightarrow> norm_split (r_split r) = ''none'' \<and> norm_split (r_split s) = ''none'' \<and>
                r_main_gpu r \<noteq> r_main_gpu s \<and> r_port r \<noteq> r_port s"

definition in_window :: "mgr \<Rightarrow> resident \<Rightarrow> bool" where
  "in_window m r \<longleftrightarrow>
     (\<exists>p. r_port r = Some p \<and> m_port_base m \<le> p \<and> p < m_port_base m + 100)"

definition safe :: "mgr \<Rightarrow> bool" where
  "safe m \<longleftrightarrow>
     distinct (map fst (m_dict m)) \<and> distinct (registered m) \<and> map_of (m_dict m) SINGLETON = Some 0 \<and>
     (\<forall>(k, rid) \<in> set (m_dict m). k \<noteq> SINGLETON \<longrightarrow> 0 < rid \<and> rid < length (m_heap m) \<and> entry (res m rid) k) \<and>
     0 < length (m_heap m) \<and> r_phase (res m 0) = Gone \<and> r_inbox (res m 0) = None \<and> r_port (res m 0) = None \<and>
     r_state (res m 0) \<noteq> Dead \<and> \<not> r_torn_down (res m 0) \<and>
     (\<forall>rid. 0 < rid \<and> rid < length (m_heap m) \<longrightarrow> res_ok (res m rid)) \<and>
     (\<forall>t \<in> set (m_tasks m). task_safe m t) \<and>
     length (registered m) \<le> m_cap m \<and> m_cap m \<le> 99 \<and>
     (\<forall>a \<in> set (registered m). in_window m (res m a)) \<and>
     (\<forall>a \<in> set (registered m). \<forall>b \<in> set (registered m). a \<noteq> b \<longrightarrow> apart (res m a) (res m b))"

lemma safeI:
  assumes "distinct (map fst (m_dict m))" and "distinct (registered m)"
    and "map_of (m_dict m) SINGLETON = Some 0"
    and "\<And>k rid. (k, rid) \<in> set (m_dict m) \<Longrightarrow> k \<noteq> SINGLETON \<Longrightarrow>
           0 < rid \<and> rid < length (m_heap m) \<and> entry (res m rid) k"
    and "0 < length (m_heap m)"
    and "r_phase (res m 0) = Gone \<and> r_inbox (res m 0) = None \<and> r_port (res m 0) = None \<and> r_state (res m 0) \<noteq> Dead \<and>
      \<not> r_torn_down (res m 0)"
    and "\<And>rid. 0 < rid \<Longrightarrow> rid < length (m_heap m) \<Longrightarrow> res_ok (res m rid)"
    and "\<And>t. t \<in> set (m_tasks m) \<Longrightarrow> task_safe m t"
    and "length (registered m) \<le> m_cap m" and "m_cap m \<le> 99"
    and "\<And>a. a \<in> set (registered m) \<Longrightarrow> in_window m (res m a)"
    and "\<And>a b. a \<in> set (registered m) \<Longrightarrow> b \<in> set (registered m) \<Longrightarrow> a \<noteq> b \<Longrightarrow> apart (res m a) (res m b)"
  shows "safe m"
  using assms by (auto simp: safe_def)

lemma safe_entry:
  "safe m \<Longrightarrow> (k, rid) \<in> set (m_dict m) \<Longrightarrow> k \<noteq> SINGLETON \<Longrightarrow>
     0 < rid \<and> rid < length (m_heap m) \<and> entry (res m rid) k"
  by (auto simp: safe_def)

lemma safe_res: "safe m \<Longrightarrow> 0 < rid \<Longrightarrow> rid < length (m_heap m) \<Longrightarrow> res_ok (res m rid)"
  by (simp add: safe_def)

lemma in_registered: "rid \<in> set (registered m) \<longleftrightarrow> (\<exists>k. k \<noteq> SINGLETON \<and> (k, rid) \<in> set (m_dict m))"
  by (force simp: registered_def)

lemma registered_range:
  "safe m \<Longrightarrow> rid \<in> set (registered m) \<Longrightarrow>
     0 < rid \<and> rid < length (m_heap m) \<and> r_state (res m rid) \<noteq> Dead \<and> entry (res m rid) (r_tag (res m rid))"
  by (auto simp: in_registered entry_def dest: safe_entry)

lemma model_residents_eq: "safe m \<Longrightarrow> model_residents m = registered m"
  unfolding model_residents_def registered_def
  by (rule arg_cong [where f = "map snd"], rule filter_cong) (auto simp: entry_def dest: safe_entry)

lemma safe_frame [simp, frame]:
  "safe (m\<lparr>m_queue := q\<rparr>) = safe m" "safe (m\<lparr>m_defers := df\<rparr>) = safe m" "safe (m\<lparr>m_done := dn\<rparr>) = safe m"
  "safe (m\<lparr>m_lost := ls\<rparr>) = safe m" "safe (m\<lparr>m_accepted := acs\<rparr>) = safe m"
  "safe (m\<lparr>m_procs := ps\<rparr>) = safe m" "safe (m\<lparr>m_pids := pids\<rparr>) = safe m"
  "safe (m\<lparr>m_claimed := cl\<rparr>) = safe m" "safe (m\<lparr>m_evictions := ev\<rparr>) = safe m"
  "safe (m\<lparr>m_stop := st\<rparr>) = safe m" "safe (finish sl m) = safe m" "safe (fail_slot sl e m) = safe m"
  "safe (fail_all ss e m) = safe m" "safe (kill_proc pid m) = safe m"
proof -
  have t: "task_safe (m\<lparr>m_queue := q\<rparr>) t = task_safe m t" "task_safe (m\<lparr>m_defers := df\<rparr>) t = task_safe m t"
    "task_safe (m\<lparr>m_done := dn\<rparr>) t = task_safe m t" "task_safe (m\<lparr>m_lost := ls\<rparr>) t = task_safe m t"
    "task_safe (m\<lparr>m_accepted := acs\<rparr>) t = task_safe m t" "task_safe (m\<lparr>m_procs := ps\<rparr>) t = task_safe m t"
    "task_safe (m\<lparr>m_pids := pids\<rparr>) t = task_safe m t" "task_safe (m\<lparr>m_claimed := cl\<rparr>) t = task_safe m t"
    "task_safe (m\<lparr>m_evictions := ev\<rparr>) t = task_safe m t" "task_safe (m\<lparr>m_stop := st\<rparr>) t = task_safe m t"
    for m q df dn ls acs ps pids cl ev st t by (cases t; simp)+
  show "safe (m\<lparr>m_queue := q\<rparr>) = safe m" "safe (m\<lparr>m_defers := df\<rparr>) = safe m" "safe (m\<lparr>m_done := dn\<rparr>) = safe m"
    "safe (m\<lparr>m_lost := ls\<rparr>) = safe m" "safe (m\<lparr>m_accepted := acs\<rparr>) = safe m"
    "safe (m\<lparr>m_procs := ps\<rparr>) = safe m" "safe (m\<lparr>m_pids := pids\<rparr>) = safe m"
    "safe (m\<lparr>m_claimed := cl\<rparr>) = safe m" "safe (m\<lparr>m_evictions := ev\<rparr>) = safe m"
    "safe (m\<lparr>m_stop := st\<rparr>) = safe m" "safe (finish sl m) = safe m" "safe (fail_slot sl e m) = safe m"
    "safe (fail_all ss e m) = safe m" "safe (kill_proc pid m) = safe m"
    by (simp_all add: safe_def registered_def in_window_def t finish_def fail_slot_def fail_all_def kill_proc_def)
qed

lemma safe_add_task: "safe m \<Longrightarrow> task_safe m t \<Longrightarrow> safe (add_task t m)"
proof -
  have "task_safe (add_task t m) u = task_safe m u" for u by (cases u) simp_all
  then show "safe m \<Longrightarrow> task_safe m t \<Longrightarrow> safe (add_task t m)"
    by (auto simp: safe_def registered_def in_window_def add_task_def)
qed

lemma safe_drop_task: "safe m \<Longrightarrow> safe (drop_task i m)"
proof -
  have "task_safe (drop_task i m) u = task_safe m u" for u by (cases u) simp_all
  then show "safe m \<Longrightarrow> safe (drop_task i m)"
    by (auto simp: safe_def registered_def in_window_def drop_task_def dest: in_set_takeD in_set_dropD)
qed

subsection \<open>Changing one resident\<close>

definition same_static :: "resident \<Rightarrow> resident \<Rightarrow> bool" where
  "same_static r s \<longleftrightarrow> r_tag s = r_tag r \<and> r_port s = r_port r \<and> r_split s = r_split r \<and>
     r_main_gpu s = r_main_gpu r \<and> (r_inbox s = None \<longleftrightarrow> r_inbox r = None)"

text \<open>
  A change a registered resident may undergo: what was fixed at the reservation stays, and
  it is neither killed nor torn down.
\<close>

definition quiet :: "resident \<Rightarrow> resident \<Rightarrow> bool" where
  "quiet r s \<longleftrightarrow> same_static r s \<and> r_state s \<noteq> Dead \<and> r_torn_down s = r_torn_down r"

lemma apart_static:
  "same_static r r' \<Longrightarrow> same_static s s' \<Longrightarrow> apart r s \<Longrightarrow> apart r' s'"
  by (simp add: apart_def same_static_def)

lemma same_static_refl [simp]: "same_static r r"
  by (simp add: same_static_def)

lemma safe_upd:
  assumes m: "safe m" and v: "0 < rid" "rid < length (m_heap m)"
    and q: "rid \<in> set (registered m) \<Longrightarrow> quiet (res m rid) (f (res m rid))"
    and ok: "res_ok (f (res m rid))"
    and dead: "r_state (res m rid) = Dead \<Longrightarrow> r_state (f (res m rid)) = Dead"
    and gone: "r_phase (res m rid) = Gone \<Longrightarrow> r_phase (f (res m rid)) = Gone"
  shows "safe (upd rid f m)"
proof -
  let ?m = "upd rid f m"
  have st: "same_static (res m a) (res ?m a)" if "a \<in> set (registered m)" for a
    using q v that by (cases "a = rid") (simp_all add: res_upd quiet_def)
  have "entry (res ?m a) k" if "(k, a) \<in> set (m_dict m)" "k \<noteq> SINGLETON" for k a
  proof -
    have "a \<in> set (registered m)" using that by (auto simp: in_registered)
    then show ?thesis
      using safe_entry [OF m that] q v by (auto simp: res_upd entry_def quiet_def same_static_def)
  qed
  moreover have "in_window ?m (res ?m a)" if "in_window m (res m a)" "a \<in> set (registered m)" for a
    using that(1) st [OF that(2)] by (simp add: in_window_def same_static_def)
  moreover have "apart (res ?m a) (res ?m b)"
    if "apart (res m a) (res m b)" "a \<in> set (registered m)" "b \<in> set (registered m)" for a b
    using that st apart_static by blast
  moreover have "res_ok (res ?m a)" if "0 < a" "a < length (m_heap m)" for a
    using m that ok v by (simp add: res_upd safe_res)
  moreover have "task_safe ?m t" if "task_safe m t" for t
    using that dead gone v by (cases t) (auto simp: res_upd)
  moreover have "registered ?m = registered m" by (simp add: registered_def)
  moreover have "res ?m 0 = res m 0" using v by (simp add: res_upd)
  ultimately show ?thesis using m by (auto simp: safe_def)
qed

text \<open>Marking a resident dead together with taking it out of the dictionary.\<close>

definition bury :: "nat \<Rightarrow> (resident \<Rightarrow> resident) \<Rightarrow> mgr \<Rightarrow> mgr" where
  "bury rid f m = deregister rid (upd rid f m)"

lemma registered_del:
  assumes "safe m" and "map_of (m_dict m) k = Some rid" and "k \<noteq> SINGLETON"
  shows "map snd (filter (\<lambda>(k', _). k' \<noteq> SINGLETON) (dict_del k (m_dict m))) = remove1 rid (registered m)"
    and "rid \<in> set (registered m)"
proof -
  have d: "distinct (map fst (m_dict m))" "distinct (registered m)" using assms(1) by (simp_all add: safe_def)
  have kin: "(k, rid) \<in> set (m_dict m)" using assms(2) by (rule map_of_SomeD)
  then show rin: "rid \<in> set (registered m)" using assms(3) in_registered by blast
  have only: "k' = k" if "(k', rid) \<in> set (m_dict m)" "k' \<noteq> SINGLETON" for k'
    using safe_entry [OF assms(1) that] safe_entry [OF assms(1) kin assms(3)] by (simp add: entry_def)
  have "map snd (filter (\<lambda>(k', _). k' \<noteq> SINGLETON) (dict_del k (m_dict m))) =
      filter (\<lambda>r. r \<noteq> rid) (registered m)"
  proof -
    have iff: "fst p \<noteq> k \<longleftrightarrow> snd p \<noteq> rid" if "p \<in> set (m_dict m)" "fst p \<noteq> SINGLETON" for p
    proof -
      obtain k' r' where p: "p = (k', r')" by (cases p)
      have "k' = k" if "r' = rid" using only [of k'] \<open>p \<in> set (m_dict m)\<close> \<open>fst p \<noteq> SINGLETON\<close> p that by simp
      moreover have "r' = rid" if "k' = k"
        using eq_key_imp_eq_value [OF d(1) kin, of r'] \<open>p \<in> set (m_dict m)\<close> p that by simp
      ultimately show ?thesis using p by auto
    qed
    have "filter (\<lambda>(k', _). k' \<noteq> SINGLETON) (dict_del k (m_dict m)) =
        filter (\<lambda>p. snd p \<noteq> rid) (filter (\<lambda>(k', _). k' \<noteq> SINGLETON) (m_dict m))"
      unfolding dict_del_def filter_filter case_prod_beta by (rule filter_cong) (use iff in blast)+
    then show ?thesis by (simp add: registered_def filter_map o_def)
  qed
  then show "map snd (filter (\<lambda>(k', _). k' \<noteq> SINGLETON) (dict_del k (m_dict m))) = remove1 rid (registered m)"
    using d(2) by (simp add: distinct_remove1_removeAll removeAll_filter_not_eq eq_commute)
qed

lemma map_of_dict_del: "map_of (dict_del k d) k' = (if k' = k then None else map_of d k')"
  by (induction d) (auto simp: dict_del_def)

lemma bury_registered:
  assumes m: "safe m" and v: "0 < rid" "rid < length (m_heap m)" and tag: "r_tag (f (res m rid)) = r_tag (res m rid)"
  shows "registered (bury rid f m) = remove1 rid (registered m)"
    and "rid \<in> set (registered m) \<Longrightarrow> m_dict (bury rid f m) = dict_del (r_tag (res m rid)) (m_dict m)"
    and "rid \<in> set (registered m) \<Longrightarrow> r_tag (res m rid) \<noteq> SINGLETON"
    and "rid \<notin> set (registered m) \<Longrightarrow> m_dict (bury rid f m) = m_dict m"
proof -
  let ?k = "r_tag (res m rid)"
  have t: "r_tag (res (upd rid f m) rid) = ?k" using v tag by (simp add: res_upd)
  have key: "k = ?k" if "k \<noteq> SINGLETON" "(k, rid) \<in> set (m_dict m)" for k
    using safe_entry [OF m that(2,1)] by (simp only: entry_def)
  show sng: "?k \<noteq> SINGLETON" if "rid \<in> set (registered m)"
    using that key by (auto simp: in_registered)
  have look: "map_of (m_dict m) ?k = Some rid" if r: "rid \<in> set (registered m)"
  proof -
    obtain k where k: "k \<noteq> SINGLETON" "(k, rid) \<in> set (m_dict m)"
      using r by (auto simp: in_registered)
    then have "k = ?k" by (rule key)
    moreover have "distinct (map fst (m_dict m))" using m by (simp add: safe_def)
    ultimately show ?thesis using k(2) by (metis map_of_is_SomeI)
  qed
  have nolook: "map_of (m_dict m) ?k \<noteq> Some rid" if "rid \<notin> set (registered m)"
  proof
    assume a: "map_of (m_dict m) ?k = Some rid"
    show False
    proof (cases "?k = SINGLETON")
      case True
      with a m v show False by (simp add: safe_def)
    next
      case False
      with map_of_SomeD [OF a] that show False by (auto simp: in_registered)
    qed
  qed
  show d: "m_dict (bury rid f m) = dict_del ?k (m_dict m)" if "rid \<in> set (registered m)"
    using look [OF that] t by (simp add: bury_def deregister_def Let_def)
  show nd: "m_dict (bury rid f m) = m_dict m" if "rid \<notin> set (registered m)"
    using nolook [OF that] t by (simp add: bury_def deregister_def Let_def)
  show "registered (bury rid f m) = remove1 rid (registered m)"
  proof (cases "rid \<in> set (registered m)")
    case True
    from registered_del(1) [OF m look [OF True] sng [OF True]] d [OF True] show ?thesis
      by (simp add: registered_def)
  next
    case False
    with nd [OF False] show ?thesis by (simp add: registered_def remove1_idem)
  qed
qed

lemma safe_bury:
  assumes m: "safe m" and v: "0 < rid" "rid < length (m_heap m)"
    and tag: "r_tag (f (res m rid)) = r_tag (res m rid)"
    and ok: "res_ok (f (res m rid))" and dead: "r_state (f (res m rid)) = Dead"
    and gone: "r_phase (res m rid) = Gone \<Longrightarrow> r_phase (f (res m rid)) = Gone"
  shows "safe (bury rid f m)" and "rid \<notin> set (registered (bury rid f m))"
proof -
  let ?m = "bury rid f m"
  note br = bury_registered [where f = f, OF m v tag]
  have dist: "distinct (registered m)" using m by (simp add: safe_def)
  have sub: "set (m_dict ?m) \<subseteq> set (m_dict m)"
    by (auto simp: bury_def deregister_def dict_del_def Let_def)
  have res: "res ?m a = (if a = rid then f (res m rid) else res m a)" for a
    using v by (simp add: bury_def res_upd)
  have bury_len: "length (m_heap ?m) = length (m_heap m)" by (simp add: bury_def)
  show notin: "rid \<notin> set (registered ?m)" using br(1) dist by simp
  have reg: "a \<in> set (registered m) \<and> a \<noteq> rid" if "a \<in> set (registered ?m)" for a
    using that br(1) dist by simp
  have "distinct (map fst (m_dict ?m))"
    using m by (auto simp: safe_def bury_def deregister_def dict_del_def Let_def distinct_map_filter)
  moreover have "map_of (m_dict ?m) SINGLETON = Some 0"
    using m br by (cases "rid \<in> set (registered m)") (simp_all add: safe_def map_of_dict_del)
  moreover have "0 < a \<and> a < length (m_heap m) \<and> entry (res ?m a) k"
    if "(k, a) \<in> set (m_dict ?m)" "k \<noteq> SINGLETON" for k a
  proof -
    have "a \<in> set (registered ?m)" using that by (auto simp: in_registered)
    then have "a \<noteq> rid" using notin by blast
    with safe_entry [OF m subsetD [OF sub that(1)] that(2)] show ?thesis by (simp add: res)
  qed
  moreover have "res_ok (res ?m a)" if "0 < a" "a < length (m_heap m)" for a
    using m that ok v by (simp add: res safe_res)
  moreover have "task_safe ?m t" if "task_safe m t" for t
    using that dead gone v by (cases t) (auto simp: res bury_len)
  moreover have "in_window ?m (res ?m a)" if "a \<in> set (registered ?m)" for a
  proof -
    have "m_port_base ?m = m_port_base m" by (simp add: bury_def deregister_def Let_def)
    moreover have "res ?m a = res m a" using reg [OF that] by (simp add: res)
    ultimately show ?thesis using m reg [OF that] by (simp add: safe_def in_window_def)
  qed
  moreover have "apart (res ?m a) (res ?m b)"
    if "a \<in> set (registered ?m)" "b \<in> set (registered ?m)" "a \<noteq> b" for a b
    using m reg [OF that(1)] reg [OF that(2)] that(3) by (auto simp: safe_def res)
  moreover have "length (registered ?m) \<le> m_cap m" "distinct (registered ?m)"
    using m br(1) dist by (auto simp: safe_def length_remove1)
  moreover have "res ?m 0 = res m 0" "length (m_heap ?m) = length (m_heap m)" "m_tasks ?m = m_tasks m"
    "m_cap ?m = m_cap m" using v by (auto simp: res) (auto simp: bury_def deregister_def Let_def)
  ultimately show "safe ?m" using m unfolding safe_def by auto
qed

subsection \<open>Each operation\<close>

lemma safe_upd0:
  assumes m: "safe m"
    and f: "r_phase (f (res m 0)) = Gone" "r_inbox (f (res m 0)) = None" "r_port (f (res m 0)) = None"
      "r_state (f (res m 0)) \<noteq> Dead" "\<not> r_torn_down (f (res m 0))"
  shows "safe (upd 0 f m)"
proof -
  let ?m = "upd 0 f m"
  have l: "0 < length (m_heap m)" using m by (simp add: safe_def)
  have res: "res ?m a = (if a = 0 then f (res m 0) else res m a)" for a using l by (simp add: res_upd)
  have reg: "registered ?m = registered m" by (simp add: registered_def)
  have nz: "a \<noteq> 0" if "a \<in> set (registered m)" for a using registered_range [OF m that] by simp
  have "task_safe ?m t" if "task_safe m t" for t using that by (cases t) (auto simp: res)
  then show ?thesis
    using m f nz unfolding safe_def reg by (auto simp: res in_window_def)
qed

lemma safe_drain:
  assumes "safe m" and "0 < rid" and "rid < length (m_heap m)"
  shows "safe (drain_inbox rid m)"
proof -
  have "safe (upd rid (r_inbox_update (\<lambda>_. Some [])) m)" if "r_inbox (res m rid) = Some b" for b
    using assms safe_res [OF assms] registered_range [OF assms(1)] that
    by (intro safe_upd) (auto simp: quiet_def same_static_def res_ok_def)
  with assms show ?thesis by (auto simp: drain_inbox_def intro!: safe_add_task split: option.splits list.splits)
qed

lemma safe_begin_evict:
  assumes "safe m" and "0 < rid" and "rid < length (m_heap m)" and "\<not> booting_phase (r_phase (res m rid))"
  shows "safe (begin_evict rid m)"
proof -
  let ?d = "drain_inbox rid m"
  have d: "safe ?d" using assms by (intro safe_drain)
  have nb: "\<not> booting_phase (r_phase (res ?d rid))" using assms by (simp add: drain_inbox_res)
  have "safe (bury rid (r_state_update (\<lambda>_. Dead)) ?d)"
    using assms d nb safe_res [OF d assms(2)] by (intro safe_bury) (auto simp: res_ok_def)
  moreover have "task_safe (bury rid (r_state_update (\<lambda>_. Dead)) ?d) (EvictTeardown rid)"
    using assms by (simp add: bury_def res_upd)
  ultimately show ?thesis
    using d by (auto simp: begin_evict_def Let_def bury_def intro: safe_add_task)
qed

lemma not_registered:
  assumes "safe m" and "map_of (m_dict m) (r_tag (res m rid)) \<noteq> Some rid"
  shows "rid \<notin> set (registered m)"
proof
  assume "rid \<in> set (registered m)"
  then obtain k where k: "k \<noteq> SINGLETON" "(k, rid) \<in> set (m_dict m)" by (auto simp: in_registered)
  have "r_tag (res m rid) = k" using safe_entry [OF assms(1) k(2,1)] by (simp only: entry_def)
  moreover have "distinct (map fst (m_dict m))" using assms(1) by (simp add: safe_def)
  ultimately show False using assms(2) k(2) by simp
qed

lemma safe_mark_dead:
  assumes "safe m" and "0 < rid" and "rid < length (m_heap m)" and "\<not> booting_phase (r_phase (res m rid))"
  shows "safe (mark_dead rid m)" and "rid \<notin> set (registered (mark_dead rid m))"
proof -
  have "safe (bury rid (r_state_update (\<lambda>_. Dead)) m)" "rid \<notin> set (registered (bury rid (r_state_update (\<lambda>_. Dead)) m))"
    using assms safe_res [OF assms(1-3)] by (intro safe_bury; auto simp: res_ok_def)+
  then show "safe (mark_dead rid m)" "rid \<notin> set (registered (mark_dead rid m))"
    using assms(1) not_registered [OF assms(1), of rid]
    by (auto simp: mark_dead_def bury_def)
qed

lemma safe_claim:
  assumes "safe m" and "0 < rid" and "rid < length (m_heap m)"
    and "\<not> booting_phase (r_phase (res m rid))" and "rid \<notin> set (registered m)"
  shows "safe (claim_process rid m)"
proof -
  have "safe (upd rid (\<lambda>r. r\<lparr>r_torn_down := True, r_handle := None, r_booting := None\<rparr>) m)"
    using assms by (intro safe_upd) (auto simp: res_ok_def)
  then show ?thesis by (auto simp: claim_process_def Let_def intro!: safe_add_task split: option.splits)
qed

lemma safe_evict_teardown:
  assumes "safe m" and "task_safe m (EvictTeardown rid)"
  shows "safe (evict_teardown rid m)"
proof -
  from assms(2) have v: "0 < rid" "rid < length (m_heap m)" "r_state (res m rid) = Dead" by auto
  with safe_res [OF assms(1)] have "\<not> booting_phase (r_phase (res m rid))" by (auto simp: res_ok_def)
  moreover have "rid \<notin> set (registered m)" using registered_range [OF assms(1)] v by blast
  ultimately show ?thesis using assms(1) v by (simp add: evict_teardown_def safe_claim)
qed

lemma safe_clean_up:
  assumes "safe m" and "0 < rid" and "rid < length (m_heap m)" and "\<not> booting_phase (r_phase (res m rid))"
  shows "safe (clean_up rid h m)" and "r_torn_down (res (clean_up rid h m) rid)"
proof -
  obtain st where p: "res (mark_dead rid m) rid = (res m rid)\<lparr>r_state := st\<rparr>"
    using mark_dead_res [OF assms(3), of rid] by auto
  have "safe (claim_process rid (mark_dead rid m))"
    using assms p safe_mark_dead [OF assms] by (intro safe_claim) simp_all
  then have "safe (drain_inbox rid (claim_process rid (mark_dead rid m)))"
    using assms by (intro safe_drain) simp_all
  then show "safe (clean_up rid h m)" by (simp add: clean_up_def Let_def split: option.split)
  show "r_torn_down (res (clean_up rid h m) rid)"
    using assms by (simp add: clean_up_def Let_def drain_inbox_res claim_process_res split: option.split)
qed

lemma safe_set_phase:
  assumes "safe m" and "0 < rid" and "rid < length (m_heap m)"
    and "res_ok ((res m rid)\<lparr>r_phase := p\<rparr>)" and "r_phase (res m rid) = Gone \<Longrightarrow> p = Gone"
  shows "safe (set_phase rid p m)"
  unfolding set_phase_def using assms registered_range [OF assms(1)]
  by (intro safe_upd) (auto simp: quiet_def same_static_def)

lemma safe_driver_exit:
  assumes "safe m" and "0 < rid" and "at_phase m rid (Exiting h)"
  shows "safe (driver_exit rid h m)"
proof -
  from assms(3) have v: "rid < length (m_heap m)" "r_phase (res m rid) = Exiting h"
    by (simp_all add: at_phase_def)
  let ?m = "if r_torn_down (res m rid) then abandon h m else clean_up rid h m"
  have c: "safe (clean_up rid h m)" "r_torn_down (res (clean_up rid h m) rid)"
    using safe_clean_up [OF assms(1,2) v(1)] v(2) by simp_all
  have a: "safe (abandon h m)" using assms(1) by (auto simp: abandon_def split: option.split)
  have la: "length (m_heap (abandon h m)) = length (m_heap m)" by (auto simp: abandon_def split: option.split)
  have lc: "length (m_heap (clean_up rid h m)) = length (m_heap m)"
    by (auto simp: clean_up_def Let_def split: option.split)
  have m: "safe ?m" "length (m_heap ?m) = length (m_heap m)" "r_torn_down (res ?m rid)"
    using a c la lc by auto
  have g: "safe (set_phase rid Gone ?m)"
    using m assms(2) v(1) safe_res [OF m(1) assms(2)] by (intro safe_set_phase) (auto simp: res_ok_def)
  moreover have "task_safe (set_phase rid Gone ?m) (ReapDead rid)"
    using m assms(2) v(1) by (simp add: set_phase_def res_upd)
  ultimately show ?thesis unfolding driver_exit_def by (rule safe_add_task)
qed

lemma safe_reap_dead:
  assumes "safe m" and "task_safe m (ReapDead rid)"
  shows "safe (reap_dead_resident rid m)"
proof -
  from assms(2) have v: "0 < rid" "rid < length (m_heap m)" "r_phase (res m rid) = Gone" by auto
  let ?f = "\<lambda>sl. (fail_completion_future sl (RuntimeErr ''driver died''))
      \<lparr>sl_stream_done := map_option (\<lambda>_. True) (sl_stream_done sl)\<rparr>"
  let ?u = "upd rid (\<lambda>r. r\<lparr>r_active := map_option ?f (r_active r), r_inflight := map ?f (r_inflight r)\<rparr>) m"
  have "safe ?u" using assms(1) v safe_res [OF assms(1) v(1,2)] registered_range [OF assms(1)]
    by (intro safe_upd) (auto simp: quiet_def same_static_def res_ok_def)
  then have "safe (begin_evict rid ?u)" using v by (intro safe_begin_evict) (simp_all add: res_upd)
  then show ?thesis by (simp add: reap_dead_resident_def Let_def)
qed

subsection \<open>Reservation and routing\<close>

lemma alloc_port_fresh:
  assumes m: "safe m" and few: "length (registered m) < 100"
  shows "m_port_base m \<le> alloc_port m \<and> alloc_port m < m_port_base m + 100 \<and>
         (\<forall>a \<in> set (registered m). r_port (res m a) \<noteq> Some (alloc_port m))"
proof -
  define held where "held = List.map_filter (\<lambda>(_, rid). r_port (res m rid)) (m_dict m)"
  define win where "win = map (\<lambda>i. m_port_base m + int i) [0..<100]"
  have "set held \<subseteq> (\<lambda>a. the (r_port (res m a))) ` set (registered m)"
  proof
    fix p assume "p \<in> set held"
    then obtain k a where ka: "(k, a) \<in> set (m_dict m)" "r_port (res m a) = Some p"
      by (auto simp: held_def in_map_filter)
    have "distinct (map fst (m_dict m))" "map_of (m_dict m) SINGLETON = Some 0" "r_port (res m 0) = None"
      using m by (simp_all add: safe_def)
    with ka have "k \<noteq> SINGLETON" by (metis map_of_is_SomeI option.distinct(1) option.inject)
    with ka have "a \<in> set (registered m)" by (auto simp: in_registered)
    with ka show "p \<in> (\<lambda>a. the (r_port (res m a))) ` set (registered m)" by force
  qed
  then have "card (set held) \<le> card (set (registered m))" by (meson card_image_le card_mono finite_imageI finite_set le_trans)
  also have "\<dots> < 100" using few card_length [of "registered m"] by simp
  finally have small: "card (set held) < 100" .
  have "distinct win" by (simp add: win_def distinct_map inj_on_def)
  then have "card (set win) = 100" using distinct_card [of win] by (simp add: win_def)
  with small have "\<not> set win \<subseteq> set held" by (metis card_mono finite_set not_less)
  then obtain p where p: "List.find (\<lambda>p. p \<notin> set held) win = Some p"
    by (cases "List.find (\<lambda>p. p \<notin> set held) win") (auto simp: find_None_iff)
  then have ap: "alloc_port m = p" by (simp add: alloc_port_def held_def win_def Let_def)
  from p have "p \<in> set win" "p \<notin> set held" by (auto simp: find_Some_iff)
  moreover have "r_port (res m a) \<noteq> Some p" if "a \<in> set (registered m)" for a
    using that \<open>p \<notin> set held\<close> by (auto simp: held_def in_map_filter in_registered)
  ultimately show ?thesis by (auto simp: ap win_def)
qed

lemma admits_apart:
  assumes "safe m" and "vram_admits m fp vals" and "a \<in> set (registered m)"
  shows "norm_split (f_split fp) = ''none'' \<and> norm_split (r_split (res m a)) = ''none'' \<and>
         r_main_gpu (res m a) \<noteq> f_main_gpu fp"
  using assms model_residents_eq [OF assms(1)]
  by (auto simp: vram_admits_def Let_def list_ex_iff split: if_splits)

lemma dict_put_new: "map_of d k = None \<Longrightarrow> dict_put k v d = d @ [(k, v)]"
  by (auto simp: dict_put_def map_of_eq_None_iff)

lemma new_resident_sels:
  "r_tag (new_resident tag fp port now sl) = tag" "r_state (new_resident tag fp port now sl) = ReservedLoading"
  "r_inbox (new_resident tag fp port now sl) = Some [sl]" "r_torn_down (new_resident tag fp port now sl) = False"
  "r_port (new_resident tag fp port now sl) = Some port" "r_phase (new_resident tag fp port now sl) = Start"
  "r_handle (new_resident tag fp port now sl) = None" "r_booting (new_resident tag fp port now sl) = None"
  "r_split (new_resident tag fp port now sl) = f_split fp"
  "r_main_gpu (new_resident tag fp port now sl) = f_main_gpu fp"
  by (simp_all add: new_resident_def blank_resident_def)

lemma safe_add_resident:
  assumes m: "safe m" and new: "map_of (m_dict m) tag = None" and room: "length (registered m) < m_cap m"
    and ad: "vram_admits m fp vals"
  shows "safe (m\<lparr>m_heap := m_heap m @ [new_resident tag fp (alloc_port m) now sl],
                m_dict := dict_put tag (length (m_heap m)) (m_dict m)\<rparr>)"
proof -
  let ?n = "length (m_heap m)" and ?r = "new_resident tag fp (alloc_port m) now sl"
  let ?m = "m\<lparr>m_heap := m_heap m @ [?r], m_dict := dict_put tag ?n (m_dict m)\<rparr>"
  have tag: "tag \<noteq> SINGLETON" using new m by (auto simp: safe_def)
  have l0: "0 < ?n" using m by (simp add: safe_def)
  have dict: "m_dict ?m = m_dict m @ [(tag, ?n)]" using dict_put_new [OF new] by simp
  have res: "res (m\<lparr>m_heap := m_heap m @ [?r]\<rparr>) a = (if a = ?n then ?r else res m a)" if "a \<le> ?n" for a
    using that by (auto simp: res_def nth_append)
  have reg: "registered ?m = registered m @ [?n]" using tag dict by (simp add: registered_def)
  have old: "0 < a \<and> a < ?n" if "a \<in> set (registered m)" for a using registered_range [OF m that] by simp
  have few: "length (registered m) < 100" using room m by (simp add: safe_def)
  note port = alloc_port_fresh [OF m few]
  have c_task: "task_safe ?m t" if "task_safe m t" for t using that by (cases t) (auto simp: res)
  have c_dist: "distinct (map fst (m_dict ?m))"
    using m new dict by (auto simp: safe_def map_of_eq_None_iff)
  have c_reg: "distinct (registered ?m)" using m reg old by (auto simp: safe_def)
  have c_sing: "map_of (m_dict ?m) SINGLETON = Some 0"
    using m dict by (simp add: safe_def map_add_def)
  have c_entry: "0 < a \<and> a < Suc ?n \<and> entry (res ?m a) k"
    if "(k, a) \<in> set (m_dict ?m)" "k \<noteq> SINGLETON" for k a
  proof (cases "(k, a) \<in> set (m_dict m)")
    case True
    with safe_entry [OF m True that(2)] show ?thesis by (simp add: res)
  next
    case False
    with that dict l0 show ?thesis
      by (simp add: res entry_def new_resident_sels)
  qed
  have c_res: "res_ok (res ?m a)" if "0 < a" "a < Suc ?n" for a
    using that safe_res [OF m that(1)] by (auto simp: res less_Suc_eq) (simp add: res_ok_def new_resident_sels)
  have c_win: "in_window ?m (res ?m a)" if "a \<in> set (registered ?m)" for a
  proof (cases "a = ?n")
    case True
    with port show ?thesis by (simp add: res in_window_def new_resident_sels)
  next
    case False
    with that reg have r: "a \<in> set (registered m)" by simp
    with m have "in_window m (res m a)" by (simp add: safe_def)
    with old [OF r] show ?thesis by (simp add: res in_window_def)
  qed
  have c_apart: "apart (res ?m a) (res ?m b)"
    if "a \<in> set (registered ?m)" "b \<in> set (registered ?m)" "a \<noteq> b" for a b
  proof -
    have fresh: "apart (res m c) ?r \<and> apart ?r (res m c)" if c: "c \<in> set (registered m)" for c
      using admits_apart [OF m ad c] port c by (auto simp: apart_def new_resident_sels)
    have both: "apart (res m c) (res m d)" if "c \<in> set (registered m)" "d \<in> set (registered m)" "c \<noteq> d" for c d
      using m that by (simp add: safe_def)
    have at: "res ?m c = (if c = ?n then ?r else res m c) \<and> (c = ?n \<or> c \<in> set (registered m))"
      if "c \<in> set (registered ?m)" for c
      using that reg old [of c] by (auto simp: res)
    from at [OF that(1)] at [OF that(2)] that(3) fresh both old show ?thesis by (auto split: if_splits)
  qed
  show ?thesis
  proof (rule safeI)
    show "r_phase (res ?m 0) = Gone \<and> r_inbox (res ?m 0) = None \<and> r_port (res ?m 0) = None \<and> r_state (res ?m 0) \<noteq> Dead \<and>
        \<not> r_torn_down (res ?m 0)"
      using m l0 by (simp add: res safe_def)
    show "length (registered ?m) \<le> m_cap ?m" using room reg by simp
    show "m_cap ?m \<le> 99" using m by (simp add: safe_def)
    show "task_safe ?m t" if "t \<in> set (m_tasks ?m)" for t
      using that m by (intro c_task) (simp add: safe_def)
  qed (use c_dist c_reg c_sing c_entry c_res c_win c_apart l0 in simp_all)
qed

lemma registered_frame [simp, frame]:
  "registered (m\<lparr>m_queue := q\<rparr>) = registered m" "registered (add_task t m) = registered m"
  "registered (upd rid f m) = registered m" "registered (drain_inbox rid m) = registered m"
  by (auto simp: registered_def add_task_def drain_inbox_def split: option.split list.split)

lemma begin_evict_registered:
  assumes m: "safe m" and v: "rid \<in> set (registered m)"
  shows "registered (begin_evict rid m) = remove1 rid (registered m)"
    and "map_of (m_dict m) tag = None \<Longrightarrow> map_of (m_dict (begin_evict rid m)) tag = None"
    and "m_cap (begin_evict rid m) = m_cap m"
proof -
  let ?d = "drain_inbox rid m"
  note r = registered_range [OF m v]
  have d: "safe ?d" using m r by (intro safe_drain) simp_all
  have st: "r_state (res ?d rid) \<noteq> Dead" using r by (simp add: drain_inbox_res)
  then have b: "begin_evict rid m = add_task (EvictTeardown rid) (bury rid (r_state_update (\<lambda>_. Dead)) ?d)"
    by (simp add: begin_evict_def Let_def bury_def)
  show "registered (begin_evict rid m) = remove1 rid (registered m)"
    unfolding b using bury_registered(1) [where f = "r_state_update (\<lambda>_. Dead)", OF d] r by simp
  have "m_dict ?d = m_dict m" "m_cap ?d = m_cap m" by (auto simp: drain_inbox_def add_task_def split: option.split list.split)
  then show "map_of (m_dict m) tag = None \<Longrightarrow> map_of (m_dict (begin_evict rid m)) tag = None"
    "m_cap (begin_evict rid m) = m_cap m"
    by (auto simp: b bury_def deregister_def Let_def add_task_def map_of_dict_del)
qed

lemma evictable_settled:
  "safe m \<Longrightarrow> rid \<in> set (registered m) \<Longrightarrow> evictable (res m rid) \<Longrightarrow> \<not> booting_phase (r_phase (res m rid))"
  using registered_range [of m rid] safe_res [of m rid] by (auto simp: evictable_def res_ok_def)

lemma lru_registered:
  assumes "safe m" and "lru_idle_evictable m = Some rid"
  shows "rid \<in> set (registered m)" and "evictable (res m rid)"
  using first_max_in assms(2) model_residents_eq [OF assms(1)]
  by (auto simp: lru_idle_evictable_def first_min_def dest!: first_max_in)

lemma safe_reserve:
  assumes "safe m" and "map_of (m_dict m) (sl_model_tag sl) = None" and "length (registered m) < m_cap m"
  shows "safe (reserve_and_start now foot vals sl m)"
  using assms by (auto simp: reserve_and_start_def intro: safe_add_resident split: sum.split)

lemma no_live_resident:
  assumes "safe m" and "live_resident_for m tag = None"
  shows "map_of (m_dict m) tag = None"
proof (cases "map_of (m_dict m) tag")
  case (Some rid)
  with assms(2) have "r_state (res m rid) = Dead" by (auto simp: live_resident_for_def split: if_splits)
  moreover have "r_state (res m 0) \<noteq> Dead" "map_of (m_dict m) SINGLETON = Some 0"
    using assms(1) by (simp_all add: safe_def)
  moreover have "entry (res m rid) tag" if "tag \<noteq> SINGLETON"
    using safe_entry [OF assms(1) map_of_SomeD [OF Some] that] by simp
  ultimately show ?thesis using Some by (cases "tag = SINGLETON") (auto simp: entry_def)
qed

lemma safe_route_to:
  assumes m: "safe m" and l: "live_resident_for m tag = Some rid"
  shows "safe (case r_inbox (res m rid) of
           Some ss \<Rightarrow> upd rid (r_inbox_update (\<lambda>_. Some (ss @ [sl])))
             (upd rid (\<lambda>r. r\<lparr>r_state := (if r_state r = IdleEvictable then RActive else r_state r),
                             r_last_active := now\<rparr>) m)
         | None \<Rightarrow> (upd rid (\<lambda>r. r\<lparr>r_state := (if r_state r = IdleEvictable then RActive else r_state r),
                             r_last_active := now\<rparr>) m)\<lparr>m_lost := ls\<rparr>)"
proof -
  let ?f = "\<lambda>r. r\<lparr>r_state := (if r_state r = IdleEvictable then RActive else r_state r), r_last_active := now\<rparr>"
  have kin: "(tag, rid) \<in> set (m_dict m)"
    using l by (auto simp: live_resident_for_def dest: map_of_SomeD split: option.splits if_splits)
  show ?thesis
  proof (cases "tag = SINGLETON")
    case True
    with m l have "rid = 0" by (auto simp: live_resident_for_def safe_def split: if_splits)
    moreover have "safe (upd 0 ?f m)" using m by (intro safe_upd0) (auto simp: safe_def)
    moreover have "r_inbox (res m 0) = None" using m by (simp add: safe_def)
    ultimately show ?thesis by simp
  next
    case False
    note e = safe_entry [OF m kin False]
    have s: "safe (upd rid ?f m)" using m e safe_res [OF m] 
      by (intro safe_upd) (auto simp: quiet_def same_static_def res_ok_def entry_def)
    moreover have "safe (upd rid (r_inbox_update (\<lambda>_. Some b)) (upd rid ?f m))" for b
      using e safe_res [OF s, of rid]
      by (intro safe_upd [OF s]) (auto simp: quiet_def same_static_def res_ok_def entry_def res_upd)
    ultimately show ?thesis by (auto split: option.split)
  qed
qed

lemma safe_route:
  assumes m: "safe m"
  shows "safe (route_or_reserve now foot vals sl m)"
proof (cases "live_resident_for m (sl_model_tag sl)")
  case (Some rid)
  show ?thesis using safe_route_to [OF m Some] by (simp add: route_or_reserve_def Some Let_def split: option.split)
next
  case None
  note new = no_live_resident [OF m None]
  have le: "length (registered m) \<le> m_cap m" using m by (simp add: safe_def)
  have "safe (reserve_and_start now foot vals sl (begin_evict v m))" if "lru_idle_evictable m = Some v" for v
  proof -
    note l = lru_registered [OF m that]
    note r = registered_range [OF m l(1)] and b = begin_evict_registered [OF m l(1)]
    have "safe (begin_evict v m)" using m r evictable_settled [OF m l] by (intro safe_begin_evict) simp_all
    moreover have "length (registered (begin_evict v m)) < m_cap m"
      using b(1) l(1) le by (simp add: length_remove1) (metis Suc_pred length_pos_if_in_set less_eq_Suc_le)
    ultimately show ?thesis using b new by (intro safe_reserve) simp_all
  qed
  moreover have "safe (defer_unroutable sl m)"
    using m by (auto simp: defer_unroutable_def Let_def intro!: safe_add_task)
  ultimately show ?thesis
    using m new by (auto simp: route_or_reserve_def None model_residents_eq intro: safe_reserve split: option.split)
qed

lemma safe_dispatch:
  assumes "safe m"
  shows "safe (dispatch_turn now foot vals m)"
  using assms by (auto simp: dispatch_turn_def dispatch_popped_def handle_evicted_slot_def
      intro!: safe_route split: prod.split sum.split option.split)

subsection \<open>The drivers\<close>

lemma at_phase_pos:
  assumes "safe m" and "at_phase m rid p" and "p \<noteq> Gone"
  shows "0 < rid" and "rid < length (m_heap m)" and "res_ok (res m rid)" and "r_phase (res m rid) = p"
proof -
  have "rid \<noteq> 0"
  proof
    assume "rid = 0"
    with assms show False by (simp add: at_phase_def safe_def)
  qed
  with assms show "0 < rid" "rid < length (m_heap m)" "res_ok (res m rid)" "r_phase (res m rid) = p"
    by (auto simp: at_phase_def intro: safe_res)
qed

text \<open>A driver's own update: what was fixed at the reservation, and whether it lives, stay.\<close>

lemma safe_driver:
  assumes m: "safe m" and a: "at_phase m rid p" "p \<noteq> Gone"
    and s: "same_static (res m rid) (f (res m rid))" "r_torn_down (f (res m rid)) = r_torn_down (res m rid)"
    and d: "r_state (f (res m rid)) = Dead \<longleftrightarrow> r_state (res m rid) = Dead"
    and ok: "res_ok (res m rid) \<Longrightarrow> res_ok (f (res m rid))"
  shows "safe (upd rid f m)"
  using at_phase_pos [OF m a] a(2) s d ok registered_range [OF m]
  by (intro safe_upd [OF m]) (auto simp: quiet_def)

lemma at_phase_upd:
  "at_phase m rid p \<Longrightarrow> at_phase (upd rid f m) rid (r_phase (f (res m rid)))"
  by (simp add: at_phase_def res_upd)

lemma safe_take_inbox:
  assumes "safe m" and "at_phase m rid p" and "p \<noteq> Gone"
    and "\<And>sl. p = Start \<Longrightarrow> mk sl = Loading sl" and "\<And>sl. p \<noteq> Start \<Longrightarrow> mk sl = Ready sl"
    and "p = Start \<or> p = Parked"
  shows "safe (take_inbox rid mk m)"
proof -
  have "safe (upd rid (\<lambda>r. r\<lparr>r_inbox := Some ss, r_phase := mk sl\<rparr>) m)"
    if "r_inbox (res m rid) = Some (sl # ss)" for sl ss
    using assms(4-6) that at_phase_pos [OF assms(1-3)]
    by (intro safe_driver [OF assms(1-3)]) (auto simp: same_static_def res_ok_def)
  with assms(1) show ?thesis by (simp add: take_inbox_def split: option.split list.split)
qed

lemma safe_spawned:
  assumes "safe m" and "at_phase m rid (Loading sl)"
  shows "safe (spawned rid sl pid m)" and "safe (spawn_refused rid sl m)"
proof -
  let ?sl = "sl\<lparr>sl_port := Some (case r_port (res m rid) of Some p \<Rightarrow> p | None \<Rightarrow> 0), sl_pid := Some pid\<rparr>"
  have m: "safe (m\<lparr>m_procs := ps, m_pids := pids\<rparr>)" for ps pids using assms by simp
  have a: "at_phase (m\<lparr>m_procs := ps, m_pids := pids\<rparr>) rid (Loading sl)" for ps pids
    using assms by (simp add: at_phase_def)
  have g: "Loading sl \<noteq> Gone" by simp
  note p = at_phase_pos [OF assms g]
  have "safe (upd rid (\<lambda>r. r\<lparr>r_booting := Some pid, r_phase := Booting ?sl pid\<rparr>) (m\<lparr>m_procs := ps, m_pids := pids\<rparr>))"
    for ps pids
    using p by (intro safe_driver [OF m a g]) (auto simp: same_static_def res_ok_def)
  then show "safe (spawned rid sl pid m)" by (simp add: spawned_def Let_def)
  show "safe (spawn_refused rid sl m)" unfolding spawn_refused_def set_phase_def
    using p by (intro safe_driver [OF assms(1,2) g]) (auto simp: same_static_def res_ok_def)
qed

lemma safe_booted:
  assumes "safe m" and "at_phase m rid (Booting sl pid)"
  shows "safe (unhealthy rid sl pid m)" and "safe (healthy rid sl pid m)"
proof -
  have p: "r_phase (res m rid) = Booting sl pid" "res_ok (res m rid)"
    using at_phase_pos [OF assms] by simp_all
  have "safe (upd rid (\<lambda>r. r\<lparr>r_booting := None, r_phase := Exiting (Some sl')\<rparr>) m)" for sl'
    using p by (intro safe_driver [OF assms]) (auto simp: same_static_def res_ok_def)
  then show "safe (unhealthy rid sl pid m)" by (auto simp: unhealthy_def Let_def intro!: safe_add_task)
  show "safe (healthy rid sl pid m)" unfolding healthy_def
    using p by (intro safe_driver [OF assms]) (auto simp: same_static_def res_ok_def)
qed

lemma safe_begin_serve:
  assumes "safe m" and "at_phase m rid (Ready sl)"
  shows "safe (begin_serve rid sl now m)"
proof -
  have p: "r_phase (res m rid) = Ready sl" using at_phase_pos [OF assms] by simp
  show ?thesis unfolding begin_serve_def set_phase_def
    using p by (auto intro!: safe_driver [OF assms] simp: same_static_def res_ok_def)
qed

lemma safe_serving:
  assumes "safe m" and "at_phase m rid p" and "p \<in> {Serving, FanOut, Served} \<or> (\<exists>sl. p = Matching sl)"
  shows "safe (complete_anchor rid v m)" and "safe (admit_rider rid m)" and "safe (rider_done rid i out m)"
    and "safe (anchor_done rid out m)" and "safe (set_phase rid Served m)" and "safe (match_begin rid m)"
    and "safe (match_end rid sl out m)"
proof -
  have g: "p \<noteq> Gone" using assms(3) by auto
  have p: "r_phase (res m rid) = p" using at_phase_pos [OF assms(1,2) g] by simp
  have d: "safe (upd rid f m)"
    if "\<And>r. same_static r (f r) \<and> r_torn_down (f r) = r_torn_down r \<and> r_state (f r) = r_state r \<and>
        r_handle (f r) = r_handle r \<and> r_booting (f r) = r_booting r"
      and "r_phase (f (res m rid)) \<in> {p, Served} \<or> (\<exists>sl. r_phase (f (res m rid)) = Matching sl)" for f
  proof (rule safe_driver [OF assms(1,2) g])
    note same = that(1) [of "res m rid"] and next_phase = that(2)
    show "same_static (res m rid) (f (res m rid))" "r_torn_down (f (res m rid)) = r_torn_down (res m rid)"
      "r_state (f (res m rid)) = Dead \<longleftrightarrow> r_state (res m rid) = Dead" using same by simp_all
    have quiet: "\<not> booting_phase q" "q \<noteq> Gone" "q \<noteq> Booting s i" "q \<noteq> Start" "q \<noteq> Loading s"
      if "q \<in> {p, Served} \<or> (\<exists>sl. q = Matching sl)" for q s i using assms(3) that by auto
    show "res_ok (f (res m rid))" if "res_ok (res m rid)"
      using that same quiet [OF next_phase] by (simp add: res_ok_def)
  qed
  have b: "safe (upd rid (r_inbox_update (\<lambda>_. Some ss)) m)" if "r_inbox (res m rid) = Some xs" for ss xs
    using that by (intro safe_driver [OF assms(1,2) g]) (auto simp: same_static_def res_ok_def)
  have ba: "safe (upd rid (\<lambda>r. r\<lparr>r_inbox := Some ss, r_inflight := r_inflight r @ [sl]\<rparr>) m)"
    if "r_inbox (res m rid) = Some xs" for ss xs sl
    using that by (intro safe_driver [OF assms(1,2) g]) (auto simp: same_static_def res_ok_def)
  show "safe (complete_anchor rid v m)" unfolding complete_anchor_def by (rule d) (simp_all add: same_static_def)
  show "safe (admit_rider rid m)" using assms(1) b ba
    by (auto simp: admit_rider_def Let_def split: option.split list.split)
  show "safe (rider_done rid i out m)" using d by (simp add: rider_done_def Let_def same_static_def p)
  show "safe (anchor_done rid out m)" unfolding anchor_done_def by (rule d) (simp_all add: same_static_def p)
  show "safe (set_phase rid Served m)" unfolding set_phase_def by (rule d) (simp_all add: same_static_def)
  show "safe (match_end rid sl out m)" using d assms(1)
    by (auto simp: match_end_def same_static_def split: option.split)
  have "safe (upd rid (\<lambda>r. r\<lparr>r_active := Some sl, r_phase := Matching a\<rparr>) m)" for sl a
    by (rule d) (simp_all add: same_static_def)
  moreover have "upd rid f (m\<lparr>m_queue := q\<rparr>) = (upd rid f m)\<lparr>m_queue := q\<rparr>" for f q by (simp add: upd_def)
  ultimately show "safe (match_begin rid m)" using assms(1)
    by (simp add: match_begin_def split: option.split prod.split)
qed

lemma safe_leave:
  assumes "safe m" and "at_phase m rid p" and "p \<noteq> Gone" and "\<not> booting_phase p"
  shows "safe (set_phase rid (Exiting h) m)" and "safe (begin_evict rid (set_phase rid (Exiting h) m))"
proof -
  note p = at_phase_pos [OF assms(1-3)]
  show s: "safe (set_phase rid (Exiting h) m)"
    unfolding set_phase_def using p assms(4)
    by (intro safe_driver [OF assms(1-3)]) (auto simp: same_static_def res_ok_def)
  show "safe (begin_evict rid (set_phase rid (Exiting h) m))"
    using p by (intro safe_begin_evict [OF s]) (simp_all add: set_phase_def res_upd)
qed

lemma safe_park:
  assumes "safe m" and a: "at_phase m rid Served"
  shows "safe (park rid keep now m)"
proof -
  let ?m0 = "upd rid (r_keep_alive_update (\<lambda>_. keep)) m"
  let ?m1 = "retire_active rid now ?m0"
  have g: "Served \<noteq> Gone" by simp
  note p = at_phase_pos [OF assms g]
  have m0: "safe ?m0" "at_phase ?m0 rid Served"
    using p a by (auto intro!: safe_driver [OF assms] simp: same_static_def res_ok_def at_phase_def res_upd)
  have "safe (upd rid (\<lambda>r. r\<lparr>r_last_active := now\<rparr>) ?m0)"
    "safe (upd rid (\<lambda>r. r\<lparr>r_active := None, r_last_active := now\<rparr>) ?m0)"
    using p by (auto intro!: safe_driver [OF m0] simp: same_static_def res_ok_def res_upd)
  then have m1: "safe ?m1" by (auto simp: retire_active_def split: option.split)
  moreover have r1: "r_phase (res ?m1 rid) = Served" "length (m_heap ?m1) = length (m_heap m)"
    "r_state (res ?m1 rid) = r_state (res m rid)"
    using p by (auto simp: retire_active_def res_upd finish_def split: option.split)
  ultimately have a1: "at_phase ?m1 rid Served" using p by (simp add: at_phase_def)
  have "safe (upd rid (\<lambda>r. r\<lparr>r_state := IdleEvictable, r_idle_expires := t, r_phase := Parked\<rparr>) ?m1)"
    if "r_state (res m rid) \<noteq> Dead" for t
    using that r1 by (intro safe_driver [OF m1 a1]) (auto simp: same_static_def res_ok_def)
  moreover note safe_leave [OF m0, of None] safe_leave [OF m1 a1, of None]
  ultimately show ?thesis using p by (simp add: park_def Let_def res_upd)
qed

lemma safe_timeout:
  assumes "safe m" and "at_phase m rid Parked"
  shows "safe (idle_timeout rid m)"
  using safe_leave [OF assms, of None] safe_take_inbox [OF assms, of Ready]
  by (auto simp: idle_timeout_def Let_def split: option.split list.split)

lemma safe_crash:
  assumes "safe m" and "at_phase m rid p" and "p \<noteq> Gone"
  shows "safe (crash rid m)"
proof -
  define f where "f e = (\<lambda>r :: resident. r\<lparr>r_inflight := [], r_active := (if r_phase r = FanOut
      then map_option (\<lambda>sl. fail_completion_future sl e) (r_active r) else r_active r)\<rparr>)" for e
  note p = at_phase_pos [OF assms]
  have s: "safe (upd rid (f e) m)" "at_phase (upd rid (f e) m) rid p" for e
    using p by (auto intro!: safe_driver [OF assms] simp: f_def same_static_def res_ok_def at_phase_def res_upd)
  have "safe (fail_all ss e' (upd rid (f e) m))" "at_phase (fail_all ss e' (upd rid (f e) m)) rid p" for e e' ss
    using s [of e] by (simp_all add: at_phase_def fail_all_def)
  then have "safe (set_phase rid (Exiting h) (fail_all ss e' (upd rid (f e) m)))" for e e' ss h
    unfolding set_phase_def using assms(3)
    by (intro safe_driver) (auto simp: same_static_def res_ok_def)
  then show ?thesis by (simp add: crash_def Let_def f_def)
qed

lemma safe_requeue: "safe m \<Longrightarrow> safe (requeue_slot sl m)"
  by (auto simp: requeue_slot_def split: sum.split queue_error.split)

lemma safe_requeue_batch: "safe m \<Longrightarrow> safe (requeue_batch ss m)"
  by (induction ss arbitrary: m) (auto intro: safe_requeue)

lemma task_safe_drop: "task_safe (drop_task i m) t = task_safe m t"
  by (cases t) simp_all

lemma safe_run_task:
  assumes "safe m" and "i < length (m_tasks m)"
  shows "safe (run_task (m_tasks m ! i) (drop_task i m))" and "safe (cancel_task (m_tasks m ! i) (drop_task i m))"
proof -
  have d: "safe (drop_task i m)" using assms by (simp add: safe_drop_task)
  have t: "task_safe (drop_task i m) (m_tasks m ! i)" using assms by (simp add: safe_def task_safe_drop)
  show "safe (run_task (m_tasks m ! i) (drop_task i m))"
    using d t safe_evict_teardown [OF d] safe_reap_dead [OF d]
    by (cases "m_tasks m ! i") (auto intro: safe_requeue safe_requeue_batch)
  show "safe (cancel_task (m_tasks m ! i) (drop_task i m))" using d by (cases "m_tasks m ! i") simp_all
qed

text \<open>Every step keeps the registry safe.\<close>

lemma step_safe: "mstep m m' \<Longrightarrow> safe m \<Longrightarrow> safe m'"
proof (induction rule: mstep.induct)
  case (m_exit m rid h)
  then show ?case using at_phase_pos [of m rid "Exiting h"] by (intro safe_driver_exit) simp_all
next
  case (m_close m)
  then show ?case by (simp add: close_queue_def split: prod.split)
next
  case (m_start m rid)
  then show ?case by (intro safe_take_inbox [where p = Start]) simp_all
next
  case (m_wake m rid)
  then show ?case by (intro safe_take_inbox [where p = Parked]) simp_all
qed (simp_all add: accept_def proc_exits_def safe_dispatch safe_run_task
      safe_spawned safe_booted safe_begin_serve safe_serving safe_park safe_timeout safe_crash)

lemma reach_safe: "mreach m m' \<Longrightarrow> safe m \<Longrightarrow> safe m'"
  by (induction rule: mreach.induct) (auto dest: step_safe)

lemma init_safe: "cap \<le> 99 \<Longrightarrow> safe (init_mgr q cap port_base idle_default)"
  by (simp add: safe_def init_mgr_def registered_def res_def blank_resident_def in_window_def)

end
