(* ===== verification/RegistryProcs.thy ===== *)
theory RegistryProcs
  imports RegistrySafety
begin

text \<open>
  Sidecar processes: every live one is the handle or the booting process of exactly one
  resident or already claimed by exactly one teardown that is still to run. The parts of the
  state this is about form the signature \<open>sig\<close>, which most operations leave alone.
\<close>

subsection \<open>The signature\<close>

definition hold :: "resident \<Rightarrow> int multiset" where
  "hold r = (case r_handle r of None \<Rightarrow> {#} | Some p \<Rightarrow> {#p#}) +
            (case r_booting r of None \<Rightarrow> {#} | Some p \<Rightarrow> {#p#})"

definition held :: "mgr \<Rightarrow> int multiset" where
  "held m = sum_list (map hold (m_heap m))"

fun reaps :: "task \<Rightarrow> int list" where
  "reaps (ReapPid pid) = [pid]"
| "reaps _ = []"

definition reaping :: "mgr \<Rightarrow> int list" where
  "reaping m = concat (map reaps (m_tasks m))"

definition sig :: "mgr \<Rightarrow> int multiset \<times> int list \<times> (int \<times> int) list \<times> int list \<times> bool \<times> int list" where
  "sig m = (held m, m_claimed m, m_procs m, m_pids m, m_stop m, reaping m)"

lemma sig_frame [simp]:
  "sig (m\<lparr>m_queue := q\<rparr>) = sig m" "sig (m\<lparr>m_dict := d\<rparr>) = sig m" "sig (m\<lparr>m_defers := df\<rparr>) = sig m"
  "sig (m\<lparr>m_done := dn\<rparr>) = sig m" "sig (m\<lparr>m_lost := ls\<rparr>) = sig m" "sig (m\<lparr>m_accepted := acs\<rparr>) = sig m"
  "sig (m\<lparr>m_evictions := ev\<rparr>) = sig m" "sig (finish sl m) = sig m" "sig (fail_slot sl e m) = sig m"
  "sig (fail_all ss e m) = sig m" "sig (deregister rid m) = sig m"
  by (simp_all add: sig_def held_def reaping_def finish_def fail_slot_def fail_all_def deregister_def Let_def)

lemma held_upd:
  "rid < length (m_heap m) \<Longrightarrow> held (upd rid f m) + hold (res m rid) = held m + hold (f (res m rid))"
  using sum_list_update [of rid "map hold (m_heap m)" "hold (f (res m rid))"]
  by (simp add: held_def upd_def res_def map_update)

lemma sig_upd [simp]: "hold (f (res m rid)) = hold (res m rid) \<Longrightarrow> sig (upd rid f m) = sig m"
proof (cases "rid < length (m_heap m)")
  case True
  moreover assume "hold (f (res m rid)) = hold (res m rid)"
  ultimately have "held (upd rid f m) = held m" using held_upd [OF True, of f] by simp
  then show ?thesis by (simp add: sig_def reaping_def)
qed (simp add: upd_def list_update_beyond sig_def held_def reaping_def)

lemma sig_add_task [simp]: "reaps t = [] \<Longrightarrow> sig (add_task t m) = sig m"
  by (simp add: sig_def held_def reaping_def add_task_def)

lemma hold_frame [simp]:
  "hold (r\<lparr>r_phase := p\<rparr>) = hold r" "hold (r\<lparr>r_state := st\<rparr>) = hold r" "hold (r\<lparr>r_inbox := b\<rparr>) = hold r"
  "hold (r\<lparr>r_active := a\<rparr>) = hold r" "hold (r\<lparr>r_inflight := fl\<rparr>) = hold r"
  "hold (r\<lparr>r_last_active := now\<rparr>) = hold r" "hold (r\<lparr>r_keep_alive := ka\<rparr>) = hold r"
  "hold (r\<lparr>r_idle_expires := ie\<rparr>) = hold r" "hold (r\<lparr>r_torn_down := td\<rparr>) = hold r"
  "hold (r\<lparr>r_spawn_seq := sq\<rparr>) = hold r"
  by (simp_all add: hold_def)

lemma sig_ops [simp]:
  "sig (set_phase rid p m) = sig m" "sig (drain_inbox rid m) = sig m" "sig (begin_evict rid m) = sig m"
  "sig (mark_dead rid m) = sig m" "sig (take_inbox rid mk m) = sig m" "sig (spawn_refused rid sl m) = sig m"
  "sig (begin_serve rid sl now m) = sig m" "sig (complete_anchor rid v m) = sig m" "sig (admit_rider rid m) = sig m"
  "sig (rider_done rid i out m) = sig m" "sig (anchor_done rid out m) = sig m" "sig (match_begin rid m) = sig m"
  "sig (match_end rid a out m) = sig m" "sig (retire_active rid now m) = sig m"
  "sig (requeue_slot sl m) = sig m" "sig (abandon h m) = sig m" "sig (defer_unroutable sl m) = sig m"
  "sig (close_queue m) = sig m" "sig (accept sl q m) = sig m"
  by (auto simp: set_phase_def drain_inbox_def begin_evict_def mark_dead_def take_inbox_def spawn_refused_def
      begin_serve_def complete_anchor_def admit_rider_def rider_done_def anchor_done_def match_begin_def
      match_end_def retire_active_def requeue_slot_def abandon_def defer_unroutable_def close_queue_def
      accept_def Let_def o_def split: option.split list.split prod.split sum.split queue_error.split)

lemma sig_requeue_batch [simp]: "sig (requeue_batch ss m) = sig m"
  by (induction ss arbitrary: m) simp_all

lemma sig_park [simp]: "sig (park rid keep now m) = sig m" "sig (idle_timeout rid m) = sig m"
  "sig (crash rid m) = sig m" "sig (reap_dead_resident rid m) = sig m"
  by (auto simp: park_def idle_timeout_def crash_def reap_dead_resident_def Let_def split: option.split list.split)

lemma sig_new [simp]:
  "sig (m\<lparr>m_heap := m_heap m @ [new_resident tag fp port now sl]\<rparr>) = sig m"
  by (simp add: sig_def held_def reaping_def hold_def new_resident_sels)

lemma sig_route [simp]:
  "sig (reserve_and_start now foot vals sl m) = sig m" "sig (route_or_reserve now foot vals sl m) = sig m"
proof -
  show r: "sig (reserve_and_start now foot vals sl m) = sig m" for m
    by (simp add: reserve_and_start_def split: sum.split)
  show "sig (route_or_reserve now foot vals sl m) = sig m"
    by (simp add: route_or_reserve_def Let_def r split: option.split)
qed

lemma sig_dispatch [simp]: "sig (dispatch_turn now foot vals m) = sig m"
  by (simp add: dispatch_turn_def dispatch_popped_def handle_evicted_slot_def
      split: option.split prod.split sum.split)

subsection \<open>Accounts of processes\<close>

definition claims :: "mgr \<Rightarrow> int multiset" where
  "claims m = held m + mset (m_claimed m)"

definition procs_ok :: "mgr \<Rightarrow> bool" where
  "procs_ok m \<longleftrightarrow>
     (\<forall>p. count (claims m) p \<le> 1) \<and> set_mset (claims m) \<subseteq> set (m_pids m) \<and>
     fst ` set (m_procs m) \<subseteq> set (m_pids m) \<and>
     (m_stop m \<or> (\<forall>p \<in> fst ` set (m_procs m). p \<in># held m \<or> p \<in> set (reaping m)))"

lemma procs_ok_sig: "sig m' = sig m \<Longrightarrow> procs_ok m' = procs_ok m"
  by (simp add: procs_ok_def claims_def sig_def)

lemma procs_ok_sigI: "procs_ok m \<Longrightarrow> sig m' = sig m \<Longrightarrow> procs_ok m'"
  using procs_ok_sig by blast

text \<open>
  What every teardown does: processes leave the residents, some of them into the care of a
  reaping task; nothing new is held.
\<close>

lemma procs_ok_release:
  assumes "procs_ok m" and "claims m' \<subseteq># claims m" and "m_pids m' = m_pids m"
    and "set (m_procs m') \<subseteq> set (m_procs m)" and "m_stop m \<Longrightarrow> m_stop m'"
    and "\<And>p. p \<in> fst ` set (m_procs m') \<Longrightarrow> p \<in># held m \<or> p \<in> set (reaping m) \<Longrightarrow>
           m_stop m' \<or> p \<in># held m' \<or> p \<in> set (reaping m')"
  shows "procs_ok m'"
proof -
  have "count (claims m') p \<le> 1" for p
    using assms(1) mset_subset_eq_count [OF assms(2), of p] unfolding procs_ok_def by (meson le_trans)
  moreover have "set_mset (claims m') \<subseteq> set_mset (claims m)" using assms(2) by (rule set_mset_mono)
  moreover have sub: "fst ` set (m_procs m') \<subseteq> fst ` set (m_procs m)" using assms(4) by (rule image_mono)
  moreover have "m_stop m' \<or> p \<in># held m' \<or> p \<in> set (reaping m')" if p: "p \<in> fst ` set (m_procs m')" for p
  proof -
    have "m_stop m \<or> p \<in># held m \<or> p \<in> set (reaping m)"
      using assms(1) subsetD [OF sub p] by (auto simp: procs_ok_def)
    with assms(5) assms(6) [OF p] show ?thesis by argo
  qed
  moreover have "set_mset (claims m) \<subseteq> set (m_pids m')" "fst ` set (m_procs m) \<subseteq> set (m_pids m')"
    using assms(1,3) by (simp_all add: procs_ok_def)
  ultimately show ?thesis unfolding procs_ok_def by (metis order_trans)
qed

lemma procs_claim:
  assumes "procs_ok m" and "rid < length (m_heap m)"
    and one: "r_handle (res m rid) \<noteq> None \<Longrightarrow> r_booting (res m rid) = None"
  shows "procs_ok (claim_process rid m)"
proof -
  let ?f = "\<lambda>r. r\<lparr>r_torn_down := True, r_handle := None, r_booting := None\<rparr>"
  let ?m1 = "upd rid ?f m"
  have h: "held ?m1 + hold (res m rid) = held m" using held_upd [OF assms(2), of ?f] by (simp add: hold_def)
  then have ins: "p \<in># held m \<longleftrightarrow> p \<in># held ?m1 \<or> p \<in># hold (res m rid)" for p by (metis union_iff)
  have t: "\<And>p. reap_target m (res m rid) = Some p \<Longrightarrow> p \<in># hold (res m rid)"
    "\<And>p. p \<in># hold (res m rid) \<Longrightarrow> p \<in> fst ` set (m_procs m) \<Longrightarrow> reap_target m (res m rid) = Some p"
    "size (hold (res m rid)) \<le> 1"
    using one by (auto simp: reap_target_def hold_def split: option.splits if_splits)
  show ?thesis
  proof (cases "reap_target m (res m rid)")
    case None
    then have c: "claim_process rid m = ?m1" by (simp add: claim_process_def)
    show ?thesis unfolding c
    proof (rule procs_ok_release [OF assms(1)])
      show "claims ?m1 \<subseteq># claims m" unfolding claims_def h [symmetric] by simp
      show "m_stop ?m1 \<or> p \<in># held ?m1 \<or> p \<in> set (reaping ?m1)"
        if "p \<in> fst ` set (m_procs ?m1)" "p \<in># held m \<or> p \<in> set (reaping m)" for p
        using that t(2) [of p] None ins [of p] by (auto simp: reaping_def)
    qed simp_all
  next
    case (Some pid)
    have hp: "hold (res m rid) = {#pid#}"
      using t(1) [OF Some] t(3) by (metis One_nat_def Suc_le_mono empty_iff le_zero_eq multi_member_split
          set_mset_empty size_add_mset size_eq_0_iff_empty)
    let ?m2 = "add_task (ReapPid pid) (?m1\<lparr>m_claimed := m_claimed ?m1 @ [pid]\<rparr>)"
    have c: "claim_process rid m = ?m2" using Some by (simp add: claim_process_def Let_def)
    have r: "held ?m2 = held ?m1" "reaping ?m2 = reaping m @ [pid]" "m_claimed ?m2 = m_claimed m @ [pid]"
      by (simp_all add: held_def reaping_def add_task_def)
    show ?thesis unfolding c
    proof (rule procs_ok_release [OF assms(1)])
      show "claims ?m2 \<subseteq># claims m" unfolding claims_def h [symmetric] r hp by simp
      show "m_stop ?m2 \<or> p \<in># held ?m2 \<or> p \<in> set (reaping ?m2)"
        if "p \<in> fst ` set (m_procs ?m2)" "p \<in># held m \<or> p \<in> set (reaping m)" for p
        using that r ins [of p] hp by auto
    qed (simp_all add: add_task_def)
  qed
qed

subsection \<open>Every step\<close>

lemma safe_one:
  "safe m \<Longrightarrow> 0 < rid \<Longrightarrow> rid < length (m_heap m) \<Longrightarrow> r_handle (res m rid) \<noteq> None \<Longrightarrow>
     r_booting (res m rid) = None"
  using safe_res [of m rid] by (auto simp: res_ok_def)

lemma procs_evict_teardown:
  assumes "safe m" and "procs_ok m" and "task_safe m (EvictTeardown rid)"
  shows "procs_ok (evict_teardown rid m)"
proof -
  have v: "0 < rid" "rid < length (m_heap m)" using assms(3) by simp_all
  have "procs_ok (claim_process rid m)"
    using procs_claim [OF assms(2) v(2)] safe_one [OF assms(1) v] by blast
  with assms(2) show ?thesis by (simp add: evict_teardown_def)
qed

lemma procs_driver_exit:
  assumes "safe m" and "procs_ok m" and "at_phase m rid (Exiting h)"
  shows "procs_ok (driver_exit rid h m)"
proof -
  have g: "Exiting h \<noteq> Gone" by simp
  note p = at_phase_pos [OF assms(1,3) g]
  obtain st where r: "res (mark_dead rid m) rid = (res m rid)\<lparr>r_state := st\<rparr>"
    using mark_dead_res [OF p(2), of rid] by auto
  have "procs_ok (mark_dead rid m)" using assms(2) procs_ok_sig [of "mark_dead rid m" m] by simp
  moreover have "rid < length (m_heap (mark_dead rid m))" using p by simp
  ultimately have "procs_ok (claim_process rid (mark_dead rid m))"
    using safe_one [OF assms(1) p(1,2)] r by (intro procs_claim) simp_all
  then have "procs_ok (clean_up rid h m)"
    by (subst procs_ok_sig [of _ "claim_process rid (mark_dead rid m)"])
       (auto simp: clean_up_def Let_def split: option.split)
  moreover have "procs_ok (abandon h m)" using assms(2) procs_ok_sig [of "abandon h m" m] by simp
  moreover have "sig (driver_exit rid h m) = sig (if r_torn_down (res m rid) then abandon h m else clean_up rid h m)"
    by (simp add: driver_exit_def)
  ultimately show ?thesis using procs_ok_sig by (cases "r_torn_down (res m rid)") metis+
qed

lemma reaping_drop:
  assumes "i < length (m_tasks m)"
  shows "set (reaping m) = set (reaping (drop_task i m)) \<union> set (reaps (m_tasks m ! i))"
proof -
  have "m_tasks m = take i (m_tasks m) @ m_tasks m ! i # drop (Suc i) (m_tasks m)"
    using assms by (rule id_take_nth_drop)
  then have "set (reaping m) = (\<Union>t \<in> set (take i (m_tasks m) @ m_tasks m ! i # drop (Suc i) (m_tasks m)). set (reaps t))"
    unfolding reaping_def by (metis set_concat set_map image_image)
  then show ?thesis by (auto simp: reaping_def drop_task_def)
qed

lemma procs_drop:
  assumes "procs_ok m" and "i < length (m_tasks m)" and "m_stop m \<or> reaps (m_tasks m ! i) = []"
  shows "procs_ok (drop_task i m)"
proof (rule procs_ok_release [OF assms(1)])
  show "m_stop (drop_task i m) \<or> p \<in># held (drop_task i m) \<or> p \<in> set (reaping (drop_task i m))"
    if "p \<in># held m \<or> p \<in> set (reaping m)" for p
    using that assms(3) reaping_drop [OF assms(2)] by (auto simp: drop_task_def held_def)
qed (simp_all add: drop_task_def claims_def held_def)

lemma procs_kill: "procs_ok m \<Longrightarrow> procs_ok (kill_proc pid m)"
  by (erule procs_ok_release) (auto simp: kill_proc_def claims_def held_def reaping_def)

lemma procs_run_task:
  assumes "safe m" and "procs_ok m" and i: "i < length (m_tasks m)"
  shows "procs_ok (run_task (m_tasks m ! i) (drop_task i m))"
proof (cases "m_tasks m ! i")
  case (ReapPid pid)
  show ?thesis unfolding ReapPid run_task.simps
  proof (rule procs_ok_release [OF assms(2)])
    show "m_stop (kill_proc pid (drop_task i m)) \<or> p \<in># held (kill_proc pid (drop_task i m)) \<or>
        p \<in> set (reaping (kill_proc pid (drop_task i m)))"
      if "p \<in> fst ` set (m_procs (kill_proc pid (drop_task i m)))" "p \<in># held m \<or> p \<in> set (reaping m)" for p
      using that reaping_drop [OF i] ReapPid by (auto simp: kill_proc_def drop_task_def held_def reaping_def)
  qed (auto simp: kill_proc_def drop_task_def claims_def held_def)
next
  case (RequeueOne sl)
  then show ?thesis using procs_drop [OF assms(2) i] by (auto intro: procs_ok_sigI)
next
  case (RequeueBatch ss)
  then show ?thesis using procs_drop [OF assms(2) i] by (auto intro: procs_ok_sigI)
next
  case (ReapDead rid)
  then show ?thesis using procs_drop [OF assms(2) i] by (auto intro: procs_ok_sigI)
next
  case (EvictTeardown rid)
  have "task_safe m (EvictTeardown rid)" using assms(1) i by (auto simp: safe_def simp flip: EvictTeardown)
  then have "task_safe (drop_task i m) (EvictTeardown rid)" by simp
  then show ?thesis
    using assms EvictTeardown procs_drop [OF assms(2) i] safe_drop_task by (simp add: procs_evict_teardown)
qed

lemma procs_cancel:
  assumes "procs_ok m" and "i < length (m_tasks m)" and "m_stop m"
  shows "procs_ok (cancel_task (m_tasks m ! i) (drop_task i m))"
  using procs_drop [OF assms(1,2)] assms(3) by (cases "m_tasks m ! i") (auto intro: procs_ok_sigI)

lemma procs_spawned:
  assumes "safe m" and "procs_ok m" and "at_phase m rid (Loading sl)" and "pid \<notin> set (m_pids m)"
  shows "procs_ok (spawned rid sl pid m)"
proof -
  have g: "Loading sl \<noteq> Gone" by simp
  note p = at_phase_pos [OF assms(1,3) g]
  have none: "r_handle (res m rid) = None" "r_booting (res m rid) = None"
    using p by (simp_all add: res_ok_def)
  let ?m = "spawned rid sl pid m"
  have h: "held ?m = held m + {#pid#}"
  proof -
    have "held (upd rid f (m\<lparr>m_procs := ps, m_pids := pids\<rparr>)) + hold (res m rid) = held m + hold (f (res m rid))"
      for f ps pids
      using held_upd [of rid "m\<lparr>m_procs := ps, m_pids := pids\<rparr>" f] p(2) by (simp add: held_def)
    then show ?thesis using none by (simp add: spawned_def Let_def hold_def)
  qed
  have new: "count (claims m) pid = 0" using assms(2,4) by (auto simp: procs_ok_def simp flip: not_in_iff)
  have f: "m_claimed ?m = m_claimed m" "m_pids ?m = pid # m_pids m" "m_stop ?m = m_stop m"
    "fst ` set (m_procs ?m) = insert pid (fst ` set (m_procs m))" "reaping ?m = reaping m"
    by (auto simp: spawned_def Let_def reaping_def)
  have c: "claims ?m = claims m + {#pid#}" by (simp add: claims_def h f)
  show ?thesis
    using assms(2) new unfolding procs_ok_def f c h by auto
qed

lemma procs_booted:
  assumes "safe m" and "procs_ok m" and "at_phase m rid (Booting sl pid)"
  shows "procs_ok (healthy rid sl pid m)" and "procs_ok (unhealthy rid sl pid m)"
proof -
  have g: "Booting sl pid \<noteq> Gone" by simp
  note p = at_phase_pos [OF assms(1,3) g]
  have one: "r_handle (res m rid) = None" "r_booting (res m rid) = Some pid" using p by (simp_all add: res_ok_def)
  have "sig (healthy rid sl pid m) = sig m" unfolding healthy_def using one by (intro sig_upd) (simp add: hold_def)
  with assms(2) show "procs_ok (healthy rid sl pid m)" by (rule procs_ok_sigI)
  define m1 where "m1 = upd rid (\<lambda>r. r\<lparr>r_booting := None,
      r_phase := Exiting (Some (fail_completion_future sl (RuntimeErr ''loading-fail-health-timeout'')))\<rparr>) m"
  have h: "held m = held m1 + {#pid#}"
    using held_upd [OF p(2)] one unfolding m1_def by (simp add: hold_def)
  have u: "unhealthy rid sl pid m = (if pid \<in> fst ` set (m_procs m)
      then add_task (ReapPid pid) (m1\<lparr>m_claimed := m_claimed m1 @ [pid]\<rparr>) else m1)"
    by (simp add: unhealthy_def Let_def m1_def)
  have f: "m_claimed m1 = m_claimed m" "m_pids m1 = m_pids m" "m_procs m1 = m_procs m" "m_stop m1 = m_stop m"
    "m_tasks m1 = m_tasks m" by (simp_all add: m1_def)
  have rf: "reaping m1 = reaping m" "reaping (add_task (ReapPid pid) (m1\<lparr>m_claimed := cl\<rparr>)) = reaping m @ [pid]"
    "m_stop (add_task t (m1\<lparr>m_claimed := cl\<rparr>)) = m_stop m" for t cl
    by (simp_all add: reaping_def add_task_def f)
  have hf: "held (add_task t (m1\<lparr>m_claimed := cl\<rparr>)) = held m1" for t cl by (simp add: held_def add_task_def)
  show "procs_ok (unhealthy rid sl pid m)"
  proof (rule procs_ok_release [OF assms(2)])
    show "claims (unhealthy rid sl pid m) \<subseteq># claims m"
      by (simp add: u claims_def h hf f) (simp add: add_task_def)
    show "m_stop (unhealthy rid sl pid m) \<or> q \<in># held (unhealthy rid sl pid m) \<or> q \<in> set (reaping (unhealthy rid sl pid m))"
      if "q \<in> fst ` set (m_procs (unhealthy rid sl pid m))" "q \<in># held m \<or> q \<in> set (reaping m)" for q
      using that by (cases "pid \<in> fst ` set (m_procs m)") (auto simp: u h hf f rf)
  qed (auto simp: u f add_task_def)
qed

lemma step_procs:
  assumes "mstep m m'" and "safe m" and "procs_ok m"
  shows "procs_ok m'"
  using assms
proof (induction rule: mstep.induct)
  case (m_proc_exit m pid)
  then show ?case by (simp add: proc_exits_def procs_kill)
next
  case (m_signal m)
  then show ?case by (auto simp: procs_ok_def claims_def held_def)
qed (auto intro: procs_ok_sigI procs_run_task procs_cancel procs_driver_exit procs_spawned procs_booted)

lemma reach_procs: "mreach m m' \<Longrightarrow> safe m \<Longrightarrow> procs_ok m \<Longrightarrow> procs_ok m'"
  by (induction rule: mreach.induct) (auto intro: step_procs reach_safe)

lemma init_procs: "procs_ok (init_mgr q cap port_base idle_default)"
  by (simp add: procs_ok_def claims_def init_mgr_def held_def hold_def blank_resident_def)

lemma in_held: "p \<in># held m \<longleftrightarrow>
    (\<exists>rid < length (m_heap m). r_handle (res m rid) = Some p \<or> r_booting (res m rid) = Some p)"
proof -
  have s: "p \<in># sum_list ms \<longleftrightarrow> (\<exists>s \<in> set ms. p \<in># s)" for ms :: "int multiset list"
    by (induction ms) auto
  have h: "p \<in># hold r \<longleftrightarrow> r_handle r = Some p \<or> r_booting r = Some p" for r
    by (auto simp: hold_def split: option.splits)
  have n: "(\<exists>r \<in> set (m_heap m). P r) \<longleftrightarrow> (\<exists>rid < length (m_heap m). P (res m rid))" for P
    by (metis in_set_conv_nth res_def)
  have "p \<in># held m \<longleftrightarrow> (\<exists>r \<in> set (m_heap m). p \<in># hold r)" unfolding held_def s by simp
  then show ?thesis unfolding n h .
qed

end
