(* ===== verification/RegistryRuns.thy ===== *)
theory RegistryRuns
  imports RegistryProcs
begin

text \<open>
  Runs of the registry as event lists, and the properties of every run: what the manager
  promises about residents, requests and sidecar processes, and the interleavings in which
  it loses a request or hands out a port twice.
\<close>

subsection \<open>Events\<close>

text \<open>Most rules of the step relation as events, so that a run can be computed.\<close>

datatype event =
    Submit slot
  | Dispatch time "store_error + footprint" "int list option"
  | Task nat
  | TakeFirst nat
  | Refuse nat
  | Spawn nat int
  | Health nat bool
  | Serve nat time
  | Complete nat pyval
  | Park nat "int option" time
  | Wake nat
  | Exit nat
  | Stop

text \<open>Where the driver of a resident is suspended.\<close>

definition place :: "mgr \<Rightarrow> nat \<Rightarrow> phase" where
  "place m rid = (if rid < length (m_heap m) then r_phase (res m rid) else Gone)"

fun fire :: "event \<Rightarrow> mgr \<Rightarrow> mgr option" where
  "fire (Submit sl) m =
     (case enqueue (m_queue m) sl of
        Inr (q, _) \<Rightarrow> if sl_id sl \<in> set (m_accepted m) then None else Some (accept sl q m)
      | Inl _ \<Rightarrow> None)"
| "fire (Dispatch now foot vals) m = (if m_stop m then None else Some (dispatch_turn now foot vals m))"
| "fire (Task i) m = (if i < length (m_tasks m) then Some (run_task (m_tasks m ! i) (drop_task i m)) else None)"
| "fire Stop m = Some (m\<lparr>m_stop := True\<rparr>)"
| "fire (TakeFirst rid) m = (case place m rid of Start \<Rightarrow> Some (take_inbox rid Loading m) | _ \<Rightarrow> None)"
| "fire (Refuse rid) m = (case place m rid of Loading sl \<Rightarrow> Some (spawn_refused rid sl m) | _ \<Rightarrow> None)"
| "fire (Spawn rid pid) m =
     (case place m rid of
        Loading sl \<Rightarrow> if pid \<in> set (m_pids m) then None else Some (spawned rid sl pid m)
      | _ \<Rightarrow> None)"
| "fire (Health rid ok) m =
     (case place m rid of
        Booting sl pid \<Rightarrow> Some (if ok then healthy rid sl pid m else unhealthy rid sl pid m)
      | _ \<Rightarrow> None)"
| "fire (Serve rid now) m = (case place m rid of Ready sl \<Rightarrow> Some (begin_serve rid sl now m) | _ \<Rightarrow> None)"
| "fire (Complete rid v) m = (case place m rid of Serving \<Rightarrow> Some (complete_anchor rid v m) | _ \<Rightarrow> None)"
| "fire (Park rid keep now) m = (case place m rid of Served \<Rightarrow> Some (park rid keep now m) | _ \<Rightarrow> None)"
| "fire (Wake rid) m = (case place m rid of Parked \<Rightarrow> Some (take_inbox rid Ready m) | _ \<Rightarrow> None)"
| "fire (Exit rid) m = (case place m rid of Exiting h \<Rightarrow> Some (driver_exit rid h m) | _ \<Rightarrow> None)"

fun fires :: "event list \<Rightarrow> mgr \<Rightarrow> mgr option" where
  "fires [] m = Some m"
| "fires (e # es) m = (case fire e m of None \<Rightarrow> None | Some m' \<Rightarrow> fires es m')"

lemma place_at: "place m rid = p \<Longrightarrow> p \<noteq> Gone \<Longrightarrow> at_phase m rid p"
  by (auto simp: place_def at_phase_def split: if_splits)

lemma fire_step: "fire e m = Some m' \<Longrightarrow> mstep m m'"
  by (cases e) (auto intro: mstep.intros place_at split: if_splits sum.splits phase.splits)

lemma mreach_trans: "mreach m' m'' \<Longrightarrow> mreach m m' \<Longrightarrow> mreach m m''"
  by (induction rule: mreach.induct) (auto intro: mreach.intros)

lemma fires_reach: "fires es m = Some m' \<Longrightarrow> mreach m m'"
proof (induction es arbitrary: m)
  case (Cons e es)
  then obtain m1 where "fire e m = Some m1" "fires es m1 = Some m'" by (auto split: option.splits)
  with Cons.IH fire_step mreach_trans show ?case by (blast intro: mreach.intros)
qed (simp add: mreach.intros)

text \<open>Three models on two cards, and the run that fills a manager with two places.\<close>

definition small_model :: "int \<Rightarrow> store_error + footprint" where
  "small_model gpu = Inr \<lparr>f_need = 10, f_parallel = 1, f_main_gpu = gpu, f_split = ''none'', f_sleep_idle = 0\<rparr>"

definition request :: "string \<Rightarrow> string \<Rightarrow> slot" where
  "request uid tag = (new_slot uid 0 tag [] uid [])\<lparr>sl_future := Some Pending\<rparr>"

definition two_places :: mgr where
  "two_places = init_mgr (new_queue 4 4 3 20) 2 8000 60"

definition warm_run :: "event list" where
  "warm_run =
     [Submit (request ''1'' ''a''), Dispatch 1 (small_model 0) (Some [40, 40]),
      TakeFirst 1, Spawn 1 7, Health 1 True, Serve 1 2, Complete 1 PyNone, Park 1 None 3]"

definition busy_run :: "event list" where
  "busy_run = warm_run @ [Submit (request ''2'' ''b''), Dispatch 4 (small_model 1) (Some [30, 40])]"

definition crowded_run :: "event list" where
  "crowded_run = busy_run @ [Submit (request ''3'' ''c''), Dispatch 5 (small_model 0) (Some [30, 40])]"

lemma busy_run_residents: "map_option model_residents (fires busy_run two_places) = Some [1, 2]"
  by code_simp

lemma run_reach: "fires es two_places = Some m \<Longrightarrow> mreach (init_mgr (new_queue 4 4 3 20) 2 8000 60) m"
  using fires_reach by (simp add: two_places_def)

subsection \<open>What steps leave alone\<close>

text \<open>The configuration, and the log of lost requests.\<close>

definition conf :: "mgr \<Rightarrow> nat \<times> int \<times> int" where
  "conf m = (m_cap m, m_port_base m, m_idle_default m)"

definition frozen :: "mgr \<Rightarrow> (nat \<times> int \<times> int) \<times> slot list" where
  "frozen m = (conf m, m_lost m)"

lemma frozen_frame [simp]:
  "frozen (m\<lparr>m_queue := q\<rparr>) = frozen m" "frozen (m\<lparr>m_dict := d\<rparr>) = frozen m"
  "frozen (m\<lparr>m_heap := h\<rparr>) = frozen m" "frozen (m\<lparr>m_tasks := ts\<rparr>) = frozen m"
  "frozen (m\<lparr>m_defers := df\<rparr>) = frozen m" "frozen (m\<lparr>m_done := dn\<rparr>) = frozen m"
  "frozen (m\<lparr>m_accepted := acs\<rparr>) = frozen m" "frozen (m\<lparr>m_procs := ps\<rparr>) = frozen m"
  "frozen (m\<lparr>m_pids := pids\<rparr>) = frozen m" "frozen (m\<lparr>m_claimed := cl\<rparr>) = frozen m"
  "frozen (m\<lparr>m_evictions := ev\<rparr>) = frozen m" "frozen (m\<lparr>m_stop := st\<rparr>) = frozen m"
  "frozen (upd rid f m) = frozen m" "frozen (finish sl m) = frozen m" "frozen (fail_slot sl e m) = frozen m"
  "frozen (fail_all ss e m) = frozen m" "frozen (deregister rid m) = frozen m" "frozen (add_task t m) = frozen m"
  "frozen (drop_task i m) = frozen m" "frozen (kill_proc pid m) = frozen m"
  by (simp_all add: frozen_def conf_def finish_def fail_slot_def fail_all_def deregister_def add_task_def
      drop_task_def kill_proc_def Let_def)

lemma frozen_ops [simp]:
  "frozen (set_phase rid p m) = frozen m" "frozen (drain_inbox rid m) = frozen m" "frozen (begin_evict rid m) = frozen m"
  "frozen (mark_dead rid m) = frozen m" "frozen (take_inbox rid mk m) = frozen m" "frozen (spawn_refused rid sl m) = frozen m"
  "frozen (begin_serve rid sl now m) = frozen m" "frozen (complete_anchor rid v m) = frozen m"
  "frozen (admit_rider rid m) = frozen m" "frozen (rider_done rid i out m) = frozen m"
  "frozen (anchor_done rid out m) = frozen m" "frozen (match_begin rid m) = frozen m"
  "frozen (match_end rid a out m) = frozen m" "frozen (retire_active rid now m) = frozen m"
  "frozen (requeue_slot sl m) = frozen m" "frozen (defer_unroutable sl m) = frozen m"
  "frozen (close_queue m) = frozen m" "frozen (accept sl q m) = frozen m" "frozen (claim_process rid m) = frozen m"
  "frozen (spawned rid sl pid m) = frozen m" "frozen (healthy rid sl pid m) = frozen m"
  "frozen (unhealthy rid sl pid m) = frozen m" "frozen (reserve_and_start now foot vals sl m) = frozen m"
  by (auto simp: set_phase_def drain_inbox_def begin_evict_def mark_dead_def take_inbox_def spawn_refused_def
      begin_serve_def complete_anchor_def admit_rider_def rider_done_def anchor_done_def match_begin_def
      match_end_def retire_active_def requeue_slot_def defer_unroutable_def close_queue_def
      accept_def claim_process_def spawned_def healthy_def unhealthy_def reserve_and_start_def Let_def o_def
      split: option.split list.split prod.split sum.split queue_error.split)

lemma frozen_requeue_batch [simp]: "frozen (requeue_batch ss m) = frozen m"
  by (induction ss arbitrary: m) simp_all

lemma frozen_composed [simp]:
  "frozen (park rid keep now m) = frozen m" "frozen (idle_timeout rid m) = frozen m"
  "frozen (crash rid m) = frozen m" "frozen (reap_dead_resident rid m) = frozen m"
  "frozen (evict_teardown rid m) = frozen m" "frozen (clean_up rid h m) = frozen m"
  by (auto simp: park_def idle_timeout_def crash_def reap_dead_resident_def evict_teardown_def clean_up_def
      Let_def split: option.split list.split)

lemma frozen_tasks [simp]: "frozen (run_task t m) = frozen m" "frozen (cancel_task t m) = frozen m"
  by (cases t; simp)+

lemma frozen_conf: "frozen m' = frozen m \<Longrightarrow> conf m' = conf m"
  and frozen_lost: "frozen m' = frozen m \<Longrightarrow> m_lost m' = m_lost m"
  by (simp_all add: frozen_def)

lemma conf_lose [simp]: "conf (m\<lparr>m_lost := ls\<rparr>) = conf m"
  by (simp add: conf_def)

lemma frozen_reserve_evict [simp]: "frozen (reserve_and_start now foot vals sl (begin_evict v m)) = frozen m"
  by simp

lemma lost_frozen: "m_lost m = snd (frozen m)"
  by (simp add: frozen_def)

lemma route_loses:
  assumes "m_lost (route_or_reserve now foot vals sl m) \<noteq> m_lost m"
  shows "\<exists>rid. live_resident_for m (sl_model_tag sl) = Some rid \<and> r_inbox (res m rid) = None \<and>
           m_lost (route_or_reserve now foot vals sl m) = m_lost m @ [sl]"
proof (cases "live_resident_for m (sl_model_tag sl)")
  case None
  then have "frozen (route_or_reserve now foot vals sl m) = frozen m"
    by (simp add: route_or_reserve_def split: option.split)
  with assms frozen_lost show ?thesis by blast
next
  case (Some rid)
  show ?thesis
  proof (cases "r_inbox (res m rid)")
    case None
    with Some show ?thesis by (simp add: route_or_reserve_def Let_def)
  next
    case (Some b)
    with \<open>live_resident_for m (sl_model_tag sl) = Some rid\<close>
    have "frozen (route_or_reserve now foot vals sl m) = frozen m" by (simp add: route_or_reserve_def Let_def)
    with assms frozen_lost show ?thesis by blast
  qed
qed

lemma conf_route [simp]: "conf (route_or_reserve now foot vals sl m) = conf m"
  by (auto simp: route_or_reserve_def Let_def intro: frozen_conf split: option.split)

lemma conf_queue [simp]: "conf (m\<lparr>m_queue := q\<rparr>) = conf m" "conf (m\<lparr>m_evictions := ev\<rparr>) = conf m"
  by (simp_all add: conf_def)

lemma conf_abandon [simp]: "conf (abandon h m) = conf m"
  by (auto simp: abandon_def intro: frozen_conf split: option.split)

lemma step_conf: "mstep m m' \<Longrightarrow> conf m' = conf m"
proof (induction rule: mstep.induct)
  case (m_dispatch m now foot vals)
  have "conf (handle_evicted_slot sl m) = conf m" for sl m
    by (rule frozen_conf) (simp add: handle_evicted_slot_def)
  then show ?case
    by (simp add: dispatch_turn_def dispatch_popped_def split: prod.split sum.split option.split)
next
  case (m_exit m rid h)
  have "conf (driver_exit rid h m) = conf (if r_torn_down (res m rid) then abandon h m else clean_up rid h m)"
    unfolding driver_exit_def by (rule frozen_conf) simp
  also have "\<dots> = conf m" using frozen_conf [of "clean_up rid h m" m] by simp
  finally show ?case .
qed (auto intro: frozen_conf simp: proc_exits_def)

lemma reach_static: "mreach m m' \<Longrightarrow> m_cap m' = m_cap m \<and> m_port_base m' = m_port_base m"
proof -
  have "mreach m m' \<Longrightarrow> conf m' = conf m" by (induction rule: mreach.induct) (simp_all add: step_conf)
  then show "mreach m m' \<Longrightarrow> m_cap m' = m_cap m \<and> m_port_base m' = m_port_base m" by (simp add: conf_def)
qed

subsection \<open>Residents\<close>



subsection \<open>Requests\<close>

text \<open>
  C4: conservation. Whatever the interleaving of the dispatcher, the drivers and the detached
  tasks, every request the queue accepted is in exactly one place: pending in the queue, in the
  inbox, in flight or in the hand of one resident, carried by one task, finished, or lost.
\<close>

theorem registry_conserves_requests:
  assumes "mreach (init_mgr q cap port_base idle_default) m" and "queue_inv q" and "distinct (pending q)"
  shows "mset (pending (m_queue m)) + sum_list (map res_ids (m_heap m)) + sum_list (map task_ids (m_tasks m)) +
           mset (map sl_id (m_done m)) + mset (map sl_id (m_lost m)) = mset (m_accepted m) \<and>
         distinct (m_accepted m)"
proof -
  have "books (init_mgr q cap port_base idle_default)"
    using assms(2,3) by (simp add: books_def wf_def ids_def init_mgr_def blank_resident_def res_ids_def hand_def
        phase_ok_def list_all_iff)
  from reach_books [OF assms(1) this] show ?thesis by (simp add: books_def ids_def)
qed

lemma crowded_run_state:
  "map_option (\<lambda>m. (model_residents m, m_accepted m, pending (m_queue m), m_tasks m)) (fires crowded_run two_places) =
     Some ([2, 3], [''slot-1'', ''slot-2'', ''slot-3''], [], [EvictTeardown 1])"
  by code_simp

theorem registry_conserves_requests_witness:
  "\<exists>m. fires crowded_run two_places = Some m \<and> pending (m_queue m) = [] \<and>
     sum_list (map res_ids (m_heap m)) + sum_list (map task_ids (m_tasks m)) +
     mset (map sl_id (m_done m)) + mset (map sl_id (m_lost m)) = {#''slot-1'', ''slot-2'', ''slot-3''#}"
proof -
  obtain m where m: "fires crowded_run two_places = Some m"
    and s: "pending (m_queue m) = []" "m_accepted m = [''slot-1'', ''slot-2'', ''slot-3'']"
    using crowded_run_state by (auto simp: map_option_eq_Some)
  have q: "queue_inv (new_queue 4 4 3 20)" "distinct (pending (new_queue 4 4 3 20))"
    by (simp_all add: queue_inv_def new_queue_def pending_def)
  from registry_conserves_requests [OF run_reach [OF m] q] s
  show ?thesis by (intro exI [of _ m] conjI m) simp_all
qed

lemma route_no_inbox:
  assumes "safe m" and "live_resident_for m tag = Some rid" and "r_inbox (res m rid) = None"
  shows "tag = SINGLETON"
proof (rule ccontr)
  assume t: "tag \<noteq> SINGLETON"
  from assms(2) have "(tag, rid) \<in> set (m_dict m)"
    by (auto simp: live_resident_for_def dest: map_of_SomeD split: option.splits if_splits)
  from safe_entry [OF assms(1) this t] assms(3) show False by (simp add: entry_def)
qed

text \<open>
  The only ways to lose a request. A step of a reachable registry that drops a request
  without resolving it either routes one that names the internal singleton entry as its model,
  or ends a driver that still holds a request while someone else has torn its resident down.
\<close>

theorem losses_are_races:
  assumes "mreach (init_mgr q cap port_base idle_default) m" and "cap \<le> 99"
    and "mstep m m'" and "m_lost m' \<noteq> m_lost m"
  shows "\<exists>sl. m_lost m' = m_lost m @ [sl] \<and>
    (sl_model_tag sl = SINGLETON \<or>
     \<not> settled sl \<and> (\<exists>rid. at_phase m rid (Exiting (Some sl)) \<and> r_torn_down (res m rid)))"
proof -
  have "safe m" using reach_safe [OF assms(1) init_safe [OF assms(2)]] .
  with assms(3,4) show ?thesis
  proof (induction rule: mstep.induct)
    case (m_dispatch m now foot vals)
    have ev: "m_lost (handle_evicted_slot sl m) = m_lost m" for sl m
      by (rule frozen_lost) (simp add: handle_evicted_slot_def)
    obtain sl q where p: "pop_next (m_queue m) now (dispatch_warm_hint m) = (Inr (Some sl), q)"
      and r: "dispatch_turn now foot vals m = route_or_reserve now foot vals sl (m\<lparr>m_queue := q\<rparr>)"
      using m_dispatch by (auto simp: dispatch_turn_def dispatch_popped_def ev split: prod.splits sum.splits
          option.splits if_splits)
    let ?m = "m\<lparr>m_queue := q\<rparr>"
    have "m_lost (route_or_reserve now foot vals sl ?m) \<noteq> m_lost ?m" using m_dispatch r by simp
    from route_loses [OF this] obtain rid where l: "live_resident_for ?m (sl_model_tag sl) = Some rid"
      "r_inbox (res ?m rid) = None" "m_lost (route_or_reserve now foot vals sl ?m) = m_lost m @ [sl]" by auto
    have "safe ?m" using m_dispatch by simp
    from route_no_inbox [OF this l(1,2)] l(3) r show ?case by auto
  next
    case (m_exit m rid h)
    have f: "m_lost (driver_exit rid h m) = m_lost (if r_torn_down (res m rid) then abandon h m else clean_up rid h m)"
      unfolding driver_exit_def by (rule frozen_lost) simp
    have c: "m_lost (clean_up rid h m) = m_lost m" by (rule frozen_lost) simp
    have td: "r_torn_down (res m rid)" using m_exit f c by (auto split: if_splits)
    then have "m_lost (abandon h m) \<noteq> m_lost m" using m_exit f by simp
    then obtain sl where "h = Some sl" "\<not> settled sl" "m_lost (abandon h m) = m_lost m @ [sl]"
      by (auto simp: abandon_def finish_def split: option.splits if_splits)
    with m_exit td f show ?case by auto
  qed (simp_all add: proc_exits_def lost_frozen)
qed

text \<open>A driver that has just taken a request when its resident is evicted.\<close>

definition race_run :: "event list" where
  "race_run =
     butlast warm_run @
     [Submit (request ''2'' ''a''), Dispatch 2 (small_model 0) None, Park 1 None 3, Wake 1,
      Submit (request ''3'' ''b''), Dispatch 4 (small_model 1) (Some [30, 40]),
      Submit (request ''4'' ''c''), Dispatch 5 (small_model 0) (Some [30, 40]), Task 0, Serve 1 6]"

lemma race_run_state:
  "map_option (\<lambda>m. (map sl_id (m_lost m), m_stop m)) (fires race_run two_places) = Some ([], False)"
  "map_option (\<lambda>m. map (\<lambda>sl. (sl_id sl, sl_model_tag sl, settled sl)) (m_lost m))
     (fires (race_run @ [Exit 1]) two_places) = Some [(''slot-2'', ''a'', False)]"
  by code_simp+

lemma fires_append: "fires (es @ [e]) m = Option.bind (fires es m) (fire e)"
  by (induction es arbitrary: m) (auto split: option.split)

theorem losses_are_races_witness:
  "\<exists>m sl. fires race_run two_places = Some m \<and> sl_id sl = ''slot-2'' \<and>
     (\<exists>rid. at_phase m rid (Exiting (Some sl)) \<and> r_torn_down (res m rid))"
proof -
  obtain m where m: "fires race_run two_places = Some m" and l0: "m_lost m = []"
    using race_run_state(1) by (auto simp: map_option_eq_Some)
  obtain m' where m': "fires (race_run @ [Exit 1]) two_places = Some m'"
    and l1: "map (\<lambda>sl. (sl_id sl, sl_model_tag sl, settled sl)) (m_lost m') = [(''slot-2'', ''a'', False)]"
    using race_run_state(2) by (auto simp: map_option_eq_Some)
  have c: "(2::nat) \<le> 99" by simp
  have "fire (Exit 1) m = Some m'" using m m' by (simp only: fires_append bind.simps)
  then have "mstep m m'" by (rule fire_step)
  moreover have "m_lost m' \<noteq> m_lost m" using l0 l1 by auto
  ultimately obtain sl where sl: "m_lost m' = m_lost m @ [sl]" "sl_model_tag sl = SINGLETON \<or>
      \<not> settled sl \<and> (\<exists>rid. at_phase m rid (Exiting (Some sl)) \<and> r_torn_down (res m rid))"
    using losses_are_races [OF run_reach [OF m] c] by blast
  then have "sl_id sl = ''slot-2''" "sl_model_tag sl = ''a''" using l0 l1 by simp_all
  with sl(2) m show ?thesis by (intro exI [of _ m] exI [of _ sl]) (simp add: SINGLETON_def)
qed

text \<open>
  The race is real in the model's schedule (the one in which the wake-up of a parked driver
  and its next critical section are two steps, as on Python 3.11): a request routed to a warm
  resident while it parks is taken by the driver, the resident is still marked evictable, the
  dispatcher evicts it for another model, and the request is dropped unresolved.
\<close>

theorem routed_request_can_be_lost:
  "\<exists>m. mreach two_places m \<and> \<not> m_stop m \<and>
     (\<exists>sl \<in> set (m_lost m). sl_model_tag sl \<noteq> SINGLETON \<and> \<not> settled sl)"
proof -
  have "map_option (\<lambda>m. (m_stop m, list_ex (\<lambda>sl. sl_model_tag sl \<noteq> SINGLETON \<and> \<not> settled sl) (m_lost m)))
      (fires (race_run @ [Exit 1]) two_places) = Some (False, True)" by code_simp
  then obtain m where "fires (race_run @ [Exit 1]) two_places = Some m" "\<not> m_stop m"
    "list_ex (\<lambda>sl. sl_model_tag sl \<noteq> SINGLETON \<and> \<not> settled sl) (m_lost m)"
    by (auto simp: map_option_eq_Some)
  with fires_reach show ?thesis by (auto simp: list_ex_iff)
qed

text \<open>
  A batch of requests drained from an inbox re-enters an open queue in reverse: each is
  inserted at the head, so the last of them is served first.
\<close>

theorem requeued_batch_is_reversed:
  assumes "\<not> closed (m_queue m)" and "\<forall>sl \<in> set ss. sl_state sl = STAGED"
  shows "staging (m_queue (requeue_batch ss m)) = rev ss @ staging (m_queue m)"
proof -
  have "staging (m_queue (requeue_batch ss m)) = rev ss @ staging (m_queue m) \<and>
      \<not> closed (m_queue (requeue_batch ss m))"
    using assms
  proof (induction ss arbitrary: m)
    case (Cons sl ss)
    let ?m = "m\<lparr>m_queue := (m_queue m)\<lparr>staging := sl # staging (m_queue m)\<rparr>\<rparr>"
    have "requeue_slot sl m = ?m" using Cons.prems by (simp add: requeue_slot_def enqueue_head_def)
    moreover have "staging (m_queue (requeue_batch ss ?m)) = rev ss @ staging (m_queue ?m) \<and>
        \<not> closed (m_queue (requeue_batch ss ?m))"
      using Cons.prems by (intro Cons.IH) simp_all
    ultimately show ?case by simp
  qed simp
  then show ?thesis ..
qed

theorem requeued_batch_is_reversed_witness:
  "map sl_id (staging (m_queue (requeue_batch
     (map (\<lambda>i. (request i ''a'')\<lparr>sl_state := STAGED\<rparr>) [''1'', ''2'', ''3'']) two_places))) =
   [''slot-3'', ''slot-2'', ''slot-1'']"
proof -
  let ?ss = "map (\<lambda>i. (request i ''a'')\<lparr>sl_state := STAGED\<rparr>) [''1'', ''2'', ''3'']"
  have "\<not> closed (m_queue two_places)" "\<forall>sl \<in> set ?ss. sl_state sl = STAGED"
    by (simp_all add: two_places_def init_mgr_def new_queue_def)
  from requeued_batch_is_reversed [OF this]
  have "staging (m_queue (requeue_batch ?ss two_places)) = rev ?ss @ staging (m_queue two_places)" .
  then show ?thesis by (simp add: two_places_def init_mgr_def new_queue_def request_def new_slot_def)
qed

subsection \<open>Processes\<close>


lemma crowded_run_procs:
  "map_option (\<lambda>m. (m_procs m, m_tasks m, m_stop m, map r_handle (m_heap m)))
     (fires (crowded_run @ [Task 0]) two_places) = Some ([(7, 8000)], [ReapPid 7], False, [None, None, None, None])"
  by code_simp


text \<open>
  A port is handed out while its last owner is still alive. Evicting a resident to make room
  frees its port at once, but its process ends only when the teardown has run, so the resident
  that takes the place can be spawned on a port another live sidecar listens on.
\<close>

theorem evicted_port_is_reused_alive:
  "\<exists>m. mreach two_places m \<and> (\<exists>pid pid' port. pid \<noteq> pid' \<and> (pid, port) \<in> set (m_procs m) \<and>
     (pid', port) \<in> set (m_procs m))"
proof -
  have "map_option m_procs (fires (crowded_run @ [TakeFirst 3, Spawn 3 8]) two_places) = Some [(7, 8000), (8, 8000)]"
    by code_simp
  then obtain m where "fires (crowded_run @ [TakeFirst 3, Spawn 3 8]) two_places = Some m"
    and p: "m_procs m = [(7, 8000), (8, 8000)]" by (auto simp: map_option_eq_Some)
  from fires_reach [OF this(1)] p show ?thesis
    by (intro exI [of _ m] conjI exI [of _ 7] exI [of _ 8] exI [of _ 8000]) simp_all
qed

text \<open>
  A request that names the internal singleton entry as its model is accepted and dropped:
  the dispatcher finds the entry, which has no inbox.
\<close>

theorem singleton_tag_is_dropped:
  "\<exists>m sl. mreach two_places m \<and> sl_model_tag sl = SINGLETON \<and> sl \<in> set (m_lost m) \<and> \<not> settled sl"
proof -
  let ?es = "[Submit (request ''1'' SINGLETON), Dispatch 1 (small_model 0) None]"
  have "map_option (\<lambda>m. list_ex (\<lambda>sl. sl_model_tag sl = SINGLETON \<and> \<not> settled sl) (m_lost m)) (fires ?es two_places) = Some True"
    by code_simp
  then obtain m where m: "fires ?es two_places = Some m"
    and l: "list_ex (\<lambda>sl. sl_model_tag sl = SINGLETON \<and> \<not> settled sl) (m_lost m)"
    unfolding map_option_eq_Some by blast
  from fires_reach [OF m] l show ?thesis by (auto simp: list_ex_iff)
qed

end
