(* ===== verification/Subprocess.thy ===== *)
theory Subprocess
  imports Manifests StateDb
begin

text \<open>
  \<open>subprocess_mgr.py\<close>: the command line of a sidecar and the width read back from it, the
  health poll, the drained SIGTERM with its escalation, and the check that VRAM was given
  back. What the HTTP client, the kernel and the GPU tools answer are inputs: a poll is the
  list of its answers, one per round, with the clock reading of the round.
\<close>

subsection \<open>Spawning\<close>

record handle =
  h_pid :: int
  h_port :: int
  h_tag :: string
  h_parallel :: int

definition sidecar_cmd :: "string \<Rightarrow> int option \<Rightarrow> string \<Rightarrow> int \<Rightarrow> string list \<Rightarrow> string list" where
  "sidecar_cmd binary fd gguf port argv =
     [case fd of None \<Rightarrow> binary | Some n \<Rightarrow> ''/proc/self/fd/'' @ show_int n,
      ''--port'', show_int port, ''--host'', ''127.0.0.1'', ''-m'', gguf] @ argv"

text \<open>The first \<open>--parallel\<close> that has a successor decides.\<close>

fun parallel_of :: "string list \<Rightarrow> int" where
  "parallel_of (tok # v # rest) =
     (if tok = ''--parallel'' then (case py_int v of Some n \<Rightarrow> max 1 n | None \<Rightarrow> 1)
      else parallel_of (v # rest))"
| "parallel_of _ = 1"

definition spawn_sidecar :: "int \<Rightarrow> int \<Rightarrow> string \<Rightarrow> string list \<Rightarrow> handle" where
  "spawn_sidecar pid port tag argv =
     \<lparr>h_pid = pid, h_port = port, h_tag = tag, h_parallel = parallel_of argv\<rparr>"

subsection \<open>Health\<close>

text \<open>A probe fails to connect or answers with a status code and a body, parsed if it is JSON.\<close>

datatype probe = ConnectError | Response nat "pyval option"

datatype health_error = SchemaMismatch | StatusNotText

definition health_check_once :: "probe \<Rightarrow> health_error + (string \<times> pyval) list option" where
  "health_check_once p =
     (case p of
        ConnectError \<Rightarrow> Inr None
      | Response sc body \<Rightarrow>
          if sc \<noteq> 200 then Inr None
          else (case body of
                  None \<Rightarrow> Inr None
                | Some (PyDict d) \<Rightarrow> if dict_get d ''status'' = None then Inl SchemaMismatch else Inr (Some d)
                | Some _ \<Rightarrow> Inl SchemaMismatch))"

definition HEALTH_OK_STATUSES :: "string list" where
  "HEALTH_OK_STATUSES = [''ok'', ''ready'', ''healthy'', ''loaded'']"

text \<open>\<open>(data.get("status") or "").lower()\<close>: only text has \<open>lower\<close>.\<close>

definition status_ok :: "(string \<times> pyval) list \<Rightarrow> health_error + bool" where
  "status_ok d =
     (case dict_get d ''status'' of
        Some (PyStr s) \<Rightarrow> Inr (lower s \<in> set HEALTH_OK_STATUSES)
      | Some v \<Rightarrow> if truthy v then Inl StatusNotText else Inr False
      | None \<Rightarrow> Inr False)"

definition healthy_probe :: "probe \<Rightarrow> health_error + bool" where
  "healthy_probe p =
     rbind (health_check_once p) (\<lambda>d. case d of None \<Rightarrow> Inr False | Some d \<Rightarrow> status_ok d)"

text \<open>
  One round per list element: the clock, the probe's answer, and whether the child is alive.
  \<open>None\<close> when the poll is still going at the end of the list.
\<close>

fun wait_until_healthy :: "time \<Rightarrow> (time \<times> probe \<times> bool) list \<Rightarrow> (health_error + bool) option" where
  "wait_until_healthy deadline [] = None"
| "wait_until_healthy deadline ((now, p, alive) # rounds) =
     (if deadline \<le> now then Some (Inr False)
      else case healthy_probe p of
        Inl e \<Rightarrow> Some (Inl e)
      | Inr True \<Rightarrow> Some (Inr True)
      | Inr False \<Rightarrow> if \<not> alive then Some (Inr False) else wait_until_healthy deadline rounds)"

subsection \<open>Termination of a sidecar\<close>

text \<open>
  What \<open>drained_sigterm\<close> meets: whether the group exists, the two signals, the rounds of the
  wait (clock, exited), whether the child is gone after the final settle, and whether the
  last \<open>wait\<close> times out.
\<close>

record exit_story =
  x_group :: bool
  x_term :: kill_outcome
  x_rounds :: "(time \<times> bool) list"
  x_kill :: kill_outcome
  x_gone :: bool
  x_wait_times_out :: bool

datatype sigterm_status =
    AlreadyGone | GoneDuringSigterm | SigtermDenied | SigtermClean
  | SigkillAlreadyGone | SigkillDenied | StillAlive | WaitTimeout | SigkillClean

fun exits_by :: "time \<Rightarrow> (time \<times> bool) list \<Rightarrow> bool option" where
  "exits_by deadline [] = None"
| "exits_by deadline ((now, exited) # rounds) =
     (if deadline \<le> now then Some False
      else if exited then Some True else exits_by deadline rounds)"

definition after_sigkill :: "exit_story \<Rightarrow> bool \<times> sigterm_status" where
  "after_sigkill x =
     (case x_kill x of
        NoSuchProcess \<Rightarrow> (True, SigkillAlreadyGone)
      | NotPermitted \<Rightarrow> (False, SigkillDenied)
      | Delivered \<Rightarrow>
          if \<not> x_gone x then (False, StillAlive)
          else if x_wait_times_out x then (False, WaitTimeout)
          else (True, SigkillClean))"

definition drained_sigterm ::
  "time \<Rightarrow> time \<Rightarrow> time \<Rightarrow> bool \<Rightarrow> exit_story \<Rightarrow> (bool \<times> sigterm_status) option" where
  "drained_sigterm start drained_window cold_window is_active x =
     (let deadline = start + (if is_active then drained_window else cold_window) in
      if \<not> x_group x then Some (True, AlreadyGone)
      else case x_term x of
        NoSuchProcess \<Rightarrow> Some (True, GoneDuringSigterm)
      | NotPermitted \<Rightarrow> Some (False, SigtermDenied)
      | Delivered \<Rightarrow>
          map_option (\<lambda>exited. if exited then (True, SigtermClean) else after_sigkill x)
            (exits_by deadline (x_rounds x)))"

text \<open>
  \<open>get_gpu_memory_used_mib\<close>: the first line of the tool's output, up to its first comma;
  \<open>None\<close> when the tool is missing or fails.
\<close>

definition get_gpu_memory_used_mib :: "string option \<Rightarrow> int option" where
  "get_gpu_memory_used_mib out =
     (case out of
        None \<Rightarrow> None
      | Some out \<Rightarrow>
          let line = (if strip out = [] then [] else hd (split_lines (strip out))) in
          if line = [] then None else py_int (strip (hd (split_on CHR '','' (strip line)))))"

text \<open>\<open>verify_vram_cleared\<close>: the first reading, then one per round with the clock.\<close>

definition vram_target :: "int \<Rightarrow> int \<Rightarrow> int" where
  "vram_target initial expected_drop = max 0 (initial - \<lfloor>of_int expected_drop * (9 / 10 :: rat)\<rfloor>)"

fun vram_rounds ::
  "int \<Rightarrow> time \<Rightarrow> (time \<times> int option) list \<Rightarrow> int option \<Rightarrow> (bool \<times> int option) option" where
  "vram_rounds target deadline [] final = None"
| "vram_rounds target deadline ((now, used) # rounds) final =
     (if deadline \<le> now then Some (False, final)
      else case used of
        None \<Rightarrow> Some (True, None)
      | Some u \<Rightarrow> if u \<le> target then Some (True, Some u) else vram_rounds target deadline rounds final)"

definition verify_vram_cleared ::
  "int \<Rightarrow> int option \<Rightarrow> time \<Rightarrow> (time \<times> int option) list \<Rightarrow> int option \<Rightarrow>
     (bool \<times> int option) option" where
  "verify_vram_cleared expected_drop first deadline rounds final =
     (case first of
        None \<Rightarrow> Some (True, None)
      | Some initial \<Rightarrow> vram_rounds (vram_target initial expected_drop) deadline rounds final)"

text \<open>\<open>_compute_expected_drop_mib\<close>, on the manifest's figure if it could be read.\<close>

definition compute_expected_drop_mib :: "int option \<Rightarrow> int" where
  "compute_expected_drop_mib expected =
     (case expected of None \<Rightarrow> 2048 | Some bytes \<Rightarrow> max 2048 (bytes div (1024 * 1024)))"

subsection \<open>Integrity of the binary\<close>

text \<open>
  A file at the path, if any, by its content; \<open>sha256\<close> is the hexadecimal digest. The pinned
  descriptor stands for the content that was hashed.
\<close>

definition verify_binary_sha256 :: "('c \<Rightarrow> string) \<Rightarrow> 'c option \<Rightarrow> string \<Rightarrow> bool" where
  "verify_binary_sha256 sha256 file expected =
     (expected = [] \<or> (case file of None \<Rightarrow> False | Some c \<Rightarrow> sha256 c = expected))"

definition open_and_verify_binary :: "('c \<Rightarrow> string) \<Rightarrow> 'c option \<Rightarrow> string \<Rightarrow> 'c option" where
  "open_and_verify_binary sha256 file expected =
     (if expected = [] then None
      else case file of None \<Rightarrow> None | Some c \<Rightarrow> if sha256 c = expected then Some c else None)"

text \<open>\<open>verify_binary\<close>: the file as it is at the check and as it is at the pinning.\<close>

definition verify_binary :: "('c \<Rightarrow> string) \<Rightarrow> string \<Rightarrow> 'c option \<Rightarrow> 'c option \<Rightarrow> bool \<times> 'c option" where
  "verify_binary sha256 expected at_check at_pin =
     (if \<not> verify_binary_sha256 sha256 at_check expected then (False, None)
      else if expected = [] then (True, None)
      else case open_and_verify_binary sha256 at_pin expected of
        None \<Rightarrow> (False, None)
      | Some fd \<Rightarrow> (True, Some fd))"

subsection \<open>Properties\<close>

lemma parallel_of_skip: "''--parallel'' \<notin> set xs \<Longrightarrow> parallel_of (xs @ ys) = parallel_of ys"
proof (induction xs)
  case (Cons x xs)
  then show ?case by (cases "xs @ ys") auto
qed simp

lemma cli_key_inj:
  assumes "map_of SAFE_LLAMA_FLAGS k = Some t" and "map_of SAFE_LLAMA_FLAGS k' = Some t'"
    and "cli_key k = cli_key k'"
  shows "k = k'"
  using assms map_of_all [OF no_dash_in_keys(2) assms(1)] map_of_all [OF no_dash_in_keys(2) assms(2)]
  by (auto simp: cli_key_def intro: dashes_inj)

lemma parallel_key: "map_of SAFE_LLAMA_FLAGS ''parallel'' = Some TInt" "cli_key ''parallel'' = ''--parallel''"
  "map_of SAFE_LLAMA_FLAG_STRING_ENUMS ''parallel'' = None"
  by code_simp+

lemma parallel_value:
  assumes "validate_flag (''parallel'', v) = Inr ()"
  shows "\<exists>n. v = PyInt n"
proof -
  have "check_type ''parallel'' TInt v = Inr ()"
    using assms by (auto simp: validate_flag_ok parallel_key validate_flag_value_def)
  then show ?thesis by (cases v) (simp_all add: check_type_def)
qed

lemma no_parallel_token:
  assumes v: "validate_flag (k, v) = Inr ()" and f: "\<And>f. \<not> dashed (text_of (PyFloat f))"
    and k: "k \<noteq> ''parallel''" and t: "k = ''chat_template'' \<Longrightarrow> v \<noteq> PyStr ''--parallel''"
  shows "''--parallel'' \<notin> set (flag_argv text_of k v)"
proof
  assume p: "''--parallel'' \<in> set (flag_argv text_of k v)"
  from v obtain ty where ty: "map_of SAFE_LLAMA_FLAGS k = Some ty" by (auto simp: validate_flag_ok)
  have ne: "''--parallel'' \<noteq> cli_key k"
    using cli_key_inj [OF ty parallel_key(1)] k by (auto simp: parallel_key)
  have d: "dashed ''--parallel''" by (simp add: dashed_iff)
  with flag_values_undashed [OF v f _ p ne] have c: "k = ''chat_template''" by blast
  with v obtain s where "v = PyStr s"
    by (auto simp: validate_flag_ok validate_flag_value_def validate_chat_template_def split: pyval.splits)
  with c p t ne show False by (simp add: flag_argv_def)
qed

text \<open>
  C23: the width a sidecar is admitted at is the width its manifest asks for: reading
  \<open>--parallel\<close> back from the argument vector of accepted flags gives the \<open>parallel\<close> flag
  of the manifest, or 1. The one exception is a chat template that is literally
  \<open>--parallel\<close>, which the reader takes for the option. As before, \<open>str(float)\<close> is assumed
  never to start with two dashes.
\<close>

theorem spawn_width_is_manifest_parallel:
  assumes "flags_allowlist flags = Inr fs" and "distinct (map fst flags)"
    and "(''chat_template'', PyStr ''--parallel'') \<notin> set flags"
    and "\<And>f. \<not> dashed (text_of (PyFloat f))"
    and "flags_to_argv text_of fs = Inr argv"
  shows "h_parallel (spawn_sidecar pid port tag argv) =
           (case dict_get flags ''parallel'' of Some (PyInt n) \<Rightarrow> max 1 n | _ \<Rightarrow> 1)"
proof -
  from assms(1) have v: "fs = flags" "\<forall>kv \<in> set flags. validate_flag kv = Inr ()" by (auto simp: allowlist_ok)
  with assms(5) flags_to_argv_parts [OF v(2), of text_of]
  have a: "argv = concat (map (\<lambda>(k, v). flag_argv text_of k v) flags)" by simp
  have "parallel_of (concat (map (\<lambda>(k, v). flag_argv text_of k v) flags)) =
      (case map_of flags ''parallel'' of Some (PyInt n) \<Rightarrow> max 1 n | _ \<Rightarrow> 1)"
    using v(2) assms(2,3)
  proof (induction flags)
    case (Cons kv flags)
    obtain k w where kv: "kv = (k, w)" by (cases kv)
    from Cons.prems(1) kv have ok: "validate_flag (k, w) = Inr ()" by simp
    show ?case
    proof (cases "k = ''parallel''")
      case True
      with ok obtain n where w: "w = PyInt n" using parallel_value by blast
      then have "flag_argv text_of k w = [''--parallel'', show_int n]"
        using True parallel_key(2) by (simp add: flag_argv_def)
      with True kv w show ?thesis by (simp add: py_int_show_int)
    next
      case False
      have "''--parallel'' \<notin> set (flag_argv text_of k w)"
        by (rule no_parallel_token [OF ok]) (use assms(4) False Cons.prems(3) kv in auto)
      with False kv Cons show ?thesis by (simp add: parallel_of_skip)
    qed
  qed simp
  with a show ?thesis by (simp add: spawn_sidecar_def dict_get_def)
qed

theorem spawn_width_is_manifest_parallel_witness:
  "\<exists>argv. flags_to_argv example_text_of example_flags = Inr argv \<and>
          h_parallel (spawn_sidecar 7 11500 ''m'' argv) = 2"
proof -
  obtain argv where a: "flags_to_argv example_text_of example_flags = Inr argv"
    using flags_to_argv_parts example_flags_accepted by (auto simp: allowlist_ok)
  have "distinct (map fst example_flags)" "(''chat_template'', PyStr ''--parallel'') \<notin> set example_flags"
    by (simp_all add: example_flags_def)
  from spawn_width_is_manifest_parallel [OF example_flags_accepted this example_text_undashed a, of 7 11500 "''m''"] a
  show ?thesis by (simp add: example_flags_def dict_get_def)
qed

subsection \<open>The polls end, and when\<close>

text \<open>
  Each poll sleeps its interval between two rounds, so the clock readings are at least that
  far apart. \<open>cut\<close> is the part of a poll before its deadline.
\<close>

fun spaced :: "time \<Rightarrow> time \<Rightarrow> (time \<times> 'a) list \<Rightarrow> bool" where
  "spaced interval now [] = True"
| "spaced interval now ((t, _) # rounds) = (now \<le> t \<and> spaced interval (t + interval) rounds)"

definition cut :: "time \<Rightarrow> (time \<times> 'a) list \<Rightarrow> (time \<times> 'a) list" where
  "cut deadline rounds = takeWhile (\<lambda>(t, _). t < deadline) rounds"

lemma cut_simps [simp]:
  "cut deadline [] = []"
  "cut deadline ((t, y) # rounds) = (if t < deadline then (t, y) # cut deadline rounds else [])"
  by (simp_all add: cut_def)

lemma cut_spaced:
  "spaced interval now rounds \<Longrightarrow> 0 < interval \<Longrightarrow>
     cut deadline rounds = rounds \<Longrightarrow> rounds \<noteq> [] \<Longrightarrow>
     now + interval * of_nat (length rounds - 1) < deadline"
proof (induction interval now rounds rule: spaced.induct)
  case (2 interval now t y rounds)
  show ?case
  proof (cases rounds)
    case Nil
    with 2 show ?thesis by (auto split: if_splits)
  next
    case (Cons a rest)
    with 2 have "t + interval + interval * of_nat (length rounds - 1) < deadline" "now \<le> t"
      by (auto split: if_splits)
    with Cons show ?thesis by (simp add: algebra_simps)
  qed
qed simp

lemma reaches_deadline:
  assumes "spaced interval start rounds" and "0 < interval"
    and "limit \<le> interval * of_nat (length rounds - 1)" and "rounds \<noteq> []"
  shows "cut (start + limit) rounds \<noteq> rounds"
  using cut_spaced [OF assms(1,2) _ assms(4), of "start + limit"] assms(3) by auto

lemma poll_cut [simp]:
  "cut deadline rounds \<noteq> rounds \<Longrightarrow> wait_until_healthy deadline rounds \<noteq> None"
  "cut deadline exits \<noteq> exits \<Longrightarrow> exits_by deadline exits \<noteq> None"
  "cut deadline reads \<noteq> reads \<Longrightarrow> vram_rounds target deadline reads final \<noteq> None"
proof -
  show "cut deadline rounds \<noteq> rounds \<Longrightarrow> wait_until_healthy deadline rounds \<noteq> None"
    by (induction deadline rounds rule: wait_until_healthy.induct) (auto split: sum.splits bool.splits)
  show "cut deadline exits \<noteq> exits \<Longrightarrow> exits_by deadline exits \<noteq> None"
    by (induction deadline exits rule: exits_by.induct) auto
  show "cut deadline reads \<noteq> reads \<Longrightarrow> vram_rounds target deadline reads final \<noteq> None"
    by (induction target deadline reads final rule: vram_rounds.induct) (auto split: option.splits)
qed

text \<open>
  C24: the three waits of the supervisor end, whatever the sidecar, the kernel and the GPU
  tools answer: a wait of \<open>limit\<close> seconds that sleeps \<open>interval\<close> seconds between its rounds
  has returned after at most \<open>limit / interval + 1\<close> rounds.
\<close>

theorem waits_terminate:
  assumes "0 < interval" and "limit \<le> interval * of_nat (n - 1)" and "0 < n"
    and "spaced interval start rounds" and "n \<le> length rounds"
    and "spaced interval start (x_rounds x)" and "n \<le> length (x_rounds x)"
    and "spaced interval start reads" and "n \<le> length reads"
  shows "wait_until_healthy (start + limit) rounds \<noteq> None \<and>
         drained_sigterm start limit limit is_active x \<noteq> None \<and>
         verify_vram_cleared drop_mib first (start + limit) reads final \<noteq> None"
proof -
  have cut: "cut (start + limit) ys \<noteq> ys"
    if "spaced interval start ys" "n \<le> length ys" for ys :: "(time \<times> 'a) list"
  proof (rule reaches_deadline [OF that(1) assms(1)])
    have "interval * of_nat (n - 1) \<le> interval * of_nat (length ys - 1)"
      using assms(1) that(2) by (intro mult_left_mono) auto
    with assms(2) show "limit \<le> interval * of_nat (length ys - 1)" by linarith
    show "ys \<noteq> []" using that(2) assms(3) by auto
  qed
  have "exits_by (start + limit) (x_rounds x) \<noteq> None"
    by (rule poll_cut(2) [OF cut [OF assms(6,7)]])
  then have "drained_sigterm start limit limit is_active x \<noteq> None"
    by (simp add: drained_sigterm_def split: kill_outcome.splits del: not_None_eq)
  moreover have "verify_vram_cleared drop_mib first (start + limit) reads final \<noteq> None"
    using poll_cut(3) [OF cut [OF assms(8,9)]]
    by (simp add: verify_vram_cleared_def split: option.splits del: not_None_eq)
  ultimately show ?thesis using poll_cut(1) [OF cut [OF assms(4,5)]] by blast
qed

theorem waits_terminate_witness:
  "wait_until_healthy (0 + 4) [(0, ConnectError, True), (2, Response 503 None, True), (4, ConnectError, True)] \<noteq> None \<and>
   drained_sigterm 0 4 4 False (exit_story.make True Delivered [(0, False), (2, False), (4, False)] Delivered True False)
     \<noteq> None \<and>
   verify_vram_cleared 2048 (Some 9000) (0 + 4) [(0, Some 9000), (2, Some 9000), (4, Some 9000)] None \<noteq> None"
  by (rule waits_terminate [where interval = 2 and n = 3]) (simp_all add: exit_story.make_def)

text \<open>What a poll answers when its deadline is never met again: the rounds before it all failed.\<close>

lemma exits_by_iff:
  "exits_by deadline rounds = Some b \<longleftrightarrow>
     (\<exists>pre t e post. rounds = pre @ (t, e) # post \<and> (\<forall>(t, e) \<in> set pre. t < deadline \<and> \<not> e) \<and>
        (if b then t < deadline \<and> e else deadline \<le> t))"
proof (induction deadline rounds rule: exits_by.induct)
  case (2 deadline now exited rounds)
  have split: "(\<exists>pre t e post. (now, exited) # rounds = pre @ (t, e) # post \<and> P pre t e) \<longleftrightarrow>
      P [] now exited \<or> (\<exists>pre t e post. rounds = pre @ (t, e) # post \<and> P ((now, exited) # pre) t e)"
    for P by (auto simp: Cons_eq_append_conv) blast+
  show ?case
    unfolding split using 2 by (cases b) (auto simp: not_le)
qed simp

lemma ready_exact:
  "wait_until_healthy deadline rounds = Some (Inr True) \<longleftrightarrow>
     (\<exists>pre t p a post. rounds = pre @ (t, p, a) # post \<and> t < deadline \<and> healthy_probe p = Inr True \<and>
        (\<forall>(t, p, a) \<in> set pre. t < deadline \<and> a \<and> healthy_probe p = Inr False))"
proof (induction deadline rounds rule: wait_until_healthy.induct)
  case (2 deadline now p alive rounds)
  have split: "(\<exists>pre t q a post. (now, p, alive) # rounds = pre @ (t, q, a) # post \<and> P pre t q a) \<longleftrightarrow>
      P [] now p alive \<or> (\<exists>pre t q a post. rounds = pre @ (t, q, a) # post \<and> P ((now, p, alive) # pre) t q a)"
    for P by (auto simp: Cons_eq_append_conv) blast+
  show ?case
    unfolding split using 2 by (auto simp: not_le split: sum.splits bool.splits)
qed simp

text \<open>
  \<open>SIGKILL\<close> is the last resort and a success report is earned: a status of the
  escalation is returned only when the group got its \<open>SIGTERM\<close> and was seen alive in every
  round until the window had passed, and \<open>drained_sigterm\<close> reports success only when the
  group was found missing, or the child was seen to have exited.
\<close>

theorem sigkill_after_window:
  assumes "drained_sigterm start drained_window cold_window is_active x = Some (ok, st)"
  shows "(st \<in> {SigkillAlreadyGone, SigkillDenied, StillAlive, WaitTimeout, SigkillClean} \<longleftrightarrow>
            x_group x \<and> x_term x = Delivered \<and>
            (\<exists>pre t e post. x_rounds x = pre @ (t, e) # post \<and>
               start + (if is_active then drained_window else cold_window) \<le> t \<and>
               (\<forall>(t, e) \<in> set pre. t < start + (if is_active then drained_window else cold_window) \<and> \<not> e))) \<and>
         (ok \<longrightarrow> \<not> x_group x \<or> x_term x = NoSuchProcess \<or> (\<exists>t. (t, True) \<in> set (x_rounds x)) \<or>
            x_kill x = NoSuchProcess \<or> x_gone x \<and> \<not> x_wait_times_out x) \<and>
         (st \<in> {SigtermDenied, SigkillDenied, StillAlive, WaitTimeout} \<longleftrightarrow> \<not> ok)"
proof (cases "x_group x \<and> x_term x = Delivered")
  case False
  with assms show ?thesis by (auto simp: drained_sigterm_def split: kill_outcome.splits if_splits)
next
  case True
  define deadline where "deadline = start + (if is_active then drained_window else cold_window)"
  from assms True obtain b where b: "exits_by deadline (x_rounds x) = Some b"
    and st: "(ok, st) = (if b then (True, SigtermClean) else after_sigkill x)"
    by (auto simp: drained_sigterm_def deadline_def)
  have once: "exits_by deadline (x_rounds x) = Some False \<longleftrightarrow> \<not> b" using b by auto
  show ?thesis
    unfolding deadline_def [symmetric]
    using True st b once [unfolded exits_by_iff [of _ _ False]] exits_by_iff [of deadline "x_rounds x" True]
    by (cases b) (auto simp: after_sigkill_def split: kill_outcome.splits if_splits)
qed

definition stubborn :: exit_story where
  "stubborn = exit_story.make True Delivered [(0, False), (2, False), (5, False)] Delivered True False"

theorem sigkill_after_window_witness:
  "drained_sigterm 0 15 4 False stubborn = Some (True, SigkillClean) \<and>
   (\<exists>pre t e post. x_rounds stubborn = pre @ (t, e) # post \<and> 4 \<le> t)"
proof -
  have d: "drained_sigterm 0 15 4 False stubborn = Some (True, SigkillClean)"
    by (simp add: stubborn_def drained_sigterm_def after_sigkill_def exit_story.make_def)
  from sigkill_after_window [OF d] have "\<exists>pre t e post. x_rounds stubborn = pre @ (t, e) # post \<and> 4 \<le> t"
    by auto
  with d show ?thesis by blast
qed

subsection \<open>What the VRAM check measures\<close>

lemma vram_rounds_high:
  "target < u \<Longrightarrow> \<forall>(t, used) \<in> set rounds. \<exists>v. used = Some v \<and> u \<le> v \<Longrightarrow>
     vram_rounds target deadline rounds final \<in> {None, Some (False, final)}"
  by (induction target deadline rounds final rule: vram_rounds.induct) (auto split: option.splits)

text \<open>
  The check that VRAM was given back takes its reference reading itself, and the manager
  calls it when the sidecar is already gone. Once the memory has been freed before that first
  reading there is nothing left to drop: as long as anything still uses the card, the check
  never succeeds, whatever was freed; it waits out its timeout and reports failure.
\<close>

theorem freed_vram_is_reported_stuck:
  assumes "0 < u" and "2 \<le> expected_drop"
    and "\<forall>(t, used) \<in> set rounds. \<exists>v. used = Some v \<and> u \<le> v"
  shows "verify_vram_cleared expected_drop (Some u) deadline rounds final \<in> {None, Some (False, final)}"
proof -
  have "(1 :: rat) \<le> of_int expected_drop * (9 / 10)" using assms(2) by (simp add: field_simps)
  then have "1 \<le> \<lfloor>of_int expected_drop * (9 / 10 :: rat)\<rfloor>" by (simp add: le_floor_iff)
  with assms(1) have "vram_target u expected_drop < u" by (simp add: vram_target_def)
  from vram_rounds_high [OF this assms(3)] show ?thesis by (simp add: verify_vram_cleared_def)
qed

theorem freed_vram_is_reported_stuck_witness:
  "verify_vram_cleared (compute_expected_drop_mib (Some 20000000000)) (Some 400) 30
     [(0, Some 400), (15, Some 400), (30, Some 400)] (Some 400) = Some (False, Some 400)"
proof -
  have c: "2 \<le> compute_expected_drop_mib (Some 20000000000)" by (simp add: compute_expected_drop_mib_def)
  have "vram_target 400 (compute_expected_drop_mib (Some 20000000000)) = 0"
    by (simp add: vram_target_def compute_expected_drop_mib_def floor_divide_of_int_eq [symmetric] floor_eq_iff)
  then have "verify_vram_cleared (compute_expected_drop_mib (Some 20000000000)) (Some 400) 30
     [(0, Some 400), (15, Some 400), (30, Some 400)] (Some 400) \<noteq> None"
    by (simp add: verify_vram_cleared_def)
  with freed_vram_is_reported_stuck [of 400 "compute_expected_drop_mib (Some 20000000000)"
      "[(0, Some 400), (15, Some 400), (30, Some 400)]" 30 "Some 400"] c
  show ?thesis by simp
qed

end
