(* ===== verification/Worker.thy ===== *)
theory Worker
  imports Registry Subprocess
begin

text \<open>
  The single-slot half of \<open>manager.py\<close> (\<open>max_parallel_sidecars <= 1\<close>, the default):
  \<open>submit\<close>, the \<open>worker_loop\<close> that drives one request at a time through
  \<open>_process_slot\<close>, the concurrent fan-out on one sidecar, the grace loop with its warm
  follow-ups, the idle holder, and the teardown paths. The state is the manager's scalars and
  the point at which the worker task is suspended; one definition is the code between two
  suspension points. What the host does (manifest read, gates, health, completion, signals)
  is an argument.
\<close>

subsection \<open>State\<close>

text \<open>
  Where the worker is suspended, with the local variables that are live there: the slot in
  hand, its sidecar, the command line to spawn, the keep-alives collected so far, the
  deadline of the grace window, the matched follow-up. An exception on its way out of
  \<open>_process_slot\<close> is carried by \<open>WUnwinding\<close> and \<open>WRescuing\<close>.
\<close>

datatype wphase =
    WPolling
  | WOpening slot
  | WSwapping slot "string list" handle
  | WGating slot "string list"
  | WBooting slot handle
  | WWaking slot handle
  | WServing slot handle bool
  | WAdmitting slot handle "int option list"
  | WDraining slot handle
  | WServed slot handle
  | WGrace slot handle time
  | WPromoting slot slot handle time
  | WMatching slot slot handle time
  | WClosing slot string
  | WUnwinding slot "exn option"
  | WRescuing slot exn
  | WHalted

text \<open>
  \<open>w_inflight\<close> and \<open>w_anchor_in\<close> are the list \<open>_inflight\<close>, whose first entry is the
  anchor while it runs; \<open>w_stale\<close> counts entries an aborted admission left in it. \<open>w_bg\<close>
  counts idle-expiry tasks created and not yet started, \<open>w_reaping\<close> the idle holders being
  terminated. The rest is bookkeeping of what happened outside the manager's variables:
  \<open>w_procs\<close> the sidecars alive, \<open>w_stray\<close> those whose teardown failed, \<open>w_done\<close> the requests
  the worker is finished with, \<open>w_lost\<close> those it dropped with an unresolved future, and
  \<open>w_faults\<close> the exceptions and cancellations that hit it.
\<close>

record worker =
  w_queue :: tq
  w_phase :: wphase
  w_active :: "handle option"
  w_current :: "(string \<times> string) option"
  w_idle :: "(handle \<times> string) option"
  w_idle_expires :: "time option"
  w_keep_alive :: "int option"
  w_inflight :: "slot list"
  w_anchor_in :: bool
  w_stale :: nat
  w_grace :: grace_timer
  w_idle_timer :: idle_timer
  w_bg :: nat
  w_spawn_seq :: nat
  w_evictions :: nat
  w_stop :: bool
  w_port_base :: int
  w_grace_seconds :: time
  w_idle_default :: int
  w_reaping :: "handle list"
  w_stray :: "handle list"
  w_procs :: "handle list"
  w_pids :: "int list"
  w_done :: "slot list"
  w_lost :: "slot list"
  w_accepted :: "string list"
  w_faults :: nat

definition init_worker :: "tq \<Rightarrow> int \<Rightarrow> time \<Rightarrow> nat \<Rightarrow> int \<Rightarrow> worker" where
  "init_worker q port_base grace_s extensions idle_s =
     \<lparr>w_queue = q, w_phase = WPolling, w_active = None, w_current = None, w_idle = None,
      w_idle_expires = None, w_keep_alive = None, w_inflight = [], w_anchor_in = False, w_stale = 0,
      w_grace = new_grace grace_s extensions, w_idle_timer = new_idle (of_int idle_s), w_bg = 0,
      w_spawn_seq = 0, w_evictions = 0, w_stop = False, w_port_base = port_base,
      w_grace_seconds = grace_s, w_idle_default = idle_s, w_reaping = [], w_stray = [],
      w_procs = [], w_pids = [], w_done = [], w_lost = [], w_accepted = pending q, w_faults = 0\<rparr>"

definition goto :: "wphase \<Rightarrow> worker \<Rightarrow> worker" where
  "goto p w = w\<lparr>w_phase := p\<rparr>"

text \<open>A request leaves the worker: with its future resolved, or not.\<close>

definition retire :: "slot \<Rightarrow> worker \<Rightarrow> worker" where
  "retire sl w =
     (if settled sl then w\<lparr>w_done := w_done w @ [sl]\<rparr> else w\<lparr>w_lost := w_lost w @ [sl]\<rparr>)"

text \<open>A transition of the slot in hand; \<open>InvalidTransition\<close> leaves \<open>_process_slot\<close>.\<close>

definition hop :: "slot \<Rightarrow> slot_state \<Rightarrow> (slot \<Rightarrow> worker) \<Rightarrow> worker \<Rightarrow> worker" where
  "hop sl t k w =
     (case transition sl t of Inr sl' \<Rightarrow> k sl' | Inl e \<Rightarrow> goto (WUnwinding sl (Some e)) w)"

definition set_current :: "slot \<Rightarrow> worker \<Rightarrow> worker" where
  "set_current sl w = w\<lparr>w_current := Some (sl_id sl, sl_model_tag sl)\<rparr>"

subsection \<open>What a request asks for\<close>

definition wants_stream :: "slot \<Rightarrow> bool" where
  "wants_stream sl = (case dict_get (sl_client_meta sl) ''stream'' of Some v \<Rightarrow> truthy v | None \<Rightarrow> False)"

definition keep_alive_of :: "slot \<Rightarrow> int option" where
  "keep_alive_of sl = (case dict_get (sl_client_meta sl) ''keep_alive_s'' of Some (PyInt k) \<Rightarrow> Some k | _ \<Rightarrow> None)"

definition armed :: "slot \<Rightarrow> bool" where
  "armed sl \<longleftrightarrow> sl_stream_ready sl \<noteq> None \<and> sl_stream_done sl \<noteq> None"

definition is_streaming :: "slot \<Rightarrow> bool" where
  "is_streaming sl \<longleftrightarrow> wants_stream sl \<and> armed sl"

definition STREAMED :: pyval where
  "STREAMED = PyDict [(''_streamed'', PyBool True)]"

text \<open>Handing the sidecar to the route and setting its ready event.\<close>

definition hand_over :: "handle \<Rightarrow> slot \<Rightarrow> slot" where
  "hand_over h sl =
     sl\<lparr>sl_stream_handle := Some (h_pid h), sl_stream_ready := map_option (\<lambda>_. True) (sl_stream_ready sl)\<rparr>"

definition on_sidecar :: "handle \<Rightarrow> slot \<Rightarrow> slot" where
  "on_sidecar h sl = sl\<lparr>sl_port := Some (h_port h), sl_pid := Some (h_pid h)\<rparr>"

subsection \<open>Accepting a request\<close>

text \<open>The slot \<open>submit\<close> builds, and the two ways into the queue.\<close>

definition make_request ::
  "(string \<Rightarrow> string) \<Rightarrow> string \<Rightarrow> time \<Rightarrow> string \<Rightarrow> string \<Rightarrow> string \<Rightarrow> (string \<times> pyval) list \<Rightarrow>
     bool \<Rightarrow> bool option \<Rightarrow> slot" where
  "make_request sha256 uid now model prompt thread meta wait disconnect =
     (let thread' = (if thread = [] then derive_thread_id_prefix_hash sha256 prompt model else thread)
      in (new_slot uid now model prompt thread' meta)
           \<lparr>sl_disconnect := disconnect, sl_future := (if wait then Some Pending else None)\<rparr>)"

definition submit_request :: "time \<Rightarrow> slot \<Rightarrow> worker \<Rightarrow> queue_error + worker" where
  "submit_request now sl w =
     (if w_stop w then Inl QueueClosed
      else if grace_matches (w_grace w) now (sl_thread_id sl) (sl_model_tag sl) then
        rbind (enqueue_head (w_queue w) sl) (\<lambda>(q, _).
          Inr (w\<lparr>w_queue := q, w_accepted := w_accepted w @ [sl_id sl],
                 w_grace := snd (restart_for_followup (w_grace w) now)\<rparr>))
      else
        rbind (enqueue (w_queue w) sl) (\<lambda>(q, _).
          Inr (w\<lparr>w_queue := q, w_accepted := w_accepted w @ [sl_id sl]\<rparr>)))"

text \<open>
  \<open>submit_for_streaming\<close> arms the two events of the slot after \<open>submit\<close> has returned, when
  the worker may already hold it: \<open>update_slots\<close> reaches the slot wherever it is.
\<close>

fun map_phase :: "(slot \<Rightarrow> slot) \<Rightarrow> wphase \<Rightarrow> wphase" where
  "map_phase f WPolling = WPolling"
| "map_phase f (WOpening sl) = WOpening (f sl)"
| "map_phase f (WSwapping sl argv h) = WSwapping (f sl) argv h"
| "map_phase f (WGating sl argv) = WGating (f sl) argv"
| "map_phase f (WBooting sl h) = WBooting (f sl) h"
| "map_phase f (WWaking sl h) = WWaking (f sl) h"
| "map_phase f (WServing sl h s) = WServing (f sl) h s"
| "map_phase f (WAdmitting sl h kas) = WAdmitting (f sl) h kas"
| "map_phase f (WDraining sl h) = WDraining (f sl) h"
| "map_phase f (WServed sl h) = WServed (f sl) h"
| "map_phase f (WGrace sl h d) = WGrace (f sl) h d"
| "map_phase f (WPromoting sl m h d) = WPromoting (f sl) (f m) h d"
| "map_phase f (WMatching sl m h d) = WMatching (f sl) (f m) h d"
| "map_phase f (WClosing sl r) = WClosing (f sl) r"
| "map_phase f (WUnwinding sl e) = WUnwinding (f sl) e"
| "map_phase f (WRescuing sl e) = WRescuing (f sl) e"
| "map_phase f WHalted = WHalted"

definition update_slots :: "(slot \<Rightarrow> slot) \<Rightarrow> worker \<Rightarrow> worker" where
  "update_slots f w =
     w\<lparr>w_queue := (w_queue w)\<lparr>staging := map f (staging (w_queue w)), accept_buf := map f (accept_buf (w_queue w))\<rparr>,
       w_inflight := map f (w_inflight w),
       w_phase := map_phase f (w_phase w)\<rparr>"

definition arm_slot :: "string \<Rightarrow> slot \<Rightarrow> slot" where
  "arm_slot sid sl =
     (if sl_id sl = sid
      then sl\<lparr>sl_stream_ready := Some False, sl_stream_done := Some False, sl_stream_handle := None\<rparr>
      else sl)"

definition arm_streaming :: "string \<Rightarrow> worker \<Rightarrow> worker" where
  "arm_streaming sid w = update_slots (arm_slot sid) w"

subsection \<open>Terminating sidecars\<close>

text \<open>
  What a call of the injected \<open>_sigterm\<close> comes to: the process is gone, the helper reports a
  failure (the callers of \<open>manager.py\<close> do not look at the report), or it raises.
\<close>

datatype reap = Exits | Survives | Raises

definition reap_of :: "bool \<times> sigterm_status \<Rightarrow> reap" where
  "reap_of r = (if fst r then Exits else Survives)"

definition reaped :: "reap \<Rightarrow> handle \<Rightarrow> worker \<Rightarrow> worker" where
  "reaped r h w =
     (case r of
        Exits \<Rightarrow> w\<lparr>w_procs := remove1 h (w_procs w)\<rparr>
      | _ \<Rightarrow> w\<lparr>w_stray := w_stray w @ [h]\<rparr>)"

text \<open>
  \<open>_teardown\<close> of the active sidecar: when \<open>_sigterm\<close> raises, \<open>_active_handle\<close> stays and the
  exception goes on (the flag of the result).
\<close>

definition teardown_active :: "reap \<Rightarrow> worker \<Rightarrow> bool \<times> worker" where
  "teardown_active r w =
     (case w_active w of
        None \<Rightarrow> (True, w)
      | Some h \<Rightarrow> if r = Raises then (False, w) else (True, (reaped r h w)\<lparr>w_active := None\<rparr>))"

text \<open>\<open>_teardown_idle_holder\<close> up to the wait for \<open>_sigterm\<close>, and from there.\<close>

definition begin_idle_teardown :: "worker \<Rightarrow> handle option \<times> worker" where
  "begin_idle_teardown w =
     (case w_idle w of
        None \<Rightarrow> (None, w)
      | Some (h, _) \<Rightarrow>
          (Some h, w\<lparr>w_idle := None, w_idle_expires := None, w_reaping := w_reaping w @ [h]\<rparr>))"

definition end_idle_teardown :: "reap \<Rightarrow> handle \<Rightarrow> worker \<Rightarrow> worker" where
  "end_idle_teardown r h w = reaped r h (w\<lparr>w_reaping := remove1 h (w_reaping w)\<rparr>)"

subsection \<open>Forcing a slot COLD\<close>

datatype pid_source = FanoutShared | AnchorShared | SelfOwned

definition inflight_count :: "worker \<Rightarrow> nat" where
  "inflight_count w = length (w_inflight w) + (if w_anchor_in w then 1 else 0) + w_stale w"

definition shares_active :: "worker \<Rightarrow> slot \<Rightarrow> bool" where
  "shares_active w sl \<longleftrightarrow>
     (case (w_active w, sl_pid sl) of (Some h, Some p) \<Rightarrow> p \<noteq> 0 \<and> p = h_pid h | _ \<Rightarrow> False)"

definition pid_source_of :: "worker \<Rightarrow> slot \<Rightarrow> pid_source" where
  "pid_source_of w sl =
     (if shares_active w sl \<and> 1 < inflight_count w then FanoutShared
      else if shares_active w sl \<and>
              (case w_current w of Some (sid, _) \<Rightarrow> sid \<noteq> sl_id sl | None \<Rightarrow> False) then AnchorShared
      else SelfOwned)"

text \<open>One turn of the bounded loop that walks a slot to COLD; the flag says \<open>break\<close>.\<close>

definition cold_hop :: "slot_state \<Rightarrow> bool \<times> slot_state" where
  "cold_hop s =
     (if s = COLD then (True, s)
      else if can_move s COLD then (True, COLD)
      else if can_move s POPPED then (False, POPPED)
      else if can_move s GRACE then (False, GRACE)
      else if can_move s LOADING_FAIL then (False, LOADING_FAIL)
      else (True, COLD))"

fun cold_walk :: "nat \<Rightarrow> slot_state \<Rightarrow> slot_state" where
  "cold_walk 0 s = s"
| "cold_walk (Suc n) s = (case cold_hop s of (stop, s') \<Rightarrow> if stop then s' else cold_walk n s')"

definition force_cold :: "reap \<Rightarrow> slot \<Rightarrow> worker \<Rightarrow> slot \<times> worker" where
  "force_cold r sl w =
     (sl\<lparr>sl_state := cold_walk 4 (sl_state sl)\<rparr>,
      if pid_source_of w sl = SelfOwned \<and> shares_active w sl then snd (teardown_active r w) else w)"

subsection \<open>The loop\<close>

definition warm_hint :: "worker \<Rightarrow> string option" where
  "warm_hint w =
     (case w_idle w of Some (_, tag) \<Rightarrow> Some tag | None \<Rightarrow> map_option snd (w_current w))"

text \<open>The idle tick schedules the teardown of an expired holder as a task of its own.\<close>

definition idle_tick :: "time \<Rightarrow> worker \<Rightarrow> worker" where
  "idle_tick now w =
     (case (w_idle w, w_idle_expires w) of
        (Some _, Some e) \<Rightarrow>
          if e \<le> now then w\<lparr>w_idle_expires := None, w_bg := Suc (w_bg w)\<rparr> else w
      | _ \<Rightarrow> w)"

text \<open>
  One turn of \<open>worker_loop\<close>. \<open>pop_next\<close> is outside the \<open>try\<close>: an exception from it ends
  the task.
\<close>

definition poll_turn :: "time \<Rightarrow> worker \<Rightarrow> worker" where
  "poll_turn now w =
     (if w_stop w then goto WHalted w
      else case pop_next (w_queue w) now (warm_hint w) of
        (Inl _, q) \<Rightarrow> goto WHalted (w\<lparr>w_queue := q, w_faults := Suc (w_faults w)\<rparr>)
      | (Inr None, q) \<Rightarrow> idle_tick now (w\<lparr>w_queue := q\<rparr>)
      | (Inr (Some sl), q) \<Rightarrow>
          if sl_is_evicted sl
          then idle_tick now (retire (fail_completion_future sl SlotEvicted)
                 (w\<lparr>w_queue := q, w_evictions := Suc (w_evictions w)\<rparr>))
          else goto (WOpening sl) (set_current sl (w\<lparr>w_queue := q, w_keep_alive := None\<rparr>)))"

subsection \<open>Opening: manifest, warm inherit or swap\<close>

definition ends_with_failure :: "slot \<Rightarrow> string \<Rightarrow> worker \<Rightarrow> worker" where
  "ends_with_failure sl reason w =
     hop sl LOADING_FAIL (\<lambda>sl. hop sl POPPED (\<lambda>sl.
       goto (WUnwinding (fail_completion_future sl (RuntimeErr reason)) None) w) w) w"

text \<open>
  \<open>_set_active_handle\<close>: a sidecar that two failed teardowns left in \<open>_active_handle\<close> is
  overwritten here, and nothing refers to it any more.
\<close>

definition set_active :: "handle \<Rightarrow> worker \<Rightarrow> worker" where
  "set_active h w =
     w\<lparr>w_stray := w_stray w @ (case w_active w of None \<Rightarrow> [] | Some old \<Rightarrow> [old]),
       w_active := Some h, w_spawn_seq := Suc (w_spawn_seq w)\<rparr>"

definition inherit :: "slot \<Rightarrow> handle \<Rightarrow> worker \<Rightarrow> worker" where
  "inherit sl h w =
     goto (WWaking (on_sidecar h sl) h) (set_active h (w\<lparr>w_idle := None, w_idle_expires := None\<rparr>))"

definition warm_inherit :: "time \<Rightarrow> slot \<Rightarrow> worker \<Rightarrow> handle option" where
  "warm_inherit now sl w =
     (case (w_idle w, w_idle_expires w) of
        (Some (h, tag), Some e) \<Rightarrow> if tag = sl_model_tag sl \<and> now < e then Some h else None
      | _ \<Rightarrow> None)"

definition holder_at_risk :: "bool \<Rightarrow> slot \<Rightarrow> worker \<Rightarrow> bool" where
  "holder_at_risk found sl w \<longleftrightarrow>
     \<not> found \<and> (case w_idle w of Some (_, tag) \<Rightarrow> tag \<noteq> sl_model_tag sl | None \<Rightarrow> False)"

definition open_slot :: "time \<Rightarrow> bool \<Rightarrow> string list \<Rightarrow> slot \<Rightarrow> worker \<Rightarrow> worker" where
  "open_slot now found argv sl w =
     hop sl LOADING (\<lambda>sl.
       if holder_at_risk found sl w then ends_with_failure sl ''manifest_not_found'' w
       else case warm_inherit now sl w of
         Some h \<Rightarrow> inherit sl h w
       | None \<Rightarrow>
           (case begin_idle_teardown w of
              (Some h, w) \<Rightarrow> goto (WSwapping sl argv h) w
            | (None, w) \<Rightarrow> goto (WGating sl argv) w)) w"

text \<open>
  Reading the manifest: only a missing one is tolerated (with an empty command line), any
  other failure of reading or rendering it leaves \<open>_process_slot\<close>.
\<close>

definition read_and_open ::
  "(pyval \<Rightarrow> string) \<Rightarrow> time \<Rightarrow> store_error + manifest \<Rightarrow> slot \<Rightarrow> worker \<Rightarrow> worker" where
  "read_and_open text_of now read sl w =
     (case read of
        Inl NotFound \<Rightarrow> open_slot now False [] sl w
      | Inl _ \<Rightarrow> goto (WUnwinding sl (Some (OtherExc ''manifest''))) (w\<lparr>w_faults := Suc (w_faults w)\<rparr>)
      | Inr mf \<Rightarrow>
          (case flags_to_argv text_of (mf_flags mf) of
             Inl _ \<Rightarrow> goto (WUnwinding sl (Some (OtherExc ''manifest''))) (w\<lparr>w_faults := Suc (w_faults w)\<rparr>)
           | Inr argv \<Rightarrow> open_slot now True argv sl w))"

definition swap_done :: "reap \<Rightarrow> slot \<Rightarrow> string list \<Rightarrow> handle \<Rightarrow> worker \<Rightarrow> worker" where
  "swap_done r sl argv h w =
     (if r = Raises
      then goto (WUnwinding sl (Some (OtherExc ''sigterm''))) (end_idle_teardown r h (w\<lparr>w_faults := Suc (w_faults w)\<rparr>))
      else goto (WGating sl argv) (end_idle_teardown r h w))"

subsection \<open>Gates, spawn and health\<close>

text \<open>What the safety gates are asked, from the manifest when it could be read.\<close>

definition spawn_request :: "manifest option \<Rightarrow> int \<times> kv_request" where
  "spawn_request mf =
     (case mf of
        None \<Rightarrow> (0, \<lparr>kv_ctx = 0, kv_gguf = 0, kv_overhead = 1024, kv_quant = ''f16'', kv_no_offload = False,
                     kv_parallel = 1, kv_split = ''layer'', kv_main_gpu = 0, kv_expected_mib = 0,
                     kv_cpu_moe = False\<rparr>)
      | Some m \<Rightarrow>
          (mf_vram m,
           \<lparr>kv_ctx = flag_int (mf_flags m) ''ctx_size'' (mf_context m),
            kv_gguf = mf_size m,
            kv_overhead = 1024,
            kv_quant = flag_str (mf_flags m) ''cache_type_k'' ''f16'',
            kv_no_offload = flag_true (mf_flags m) ''no_kv_offload'',
            kv_parallel = flag_int (mf_flags m) ''parallel'' 1,
            kv_split = flag_str (mf_flags m) ''split_mode'' ''layer'',
            kv_main_gpu = flag_int (mf_flags m) ''main_gpu'' 0,
            kv_expected_mib = 0,
            kv_cpu_moe = flag_true (mf_flags m) ''cpu_moe'' \<or> 0 < flag_int (mf_flags m) ''n_cpu_moe'' 0\<rparr>))"

definition spawn_gates :: "(host_probe \<times> gate_limits) option \<Rightarrow> manifest option \<Rightarrow> gate_result list" where
  "spawn_gates host mf =
     (case host of
        None \<Rightarrow> []
      | Some (probe, limits) \<Rightarrow>
          (case spawn_request mf of (expected, r) \<Rightarrow> all_safety_gates probe limits expected r))"

definition spawn_worker :: "int \<Rightarrow> slot \<Rightarrow> string list \<Rightarrow> worker \<Rightarrow> worker" where
  "spawn_worker pid sl argv w =
     (let h = spawn_sidecar pid (w_port_base w) (sl_model_tag sl) argv
      in goto (WBooting (on_sidecar h sl) h)
           (set_active h (w\<lparr>w_procs := w_procs w @ [h], w_pids := pid # w_pids w\<rparr>)))"

definition gate_and_spawn :: "gate_result list \<Rightarrow> int \<Rightarrow> slot \<Rightarrow> string list \<Rightarrow> worker \<Rightarrow> worker" where
  "gate_and_spawn gates pid sl argv w =
     (if failed_gates gates \<noteq> [] then ends_with_failure sl ''safety gates refused spawn'' w
      else spawn_worker pid sl argv w)"

definition UNHEALTHY :: string where
  "UNHEALTHY = ''loading-fail-health-timeout''"

definition health_answer :: "bool \<Rightarrow> slot \<Rightarrow> handle \<Rightarrow> worker \<Rightarrow> worker" where
  "health_answer ok sl h w =
     (if ok then goto (WWaking sl h) w
      else hop sl LOADING_FAIL (\<lambda>sl. hop sl POPPED (\<lambda>sl. goto (WClosing sl UNHEALTHY) w) w) w)"

text \<open>LOADING to ACTIVE, and the choice between fan-out, the route's stream and a completion.\<close>

definition wake :: "time \<Rightarrow> slot \<Rightarrow> handle \<Rightarrow> worker \<Rightarrow> worker" where
  "wake now sl h w =
     hop sl ACTIVE (\<lambda>sl.
       let sl = sl\<lparr>sl_started_active_at := now\<rparr>;
           w = w\<lparr>w_keep_alive := keep_alive_of sl\<rparr>
       in if 1 < h_parallel h then
            goto (WAdmitting ((if wants_stream sl then hand_over h sl else sl\<lparr>sl_stream_handle := Some (h_pid h)\<rparr>)) h
                   [keep_alive_of sl])
              (w\<lparr>w_inflight := [], w_anchor_in := True, w_stale := 0\<rparr>)
          else if is_streaming sl then goto (WServing (hand_over h sl) h True) w
          else goto (WServing sl h False) w) w"

text \<open>
  The serial block: a stream ends (or hits its cap), a completion answers or raises.
\<close>

definition serve_done :: "exn + pyval \<Rightarrow> slot \<Rightarrow> handle \<Rightarrow> bool \<Rightarrow> worker \<Rightarrow> worker" where
  "serve_done out sl h streams w =
     (if streams then goto (WServed (set_result sl STREAMED) h) w
      else case out of
        Inr v \<Rightarrow> goto (WServed (set_result sl v) h) w
      | Inl e \<Rightarrow> goto (WUnwinding sl (Some e)) (w\<lparr>w_faults := Suc (w_faults w)\<rparr>))"

subsection \<open>Fan-out on one sidecar\<close>

fun retire_all :: "slot list \<Rightarrow> worker \<Rightarrow> worker" where
  "retire_all [] w = w"
| "retire_all (sl # sls) w = retire_all sls (retire sl w)"

text \<open>
  One turn of an admission loop (the one-shot loop and the refill of a running drain have the
  same body): stop, leave a popped request behind, attach it, or raise.
\<close>

datatype admission = AStop | ASkip | AJoin slot | ARaise exn

definition admit_popped :: "time \<Rightarrow> reap \<Rightarrow> slot \<Rightarrow> handle \<Rightarrow> slot \<Rightarrow> worker \<Rightarrow> admission \<times> worker" where
  "admit_popped now r anchor h x w =
     (if sl_model_tag x \<noteq> sl_model_tag anchor \<or> wants_stream x \<noteq> wants_stream anchor then
        (case enqueue_head (w_queue w) x of
           Inl _ \<Rightarrow> (ARaise (OtherExc ''QueueClosed''), retire x w)
         | Inr (q, _) \<Rightarrow> (AStop, w\<lparr>w_queue := q\<rparr>))
      else if sl_is_evicted x then (ASkip, retire (fail_completion_future x SlotEvicted) w)
      else
        (case run_transitions (on_sidecar h x) [LOADING, ACTIVE] of
           Inl e \<Rightarrow>
             (case force_cold r (fail_completion_future (x\<lparr>sl_pid := None\<rparr>) e) w of
                (x, w) \<Rightarrow> (ASkip, retire x w))
         | Inr x \<Rightarrow>
             let x = x\<lparr>sl_started_active_at := now, sl_stream_handle := Some (h_pid h)\<rparr>;
                 x = (if wants_stream anchor then hand_over h x else x)
             in (AJoin x, w\<lparr>w_inflight := w_inflight w @ [x]\<rparr>)))"

definition full_house :: "handle \<Rightarrow> worker \<Rightarrow> bool" where
  "full_house h w \<longleftrightarrow> max 1 (h_parallel h) \<le> int (inflight_count w)"

definition admit_next :: "time \<Rightarrow> reap \<Rightarrow> slot \<Rightarrow> handle \<Rightarrow> worker \<Rightarrow> admission \<times> worker" where
  "admit_next now r anchor h w =
     (if full_house h w then (AStop, w)
      else case pop_next (w_queue w) now (Some (sl_model_tag anchor)) of
        (Inl e, q) \<Rightarrow> (ARaise e, w\<lparr>w_queue := q\<rparr>)
      | (Inr None, q) \<Rightarrow> (AStop, w\<lparr>w_queue := q\<rparr>)
      | (Inr (Some x), q) \<Rightarrow> admit_popped now r anchor h x (w\<lparr>w_queue := q\<rparr>))"

definition max_keep_alive :: "int option list \<Rightarrow> int option" where
  "max_keep_alive kas =
     (case List.map_filter (\<lambda>k. k) kas of [] \<Rightarrow> None | k # ks \<Rightarrow> Some (foldr max ks k))"

text \<open>
  An exception in the one-shot loop or in the assertion before the drain leaves
  \<open>_inflight\<close> as it is; one in a drain empties it, failing the riders of a non-streaming
  fan-out and waking the routes of a streaming one.
\<close>

definition admission_aborted :: "exn \<Rightarrow> slot \<Rightarrow> worker \<Rightarrow> worker" where
  "admission_aborted e sl w =
     goto (WUnwinding sl (Some e))
       (retire_all (w_inflight w)
         (w\<lparr>w_inflight := [], w_anchor_in := False, w_stale := inflight_count w,
            w_faults := Suc (w_faults w)\<rparr>))"

definition abort_rider :: "bool \<Rightarrow> slot \<Rightarrow> slot" where
  "abort_rider streams x =
     (if streams then x\<lparr>sl_stream_done := map_option (\<lambda>_. True) (sl_stream_done x)\<rparr>
      else fail_completion_future x (RuntimeErr ''fan-out drain aborted''))"

definition drain_aborted :: "exn \<Rightarrow> slot \<Rightarrow> worker \<Rightarrow> worker" where
  "drain_aborted e sl w =
     goto (WUnwinding (if w_anchor_in w then abort_rider (wants_stream sl) sl else sl) (Some e))
       (retire_all (map (abort_rider (wants_stream sl)) (w_inflight w))
         (w\<lparr>w_inflight := [], w_anchor_in := False, w_faults := Suc (w_faults w)\<rparr>))"

definition admission_over :: "slot \<Rightarrow> handle \<Rightarrow> int option list \<Rightarrow> worker \<Rightarrow> worker" where
  "admission_over sl h kas w =
     (let w = w\<lparr>w_keep_alive := max_keep_alive kas\<rparr> in
      if wants_stream sl \<and> list_ex (\<lambda>x. sl_stream_done x = None) (sl # w_inflight w)
      then admission_aborted (OtherExc ''AssertionError'') sl w
      else goto (WDraining sl h) w)"

definition admit_turn :: "time \<Rightarrow> reap \<Rightarrow> slot \<Rightarrow> handle \<Rightarrow> int option list \<Rightarrow> worker \<Rightarrow> worker" where
  "admit_turn now r sl h kas w =
     (case admit_next now r sl h w of
        (AStop, w) \<Rightarrow> admission_over sl h kas w
      | (ASkip, w) \<Rightarrow> w
      | (AJoin x, w) \<Rightarrow> goto (WAdmitting sl h (kas @ [keep_alive_of x])) w
      | (ARaise e, w) \<Rightarrow> admission_aborted e sl w)"

definition rider_outcome :: "slot \<Rightarrow> exn + pyval \<Rightarrow> exn + pyval" where
  "rider_outcome anchor out = (if wants_stream anchor then Inr STREAMED else out)"

definition rider_finishes :: "nat \<Rightarrow> exn + pyval \<Rightarrow> reap \<Rightarrow> slot \<Rightarrow> worker \<Rightarrow> worker" where
  "rider_finishes i out r anchor w =
     (let x = settle (rider_outcome anchor out) (w_inflight w ! i) in
      case force_cold r (x\<lparr>sl_pid := None\<rparr>) w of
        (x, w) \<Rightarrow> retire x (w\<lparr>w_inflight := take i (w_inflight w) @ drop (Suc i) (w_inflight w)\<rparr>))"

definition anchor_finishes :: "exn + pyval \<Rightarrow> slot \<Rightarrow> handle \<Rightarrow> worker \<Rightarrow> worker" where
  "anchor_finishes out sl h w =
     goto (WDraining (settle (rider_outcome sl out) sl) h) (w\<lparr>w_anchor_in := False\<rparr>)"

text \<open>The end of a turn of the drain: it refills, and is over when nothing runs any more.\<close>

definition drain_turn :: "time \<Rightarrow> reap \<Rightarrow> slot \<Rightarrow> handle \<Rightarrow> worker \<Rightarrow> worker" where
  "drain_turn now r sl h w =
     (if wants_stream sl then (if inflight_count w = 0 then goto (WServed sl h) w else w)
      else case admit_next now r sl h w of
        (AStop, w) \<Rightarrow> if inflight_count w = 0 then goto (WServed sl h) w else w
      | (ARaise e, w) \<Rightarrow> drain_aborted e sl w
      | (_, w) \<Rightarrow> w)"

subsection \<open>Grace\<close>

definition served :: "time \<Rightarrow> slot \<Rightarrow> handle \<Rightarrow> worker \<Rightarrow> worker" where
  "served now sl h w =
     (if inflight_count w \<noteq> 0 then goto (WUnwinding sl (Some (OtherExc ''AssertionError''))) w
      else hop sl GRACE (\<lambda>sl.
        goto (WGrace (sl\<lparr>sl_grace_started_at := now\<rparr>) h (now + w_grace_seconds w))
          (w\<lparr>w_grace := grace_start (w_grace w) now (sl_thread_id sl) (sl_model_tag sl)\<rparr>)) w)"

text \<open>At the end of the window: hold the sidecar, or tear it down.\<close>

definition grace_over :: "time \<Rightarrow> slot \<Rightarrow> handle \<Rightarrow> worker \<Rightarrow> worker" where
  "grace_over now sl h w =
     hop sl POPPED (\<lambda>sl.
       let window = idle_window_seconds (w_keep_alive w) (w_idle_default w);
           w = w\<lparr>w_keep_alive := None\<rparr>
       in case w_active w of
            Some a \<Rightarrow>
              if 0 < window
              then goto (WUnwinding sl None)
                     (w\<lparr>w_idle := Some (a, sl_model_tag sl), w_idle_expires := Some (now + of_int window)\<rparr>)
              else goto (WClosing sl ''grace-expired'') w
          | None \<Rightarrow> goto (WClosing sl ''grace-expired'') w) w"

definition match_drift :: "reap \<Rightarrow> exn \<Rightarrow> slot \<Rightarrow> slot \<Rightarrow> handle \<Rightarrow> time \<Rightarrow> worker \<Rightarrow> worker" where
  "match_drift r e sl m h d w =
     (case force_cold r (fail_completion_future m e) w of
        (m, w) \<Rightarrow> goto (WGrace sl h d) (set_current sl (retire m w)))"

definition grace_turn :: "time \<Rightarrow> reap \<Rightarrow> slot \<Rightarrow> handle \<Rightarrow> time \<Rightarrow> worker \<Rightarrow> worker" where
  "grace_turn now r sl h d w =
     (if d \<le> now \<or> w_stop w then grace_over now sl h w
      else case pop_matched_thread (w_queue w) (sl_thread_id sl) (sl_model_tag sl) of
        (None, q) \<Rightarrow> w\<lparr>w_queue := q\<rparr>
      | (Some m, q) \<Rightarrow>
          let m = on_sidecar h m; w = set_current m (w\<lparr>w_queue := q\<rparr>) in
          (case transition m ACTIVE_MATCH of
             Inl e \<Rightarrow> match_drift r e sl m h d w
           | Inr m \<Rightarrow> goto (WPromoting sl m h d) w))"

definition match_over :: "time \<Rightarrow> exn + pyval \<Rightarrow> slot \<Rightarrow> slot \<Rightarrow> handle \<Rightarrow> time \<Rightarrow> worker \<Rightarrow> worker" where
  "match_over now out sl m h d w =
     (let m = settle out m in
      case run_transitions m [GRACE, POPPED] of
        Inl e \<Rightarrow> goto (WUnwinding sl (Some e)) (retire m w)
      | Inr m \<Rightarrow>
          (case (if is_ok out then restart_for_followup (w_grace w) now else (False, w_grace w)) of
             (again, g) \<Rightarrow>
               goto (WGrace sl h (if again then now + w_grace_seconds w else d))
                 (set_current sl
                   (retire (if again then m\<lparr>sl_extension_count := g_extension_count g\<rparr> else m)
                     (w\<lparr>w_grace := g\<rparr>)))))"

definition promote :: "time \<Rightarrow> reap \<Rightarrow> slot \<Rightarrow> slot \<Rightarrow> handle \<Rightarrow> time \<Rightarrow> worker \<Rightarrow> worker" where
  "promote now r sl m h d w =
     (case transition m ACTIVE of
        Inl e \<Rightarrow> match_drift r e sl m h d w
      | Inr m \<Rightarrow>
          let m = m\<lparr>sl_started_active_at := now\<rparr>; w = w\<lparr>w_keep_alive := keep_alive_of m\<rparr> in
          if wants_stream m \<and> \<not> armed m then match_over now (Inl (OtherExc ''AssertionError'')) sl m h d w
          else goto (WMatching sl (if wants_stream m then hand_over h m else m) h d) w)"

definition follow_up_done :: "time \<Rightarrow> exn + pyval \<Rightarrow> slot \<Rightarrow> slot \<Rightarrow> handle \<Rightarrow> time \<Rightarrow> worker \<Rightarrow> worker" where
  "follow_up_done now out sl m h d w = match_over now (rider_outcome m out) sl m h d w"

subsection \<open>The way out\<close>

definition close_done :: "time \<Rightarrow> reap \<Rightarrow> slot \<Rightarrow> string \<Rightarrow> worker \<Rightarrow> worker" where
  "close_done now r sl reason w =
     (case teardown_active r w of
        (False, w) \<Rightarrow> goto (WUnwinding sl (Some (OtherExc ''sigterm''))) (w\<lparr>w_faults := Suc (w_faults w)\<rparr>)
      | (True, w) \<Rightarrow>
          if reason = UNHEALTHY
          then goto (WUnwinding (fail_completion_future sl (RuntimeErr UNHEALTHY)) None) w
          else goto (WUnwinding sl None)
                 (w\<lparr>w_idle_timer := idle_start (w_idle_timer w) now (sl_model_tag sl)\<rparr>))"

text \<open>
  The \<open>finally\<close> of \<open>_process_slot\<close> (a sidecar that is neither held idle nor torn down gets
  its \<open>SIGTERM\<close> here), then the handlers of \<open>worker_loop\<close>.
\<close>

definition finally_reap :: "reap \<Rightarrow> worker \<Rightarrow> worker" where
  "finally_reap r w =
     (case w_active w of
        None \<Rightarrow> w
      | Some h \<Rightarrow>
          if map_option fst (w_idle w) = Some h then w\<lparr>w_active := None\<rparr>
          else snd (teardown_active r w))"

definition unwind :: "reap \<Rightarrow> slot \<Rightarrow> exn option \<Rightarrow> worker \<Rightarrow> worker" where
  "unwind r sl e w =
     (let w = finally_reap r (w\<lparr>w_current := None\<rparr>) in
      case e of
        None \<Rightarrow> goto WPolling (retire sl w)
      | Some e \<Rightarrow>
          if e = Cancelled then goto WHalted (retire sl w)
          else goto (WRescuing (fail_completion_future sl e) e) w)"

text \<open>
  The handler of \<open>worker_loop\<close>; the database write at the end of \<open>_force_cold\<close> is not
  guarded, and when it fails the task is over.
\<close>

definition rescue :: "reap \<Rightarrow> reap \<Rightarrow> bool \<Rightarrow> slot \<Rightarrow> worker \<Rightarrow> worker" where
  "rescue r1 r2 db_ok sl w =
     (case force_cold r2 sl (snd (teardown_active r1 w)) of
        (sl, w) \<Rightarrow>
          if db_ok then goto WPolling (retire sl w)
          else goto WHalted (retire sl (w\<lparr>w_faults := Suc (w_faults w)\<rparr>)))"

text \<open>
  An exception (of an audit write, a spawn, a health check) or the cancellation by
  \<open>shutdown\<close> hits the worker where it is suspended. In the grace loop a completion that
  raises is \<open>follow_up_done\<close>; here it is the audit write after it.
\<close>

definition interrupt :: "exn \<Rightarrow> exn + pyval \<Rightarrow> worker \<Rightarrow> worker" where
  "interrupt e out w =
     (let w' = w\<lparr>w_faults := Suc (w_faults w)\<rparr>; leave = (\<lambda>sl. goto (WUnwinding sl (Some e)) w') in
      case w_phase w of
        WPolling \<Rightarrow> goto WHalted w'
      | WOpening sl \<Rightarrow> leave sl
      | WSwapping sl argv h \<Rightarrow> goto (WUnwinding sl (Some e)) (end_idle_teardown Raises h w')
      | WGating sl argv \<Rightarrow> leave sl
      | WBooting sl h \<Rightarrow> leave sl
      | WWaking sl h \<Rightarrow> leave sl
      | WServing sl h s \<Rightarrow> leave sl
      | WAdmitting sl h kas \<Rightarrow> admission_aborted e sl w
      | WDraining sl h \<Rightarrow> drain_aborted e sl w
      | WServed sl h \<Rightarrow> leave sl
      | WGrace sl h d \<Rightarrow> leave sl
      | WPromoting sl m h d \<Rightarrow> goto (WUnwinding sl (Some e)) (retire m w')
      | WMatching sl m h d \<Rightarrow>
          goto (WUnwinding sl (Some e))
            (retire (if e = Cancelled then fail_completion_future m e else settle (rider_outcome m out) m) w')
      | WClosing sl reason \<Rightarrow> leave sl
      | WUnwinding sl None \<Rightarrow> leave sl
      | WUnwinding sl (Some _) \<Rightarrow> goto WHalted (retire sl w')
      | WRescuing sl _ \<Rightarrow> goto WHalted (retire sl w')
      | WHalted \<Rightarrow> w)"

text \<open>
  An exception can hit the worker in these phases. A cancellation is delivered only where the
  worker is suspended: in the \<open>finally\<close> that is the wait for the \<open>SIGTERM\<close> of a sidecar.
\<close>

definition interruptible :: "wphase \<Rightarrow> bool" where
  "interruptible p =
     (case p of WPolling \<Rightarrow> False | WUnwinding _ (Some _) \<Rightarrow> False | WRescuing _ _ \<Rightarrow> False
      | WHalted \<Rightarrow> False | _ \<Rightarrow> True)"

definition cancellable :: "worker \<Rightarrow> bool" where
  "cancellable w =
     (case w_phase w of
        WUnwinding _ (Some _) \<Rightarrow> w_active w \<noteq> None \<and> map_option fst (w_idle w) \<noteq> w_active w
      | WHalted \<Rightarrow> False
      | _ \<Rightarrow> True)"

text \<open>The rest of \<open>shutdown\<close>, when the worker task has ended.\<close>

definition shutdown_tail :: "worker \<Rightarrow> worker" where
  "shutdown_tail w =
     (case close (w_queue w) of
        (cleared, q) \<Rightarrow>
          snd (begin_idle_teardown
            (retire_all (map (\<lambda>sl. fail_completion_future sl Cancelled) cleared) (w\<lparr>w_queue := q\<rparr>))))"

subsection \<open>Steps\<close>

text \<open>
  What can happen next, with everything the outside decides. An expiry task that has been
  created starts before the worker runs again, except that the worker may pop another
  request without suspending; \<open>no_expiry\<close> says so.
\<close>

datatype wevent =
    Submit time slot
  | Arm string
  | Disconnect string
  | Poll time
  | Open "pyval \<Rightarrow> string" time "store_error + manifest"
  | SwapDone reap
  | GateSpawn "gate_result list" int
  | Health bool
  | Wake time
  | ServeDone "exn + pyval"
  | Admit time reap
  | RiderDone nat "exn + pyval" reap
  | AnchorDone "exn + pyval"
  | Drain time reap
  | ToGrace time
  | GraceTick time reap
  | Promote time reap
  | MatchDone time "exn + pyval"
  | CloseDone time reap
  | Unwind reap
  | Rescue reap reap bool
  | ExpiryTask
  | Reaped handle reap
  | Dies handle
  | Stop
  | Crash exn "exn + pyval"
  | Cancel
  | ShutdownTail

definition no_expiry :: "worker \<Rightarrow> worker \<Rightarrow> worker option" where
  "no_expiry w w' = (if w_bg w = 0 then Some w' else None)"

fun wfire :: "wevent \<Rightarrow> worker \<Rightarrow> worker option" where
  "wfire (Submit now sl) w =
     (if sl_id sl \<in> set (w_accepted w) \<or> sl_state sl \<noteq> RECEIVED \<or> sl_stream_ready sl \<noteq> None then None
      else case submit_request now sl w of Inr w' \<Rightarrow> Some w' | Inl _ \<Rightarrow> None)"
| "wfire (Arm sid) w = Some (arm_streaming sid w)"
| "wfire (Disconnect sid) w = Some (w\<lparr>w_queue := client_disconnects sid (w_queue w)\<rparr>)"
| "wfire (Poll now) w = (case w_phase w of WPolling \<Rightarrow> Some (poll_turn now w) | _ \<Rightarrow> None)"
| "wfire (Open text_of now read) w =
     (case w_phase w of WOpening sl \<Rightarrow> Some (read_and_open text_of now read sl w) | _ \<Rightarrow> None)"
| "wfire (SwapDone r) w =
     (case w_phase w of WSwapping sl argv h \<Rightarrow> no_expiry w (swap_done r sl argv h w) | _ \<Rightarrow> None)"
| "wfire (GateSpawn gates pid) w =
     (case w_phase w of
        WGating sl argv \<Rightarrow>
          if pid \<in> set (w_pids w) \<or> pid \<le> 0 then None else no_expiry w (gate_and_spawn gates pid sl argv w)
      | _ \<Rightarrow> None)"
| "wfire (Health ok) w =
     (case w_phase w of WBooting sl h \<Rightarrow> no_expiry w (health_answer ok sl h w) | _ \<Rightarrow> None)"
| "wfire (Wake now) w = (case w_phase w of WWaking sl h \<Rightarrow> no_expiry w (wake now sl h w) | _ \<Rightarrow> None)"
| "wfire (ServeDone out) w =
     (case w_phase w of WServing sl h s \<Rightarrow> no_expiry w (serve_done out sl h s w) | _ \<Rightarrow> None)"
| "wfire (Admit now r) w =
     (case w_phase w of WAdmitting sl h kas \<Rightarrow> no_expiry w (admit_turn now r sl h kas w) | _ \<Rightarrow> None)"
| "wfire (RiderDone i out r) w =
     (case w_phase w of
        WDraining sl h \<Rightarrow>
          if i < length (w_inflight w) then no_expiry w (rider_finishes i out r sl w) else None
      | _ \<Rightarrow> None)"
| "wfire (AnchorDone out) w =
     (case w_phase w of
        WDraining sl h \<Rightarrow> if w_anchor_in w then no_expiry w (anchor_finishes out sl h w) else None
      | _ \<Rightarrow> None)"
| "wfire (Drain now r) w =
     (case w_phase w of WDraining sl h \<Rightarrow> no_expiry w (drain_turn now r sl h w) | _ \<Rightarrow> None)"
| "wfire (ToGrace now) w =
     (case w_phase w of WServed sl h \<Rightarrow> no_expiry w (served now sl h w) | _ \<Rightarrow> None)"
| "wfire (GraceTick now r) w =
     (case w_phase w of WGrace sl h d \<Rightarrow> no_expiry w (grace_turn now r sl h d w) | _ \<Rightarrow> None)"
| "wfire (Promote now r) w =
     (case w_phase w of WPromoting sl m h d \<Rightarrow> no_expiry w (promote now r sl m h d w) | _ \<Rightarrow> None)"
| "wfire (MatchDone now out) w =
     (case w_phase w of WMatching sl m h d \<Rightarrow> no_expiry w (follow_up_done now out sl m h d w) | _ \<Rightarrow> None)"
| "wfire (CloseDone now r) w =
     (case w_phase w of WClosing sl reason \<Rightarrow> no_expiry w (close_done now r sl reason w) | _ \<Rightarrow> None)"
| "wfire (Unwind r) w =
     (case w_phase w of WUnwinding sl e \<Rightarrow> no_expiry w (unwind r sl e w) | _ \<Rightarrow> None)"
| "wfire (Rescue r1 r2 db_ok) w =
     (case w_phase w of WRescuing sl e \<Rightarrow> no_expiry w (rescue r1 r2 db_ok sl w) | _ \<Rightarrow> None)"
| "wfire ExpiryTask w =
     (if w_bg w = 0 then None else Some (snd (begin_idle_teardown (w\<lparr>w_bg := w_bg w - 1\<rparr>))))"
| "wfire (Reaped h r) w =
     (if h \<in> set (w_reaping w) \<and> (case w_phase w of WSwapping _ _ h' \<Rightarrow> h' \<noteq> h | _ \<Rightarrow> True)
      then Some (end_idle_teardown r h w) else None)"
| "wfire (Dies h) w = Some (w\<lparr>w_procs := remove1 h (w_procs w)\<rparr>)"
| "wfire Stop w = Some (w\<lparr>w_stop := True\<rparr>)"
| "wfire (Crash e out) w =
     (if e \<noteq> Cancelled \<and> interruptible (w_phase w) then no_expiry w (interrupt e out w) else None)"
| "wfire Cancel w =
     (if w_stop w \<and> cancellable w then no_expiry w (interrupt Cancelled (Inl Cancelled) w) else None)"
| "wfire ShutdownTail w =
     (if w_stop w \<and> w_phase w = WHalted then Some (shutdown_tail w) else None)"

inductive wreach :: "worker \<Rightarrow> worker \<Rightarrow> bool" where
  w_here: "wreach w w"
| w_more: "wreach w w' \<Longrightarrow> wfire ev w' = Some w'' \<Longrightarrow> wreach w w''"

fun wrun :: "wevent list \<Rightarrow> worker \<Rightarrow> worker option" where
  "wrun [] w = Some w"
| "wrun (ev # evs) w = (case wfire ev w of None \<Rightarrow> None | Some w' \<Rightarrow> wrun evs w')"

lemma wrun_reach: "wrun evs w' = Some w'' \<Longrightarrow> wreach w w' \<Longrightarrow> wreach w w''"
  by (induction evs arbitrary: w') (auto split: option.splits intro: wreach.w_more)

end
