(* ===== verification/WorkerBooks.thy ===== *)
theory WorkerBooks
  imports Worker
begin

text \<open>
  The books of the single-slot worker: whatever happens, every accepted request is in exactly
  one place, a request the worker is finished with has its future resolved, and one is lost
  only when an exception or a cancellation hit the worker.
\<close>

subsection \<open>What the pieces leave alone\<close>

lemma goto_sels [simp]:
  "w_phase (goto p w) = p" "w_queue (goto p w) = w_queue w" "w_active (goto p w) = w_active w"
  "w_current (goto p w) = w_current w" "w_idle (goto p w) = w_idle w"
  "w_idle_expires (goto p w) = w_idle_expires w" "w_inflight (goto p w) = w_inflight w"
  "w_anchor_in (goto p w) = w_anchor_in w" "w_stale (goto p w) = w_stale w" "w_bg (goto p w) = w_bg w"
  "w_reaping (goto p w) = w_reaping w" "w_stray (goto p w) = w_stray w" "w_procs (goto p w) = w_procs w"
  "w_pids (goto p w) = w_pids w" "w_done (goto p w) = w_done w" "w_lost (goto p w) = w_lost w"
  "w_accepted (goto p w) = w_accepted w" "w_faults (goto p w) = w_faults w" "w_stop (goto p w) = w_stop w"
  by (simp_all add: goto_def)

lemma retire_sels [simp]:
  "w_phase (retire sl w) = w_phase w" "w_queue (retire sl w) = w_queue w"
  "w_active (retire sl w) = w_active w" "w_current (retire sl w) = w_current w"
  "w_idle (retire sl w) = w_idle w" "w_idle_expires (retire sl w) = w_idle_expires w"
  "w_inflight (retire sl w) = w_inflight w" "w_anchor_in (retire sl w) = w_anchor_in w"
  "w_stale (retire sl w) = w_stale w" "w_bg (retire sl w) = w_bg w"
  "w_reaping (retire sl w) = w_reaping w" "w_stray (retire sl w) = w_stray w"
  "w_procs (retire sl w) = w_procs w" "w_pids (retire sl w) = w_pids w"
  "w_accepted (retire sl w) = w_accepted w" "w_faults (retire sl w) = w_faults w"
  "w_stop (retire sl w) = w_stop w"
  by (simp_all add: retire_def)

lemma retire_all_sels [simp]:
  "w_phase (retire_all sls w) = w_phase w" "w_queue (retire_all sls w) = w_queue w"
  "w_active (retire_all sls w) = w_active w" "w_current (retire_all sls w) = w_current w"
  "w_idle (retire_all sls w) = w_idle w" "w_idle_expires (retire_all sls w) = w_idle_expires w"
  "w_inflight (retire_all sls w) = w_inflight w" "w_anchor_in (retire_all sls w) = w_anchor_in w"
  "w_stale (retire_all sls w) = w_stale w" "w_bg (retire_all sls w) = w_bg w"
  "w_reaping (retire_all sls w) = w_reaping w" "w_stray (retire_all sls w) = w_stray w"
  "w_procs (retire_all sls w) = w_procs w" "w_pids (retire_all sls w) = w_pids w"
  "w_accepted (retire_all sls w) = w_accepted w" "w_faults (retire_all sls w) = w_faults w"
  "w_stop (retire_all sls w) = w_stop w"
  by (induction sls arbitrary: w) simp_all

lemma set_current_sels [simp]:
  "w_phase (set_current sl w) = w_phase w" "w_queue (set_current sl w) = w_queue w"
  "w_active (set_current sl w) = w_active w"
  "w_idle (set_current sl w) = w_idle w" "w_idle_expires (set_current sl w) = w_idle_expires w"
  "w_inflight (set_current sl w) = w_inflight w" "w_anchor_in (set_current sl w) = w_anchor_in w"
  "w_stale (set_current sl w) = w_stale w" "w_bg (set_current sl w) = w_bg w"
  "w_reaping (set_current sl w) = w_reaping w" "w_stray (set_current sl w) = w_stray w"
  "w_procs (set_current sl w) = w_procs w" "w_pids (set_current sl w) = w_pids w"
  "w_accepted (set_current sl w) = w_accepted w" "w_faults (set_current sl w) = w_faults w"
  "w_done (set_current sl w) = w_done w" "w_lost (set_current sl w) = w_lost w"
  "w_stop (set_current sl w) = w_stop w"
  by (simp_all add: set_current_def)

lemma set_active_sels [simp]:
  "w_phase (set_active h w) = w_phase w" "w_queue (set_active h w) = w_queue w"
  "w_active (set_active h w) = Some h" "w_idle (set_active h w) = w_idle w"
  "w_idle_expires (set_active h w) = w_idle_expires w" "w_inflight (set_active h w) = w_inflight w"
  "w_anchor_in (set_active h w) = w_anchor_in w" "w_stale (set_active h w) = w_stale w"
  "w_bg (set_active h w) = w_bg w" "w_reaping (set_active h w) = w_reaping w"
  "w_stray (set_active h w) = w_stray w @ (case w_active w of None \<Rightarrow> [] | Some old \<Rightarrow> [old])"
  "w_procs (set_active h w) = w_procs w" "w_pids (set_active h w) = w_pids w"
  "w_accepted (set_active h w) = w_accepted w" "w_faults (set_active h w) = w_faults w"
  "w_done (set_active h w) = w_done w" "w_lost (set_active h w) = w_lost w"
  by (simp_all add: set_active_def)

text \<open>
  Ending processes touches no request: a view of the worker that the teardown paths keep.
\<close>

definition same_requests :: "worker \<Rightarrow> worker \<Rightarrow> bool" where
  "same_requests w w' \<longleftrightarrow>
     w_queue w' = w_queue w \<and> w_phase w' = w_phase w \<and> w_inflight w' = w_inflight w \<and>
     w_anchor_in w' = w_anchor_in w \<and> w_stale w' = w_stale w \<and> w_done w' = w_done w \<and>
     w_lost w' = w_lost w \<and> w_accepted w' = w_accepted w \<and> w_faults w' = w_faults w"

lemma same_requests_ops [simp]:
  "same_requests w (reaped r h w)"
  "same_requests w (snd (teardown_active r w))"
  "same_requests w (snd (begin_idle_teardown w))"
  "same_requests w (end_idle_teardown r h w)"
  "same_requests w (finally_reap r w)"
  "same_requests w (snd (force_cold r sl w))"
  "same_requests w (idle_tick now w)"
  by (auto simp: same_requests_def reaped_def teardown_active_def begin_idle_teardown_def
      end_idle_teardown_def finally_reap_def force_cold_def idle_tick_def split: reap.splits option.splits)

lemmas same_requests_sels [simp] = same_requests_ops [unfolded same_requests_def]

lemma force_cold_slot [simp]:
  "sl_id (fst (force_cold r sl w)) = sl_id sl"
  "settled (fst (force_cold r sl w)) = settled sl"
  by (simp_all add: force_cold_def settled_def)

subsection \<open>The books\<close>

fun phase_slots :: "wphase \<Rightarrow> slot list" where
  "phase_slots WPolling = []"
| "phase_slots (WOpening sl) = [sl]"
| "phase_slots (WSwapping sl argv h) = [sl]"
| "phase_slots (WGating sl argv) = [sl]"
| "phase_slots (WBooting sl h) = [sl]"
| "phase_slots (WWaking sl h) = [sl]"
| "phase_slots (WServing sl h s) = [sl]"
| "phase_slots (WAdmitting sl h kas) = [sl]"
| "phase_slots (WDraining sl h) = [sl]"
| "phase_slots (WServed sl h) = [sl]"
| "phase_slots (WGrace sl h d) = [sl]"
| "phase_slots (WPromoting sl m h d) = [sl, m]"
| "phase_slots (WMatching sl m h d) = [sl, m]"
| "phase_slots (WClosing sl r) = [sl]"
| "phase_slots (WUnwinding sl e) = [sl]"
| "phase_slots (WRescuing sl e) = [sl]"
| "phase_slots WHalted = []"

text \<open>The identifiers of the requests that are not in the hand of the worker.\<close>

definition outside :: "worker \<Rightarrow> string multiset" where
  "outside w = mset (pending (w_queue w)) + mset (map sl_id (w_inflight w)) +
     mset (map sl_id (w_done w)) + mset (map sl_id (w_lost w))"

definition places :: "worker \<Rightarrow> string multiset" where
  "places w = outside w + mset (map sl_id (phase_slots (w_phase w)))"

text \<open>
  What the phases promise: from the end of the serve on the future of the slot in hand is
  resolved, and only a fan-out has riders.
\<close>

definition promised :: "worker \<Rightarrow> bool" where
  "promised w \<longleftrightarrow>
     (case w_phase w of
        WAdmitting sl h kas \<Rightarrow> w_anchor_in w
      | WDraining sl h \<Rightarrow> w_anchor_in w \<or> settled sl
      | p \<Rightarrow> w_inflight w = [] \<and> \<not> w_anchor_in w \<and>
          (case p of
             WServed sl h \<Rightarrow> settled sl
           | WGrace sl h d \<Rightarrow> settled sl
           | WPromoting sl m h d \<Rightarrow> settled sl
           | WMatching sl m h d \<Rightarrow> settled sl
           | WClosing sl reason \<Rightarrow> reason = UNHEALTHY \<or> settled sl
           | WUnwinding sl None \<Rightarrow> settled sl
           | WUnwinding sl (Some e) \<Rightarrow> e = Cancelled \<longrightarrow> w_faults w \<noteq> 0
           | WRescuing sl e \<Rightarrow> settled sl
           | _ \<Rightarrow> True))"

definition ledger :: "worker \<Rightarrow> bool" where
  "ledger w \<longleftrightarrow> (\<forall>sl \<in> set (w_done w). settled sl) \<and> (\<forall>sl \<in> set (w_lost w). \<not> settled sl) \<and>
     (w_faults w = 0 \<longrightarrow> w_lost w = [])"

definition books_inv :: "worker \<Rightarrow> bool" where
  "books_inv w \<longleftrightarrow>
     queue_inv (w_queue w) \<and> (closed (w_queue w) \<longrightarrow> w_phase w = WHalted) \<and>
     mset (w_accepted w) = places w \<and> distinct (w_accepted w) \<and> promised w \<and> ledger w"

lemma outside_simps [simp]:
  "outside (goto p w) = outside w"
  "outside (set_current sl w) = outside w"
  "outside (set_active h w) = outside w"
  "outside (retire sl w) = add_mset (sl_id sl) (outside w)"
  "outside (retire_all sls w) = mset (map sl_id sls) + outside w"
proof -
  show r: "outside (retire sl w) = add_mset (sl_id sl) (outside w)" for sl w
    by (simp add: outside_def retire_def)
  show "outside (retire_all sls w) = mset (map sl_id sls) + outside w"
    by (induction sls arbitrary: w) (simp_all add: r)
qed (simp_all add: outside_def)

lemma same_requests_outside: "same_requests w w' \<Longrightarrow> outside w' = outside w"
  by (simp add: same_requests_def outside_def)

lemma outside_ops [simp]:
  "outside (reaped r h w) = outside w"
  "outside (snd (teardown_active r w)) = outside w"
  "outside (snd (begin_idle_teardown w)) = outside w"
  "outside (end_idle_teardown r h w) = outside w"
  "outside (finally_reap r w) = outside w"
  "outside (snd (force_cold r sl w)) = outside w"
  "outside (idle_tick now w) = outside w"
  by (rule same_requests_outside, rule same_requests_ops)+

lemma ledger_simps [simp]:
  "ledger (goto p w) = ledger w"
  "ledger (set_current sl w) = ledger w"
  "ledger (set_active h w) = ledger w"
  "settled sl \<Longrightarrow> ledger (retire sl w) = ledger w"
  "w_faults w \<noteq> 0 \<Longrightarrow> ledger (retire sl w) = ledger w"
  by (auto simp: ledger_def retire_def)

lemma ledger_retire_all:
  "(\<forall>sl \<in> set sls. settled sl) \<or> w_faults w \<noteq> 0 \<Longrightarrow> ledger (retire_all sls w) = ledger w"
  by (induction sls arbitrary: w) auto

lemma same_requests_ledger: "same_requests w w' \<Longrightarrow> ledger w' = ledger w"
  by (simp add: same_requests_def ledger_def)

lemma ledger_ops [simp]:
  "ledger (reaped r h w) = ledger w"
  "ledger (snd (teardown_active r w)) = ledger w"
  "ledger (snd (begin_idle_teardown w)) = ledger w"
  "ledger (end_idle_teardown r h w) = ledger w"
  "ledger (finally_reap r w) = ledger w"
  "ledger (snd (force_cold r sl w)) = ledger w"
  "ledger (idle_tick now w) = ledger w"
  by (rule same_requests_ledger, rule same_requests_ops)+

lemma settled_settle [simp]: "settled (settle out sl)"
  by (cases out) (simp_all add: settle_def)

lemma settle_frame [simp]:
  "sl_id (settle out sl) = sl_id sl" "sl_state (settle out sl) = sl_state sl"
  "sl_model_tag (settle out sl) = sl_model_tag sl" "sl_pid (settle out sl) = sl_pid sl"
  by (cases out; simp add: settle_def)+

lemma settled_sels [simp]:
  "settled (sl\<lparr>sl_state := t\<rparr>) = settled sl"
  "settled (sl\<lparr>sl_port := p\<rparr>) = settled sl"
  "settled (sl\<lparr>sl_pid := p\<rparr>) = settled sl"
  "settled (sl\<lparr>sl_extension_count := n\<rparr>) = settled sl"
  "settled (sl\<lparr>sl_started_active_at := x\<rparr>) = settled sl"
  "settled (sl\<lparr>sl_grace_started_at := x\<rparr>) = settled sl"
  "settled (sl\<lparr>sl_stream_handle := y\<rparr>) = settled sl"
  "settled (sl\<lparr>sl_stream_done := z\<rparr>) = settled sl"
  "settled (sl\<lparr>sl_stream_ready := z\<rparr>) = settled sl"
  "settled (hand_over h sl) = settled sl" "sl_id (hand_over h sl) = sl_id sl"
  "settled (on_sidecar h sl) = settled sl" "sl_id (on_sidecar h sl) = sl_id sl"
  by (simp_all add: settled_def hand_over_def on_sidecar_def)

lemma run_transitions_keeps:
  "run_transitions sl ts = Inr sl' \<Longrightarrow> sl_id sl' = sl_id sl \<and> settled sl' = settled sl"
proof -
  assume "run_transitions sl ts = Inr sl'"
  from run_transitions_only_state [OF this] obtain t where "sl' = sl\<lparr>sl_state := t\<rparr>" by blast
  then show ?thesis by simp
qed

lemma outside_updates [simp]:
  "outside (w_phase_update f1 w) = outside w"
  "outside (w_active_update f2 w) = outside w"
  "outside (w_current_update f3 w) = outside w"
  "outside (w_idle_update f4 w) = outside w"
  "outside (w_idle_expires_update f5 w) = outside w"
  "outside (w_keep_alive_update f6 w) = outside w"
  "outside (w_anchor_in_update f7 w) = outside w"
  "outside (w_stale_update f8 w) = outside w"
  "outside (w_grace_update f9 w) = outside w"
  "outside (w_idle_timer_update f10 w) = outside w"
  "outside (w_bg_update f11 w) = outside w"
  "outside (w_spawn_seq_update f12 w) = outside w"
  "outside (w_evictions_update f13 w) = outside w"
  "outside (w_stop_update f14 w) = outside w"
  "outside (w_reaping_update f15 w) = outside w"
  "outside (w_stray_update f16 w) = outside w"
  "outside (w_procs_update f17 w) = outside w"
  "outside (w_pids_update f18 w) = outside w"
  "outside (w_accepted_update f19 w) = outside w"
  "outside (w_faults_update f20 w) = outside w"
  by (simp_all add: outside_def)

lemma ledger_updates [simp]:
  "ledger (w_phase_update f21 w) = ledger w"
  "ledger (w_active_update f22 w) = ledger w"
  "ledger (w_current_update f23 w) = ledger w"
  "ledger (w_idle_update f24 w) = ledger w"
  "ledger (w_idle_expires_update f25 w) = ledger w"
  "ledger (w_keep_alive_update f26 w) = ledger w"
  "ledger (w_anchor_in_update f27 w) = ledger w"
  "ledger (w_stale_update f28 w) = ledger w"
  "ledger (w_grace_update f29 w) = ledger w"
  "ledger (w_idle_timer_update f30 w) = ledger w"
  "ledger (w_bg_update f31 w) = ledger w"
  "ledger (w_spawn_seq_update f32 w) = ledger w"
  "ledger (w_evictions_update f33 w) = ledger w"
  "ledger (w_stop_update f34 w) = ledger w"
  "ledger (w_reaping_update f35 w) = ledger w"
  "ledger (w_stray_update f36 w) = ledger w"
  "ledger (w_procs_update f37 w) = ledger w"
  "ledger (w_pids_update f38 w) = ledger w"
  "ledger (w_accepted_update f39 w) = ledger w"
  "ledger (w_queue_update f40 w) = ledger w"
  "ledger (w_inflight_update f41 w) = ledger w"
  by (simp_all add: ledger_def)

lemma ledger_fault [simp]: "ledger w \<Longrightarrow> ledger (w\<lparr>w_faults := Suc n\<rparr>)"
  by (simp add: ledger_def)

lemma outside_queue:
  "outside (w\<lparr>w_queue := q\<rparr>) + mset (pending (w_queue w)) = outside w + mset (pending q)"
  by (simp add: outside_def)

lemma outside_pop:
  assumes "mset (pending (w_queue w)) = mset (pending q) + {#x#}"
  shows "outside w = add_mset x (outside (w\<lparr>w_queue := q\<rparr>))"
  using assms by (simp add: outside_def)

lemma outside_same_pending:
  "mset (pending q) = mset (pending (w_queue w)) \<Longrightarrow> outside (w\<lparr>w_queue := q\<rparr>) = outside w"
  by (simp add: outside_def)

text \<open>What the queue does for the worker.\<close>

lemma worker_pop:
  assumes "queue_inv (w_queue w)" and "pop_next (w_queue w) now warm = (r, q)"
  obtains (none) "r = Inr None" "queue_inv q" "closed q = closed (w_queue w)"
      "outside (w\<lparr>w_queue := q\<rparr>) = outside w"
    | (one) sl where "r = Inr (Some sl)" "queue_inv q" "closed q = closed (w_queue w)"
      "outside w = add_mset (sl_id sl) (outside (w\<lparr>w_queue := q\<rparr>))" "sl_state sl = STAGED"
proof -
  have ok: "pop_ok (w_queue w) (r, q)" using pop_next_ok [OF assms(1), of now warm] assms(2) by simp
  show thesis
  proof (cases r)
    case (Inl e)
    with ok show thesis by (simp add: pop_ok_def)
  next
    case (Inr x)
    show thesis
    proof (cases x)
      case None
      with ok Inr none show thesis by (simp add: pop_ok_def conserves_def outside_same_pending)
    next
      case (Some sl)
      with ok Inr have "mset (pending (w_queue w)) = mset (pending q) + {#sl_id sl#}"
        by (auto simp: pop_ok_def)
      with ok Inr Some one outside_pop show thesis by (simp add: pop_ok_def conserves_def)
    qed
  qed
qed

lemma worker_match:
  assumes "queue_inv (w_queue w)" and "pop_matched_thread (w_queue w) thread tag = (r, q)"
  obtains (none) "r = None" "q = w_queue w"
    | (one) sl where "r = Some sl" "queue_inv q" "closed q = closed (w_queue w)"
      "outside w = add_mset (sl_id sl) (outside (w\<lparr>w_queue := q\<rparr>))" "sl_state sl = STAGED"
      "sl_model_tag sl = tag"
proof (cases r)
  case None
  with assms(2) none show thesis
    by (auto simp: pop_matched_thread_def split: if_splits option.splits)
next
  case (Some sl)
  from assms(2) Some obtain m stg where m: "pop_match (thread_match thread tag) (staging (w_queue w)) = Some (m, stg)"
    and q: "sl = flag_evicted m" "q = (w_queue w)\<lparr>staging := stg\<rparr>"
    by (auto simp: pop_matched_thread_def split: if_splits option.splits)
  from pop_match_Some [OF m] obtain us vs where us: "staging (w_queue w) = us @ m # vs"
    "thread_match thread tag m" by blast
  with assms(1) have "sl_state m = STAGED" by (simp add: queue_inv_def)
  with q have st: "sl_state sl = STAGED" by simp
  from us q have tag: "sl_model_tag sl = tag" by (simp add: thread_match_def)
  from pop_matched_books [OF assms(1) assms(2) [unfolded Some]] q st tag Some one outside_pop
  show thesis by simp
qed

lemma closed_enqueue_head: "enqueue_head q sl = Inr (q', sl') \<Longrightarrow> closed q' = closed q"
  by (auto simp: enqueue_head_def split: if_splits sum.splits)

lemma worker_push_back:
  assumes "queue_inv q" and "\<not> closed q" and "sl_state x = STAGED"
  obtains q' where "enqueue_head q x = Inr (q', x)" "queue_inv q'" "\<not> closed q'"
    "outside (w\<lparr>w_queue := q'\<rparr>) = add_mset (sl_id x) (outside (w\<lparr>w_queue := q\<rparr>))"
proof -
  from assms(2,3) obtain q' where q': "enqueue_head q x = Inr (q', x)"
    by (auto simp: enqueue_head_def)
  from enqueue_head_books [OF assms(1) q'] closed_enqueue_head [OF q'] assms(2) q' that
  show thesis by (simp add: outside_def)
qed

subsection \<open>Every step keeps the books\<close>

lemma books_hop:
  assumes "books_inv (goto (WUnwinding sl (Some (IllegalHop (sl_state sl) t))) w)"
    and "can_move (sl_state sl) t \<Longrightarrow> books_inv (k (sl\<lparr>sl_state := t\<rparr>))"
  shows "books_inv (hop sl t k w)"
  using assms by (auto simp: hop_def split: sum.splits)

lemma booksI:
  assumes "queue_inv (w_queue w)" and "closed (w_queue w) \<longrightarrow> w_phase w = WHalted"
    and "mset (w_accepted w) = outside w + mset (map sl_id (phase_slots (w_phase w)))"
    and "distinct (w_accepted w)" and "promised w" and "ledger w"
  shows "books_inv w"
  using assms by (simp add: books_inv_def places_def)

lemma booksD:
  assumes "books_inv w"
  shows "queue_inv (w_queue w)" and "closed (w_queue w) \<longrightarrow> w_phase w = WHalted"
    and "mset (w_accepted w) = outside w + mset (map sl_id (phase_slots (w_phase w)))"
    and "distinct (w_accepted w)" and "promised w" and "ledger w"
  using assms by (simp_all add: books_inv_def places_def)

text \<open>The worker is in some phase other than a fan-out: no riders.\<close>

lemma promised_alone:
  assumes "promised w" and "\<forall>sl h kas. w_phase w \<noteq> WAdmitting sl h kas" and "\<forall>sl h. w_phase w \<noteq> WDraining sl h"
  shows "w_inflight w = []" and "\<not> w_anchor_in w"
  using assms by (auto simp: promised_def split: wphase.splits)

lemma books_accept:
  assumes "books_inv w" and "sl_id sl \<notin> set (w_accepted w)"
    and "enqueue (w_queue w) sl = Inr (q, sl') \<or> enqueue_head (w_queue w) sl = Inr (q, sl')"
  shows "books_inv (w\<lparr>w_queue := q, w_accepted := w_accepted w @ [sl_id sl]\<rparr>)"
proof -
  have q: "queue_inv q \<and> mset (pending q) = mset (pending (w_queue w)) + {#sl_id sl#}"
    using assms(3) enqueue_books enqueue_head_books booksD(1) [OF assms(1)] by blast
  have "closed q = closed (w_queue w)"
    using assms(3) closed_enqueue_head by (auto simp: enqueue_def split: if_splits sum.splits)
  moreover from q have "outside (w\<lparr>w_queue := q\<rparr>) = add_mset (sl_id sl) (outside w)"
    by (simp add: outside_def)
  ultimately show ?thesis
    using booksD [OF assms(1)] assms(2) q
    by (intro booksI) (simp_all add: promised_def cong: wphase.case_cong)
qed

lemma books_grace: "books_inv (w\<lparr>w_grace := g\<rparr>) = books_inv w"
  by (simp add: books_inv_def places_def promised_def cong: wphase.case_cong)

lemma books_submit:
  assumes "books_inv w" and "sl_id sl \<notin> set (w_accepted w)" and "submit_request now sl w = Inr w'"
  shows "books_inv w'"
proof -
  obtain q sl' g where
    "w' = (w\<lparr>w_queue := q, w_accepted := w_accepted w @ [sl_id sl]\<rparr>)\<lparr>w_grace := g\<rparr>"
    "enqueue (w_queue w) sl = Inr (q, sl') \<or> enqueue_head (w_queue w) sl = Inr (q, sl')"
  proof (cases "grace_matches (w_grace w) now (sl_thread_id sl) (sl_model_tag sl)")
    case True
    with assms(3) that [where g = "snd (restart_for_followup (w_grace w) now)"] show thesis
      by (auto simp: submit_request_def split: if_splits)
  next
    case False
    with assms(3) that [where g = "w_grace w"] show thesis
      by (auto simp: submit_request_def split: if_splits)
  qed
  with books_accept [OF assms(1,2)] show ?thesis by (simp only: books_grace)
qed

lemma books_poll:
  assumes "books_inv w" and "w_phase w = WPolling"
  shows "books_inv (poll_turn now w)"
proof -
  obtain r q where pop: "pop_next (w_queue w) now (warm_hint w) = (r, q)" by fastforce
  note b = booksD [OF assms(1)]
  from promised_alone [OF b(5)] assms(2) have alone: "w_inflight w = []" "\<not> w_anchor_in w" by simp_all
  show ?thesis
  proof (cases "w_stop w")
    case True
    with b assms(2) alone show ?thesis by (intro booksI) (simp_all add: poll_turn_def promised_def)
  next
    case False
    from b(1) pop show ?thesis
    proof (cases rule: worker_pop)
      case none
      with False b assms(2) alone pop show ?thesis
        by (intro booksI) (simp_all add: poll_turn_def promised_def)
    next
      case (one sl)
      with False b assms(2) alone pop show ?thesis
        by (intro booksI) (simp_all add: poll_turn_def promised_def)
    qed
  qed
qed

text \<open>
  The shape of most steps: the same requests outside, the same slot in hand, a new phase.
\<close>

definition keeps_hand :: "worker \<Rightarrow> worker \<Rightarrow> bool" where
  "keeps_hand w w' \<longleftrightarrow>
     w_queue w' = w_queue w \<and> outside w' = outside w \<and> w_accepted w' = w_accepted w \<and> ledger w' \<and>
     map sl_id (phase_slots (w_phase w')) = map sl_id (phase_slots (w_phase w))"

lemma books_keeps_hand:
  assumes "books_inv w" and "w_phase w \<noteq> WHalted" and "keeps_hand w w'" and "promised w'"
  shows "books_inv w'"
  using booksD [OF assms(1)] assms(2-)
  by (intro booksI) (auto simp: keeps_hand_def simp flip: mset_map)

lemma books_open:
  assumes "books_inv w" and "w_phase w = WOpening sl"
  shows "books_inv (read_and_open text_of now read sl w)"
proof -
  note b = booksD [OF assms(1)]
  from promised_alone [OF b(5)] assms(2) have alone: "w_inflight w = []" "\<not> w_anchor_in w" by simp_all
  have failed: "books_inv (goto (WUnwinding sl (Some (OtherExc s))) (w\<lparr>w_faults := Suc (w_faults w)\<rparr>))" for s
    using b assms(2) alone
    by (intro books_keeps_hand [OF assms(1)]) (simp_all add: keeps_hand_def promised_def)
  have "books_inv (open_slot now found argv sl w)" for found argv
    using b(6) assms(2) alone
    by (intro books_keeps_hand [OF assms(1)])
      (auto simp: open_slot_def ends_with_failure_def inherit_def begin_idle_teardown_def keeps_hand_def
        promised_def hop_def split: sum.splits option.splits)
  with failed show ?thesis by (auto simp: read_and_open_def split: sum.splits store_error.splits)
qed

lemma books_swap_done:
  assumes "books_inv w" and "w_phase w = WSwapping sl argv h"
  shows "books_inv (swap_done r sl argv h w)"
  using booksD(6) [OF assms(1)] booksD(5) [OF assms(1), unfolded promised_def assms(2), simplified] assms(2)
  by (intro books_keeps_hand [OF assms(1)]) (simp_all add: swap_done_def keeps_hand_def promised_def)

lemma books_spawn:
  assumes "books_inv w" and "w_phase w = WGating sl argv"
  shows "books_inv (gate_and_spawn gates pid sl argv w)"
  using booksD(6) [OF assms(1)] booksD(5) [OF assms(1), unfolded promised_def assms(2), simplified] assms(2)
  by (intro books_keeps_hand [OF assms(1)])
    (auto simp: gate_and_spawn_def spawn_worker_def ends_with_failure_def Let_def keeps_hand_def
      promised_def hop_def split: sum.splits)

lemma books_health:
  assumes "books_inv w" and "w_phase w = WBooting sl h"
  shows "books_inv (health_answer ok sl h w)"
  using booksD(6) [OF assms(1)] booksD(5) [OF assms(1), unfolded promised_def assms(2), simplified] assms(2)
  by (intro books_keeps_hand [OF assms(1)])
    (auto simp: health_answer_def keeps_hand_def promised_def hop_def split: sum.splits)

lemma books_wake:
  assumes "books_inv w" and "w_phase w = WWaking sl h"
  shows "books_inv (wake now sl h w)"
proof -
  from promised_alone [OF booksD(5) [OF assms(1)]] assms(2)
  have alone: "w_inflight w = []" "\<not> w_anchor_in w" by simp_all
  then have same: "w\<lparr>w_keep_alive := k, w_inflight := []\<rparr> = w\<lparr>w_keep_alive := k\<rparr>" for k by simp
  show ?thesis
    using booksD(6) [OF assms(1)] assms(2) alone
    by (intro books_keeps_hand [OF assms(1)])
      (auto simp: wake_def Let_def keeps_hand_def promised_def hop_def same split: sum.splits)
qed

lemma books_serve:
  assumes "books_inv w" and "w_phase w = WServing sl h st"
  shows "books_inv (serve_done out sl h st w)"
  using booksD(6) [OF assms(1)] booksD(5) [OF assms(1), unfolded promised_def assms(2), simplified] assms(2)
  by (intro books_keeps_hand [OF assms(1)])
    (auto simp: serve_done_def keeps_hand_def promised_def split: sum.splits)

lemma books_served:
  assumes "books_inv w" and "w_phase w = WServed sl h"
  shows "books_inv (served now sl h w)"
  using booksD(6) [OF assms(1)] booksD(5) [OF assms(1), unfolded promised_def assms(2), simplified] assms(2)
  by (intro books_keeps_hand [OF assms(1)])
    (auto simp: served_def keeps_hand_def promised_def hop_def split: sum.splits)

lemma books_close:
  assumes "books_inv w" and "w_phase w = WClosing sl reason"
  shows "books_inv (close_done now r sl reason w)"
proof -
  obtain ok w1 where t: "teardown_active r w = (ok, w1)" by fastforce
  with same_requests_ops(2) [of w r] have same: "same_requests w w1" by simp
  then have w1: "w_queue w1 = w_queue w" "w_accepted w1 = w_accepted w" "w_inflight w1 = w_inflight w"
    "w_anchor_in w1 = w_anchor_in w"
    by (simp_all add: same_requests_def)
  note w1 = w1 same_requests_outside [OF same] same_requests_ledger [OF same]
  from booksD(5) [OF assms(1)] assms(2)
  have alone: "w_inflight w = []" "\<not> w_anchor_in w" and sl: "reason = UNHEALTHY \<or> settled sl"
    by (simp_all add: promised_def)
  show ?thesis
  proof (cases ok)
    case False
    with alone w1 t assms(2) booksD(6) [OF assms(1)] show ?thesis
      by (intro books_keeps_hand [OF assms(1)]) (simp_all add: close_done_def keeps_hand_def promised_def)
  next
    case True
    with alone sl w1 t assms(2) booksD(6) [OF assms(1)] show ?thesis
      by (intro books_keeps_hand [OF assms(1)]) (auto simp: close_done_def keeps_hand_def promised_def)
  qed
qed

lemma books_interrupt_simple:
  assumes "books_inv w" and "phase_slots (w_phase w) = [sl]" and "w_phase w \<noteq> WHalted"
    and "w_inflight w = []" and "\<not> w_anchor_in w" and "same_requests w w'"
  shows "books_inv (goto (WUnwinding sl (Some e)) (w'\<lparr>w_faults := Suc n\<rparr>))"
proof (rule books_keeps_hand [OF assms(1,3)])
  show "keeps_hand w (goto (WUnwinding sl (Some e)) (w'\<lparr>w_faults := Suc n\<rparr>))"
    using assms booksD(6) [OF assms(1)] same_requests_outside [OF assms(6)] same_requests_ledger [OF assms(6)]
    by (simp add: keeps_hand_def same_requests_def)
qed (use assms in \<open>simp add: promised_def same_requests_def\<close>)

text \<open>Under the invariant an admission never raises.\<close>

lemma books_admit_next:
  assumes "books_inv w" and "w_phase w = WAdmitting sl h kas \<or> w_phase w = WDraining sl h"
    and "admit_next now r sl h w = (a, w')"
  shows "books_inv w' \<and> w_phase w' = w_phase w \<and> w_anchor_in w' = w_anchor_in w \<and>
         w_faults w' = w_faults w \<and> (\<forall>e. a \<noteq> ARaise e) \<and>
         w_inflight w' = w_inflight w @ (case a of AJoin x \<Rightarrow> [x] | _ \<Rightarrow> [])"
proof (cases "full_house h w")
  case True
  with assms show ?thesis by (auto simp: admit_next_def)
next
  case False
  note b = booksD [OF assms(1)]
  from b(2) assms(2) have open': "\<not> closed (w_queue w)" by auto
  have keep: "books_inv u \<and> w_phase u = w_phase w \<and> w_anchor_in u = w_anchor_in w \<and> w_faults u = w_faults w"
    if "queue_inv (w_queue u)" "\<not> closed (w_queue u)" "w_phase u = w_phase w" "w_accepted u = w_accepted w"
      "outside u = outside w" "ledger u" "w_anchor_in u = w_anchor_in w" "w_faults u = w_faults w" for u
    using that b assms(2) by (auto intro!: booksI simp: promised_def)
  obtain y q where pop: "pop_next (w_queue w) now (Some (sl_model_tag sl)) = (y, q)" by fastforce
  have next': "(a, w') = (case y of Inl e \<Rightarrow> (ARaise e, w\<lparr>w_queue := q\<rparr>)
      | Inr None \<Rightarrow> (AStop, w\<lparr>w_queue := q\<rparr>)
      | Inr (Some x) \<Rightarrow> admit_popped now r sl h x (w\<lparr>w_queue := q\<rparr>))"
    using False assms(3) pop by (simp add: admit_next_def)
  from b(1) pop show ?thesis
  proof (cases rule: worker_pop)
    case none
    with next' have "a = AStop" "w' = w\<lparr>w_queue := q\<rparr>" by simp_all
    with none b(6) open' keep [of "w\<lparr>w_queue := q\<rparr>"] show ?thesis by simp
  next
    case (one x)
    let ?v = "w\<lparr>w_queue := q\<rparr>"
    consider (other) "sl_model_tag x \<noteq> sl_model_tag sl \<or> wants_stream x \<noteq> wants_stream sl"
      | (gone) "\<not> (sl_model_tag x \<noteq> sl_model_tag sl \<or> wants_stream x \<noteq> wants_stream sl)" "sl_is_evicted x"
      | (join) "\<not> (sl_model_tag x \<noteq> sl_model_tag sl \<or> wants_stream x \<noteq> wants_stream sl)" "\<not> sl_is_evicted x"
      by blast
    then show ?thesis
    proof cases
      case other
      from worker_push_back [OF one(2) _ one(5), of w] one(3) open'
      obtain q' where q': "enqueue_head q x = Inr (q', x)" "queue_inv q'" "\<not> closed q'"
        "outside (w\<lparr>w_queue := q'\<rparr>) = add_mset (sl_id x) (outside ?v)" by auto
      from other next' one(1) q' have "a = AStop" "w' = w\<lparr>w_queue := q'\<rparr>"
        by (auto simp: admit_popped_def)
      with one q' b(6) keep [of "w\<lparr>w_queue := q'\<rparr>"] show ?thesis by simp
    next
      case gone
      with next' one(1) have "a = ASkip" "w' = retire (fail_completion_future x SlotEvicted) ?v"
        by (auto simp: admit_popped_def)
      with one b(6) open' keep [of w'] show ?thesis by simp
    next
      case join
      let ?x = "(on_sidecar h x)\<lparr>sl_state := ACTIVE\<rparr>"
      have "sl_state (on_sidecar h x) = STAGED" using one by (simp add: on_sidecar_def)
      then have "run_transitions (on_sidecar h x) [LOADING, ACTIVE] = Inr ?x" by simp
      with join next' one(1) obtain z where
        "a = AJoin z" "w' = w\<lparr>w_queue := q, w_inflight := w_inflight w @ [z]\<rparr>" "sl_id z = sl_id x"
        by (auto simp: admit_popped_def Let_def)
      moreover have "outside (w\<lparr>w_queue := q, w_inflight := w_inflight w @ [z]\<rparr>) = add_mset (sl_id z) (outside ?v)" for z
        by (simp add: outside_def)
      ultimately show ?thesis using one b(6) open' keep [of w'] by simp
    qed
  qed
qed

lemma books_admission_aborted:
  assumes "books_inv w" and "w_phase w = WAdmitting sl h kas"
  shows "books_inv (admission_aborted e sl w)"
proof -
  have "mset (map sl_id (w_inflight w)) + outside (w\<lparr>w_inflight := []\<rparr>) = outside w" by (simp add: outside_def)
  then show ?thesis
    using booksD [OF assms(1)] assms(2)
    by (intro booksI) (simp_all add: admission_aborted_def promised_def ledger_retire_all flip: mset_map)
qed

lemma books_keep_alive: "books_inv (w\<lparr>w_keep_alive := k\<rparr>) = books_inv w"
  by (simp add: books_inv_def places_def promised_def cong: wphase.case_cong)

lemma books_admission_over:
  assumes "books_inv w" and "w_phase w = WAdmitting sl h kas"
  shows "books_inv (admission_over sl h kas' w)"
proof -
  let ?w = "w\<lparr>w_keep_alive := max_keep_alive kas'\<rparr>"
  have b: "books_inv ?w" "w_phase ?w = WAdmitting sl h kas" using assms by (simp_all add: books_keep_alive)
  have "w_anchor_in w" using booksD(5) [OF assms(1)] assms(2) by (simp add: promised_def)
  then have "books_inv (goto (WDraining sl h) ?w)"
    using booksD(6) [OF assms(1)] assms(2)
    by (intro books_keeps_hand [OF assms(1)]) (simp_all add: keeps_hand_def promised_def)
  with books_admission_aborted [OF b] show ?thesis
    by (simp add: admission_over_def Let_def)
qed

lemma books_admit:
  assumes "books_inv w" and "w_phase w = WAdmitting sl h kas"
  shows "books_inv (admit_turn now r sl h kas w)"
proof -
  obtain a w' where n: "admit_next now r sl h w = (a, w')" by fastforce
  from books_admit_next [OF assms(1) disjI1 [OF assms(2)] n]
  have w': "books_inv w'" "w_phase w' = WAdmitting sl h kas" "\<forall>e. a \<noteq> ARaise e"
    using assms(2) by simp_all
  have "books_inv (goto (WAdmitting sl h kas') w')" for kas'
    using booksD(5,6) [OF w'(1)] w'(2)
    by (intro books_keeps_hand [OF w'(1)]) (simp_all add: keeps_hand_def promised_def)
  with w' n books_admission_over [OF w'(1,2)] show ?thesis
    by (cases a) (simp_all add: admit_turn_def)
qed

lemma promised_draining:
  assumes "books_inv w" and "w_phase w = WDraining sl h"
  shows "w_anchor_in w \<or> settled sl"
  using booksD(5) [OF assms(1)] assms(2) by (simp add: promised_def)

lemma books_rider:
  assumes "books_inv w" and "w_phase w = WDraining sl h" and "i < length (w_inflight w)"
  shows "books_inv (rider_finishes i out r sl w)"
proof -
  let ?x = "(settle (rider_outcome sl out) (w_inflight w ! i))\<lparr>sl_pid := None\<rparr>"
  obtain y w1 where f: "force_cold r ?x w = (y, w1)" by fastforce
  have y: "sl_id y = sl_id (w_inflight w ! i)" "settled y"
    using force_cold_slot [of r ?x w] f by simp_all
  have same: "same_requests w w1" using same_requests_ops(6) [of w r ?x] f by simp
  let ?rest = "take i (w_inflight w) @ drop (Suc i) (w_inflight w)"
  let ?w = "retire y (w1\<lparr>w_inflight := ?rest\<rparr>)"
  have fl: "w_inflight w = take i (w_inflight w) @ w_inflight w ! i # drop (Suc i) (w_inflight w)"
    using assms(3) by (rule id_take_nth_drop)
  have "mset (map sl_id (w_inflight w)) = add_mset (sl_id (w_inflight w ! i)) (mset (map sl_id ?rest))"
    by (subst fl) simp
  with same y(1) have "add_mset (sl_id y) (outside (w1\<lparr>w_inflight := ?rest\<rparr>)) = outside w"
    by (simp add: outside_def same_requests_def flip: mset_map)
  then have "outside ?w = outside w" by simp
  moreover have "rider_finishes i out r sl w = ?w"
    using f same by (simp add: rider_finishes_def Let_def same_requests_def)
  ultimately show ?thesis
    using same y(2) booksD(6) [OF assms(1)] assms(2) promised_draining [OF assms(1,2)]
      same_requests_ledger [OF same]
    by (intro books_keeps_hand [OF assms(1)])
      (simp_all add: keeps_hand_def promised_def same_requests_def)
qed

lemma books_anchor:
  assumes "books_inv w" and "w_phase w = WDraining sl h"
  shows "books_inv (anchor_finishes out sl h w)"
  using booksD(6) [OF assms(1)] assms(2)
  by (intro books_keeps_hand [OF assms(1)]) (simp_all add: anchor_finishes_def keeps_hand_def promised_def)

lemma books_drained:
  assumes "books_inv w" and "w_phase w = WDraining sl h" and "inflight_count w = 0"
  shows "books_inv (goto (WServed sl h) w)"
  using booksD(6) [OF assms(1)] assms(2,3) promised_draining [OF assms(1,2)]
  by (intro books_keeps_hand [OF assms(1)])
    (simp_all add: keeps_hand_def promised_def inflight_count_def split: if_splits)

lemma books_drain:
  assumes "books_inv w" and "w_phase w = WDraining sl h"
  shows "books_inv (drain_turn now r sl h w)"
proof -
  obtain a w' where n: "admit_next now r sl h w = (a, w')" by fastforce
  from books_admit_next [OF assms(1) disjI2 [OF assms(2)] n]
  have w': "books_inv w'" "w_phase w' = WDraining sl h" "\<forall>e. a \<noteq> ARaise e"
    using assms(2) by simp_all
  with n books_drained [OF assms] books_drained [OF w'(1,2)] assms(1) show ?thesis
    by (cases a) (simp_all add: drain_turn_def)
qed

lemma abort_rider_id [simp]: "sl_id (abort_rider st x) = sl_id x"
  by (simp add: abort_rider_def)

lemma abort_rider_settled [simp]: "settled (abort_rider st x) \<longleftrightarrow> \<not> st \<or> settled x"
  by (simp add: abort_rider_def)

lemma books_drain_aborted:
  assumes "books_inv w" and "w_phase w = WDraining sl h"
  shows "books_inv (drain_aborted e sl w)"
proof -
  have "mset (map sl_id (w_inflight w)) + outside (w\<lparr>w_inflight := []\<rparr>) = outside w" by (simp add: outside_def)
  then show ?thesis
    using booksD [OF assms(1)] assms(2)
    by (intro booksI)
      (simp_all add: drain_aborted_def promised_def ledger_retire_all comp_def flip: mset_map)
qed

lemma books_grace_over:
  assumes "books_inv w" and "w_phase w = WGrace sl h d"
  shows "books_inv (grace_over now sl h w)"
  using booksD(6) [OF assms(1)] booksD(5) [OF assms(1), unfolded promised_def assms(2), simplified] assms(2)
  by (intro books_keeps_hand [OF assms(1)])
    (auto simp: grace_over_def keeps_hand_def promised_def hop_def Let_def split: sum.splits option.splits)

text \<open>A follow-up leaves the hand of the worker; the anchor is on its own again.\<close>

lemma books_match_leaves:
  assumes "queue_inv (w_queue w)" and "\<not> closed (w_queue w)" and "distinct (w_accepted w)"
    and "mset (w_accepted w) = outside w + {#sl_id sl, sl_id m#}" and "ledger w"
    and "w_inflight w = []" and "\<not> w_anchor_in w" and "settled sl"
    and "sl_id m' = sl_id m" and "settled m'" and "same_requests w w'"
  shows "books_inv (goto (WGrace sl h d) (set_current sl (retire m' w')))"
  using assms(1-10) assms(11) [unfolded same_requests_def] same_requests_outside [OF assms(11)]
    same_requests_ledger [OF assms(11)]
  by (intro booksI) (simp_all add: promised_def add_mset_commute)

lemma books_grace_turn:
  assumes "books_inv w" and "w_phase w = WGrace sl h d"
  shows "books_inv (grace_turn now r sl h d w)"
proof -
  note b = booksD [OF assms(1)]
  from b(2,5) assms(2) have p: "settled sl" "w_inflight w = []" "\<not> w_anchor_in w" "\<not> closed (w_queue w)"
    by (simp_all add: promised_def)
  obtain y q where pop: "pop_matched_thread (w_queue w) (sl_thread_id sl) (sl_model_tag sl) = (y, q)" by fastforce
  show ?thesis
  proof (cases "d \<le> now \<or> w_stop w")
    case True
    with books_grace_over [OF assms] show ?thesis by (simp add: grace_turn_def)
  next
    case False
    from b(1) pop show ?thesis
    proof (cases rule: worker_match)
      case none
      with False pop assms(1) show ?thesis by (simp add: grace_turn_def)
    next
      case (one m)
      let ?m = "(on_sidecar h m)\<lparr>sl_state := ACTIVE_MATCH\<rparr>"
      have "sl_state (on_sidecar h m) = STAGED" using one by (simp add: on_sidecar_def)
      with False pop one have "grace_turn now r sl h d w =
          goto (WPromoting sl ?m h d) (set_current (on_sidecar h m) (w\<lparr>w_queue := q\<rparr>))"
        by (simp add: grace_turn_def Let_def)
      with b p one assms(2) show ?thesis by (intro booksI) (simp_all add: promised_def add_mset_commute)
    qed
  qed
qed

lemma books_match_drift:
  assumes "books_inv w" and "w_phase w = WPromoting sl m h d"
  shows "books_inv (match_drift r e sl m h d w)"
proof -
  let ?m = "fail_completion_future m e"
  obtain y w1 where f: "force_cold r ?m w = (y, w1)" by fastforce
  then have "sl_id y = sl_id m" "settled y" "same_requests w w1"
    using force_cold_slot [of r ?m w] same_requests_ops(6) [of w r ?m] by simp_all
  with f booksD [OF assms(1)] assms(2) show ?thesis
    by (simp add: match_drift_def) (intro books_match_leaves [where m = m and w = w], simp_all add: promised_def)
qed

lemma books_match_over:
  assumes "books_inv w" and "w_phase w = WPromoting sl m0 h d0 \<or> w_phase w = WMatching sl m0 h d0"
    and "sl_id m = sl_id m0"
  shows "books_inv (match_over now out sl m h d (w\<lparr>w_keep_alive := k\<rparr>))"
proof -
  note b = booksD [OF assms(1)]
  from assms(2) b(2,5) have p: "settled sl" "w_inflight w = []" "\<not> w_anchor_in w" "\<not> closed (w_queue w)"
    by (auto simp: promised_def)
  have m: "mset (w_accepted w) = outside w + {#sl_id sl, sl_id m#}" using assms(2,3) b(3) by auto
  have leave: "books_inv (goto (WGrace sl h d') (set_current sl (retire m' (w\<lparr>w_keep_alive := k, w_grace := g\<rparr>))))"
    if "sl_id m' = sl_id m" "settled m'" for m' g d'
    using b p m that by (intro books_match_leaves [where m = m and w = "w\<lparr>w_keep_alive := k, w_grace := g\<rparr>"])
      (simp_all add: same_requests_def)
  show ?thesis
  proof (cases "run_transitions (settle out m) [GRACE, POPPED]")
    case (Inl e)
    then have e: "e \<noteq> Cancelled" by (auto split: sum.splits simp: transition_def split: if_splits)
    with Inl b p m show ?thesis
      by (intro booksI) (simp_all add: match_over_def Let_def promised_def add_mset_commute)
  next
    case (Inr m')
    from run_transitions_keeps [OF this] have "sl_id m' = sl_id m" "settled m'" by simp_all
    with Inr leave leave [where m' = m' and d' = d and g = "w_grace w"] show ?thesis
      by (simp add: match_over_def Let_def split: prod.splits)
  qed
qed

lemma books_promote:
  assumes "books_inv w" and "w_phase w = WPromoting sl m h d"
  shows "books_inv (promote now r sl m h d w)"
proof (cases "transition m ACTIVE")
  case (Inl e)
  with books_match_drift [OF assms] show ?thesis by (simp add: promote_def)
next
  case (Inr m1)
  let ?m = "m1\<lparr>sl_started_active_at := now\<rparr>" and ?w = "w\<lparr>w_keep_alive := keep_alive_of m1\<rparr>"
  from Inr have id: "sl_id ?m = sl_id m" by auto
  have ka: "keep_alive_of ?m = keep_alive_of m1" by (simp add: keep_alive_of_def)
  show ?thesis
  proof (cases "wants_stream ?m \<and> \<not> armed ?m")
    case True
    with Inr ka books_match_over [OF assms(1) disjI1 [OF assms(2)] id] show ?thesis
      by (simp add: promote_def Let_def)
  next
    case False
    with Inr have "promote now r sl m h d w =
        goto (WMatching sl (if wants_stream ?m then hand_over h ?m else ?m) h d) (w\<lparr>w_keep_alive := keep_alive_of ?m\<rparr>)"
      by (auto simp: promote_def Let_def simp del: transition_Inr)
    with id booksD(5,6) [OF assms(1)] assms(2) show ?thesis
      by (intro books_keeps_hand [OF assms(1)]) (simp_all add: keeps_hand_def promised_def)
  qed
qed

lemma books_follow_up_done:
  assumes "books_inv w" and "w_phase w = WMatching sl m h d"
  shows "books_inv (follow_up_done now out sl m h d w)"
  using books_match_over [OF assms(1) disjI2 [OF assms(2)] refl, of now "rider_outcome m out" d "w_keep_alive w"]
  by (simp add: follow_up_done_def)

lemma books_retire_hand:
  assumes "books_inv w" and "phase_slots (w_phase w) = [sl]" and "w_phase w \<noteq> WHalted"
    and "w_inflight w = []" and "\<not> w_anchor_in w" and "same_requests w w'"
    and "sl_id sl' = sl_id sl" and "settled sl' \<or> w_faults w' \<noteq> 0" and "p = WPolling \<or> p = WHalted"
  shows "books_inv (goto p (retire sl' w'))"
proof -
  have "ledger (retire sl' w') = ledger w'" using assms(8) by auto
  with booksD [OF assms(1)] assms same_requests_outside [OF assms(6)] same_requests_ledger [OF assms(6)]
  show ?thesis by (intro booksI) (auto simp: promised_def same_requests_def)
qed

lemma books_unwind:
  assumes "books_inv w" and "w_phase w = WUnwinding sl e"
  shows "books_inv (unwind r sl e w)"
proof -
  let ?w = "finally_reap r (w\<lparr>w_current := None\<rparr>)"
  have same: "same_requests w ?w"
    using same_requests_ops(5) [of "w\<lparr>w_current := None\<rparr>" r] by (simp add: same_requests_def)
  from booksD(5) [OF assms(1)] assms(2) have alone: "w_inflight w = []" "\<not> w_anchor_in w"
    and res: "e = None \<longrightarrow> settled sl" "e = Some Cancelled \<longrightarrow> w_faults w \<noteq> 0"
    by (auto simp: promised_def split: option.splits)
  have f: "w_faults ?w = w_faults w" using same by (simp add: same_requests_def)
  note out = books_retire_hand [OF assms(1), of sl, OF _ _ alone same refl]
  show ?thesis
  proof (cases e)
    case None
    with out res assms(2) show ?thesis by (simp add: unwind_def Let_def)
  next
    case (Some x)
    have "books_inv (goto (WRescuing (fail_completion_future sl x) x) ?w)"
      using same same_requests_outside [OF same] same_requests_ledger [OF same] booksD(6) [OF assms(1)] assms(2) alone
      by (intro books_keeps_hand [OF assms(1)]) (simp_all add: keeps_hand_def promised_def same_requests_def)
    with out res f assms(2) Some show ?thesis by (simp add: unwind_def Let_def)
  qed
qed

lemma books_rescue:
  assumes "books_inv w" and "w_phase w = WRescuing sl e"
  shows "books_inv (rescue r1 r2 db_ok sl w)"
proof -
  let ?w = "snd (teardown_active r1 w)"
  obtain y w1 where f: "force_cold r2 sl ?w = (y, w1)" by fastforce
  have y: "sl_id y = sl_id sl" "settled y = settled sl"
    using force_cold_slot [of r2 sl ?w] f by simp_all
  have "same_requests w ?w" "same_requests ?w w1"
    using same_requests_ops(2) [of w r1] same_requests_ops(6) [of ?w r2 sl] f by simp_all
  then have same: "same_requests w w1" by (simp add: same_requests_def)
  from booksD(5) [OF assms(1)] assms(2) have p: "w_inflight w = []" "\<not> w_anchor_in w" "settled sl"
    by (simp_all add: promised_def)
  show ?thesis
  proof (cases db_ok)
    case True
    with f y p assms(2) books_retire_hand [OF assms(1) _ _ p(1,2) same, of sl y WPolling] show ?thesis
      by (simp add: rescue_def)
  next
    case False
    have "books_inv (goto WHalted (retire y w1))"
      using y p assms(2) books_retire_hand [OF assms(1) _ _ p(1,2) same, of sl y WHalted] by simp
    then have "books_inv (goto WHalted (retire y (w1\<lparr>w_faults := Suc (w_faults w1)\<rparr>)))"
      using y(2) p(3) by (simp add: books_inv_def places_def promised_def)
    with False f show ?thesis by (simp add: rescue_def)
  qed
qed

lemma books_shutdown_tail:
  assumes "books_inv w" and "w_phase w = WHalted"
  shows "books_inv (shutdown_tail w)"
proof -
  obtain cleared q where c: "close (w_queue w) = (cleared, q)" by fastforce
  note b = booksD [OF assms(1)]
  from close_books [OF b(1) c] have q: "queue_inv q" "pending (w_queue w) = map sl_id cleared" "pending q = []"
    by simp_all
  let ?sls = "map (\<lambda>sl. fail_completion_future sl Cancelled) cleared"
  let ?w = "retire_all ?sls (w\<lparr>w_queue := q\<rparr>)"
  have same: "same_requests ?w (snd (begin_idle_teardown ?w))" by (rule same_requests_ops)
  have "outside ?w = mset (map sl_id cleared) + outside (w\<lparr>w_queue := q\<rparr>)"
    by (simp add: comp_def flip: mset_map)
  also have "\<dots> = outside w" using q by (simp add: outside_def flip: mset_map)
  finally have "outside ?w = outside w" .
  moreover have "ledger ?w = ledger w" by (subst ledger_retire_all) simp_all
  ultimately show ?thesis
    using b q assms(2) c same same_requests_outside [OF same] same_requests_ledger [OF same]
    by (intro booksI) (simp_all add: shutdown_tail_def promised_def same_requests_def)
qed

text \<open>An interruption, wherever it hits.\<close>

lemma books_interrupt_match:
  assumes "books_inv w" and "phase_slots (w_phase w) = [sl, m]" and "w_phase w \<noteq> WHalted"
    and "w_inflight w = []" and "\<not> w_anchor_in w" and "sl_id m' = sl_id m"
  shows "books_inv (goto (WUnwinding sl (Some e)) (retire m' (w\<lparr>w_faults := Suc n\<rparr>)))"
proof -
  have "outside (w\<lparr>w_faults := Suc n\<rparr>) = outside w" by simp
  then show ?thesis
    using booksD [OF assms(1)] assms(2-) by (intro booksI) (simp_all add: promised_def add_mset_commute)
qed

lemma books_interrupt:
  assumes "books_inv w" and "interruptible (w_phase w) \<or> e = Cancelled \<and> w_phase w \<noteq> WHalted"
  shows "books_inv (interrupt e out w)"
proof -
  have out': "books_inv (goto WHalted (retire sl (w\<lparr>w_faults := Suc n\<rparr>)))"
    if "phase_slots (w_phase w) = [sl]" "w_phase w \<noteq> WHalted" "w_inflight w = []" "\<not> w_anchor_in w" for sl n
    using booksD [OF assms(1)] that
    by (intro booksI) (simp_all add: promised_def)
  have simple: "books_inv (goto (WUnwinding sl (Some e)) (w\<lparr>w_faults := Suc n\<rparr>))"
    if "phase_slots (w_phase w) = [sl]" "w_phase w \<noteq> WHalted" "w_inflight w = []" "\<not> w_anchor_in w" for sl n
    using books_interrupt_simple [OF assms(1) that, of w] by (simp add: same_requests_def)
  have swap: "books_inv (goto (WUnwinding sl (Some e)) (end_idle_teardown Raises h (w\<lparr>w_faults := Suc n\<rparr>)))"
    if "w_phase w = WSwapping sl argv h" "w_inflight w = []" "\<not> w_anchor_in w" for sl argv h n
  proof -
    have "end_idle_teardown Raises h (w\<lparr>w_faults := Suc n\<rparr>) = (end_idle_teardown Raises h w)\<lparr>w_faults := Suc n\<rparr>"
      by (simp add: end_idle_teardown_def reaped_def)
    then show ?thesis
      using books_interrupt_simple [OF assms(1) _ _ that(2,3) same_requests_ops(4), of sl e] that(1) by simp
  qed
  have halt: "books_inv (goto WHalted (w\<lparr>w_faults := Suc n\<rparr>))" if "w_phase w = WPolling" for n
    using booksD [OF assms(1)] that by (intro booksI) (simp_all add: promised_def)
  have mid: "sl_id (if e = Cancelled then fail_completion_future m e else settle (rider_outcome m out) m) = sl_id m" for m
    by simp
  have alone: "w_inflight w = [] \<and> \<not> w_anchor_in w"
    if "\<forall>sl h kas. w_phase w \<noteq> WAdmitting sl h kas" "\<forall>sl h. w_phase w \<noteq> WDraining sl h"
    using promised_alone [OF booksD(5) [OF assms(1)] that] by blast
  show ?thesis
  proof (cases "w_phase w")
    case (WAdmitting sl h kas)
    then show ?thesis using books_admission_aborted [OF assms(1)] by (simp add: interrupt_def)
  next
    case (WDraining sl h)
    then show ?thesis using books_drain_aborted [OF assms(1)] by (simp add: interrupt_def)
  next
    case (WPromoting sl m h d)
    then show ?thesis using alone books_interrupt_match [OF assms(1), of sl m] by (simp add: interrupt_def)
  next
    case (WMatching sl m h d)
    then show ?thesis
      using alone books_interrupt_match [OF assms(1) _ _ _ _ mid, of sl m] by (simp add: interrupt_def Let_def)
  next
    case (WUnwinding sl x)
    then show ?thesis using alone simple out' by (cases x) (simp_all add: interrupt_def)
  next
    case WHalted
    with assms(2) show ?thesis by (simp add: interruptible_def)
  qed (use alone simple out' swap halt in \<open>simp_all add: interrupt_def Let_def\<close>)
qed

text \<open>What happens around the worker.\<close>

lemma phase_slots_map [simp]: "phase_slots (map_phase f p) = map f (phase_slots p)"
  by (cases p) simp_all

lemma promised_map:
  assumes "\<And>sl. settled (f sl) = settled sl" and "promised w"
    and "w_phase w' = map_phase f (w_phase w)" and "w_inflight w' = map f (w_inflight w)"
    and "w_anchor_in w' = w_anchor_in w" and "w_faults w' = w_faults w"
  shows "promised w'"
  using assms by (cases "w_phase w") (auto simp: promised_def split: option.splits)

lemma books_update_slots:
  assumes "books_inv w" and "\<And>sl. sl_id (f sl) = sl_id sl \<and> sl_state (f sl) = sl_state sl \<and> settled (f sl) = settled sl"
  shows "books_inv (update_slots f w)"
proof -
  let ?w = "update_slots f w"
  note b = booksD [OF assms(1)]
  have m: "map sl_id (map f sls) = map sl_id sls" for sls using assms(2) by simp
  have sels: "w_inflight ?w = map f (w_inflight w)" "w_phase ?w = map_phase f (w_phase w)"
    by (simp_all add: update_slots_def)
  have ids: "map sl_id (w_inflight ?w) = map sl_id (w_inflight w)"
    "map sl_id (phase_slots (w_phase ?w)) = map sl_id (phase_slots (w_phase w))"
    by (simp_all only: sels phase_slots_map m)
  have pend: "pending (w_queue ?w) = pending (w_queue w)" using assms(2) by (simp add: pending_def update_slots_def)
  have out: "outside ?w = outside w"
    using pend by (simp add: outside_def ids) (simp add: update_slots_def)
  have "promised ?w" by (rule promised_map [where f = f, OF _ b(5)]) (use assms(2) in \<open>simp_all add: update_slots_def\<close>)
  moreover have "ledger ?w" using b(6) by (simp add: ledger_def update_slots_def)
  moreover have "queue_inv (w_queue ?w)" using b(1) assms(2) by (auto simp: queue_inv_def update_slots_def)
  ultimately show ?thesis
    using b out
    by (intro booksI) (simp_all only: ids, auto simp: update_slots_def)
qed

lemma arm_slot_frame [simp]:
  "sl_id (arm_slot sid sl) = sl_id sl" "sl_state (arm_slot sid sl) = sl_state sl"
  "sl_model_tag (arm_slot sid sl) = sl_model_tag sl" "sl_pid (arm_slot sid sl) = sl_pid sl"
  "sl_client_meta (arm_slot sid sl) = sl_client_meta sl"
  "settled (arm_slot sid sl) = settled sl"
  by (simp_all add: arm_slot_def settled_def)

lemma books_same:
  assumes "books_inv w" and "same_requests w w'"
  shows "books_inv w'"
  using booksD [OF assms(1)] assms(2) same_requests_outside [OF assms(2)] same_requests_ledger [OF assms(2)]
  by (intro booksI) (auto simp: same_requests_def promised_def cong: wphase.case_cong)

lemma books_disconnect:
  assumes "books_inv w"
  shows "books_inv (w\<lparr>w_queue := client_disconnects sid (w_queue w)\<rparr>)"
proof -
  note b = booksD [OF assms]
  from disconnect_books [OF b(1)] have "queue_inv (client_disconnects sid (w_queue w))"
    "pending (client_disconnects sid (w_queue w)) = pending (w_queue w)" by simp_all
  moreover have "closed (client_disconnects sid (w_queue w)) = closed (w_queue w)"
    by (simp add: client_disconnects_def)
  ultimately show ?thesis
    using b by (intro booksI) (auto simp: outside_same_pending promised_def cong: wphase.case_cong)
qed

lemma cancellable_running: "cancellable w \<Longrightarrow> w_phase w \<noteq> WHalted"
  by (auto simp: cancellable_def)

lemma wfire_books:
  assumes "books_inv w" and "wfire ev w = Some w'"
  shows "books_inv w'"
proof -
  note steps = books_poll books_open books_swap_done books_spawn books_health books_wake books_serve
    books_admit books_rider books_anchor books_drain books_served books_grace_turn books_promote
    books_follow_up_done books_close books_unwind books_rescue
  have bg: "books_inv (snd (begin_idle_teardown (w\<lparr>w_bg := n\<rparr>)))" for n
    by (rule books_same [OF _ same_requests_ops(3)], rule books_same [OF assms(1)])
      (simp add: same_requests_def)
  show ?thesis
  proof (cases ev)
    case (Submit now sl)
    with assms(2) books_submit [OF assms(1)] show ?thesis by (auto split: if_splits sum.splits)
  next
    case (Crash e out)
    with assms books_interrupt show ?thesis by (auto simp: no_expiry_def split: if_splits)
  next
    case Cancel
    with assms books_interrupt cancellable_running show ?thesis by (auto simp: no_expiry_def split: if_splits)
  next
    case (Reaped h r)
    with assms(2) books_same [OF assms(1) same_requests_ops(4)] show ?thesis by (auto split: if_splits)
  next
    case (Dies h)
    with assms(2) books_same [OF assms(1)] show ?thesis by (auto simp: same_requests_def)
  next
    case Stop
    with assms(2) books_same [OF assms(1)] show ?thesis by (auto simp: same_requests_def)
  next
    case (Arm sid)
    with assms(2) books_update_slots [OF assms(1), of "arm_slot sid"] show ?thesis
      by (auto simp: arm_streaming_def)
  next
    case ExpiryTask
    with assms(2) bg show ?thesis by (auto split: if_splits)
  qed (use assms(2) steps [OF assms(1)] books_disconnect [OF assms(1)] books_shutdown_tail [OF assms(1)] in
      \<open>auto simp: no_expiry_def split: wphase.splits if_splits\<close>)
qed

lemma wreach_books: "wreach w w' \<Longrightarrow> books_inv w \<Longrightarrow> books_inv w'"
  by (induction rule: wreach.induct) (auto intro: wfire_books)

lemma init_books:
  assumes "queue_inv q" and "\<not> closed q" and "distinct (pending q)"
  shows "books_inv (init_worker q port_base grace_s extensions idle_s)"
  using assms by (intro booksI) (simp_all add: init_worker_def outside_def promised_def ledger_def)

end
