(* ===== verification/WorkerSafety.thy ===== *)
theory WorkerSafety
  imports WorkerBooks
begin

text \<open>
  What the phases of the single-slot worker promise about the state of the slot in hand, the
  riders of a fan-out and the sidecar, and where every live sidecar process is accounted for.
\<close>

subsection \<open>The shape of a phase\<close>

text \<open>
  The active sidecar and the idle holder: \<open>owns\<close> a sidecar and holds none idle, never two, or
  \<open>loose\<close>: on the way out, when the active one may just have been promoted to the idle holder.
  (Before a spawn \<open>_active_handle\<close> may still hold a sidecar whose teardown failed.)
\<close>

definition owns :: "handle \<Rightarrow> worker \<Rightarrow> bool" where
  "owns h w \<longleftrightarrow> w_active w = Some h \<and> w_idle w = None"

definition one_of_two :: "worker \<Rightarrow> bool" where
  "one_of_two w \<longleftrightarrow> w_active w = None \<or> w_idle w = None"

definition loose :: "worker \<Rightarrow> bool" where
  "loose w \<longleftrightarrow> one_of_two w \<or> map_option fst (w_idle w) = w_active w"

definition crew :: "slot \<Rightarrow> handle \<Rightarrow> worker \<Rightarrow> bool" where
  "crew sl h w \<longleftrightarrow>
     w_stale w = 0 \<and> int (inflight_count w) \<le> max 1 (h_parallel h) \<and>
     (\<forall>x \<in> set (w_inflight w). sl_state x = ACTIVE \<and> sl_model_tag x = sl_model_tag sl \<and>
        wants_stream x = wants_stream sl)"

definition shape :: "worker \<Rightarrow> bool" where
  "shape w \<longleftrightarrow>
     (case w_phase w of
        WPolling \<Rightarrow> one_of_two w
      | WOpening sl \<Rightarrow> one_of_two w \<and> sl_state sl = STAGED
      | WSwapping sl argv h \<Rightarrow> w_idle w = None \<and> sl_state sl = LOADING \<and> h \<in> set (w_reaping w)
      | WGating sl argv \<Rightarrow> w_idle w = None \<and> sl_state sl = LOADING
      | WBooting sl h \<Rightarrow> owns h w \<and> sl_state sl = LOADING
      | WWaking sl h \<Rightarrow> owns h w \<and> sl_state sl = LOADING
      | WServing sl h st \<Rightarrow> owns h w \<and> sl_state sl = ACTIVE
      | WAdmitting sl h kas \<Rightarrow> owns h w \<and> sl_state sl = ACTIVE \<and> crew sl h w
      | WDraining sl h \<Rightarrow> owns h w \<and> sl_state sl = ACTIVE \<and> crew sl h w
      | WServed sl h \<Rightarrow> owns h w \<and> sl_state sl = ACTIVE
      | WGrace sl h d \<Rightarrow> owns h w \<and> sl_state sl = GRACE
      | WPromoting sl m h d \<Rightarrow> owns h w \<and> sl_state sl = GRACE \<and> sl_state m = ACTIVE_MATCH
      | WMatching sl m h d \<Rightarrow> owns h w \<and> sl_state sl = GRACE \<and> sl_state m = ACTIVE
      | WClosing sl reason \<Rightarrow> w_idle w = None \<and> sl_state sl = POPPED
      | WUnwinding sl e \<Rightarrow> loose w \<and> (e = None \<longrightarrow> sl_state sl = POPPED)
      | WRescuing sl e \<Rightarrow> one_of_two w
      | WHalted \<Rightarrow> one_of_two w) \<and>
     (0 < w_bg w \<longrightarrow> w_active w = None \<and> w_idle_expires w = None)"

subsection \<open>Where the processes are\<close>

definition managed :: "worker \<Rightarrow> handle \<Rightarrow> bool" where
  "managed w h \<longleftrightarrow> w_active w = Some h \<or> map_option fst (w_idle w) = Some h"

definition tracked :: "worker \<Rightarrow> bool" where
  "tracked w \<longleftrightarrow>
     distinct (w_procs w) \<and>
     (\<forall>h \<in> set (w_procs w). managed w h \<or> h \<in> set (w_reaping w) \<or> h \<in> set (w_stray w)) \<and>
     (\<forall>h. managed w h \<longrightarrow> h \<notin> set (w_reaping w) \<and> h \<notin> set (w_stray w) \<and> h_pid h \<in> set (w_pids w)) \<and>
     (\<forall>h \<in> set (w_procs w) \<union> set (w_reaping w) \<union> set (w_stray w). h_pid h \<in> set (w_pids w))"

definition same_procs :: "worker \<Rightarrow> worker \<Rightarrow> bool" where
  "same_procs w w' \<longleftrightarrow>
     (\<forall>h. managed w' h = managed w h) \<and> w_reaping w' = w_reaping w \<and> w_stray w' = w_stray w \<and>
     w_procs w' = w_procs w \<and> w_pids w' = w_pids w"

lemma tracked_same: "tracked w \<Longrightarrow> same_procs w w' \<Longrightarrow> tracked w'"
  by (simp add: tracked_def same_procs_def)

lemma same_procsI:
  "w_active w' = w_active w \<Longrightarrow> w_idle w' = w_idle w \<Longrightarrow> w_reaping w' = w_reaping w \<Longrightarrow>
     w_stray w' = w_stray w \<Longrightarrow> w_procs w' = w_procs w \<Longrightarrow> w_pids w' = w_pids w \<Longrightarrow> same_procs w w'"
  by (simp add: same_procs_def managed_def)

lemma tracked_goto [simp]: "tracked (goto p w) = tracked w"
  by (simp add: tracked_def managed_def)

lemma tracked_retire [simp]: "tracked (retire sl w) = tracked w" "tracked (retire_all sls w) = tracked w"
  by (simp_all add: tracked_def managed_def)

lemma tracked_set_current [simp]: "tracked (set_current sl w) = tracked w"
  by (simp add: tracked_def managed_def)

lemma tracked_teardown:
  assumes "tracked w" and "one_of_two w"
  shows "tracked (snd (teardown_active r w))"
proof (cases "w_active w")
  case None
  with assms show ?thesis by (simp add: teardown_active_def)
next
  case (Some h)
  with assms show ?thesis
    by (cases r) (auto simp: teardown_active_def reaped_def tracked_def managed_def one_of_two_def)
qed

lemma tracked_begin_idle:
  assumes "tracked w" and "w_active w = None \<or> w_idle w = None"
  shows "tracked (snd (begin_idle_teardown w))"
  using assms by (auto simp: begin_idle_teardown_def tracked_def managed_def split: option.splits)

lemma tracked_end_idle:
  assumes "tracked w" and "h \<in> set (w_reaping w)"
  shows "tracked (end_idle_teardown r h w)"
proof -
  have "set (remove1 h (w_reaping w)) \<subseteq> set (w_reaping w)" by (rule set_remove1_subset)
  moreover have "\<forall>x \<in> set (w_reaping w). x = h \<or> x \<in> set (remove1 h (w_reaping w))"
    by (metis in_set_remove1)
  ultimately show ?thesis using assms
    by (cases r) (auto 4 3 simp: end_idle_teardown_def reaped_def tracked_def managed_def)
qed

lemma tracked_spawn:
  assumes "tracked w" and "w_idle w = None" and "pid \<notin> set (w_pids w)"
  shows "tracked (spawn_worker pid sl argv w)"
proof -
  let ?h = "spawn_sidecar pid (w_port_base w) (sl_model_tag sl) argv"
  have pid: "h_pid ?h = pid" by (simp add: spawn_sidecar_def)
  have known: "\<forall>x \<in> set (w_procs w) \<union> set (w_reaping w) \<union> set (w_stray w). h_pid x \<in> set (w_pids w)"
    "\<forall>x. managed w x \<longrightarrow> h_pid x \<in> set (w_pids w)"
    using assms(1) unfolding tracked_def by blast+
  with assms(3) pid have new: "?h \<notin> set (w_procs w) \<union> set (w_reaping w) \<union> set (w_stray w)"
    "\<not> managed w ?h" by metis+
  then have act: "w_active w \<noteq> Some ?h" by (simp add: managed_def)
  let ?w = "set_active ?h w"
  have "tracked ((set_active ?h (w\<lparr>w_procs := w_procs w @ [?h], w_pids := pid # w_pids w\<rparr>)))"
    using assms(1,2) pid new act by (cases "w_active w") (auto simp: tracked_def managed_def)
  then show ?thesis by (simp add: spawn_worker_def Let_def)
qed

lemma tracked_dies: "tracked w \<Longrightarrow> tracked (w\<lparr>w_procs := remove1 h (w_procs w)\<rparr>)"
  by (auto simp: tracked_def managed_def)

subsection \<open>Every step keeps the shape and the processes\<close>

definition sound :: "worker \<Rightarrow> bool" where
  "sound w \<longleftrightarrow> shape w \<and> tracked w"

lemmas holding_defs = owns_def one_of_two_def loose_def

lemma sound_same:
  assumes "tracked w" and "shape w'" and "w_active w' = w_active w" and "w_idle w' = w_idle w"
    and "w_reaping w' = w_reaping w" and "w_stray w' = w_stray w" and "w_procs w' = w_procs w"
    and "w_pids w' = w_pids w"
  shows "sound w'"
  using assms tracked_same [OF assms(1) same_procsI] by (simp add: sound_def)

lemma tracked_move:
  assumes "tracked w" and "\<forall>h. managed w' h \<longrightarrow> managed w h" and "\<forall>h. managed w h \<longrightarrow> managed w' h"
    and "w_reaping w' = w_reaping w" and "w_stray w' = w_stray w" and "w_procs w' = w_procs w"
    and "w_pids w' = w_pids w"
  shows "tracked w'"
  using assms by (intro tracked_same [OF assms(1)]) (auto simp: same_procs_def)

lemma sound_poll:
  assumes "sound w" and "books_inv w" and "w_phase w = WPolling"
  shows "sound (poll_turn now w)"
proof -
  obtain r q where pop: "pop_next (w_queue w) now (warm_hint w) = (r, q)" by fastforce
  from assms(1,3) have w: "tracked w" "one_of_two w" "0 < w_bg w \<longrightarrow> w_active w = None \<and> w_idle_expires w = None"
    by (simp_all add: sound_def shape_def)
  from booksD(1) [OF assms(2)] pop show ?thesis
  proof (cases rule: worker_pop)
    case none
    with w pop assms(3) show ?thesis
      by (intro sound_same [OF w(1)])
        (auto simp: poll_turn_def idle_tick_def shape_def one_of_two_def split: option.splits)
  next
    case (one sl)
    with w pop assms(3) show ?thesis
      by (intro sound_same [OF w(1)])
        (auto simp: poll_turn_def idle_tick_def shape_def one_of_two_def split: option.splits)
  qed
qed

lemma sound_open:
  assumes "sound w" and "w_phase w = WOpening sl"
  shows "sound (read_and_open text_of now read sl w)"
proof -
  from assms have w: "tracked w" "one_of_two w" "0 < w_bg w \<longrightarrow> w_active w = None \<and> w_idle_expires w = None"
    and sl: "sl_state sl = STAGED"
    by (simp_all add: sound_def shape_def)
  let ?sl = "sl\<lparr>sl_state := LOADING\<rparr>"
  have failed: "sound (goto (WUnwinding sl (Some e)) (w\<lparr>w_faults := n\<rparr>))" for e n
    using w by (intro sound_same [OF w(1)]) (simp_all add: shape_def holding_defs)
  have "sound (open_slot now found argv sl w)" for found argv
  proof (cases "holder_at_risk found ?sl w")
    case True
    with w sl show ?thesis
      by (intro sound_same [OF w(1)])
        (simp_all add: open_slot_def hop_def ends_with_failure_def shape_def holding_defs)
  next
    case False
    show ?thesis
    proof (cases "warm_inherit now ?sl w")
      case None
      have t: "tracked (snd (begin_idle_teardown w))" using w by (intro tracked_begin_idle) (simp_all add: one_of_two_def)
      from None False sl w t show ?thesis
        by (cases "w_idle w")
          (auto simp: open_slot_def hop_def sound_def shape_def one_of_two_def begin_idle_teardown_def)
    next
      case (Some h)
      then obtain tag e where i: "w_idle w = Some (h, tag)" "w_idle_expires w = Some e"
        by (auto simp: warm_inherit_def split: option.splits if_splits)
      have "tracked (inherit ?sl h w)"
        using i w by (intro tracked_move [OF w(1)]) (auto simp: inherit_def managed_def one_of_two_def)
      with Some False sl w i show ?thesis
        by (simp add: open_slot_def hop_def sound_def) (simp add: inherit_def shape_def holding_defs on_sidecar_def)
    qed
  qed
  with failed show ?thesis by (auto simp: read_and_open_def split: sum.splits store_error.splits)
qed

lemma end_idle_sels [simp]:
  "w_active (end_idle_teardown r h w) = w_active w" "w_idle (end_idle_teardown r h w) = w_idle w"
  "w_idle_expires (end_idle_teardown r h w) = w_idle_expires w"
  "w_bg (end_idle_teardown r h w) = w_bg w" "w_reaping (end_idle_teardown r h w) = remove1 h (w_reaping w)"
  by (cases r; simp add: end_idle_teardown_def reaped_def)+

lemma sound_swap_done:
  assumes "sound w" and "w_phase w = WSwapping sl argv h"
  shows "sound (swap_done r sl argv h w)"
proof -
  from assms have w: "tracked w" "w_idle w = None" "sl_state sl = LOADING" "h \<in> set (w_reaping w)"
    "0 < w_bg w \<longrightarrow> w_active w = None \<and> w_idle_expires w = None"
    by (simp_all add: sound_def shape_def)
  have "tracked (end_idle_teardown r h (w\<lparr>w_faults := n\<rparr>))" for n
    using w by (intro tracked_end_idle) (simp_all add: tracked_def managed_def)
  with tracked_end_idle [OF w(1,4)] w show ?thesis
    by (auto simp: swap_done_def sound_def shape_def holding_defs)
qed

lemma sound_spawn:
  assumes "sound w" and "w_phase w = WGating sl argv" and "pid \<notin> set (w_pids w)" and "w_bg w = 0"
  shows "sound (gate_and_spawn gates pid sl argv w)"
proof -
  from assms have w: "tracked w" "w_idle w = None" "sl_state sl = LOADING"
    by (simp_all add: sound_def shape_def)
  have "sound (ends_with_failure sl reason w)" for reason
    using w assms(4) by (intro sound_same [OF w(1)])
      (simp_all add: ends_with_failure_def hop_def shape_def holding_defs)
  moreover have "shape (spawn_worker pid sl argv w)"
    using w assms(4) by (simp add: spawn_worker_def Let_def shape_def holding_defs on_sidecar_def)
  ultimately show ?thesis
    using tracked_spawn [OF w(1,2) assms(3)] by (simp add: gate_and_spawn_def sound_def)
qed

lemma sound_health:
  assumes "sound w" and "w_phase w = WBooting sl h" and "w_bg w = 0"
  shows "sound (health_answer ok sl h w)"
proof -
  from assms have "tracked w" "owns h w" "sl_state sl = LOADING" by (simp_all add: sound_def shape_def)
  with assms(3) show ?thesis
    by (intro sound_same [of w]) (simp_all add: health_answer_def hop_def shape_def holding_defs)
qed

lemma sound_wake:
  assumes "sound w" and "w_phase w = WWaking sl h" and "w_bg w = 0"
  shows "sound (wake now sl h w)"
proof -
  from assms have "tracked w" "owns h w" "sl_state sl = LOADING" by (simp_all add: sound_def shape_def)
  with assms(3) show ?thesis
    by (intro sound_same [of w])
      (simp_all add: wake_def Let_def hop_def shape_def holding_defs crew_def inflight_count_def hand_over_def)
qed

lemma sound_serve:
  assumes "sound w" and "w_phase w = WServing sl h st" and "w_bg w = 0"
  shows "sound (serve_done out sl h st w)"
proof -
  from assms have "tracked w" "owns h w" "sl_state sl = ACTIVE" by (simp_all add: sound_def shape_def)
  with assms(3) show ?thesis
    by (intro sound_same [of w]) (auto simp: serve_done_def shape_def holding_defs split: sum.splits)
qed

text \<open>An admission adds at most one rider, of the anchor's model and mode.\<close>

lemma admit_crew:
  assumes "books_inv w" and "w_phase w = WAdmitting sl h kas \<or> w_phase w = WDraining sl h"
    and "admit_next now r sl h w = (a, w')" and "crew sl h w"
  shows "crew sl h w' \<and> w_active w' = w_active w \<and> w_idle w' = w_idle w \<and> w_reaping w' = w_reaping w \<and>
         w_stray w' = w_stray w \<and> w_procs w' = w_procs w \<and> w_pids w' = w_pids w \<and> w_bg w' = w_bg w"
proof (cases "full_house h w")
  case True
  with assms show ?thesis by (auto simp: admit_next_def)
next
  case False
  then have room: "int (inflight_count w) < max 1 (h_parallel h)" unfolding full_house_def by (simp only: not_le)
  note b = booksD [OF assms(1)]
  from b(2) assms(2) have open': "\<not> closed (w_queue w)" by auto
  obtain y q where pop: "pop_next (w_queue w) now (Some (sl_model_tag sl)) = (y, q)" by fastforce
  have next': "(a, w') = (case y of Inl e \<Rightarrow> (ARaise e, w\<lparr>w_queue := q\<rparr>)
      | Inr None \<Rightarrow> (AStop, w\<lparr>w_queue := q\<rparr>)
      | Inr (Some x) \<Rightarrow> admit_popped now r sl h x (w\<lparr>w_queue := q\<rparr>))"
    using False assms(3) pop by (simp add: admit_next_def)
  have same: "crew sl h (w\<lparr>w_queue := q'\<rparr>)" for q'
    using assms(4) by (simp add: crew_def inflight_count_def)
  from b(1) pop show ?thesis
  proof (cases rule: worker_pop)
    case none
    with next' same show ?thesis by simp
  next
    case (one x)
    have st: "sl_state (on_sidecar h x) = STAGED" using one by (simp add: on_sidecar_def)
    show ?thesis
    proof (cases "sl_model_tag x = sl_model_tag sl \<and> wants_stream x = wants_stream sl \<and> \<not> sl_is_evicted x")
      case True
      let ?x = "(on_sidecar h x)\<lparr>sl_state := ACTIVE, sl_started_active_at := now, sl_stream_handle := Some (h_pid h)\<rparr>"
      let ?z = "if wants_stream sl then hand_over h ?x else ?x"
      from True next' one(1) st have w': "w' = w\<lparr>w_queue := q, w_inflight := w_inflight w @ [?z]\<rparr>"
        by (simp add: admit_popped_def Let_def)
      have "sl_state ?z = ACTIVE" "sl_model_tag ?z = sl_model_tag x" "wants_stream ?z = wants_stream x"
        by (simp_all add: hand_over_def on_sidecar_def wants_stream_def)
      with True assms(4) room w' show ?thesis by (auto simp: crew_def inflight_count_def)
    next
      case False
      from worker_push_back [OF one(2) _ one(5)] one(3) open'
      obtain q' where q': "enqueue_head q x = Inr (q', x)" by metis
      show ?thesis
      proof (cases "sl_model_tag x \<noteq> sl_model_tag sl \<or> wants_stream x \<noteq> wants_stream sl")
        case True
        with next' one(1) q' have "w' = w\<lparr>w_queue := q'\<rparr>" by (auto simp: admit_popped_def)
        with same show ?thesis by simp
      next
        case drop: False
        with False next' one(1) have "w' = retire (fail_completion_future x SlotEvicted) (w\<lparr>w_queue := q\<rparr>)"
          by (auto simp: admit_popped_def)
        with same [of q] show ?thesis by (simp add: crew_def inflight_count_def)
      qed
    qed
  qed
qed

lemma sound_aborts:
  assumes "tracked w" and "owns h w" and "w_bg w = 0"
  shows "sound (admission_aborted e sl w)" and "sound (drain_aborted e sl w)"
  using assms by (intro sound_same [of w]; simp add: admission_aborted_def drain_aborted_def shape_def holding_defs)+

lemma sound_admit:
  assumes "sound w" and "books_inv w" and "w_phase w = WAdmitting sl h kas" and "w_bg w = 0"
  shows "sound (admit_turn now r sl h kas w)"
proof -
  obtain a w' where n: "admit_next now r sl h w = (a, w')" by fastforce
  from assms have w: "tracked w" "owns h w" "sl_state sl = ACTIVE" "crew sl h w"
    by (simp_all add: sound_def shape_def)
  from admit_crew [OF assms(2) disjI1 [OF assms(3)] n w(4)] w(1,2) assms(4)
  have w': "crew sl h w'" "owns h w'" "tracked w'" "w_bg w' = 0"
    using tracked_same [OF w(1) same_procsI, of w'] by (auto simp: owns_def)
  from books_admit_next [OF assms(2) disjI1 [OF assms(3)] n] assms(3)
  have p: "w_phase w' = WAdmitting sl h kas" "\<forall>e. a \<noteq> ARaise e" by simp_all
  have "crew sl h (goto q (w'\<lparr>w_keep_alive := k\<rparr>))" for k q
    using w'(1) by (simp add: crew_def inflight_count_def)
  then have stay: "sound (goto (WAdmitting sl h kas') w')" "sound (goto (WDraining sl h) (w'\<lparr>w_keep_alive := k\<rparr>))" for kas' k
    using w' w(3) by (intro sound_same [OF w'(3)]; simp add: shape_def owns_def crew_def inflight_count_def)+
  have "sound (admission_aborted e sl (w'\<lparr>w_keep_alive := k\<rparr>))" for e k
    using w' by (intro sound_aborts(1) [of _ h]) (simp_all add: tracked_def managed_def owns_def)
  moreover have "sound w'" using w' w(3) p by (simp add: sound_def shape_def)
  ultimately show ?thesis
    using n p stay by (cases a) (simp_all add: admit_turn_def admission_over_def Let_def)
qed

lemma force_cold_rider:
  "sl_pid sl = None \<Longrightarrow> snd (force_cold r sl w) = w"
  by (simp add: force_cold_def shares_active_def split: option.splits)

lemma sound_rider:
  assumes "sound w" and "w_phase w = WDraining sl h" and "i < length (w_inflight w)" and "w_bg w = 0"
  shows "sound (rider_finishes i out r sl w)"
proof -
  from assms have w: "tracked w" "owns h w" "sl_state sl = ACTIVE" "crew sl h w"
    by (simp_all add: sound_def shape_def)
  let ?x = "(settle (rider_outcome sl out) (w_inflight w ! i))\<lparr>sl_pid := None\<rparr>"
  let ?rest = "take i (w_inflight w) @ drop (Suc i) (w_inflight w)"
  obtain y where "force_cold r ?x w = (y, w)"
    using force_cold_rider [of ?x r w] by (cases "force_cold r ?x w") simp
  then have eq: "rider_finishes i out r sl w = retire y (w\<lparr>w_inflight := ?rest\<rparr>)"
    by (simp add: rider_finishes_def Let_def)
  have "set ?rest \<subseteq> set (w_inflight w)" by (auto dest: in_set_takeD in_set_dropD)
  with w(4) assms(3) have "crew sl h (w\<lparr>w_inflight := ?rest\<rparr>)"
    by (auto simp: crew_def inflight_count_def)
  with w assms(2,4) show ?thesis unfolding eq
    by (intro sound_same [OF w(1)]) (simp_all add: shape_def owns_def crew_def inflight_count_def)
qed

lemma sound_anchor:
  assumes "sound w" and "w_phase w = WDraining sl h" and "w_bg w = 0"
  shows "sound (anchor_finishes out sl h w)"
proof -
  have "wants_stream (settle x sl) = wants_stream sl" for x
    by (cases x) (auto simp: settle_def wants_stream_def fail_completion_future_def set_result_def split: option.splits)
  with assms show ?thesis
    by (intro sound_same [of w])
      (auto simp: sound_def shape_def anchor_finishes_def owns_def crew_def inflight_count_def)
qed

lemma sound_drain:
  assumes "sound w" and "books_inv w" and "w_phase w = WDraining sl h" and "w_bg w = 0"
  shows "sound (drain_turn now r sl h w)"
proof -
  obtain a w' where n: "admit_next now r sl h w = (a, w')" by fastforce
  from assms have w: "tracked w" "owns h w" "sl_state sl = ACTIVE" "crew sl h w"
    by (simp_all add: sound_def shape_def)
  from admit_crew [OF assms(2) disjI2 [OF assms(3)] n w(4)] w(1,2) assms(4)
  have w': "crew sl h w'" "owns h w'" "tracked w'" "w_bg w' = 0"
    using tracked_same [OF w(1) same_procsI, of w'] by (auto simp: owns_def)
  from books_admit_next [OF assms(2) disjI2 [OF assms(3)] n] assms(3)
  have p: "w_phase w' = WDraining sl h" "\<forall>e. a \<noteq> ARaise e" by simp_all
  have over: "sound (goto (WServed sl h) u)" if "tracked u" "owns h u" "w_bg u = 0" for u
    using that w(3) by (intro sound_same [of u]) (simp_all add: shape_def owns_def)
  have "sound w'" using w' w(3) p by (simp add: sound_def shape_def)
  with n p over [OF w(1,2) assms(4)] over [OF w'(3,2,4)] assms(1) show ?thesis
    by (cases a) (simp_all add: drain_turn_def)
qed

lemma sound_served:
  assumes "sound w" and "w_phase w = WServed sl h" and "w_bg w = 0"
  shows "sound (served now sl h w)"
proof -
  from assms have "tracked w" "owns h w" "sl_state sl = ACTIVE" by (simp_all add: sound_def shape_def)
  with assms(3) show ?thesis
    by (intro sound_same [of w]) (simp_all add: served_def hop_def shape_def holding_defs)
qed

lemma sound_grace_over:
  assumes "sound w" and "w_phase w = WGrace sl h d" and "w_bg w = 0"
  shows "sound (grace_over now sl h w)"
proof -
  from assms have w: "tracked w" "owns h w" "sl_state sl = GRACE" by (simp_all add: sound_def shape_def)
  have "tracked (grace_over now sl h w)"
    using w by (intro tracked_move [OF w(1)]) (auto simp: grace_over_def hop_def Let_def managed_def owns_def)
  with w assms(3) show ?thesis
    by (auto simp: sound_def) (simp add: grace_over_def hop_def Let_def shape_def holding_defs)
qed

lemma sound_grace_turn:
  assumes "sound w" and "books_inv w" and "w_phase w = WGrace sl h d" and "w_bg w = 0"
  shows "sound (grace_turn now r sl h d w)"
proof -
  from assms have w: "tracked w" "owns h w" "sl_state sl = GRACE" by (simp_all add: sound_def shape_def)
  obtain y q where pop: "pop_matched_thread (w_queue w) (sl_thread_id sl) (sl_model_tag sl) = (y, q)" by fastforce
  show ?thesis
  proof (cases "d \<le> now \<or> w_stop w")
    case True
    with sound_grace_over [OF assms(1,3,4)] show ?thesis by (simp add: grace_turn_def)
  next
    case False
    from booksD(1) [OF assms(2)] pop show ?thesis
    proof (cases rule: worker_match)
      case none
      with False pop assms(1) show ?thesis by (simp add: grace_turn_def)
    next
      case (one m)
      have "sl_state (on_sidecar h m) = STAGED" using one by (simp add: on_sidecar_def)
      with False pop one w assms(4) show ?thesis
        by (intro sound_same [OF w(1)]) (simp_all add: grace_turn_def Let_def shape_def owns_def)
    qed
  qed
qed

lemma sound_match_over:
  assumes "tracked w" and "owns h w" and "sl_state sl = GRACE" and "sl_state m = ACTIVE" and "w_bg w = 0"
  shows "sound (match_over now out sl m h d w)"
proof -
  have "run_transitions (settle out m) [GRACE, POPPED] = Inr ((settle out m)\<lparr>sl_state := POPPED\<rparr>)"
    using assms(4) by simp
  with assms show ?thesis
    by (intro sound_same [of w]) (simp_all add: match_over_def Let_def shape_def owns_def split: prod.splits)
qed

lemma sound_promote:
  assumes "sound w" and "w_phase w = WPromoting sl m h d" and "w_bg w = 0"
  shows "sound (promote now r sl m h d w)"
proof -
  from assms have w: "tracked w" "owns h w" "sl_state sl = GRACE" "sl_state m = ACTIVE_MATCH"
    by (simp_all add: sound_def shape_def)
  let ?m = "m\<lparr>sl_state := ACTIVE, sl_started_active_at := now\<rparr>"
  have "sound (match_over now out sl ?m h d (w\<lparr>w_keep_alive := k\<rparr>))" for out k
    using w assms(3) by (intro sound_match_over) (simp_all add: tracked_def managed_def owns_def)
  moreover have "sound (goto (WMatching sl (if st then hand_over h ?m else ?m) h d) (w\<lparr>w_keep_alive := k\<rparr>))" for st k
    using w assms(3) by (intro sound_same [OF w(1)]) (simp_all add: shape_def owns_def hand_over_def)
  ultimately show ?thesis using w(4) by (simp add: promote_def Let_def split: if_splits)
qed

lemma sound_follow_up_done:
  assumes "sound w" and "w_phase w = WMatching sl m h d" and "w_bg w = 0"
  shows "sound (follow_up_done now out sl m h d w)"
  using assms sound_match_over [of w h sl m] by (simp add: follow_up_done_def sound_def shape_def)

lemma teardown_active_sels [simp]:
  "w_idle (snd (teardown_active r w)) = w_idle w" "w_bg (snd (teardown_active r w)) = w_bg w"
  "w_idle_expires (snd (teardown_active r w)) = w_idle_expires w"
  "w_active (snd (teardown_active r w)) = (if r = Raises then w_active w else None)"
  by (cases r; simp add: teardown_active_def reaped_def split: option.splits)+

lemma sound_close:
  assumes "sound w" and "w_phase w = WClosing sl reason" and "w_bg w = 0"
  shows "sound (close_done now r sl reason w)"
proof -
  from assms have w: "tracked w" "w_idle w = None" "sl_state sl = POPPED" by (simp_all add: sound_def shape_def)
  obtain ok w1 where t: "teardown_active r w = (ok, w1)" by fastforce
  with tracked_teardown [of w r] teardown_active_sels [of r w] w assms(3)
  have w1: "tracked w1" "w_idle w1 = None" "w_bg w1 = 0" by (simp_all add: one_of_two_def)
  show ?thesis
  proof (cases ok)
    case True
    with t w(3) w1 show ?thesis
      by (intro sound_same [OF w1(1)]) (simp_all add: close_done_def shape_def holding_defs)
  next
    case False
    with t w1 show ?thesis
      by (intro sound_same [OF w1(1)]) (simp_all add: close_done_def shape_def holding_defs)
  qed
qed

lemma finally_reap_ok:
  assumes "tracked w" and "loose w"
  shows "tracked (finally_reap r w)" and "one_of_two (finally_reap r w)"
    and "r \<noteq> Raises \<Longrightarrow> w_active (finally_reap r w) = None"
    and "w_idle (finally_reap r w) = w_idle w" and "w_bg (finally_reap r w) = w_bg w"
    and "w_idle_expires (finally_reap r w) = w_idle_expires w"
    and "w_idle w \<noteq> None \<Longrightarrow> w_active (finally_reap r w) = None"
    and "w_active w = None \<Longrightarrow> w_active (finally_reap r w) = None"
proof -
  consider (none) "w_active w = None" | (idle) h where "w_active w = Some h" "map_option fst (w_idle w) = Some h"
    | (own) h where "w_active w = Some h" "w_idle w = None"
    using assms(2) by (cases "w_active w") (auto simp: loose_def one_of_two_def)
  note cases = this
  have t: "tracked (w\<lparr>w_active := None\<rparr>)" if "w_active w = Some h" "map_option fst (w_idle w) = Some h" for h
    using that by (intro tracked_move [OF assms(1)]) (auto simp: managed_def)
  show "tracked (finally_reap r w)"
    using cases t tracked_teardown [OF assms(1), of r] assms(1)
    by cases (auto simp: finally_reap_def one_of_two_def)
  show "one_of_two (finally_reap r w)" using cases by cases (auto simp: finally_reap_def one_of_two_def)
  show "r \<noteq> Raises \<Longrightarrow> w_active (finally_reap r w) = None"
    using cases by cases (auto simp: finally_reap_def)
  show "w_idle w \<noteq> None \<Longrightarrow> w_active (finally_reap r w) = None"
    using cases by cases (auto simp: finally_reap_def)
  show "w_active w = None \<Longrightarrow> w_active (finally_reap r w) = None" by (simp add: finally_reap_def)
qed (auto simp: finally_reap_def split: option.splits)

lemma sound_unwind:
  assumes "sound w" and "w_phase w = WUnwinding sl e" and "w_bg w = 0"
  shows "sound (unwind r sl e w)"
proof -
  let ?w = "w\<lparr>w_current := None\<rparr>"
  from assms have "tracked ?w" "loose ?w"
    by (simp_all add: sound_def shape_def tracked_def managed_def loose_def one_of_two_def)
  note f = finally_reap_ok [OF this, of r]
  have bg: "w_bg (finally_reap r ?w) = 0" using f(5) assms(3) by simp
  have "sound (goto p (retire x (finally_reap r ?w)))" if "p = WPolling \<or> p = WHalted" for p x
    using f(1,2) bg that by (auto simp: sound_def shape_def one_of_two_def)
  moreover have "sound (goto (WRescuing x y) (finally_reap r ?w))" for x y
    using f(1,2) bg by (simp add: sound_def shape_def one_of_two_def)
  ultimately show ?thesis by (simp add: unwind_def Let_def split: option.splits)
qed

lemma sound_rescue:
  assumes "sound w" and "w_phase w = WRescuing sl e" and "w_bg w = 0"
  shows "sound (rescue r1 r2 db_ok sl w)"
proof -
  from assms have w: "tracked w" "one_of_two w" by (simp_all add: sound_def shape_def)
  let ?w = "snd (teardown_active r1 w)"
  have w1: "tracked ?w" "one_of_two ?w" "w_bg ?w = 0"
    using tracked_teardown [OF w, of r1] w(2) assms(3) by (auto simp: one_of_two_def)
  have fc: "tracked (snd (force_cold r2 sl ?w))" "one_of_two (snd (force_cold r2 sl ?w))"
    "w_bg (snd (force_cold r2 sl ?w)) = 0"
    using w1 tracked_teardown [OF w1(1,2), of r2] by (auto simp: force_cold_def one_of_two_def)
  have "sound (goto p (retire x (snd (force_cold r2 sl ?w))))"
    "sound (goto p (retire x ((snd (force_cold r2 sl ?w))\<lparr>w_faults := n\<rparr>)))"
    if "p = WPolling \<or> p = WHalted" for p x n
    using fc that by (auto simp: sound_def shape_def one_of_two_def tracked_def managed_def)
  then show ?thesis by (simp add: rescue_def split: prod.splits) (metis snd_conv)
qed

lemma sound_interrupt:
  assumes "sound w" and "interruptible (w_phase w) \<or> cancellable w" and "w_bg w = 0"
  shows "sound (interrupt e out w)"
proof -
  from assms(1) have t: "tracked w" by (simp add: sound_def)
  have leave: "sound (goto (WUnwinding sl (Some e)) (w\<lparr>w_faults := n\<rparr>))"
    "sound (goto (WUnwinding sl (Some e)) (retire m (w\<lparr>w_faults := n\<rparr>)))" if "loose w" for sl m n
    using that assms(3) by (intro sound_same [OF t]; simp add: shape_def holding_defs)+
  have stop: "sound (goto WHalted (w\<lparr>w_faults := n\<rparr>))" "sound (goto WHalted (retire sl (w\<lparr>w_faults := n\<rparr>)))"
    if "one_of_two w" for sl n
    using that assms(3) by (intro sound_same [OF t]; simp add: shape_def one_of_two_def)+
  have swap: "sound (goto (WUnwinding sl (Some e)) (end_idle_teardown Raises h (w\<lparr>w_faults := n\<rparr>)))"
    if "w_idle w = None" "h \<in> set (w_reaping w)" for sl h n
  proof -
    have "tracked (end_idle_teardown Raises h (w\<lparr>w_faults := n\<rparr>))"
      using that(2) t by (intro tracked_end_idle) (simp_all add: tracked_def managed_def)
    then show ?thesis using that(1) assms(3) by (simp add: sound_def shape_def holding_defs)
  qed
  have ph: "owns h w \<Longrightarrow> loose w" "one_of_two w \<Longrightarrow> loose w" "w_idle w = None \<Longrightarrow> loose w"
    "w_idle w = None \<Longrightarrow> one_of_two w" for h
    by (simp_all add: holding_defs)
  note sh = assms(1) [unfolded sound_def shape_def, THEN conjunct1]
  show ?thesis
  proof (cases "w_phase w")
    case (WUnwinding sl x)
    show ?thesis
    proof (cases x)
      case None
      with WUnwinding sh leave show ?thesis by (simp add: interrupt_def)
    next
      case (Some y)
      with WUnwinding assms(2) sh have "one_of_two w"
        by (auto simp: interruptible_def cancellable_def loose_def)
      with WUnwinding Some stop show ?thesis by (simp add: interrupt_def)
    qed
  next
    case (WAdmitting sl h kas)
    with sh sound_aborts(1) [OF t _ assms(3), of h] show ?thesis by (simp add: interrupt_def)
  next
    case (WDraining sl h)
    with sh sound_aborts(2) [OF t _ assms(3), of h] show ?thesis by (simp add: interrupt_def)
  next
    case WHalted
    with assms(2) show ?thesis by (simp add: interruptible_def cancellable_def)
  qed (use sh leave stop swap ph in \<open>auto simp: interrupt_def Let_def\<close>)
qed

lemma sound_shutdown_tail:
  assumes "sound w" and "w_phase w = WHalted"
  shows "sound (shutdown_tail w)"
proof -
  obtain cleared q where c: "close (w_queue w) = (cleared, q)" by fastforce
  let ?w = "retire_all (map (\<lambda>sl. fail_completion_future sl Cancelled) cleared) (w\<lparr>w_queue := q\<rparr>)"
  from assms have w: "tracked w" "one_of_two w" "0 < w_bg w \<longrightarrow> w_active w = None \<and> w_idle_expires w = None"
    by (simp_all add: sound_def shape_def)
  then have w': "tracked ?w" "w_active ?w = None \<or> w_idle ?w = None"
    by (simp_all add: tracked_def managed_def one_of_two_def)
  have "tracked (snd (begin_idle_teardown ?w))" by (rule tracked_begin_idle [OF w'])
  moreover have "shape (snd (begin_idle_teardown ?w))"
    using w assms(2) by (auto simp: begin_idle_teardown_def shape_def one_of_two_def split: option.splits)
  ultimately show ?thesis using c by (simp add: shutdown_tail_def sound_def)
qed

lemma shape_update_slots:
  assumes "shape w" and "\<And>sl. sl_state (f sl) = sl_state sl \<and> sl_model_tag (f sl) = sl_model_tag sl \<and>
      wants_stream (f sl) = wants_stream sl"
  shows "shape (update_slots f w)"
proof -
  have "one_of_two (update_slots f w) = one_of_two w" "loose (update_slots f w) = loose w"
    "owns h (update_slots f w) = owns h w" "w_idle (update_slots f w) = w_idle w"
    "w_active (update_slots f w) = w_active w" "w_reaping (update_slots f w) = w_reaping w"
    "w_bg (update_slots f w) = w_bg w" "w_idle_expires (update_slots f w) = w_idle_expires w" for h
    by (simp_all add: update_slots_def holding_defs)
  moreover have "crew (f sl) h (update_slots f w) = crew sl h w" for sl h
    using assms(2) by (simp add: crew_def update_slots_def inflight_count_def)
  moreover have "w_phase (update_slots f w) = map_phase f (w_phase w)" by (simp add: update_slots_def)
  ultimately show ?thesis using assms by (cases "w_phase w") (simp_all add: shape_def)
qed

lemma arm_wants_stream [simp]: "wants_stream (arm_slot sid sl) = wants_stream sl"
  by (simp add: wants_stream_def)

text \<open>Steps that leave phase, slots and holders alone keep the shape.\<close>

lemma shape_frame:
  assumes "shape w" and "w_phase w' = w_phase w" and "w_active w' = w_active w" and "w_idle w' = w_idle w"
    and "w_inflight w' = w_inflight w" and "w_anchor_in w' = w_anchor_in w" and "w_stale w' = w_stale w"
    and "\<forall>sl argv h. w_phase w = WSwapping sl argv h \<longrightarrow> h \<in> set (w_reaping w) \<longrightarrow> h \<in> set (w_reaping w')"
    and "0 < w_bg w' \<longrightarrow> 0 < w_bg w" and "w_idle_expires w' = w_idle_expires w"
  shows "shape w'"
proof -
  have "one_of_two w' = one_of_two w" "loose w' = loose w" "owns h w' = owns h w" "crew sl h w' = crew sl h w" for h sl
    using assms by (simp_all add: holding_defs crew_def inflight_count_def)
  with assms show ?thesis by (cases "w_phase w") (simp_all add: shape_def)
qed

lemma remove_reaping:
  "h \<noteq> h' \<Longrightarrow> h \<in> set xs \<Longrightarrow> h \<in> set (remove1 h' xs)"
  by (metis in_set_remove1)

lemma wfire_sound:
  assumes "sound w" and "books_inv w" and "wfire ev w = Some w'"
  shows "sound w'"
proof -
  from assms(1) have t: "tracked w" "shape w" by (simp_all add: sound_def)
  note steps = sound_swap_done [OF assms(1)] sound_health [OF assms(1)]
    sound_wake [OF assms(1)] sound_serve [OF assms(1)] sound_admit [OF assms(1,2)]
    sound_rider [OF assms(1)] sound_anchor [OF assms(1)] sound_drain [OF assms(1,2)]
    sound_served [OF assms(1)] sound_grace_turn [OF assms(1,2)] sound_promote [OF assms(1)]
    sound_follow_up_done [OF assms(1)] sound_close [OF assms(1)] sound_unwind [OF assms(1)]
    sound_rescue [OF assms(1)]
  show ?thesis
  proof (cases ev)
    case (Submit now sl)
    with assms(3) have "w_active w' = w_active w" "w_idle w' = w_idle w" "w_reaping w' = w_reaping w"
      "w_stray w' = w_stray w" "w_procs w' = w_procs w" "w_pids w' = w_pids w" "shape w'"
      by (auto simp: submit_request_def split: if_splits sum.splits prod.splits intro!: shape_frame [OF t(2)])
    with sound_same [OF t(1)] show ?thesis by blast
  next
    case (Arm sid)
    with assms(3) have w': "w' = update_slots (arm_slot sid) w" by (simp add: arm_streaming_def)
    have "shape w'" unfolding w' by (rule shape_update_slots [OF t(2)]) simp
    with w' show ?thesis by (intro sound_same [OF t(1)]) (simp_all add: update_slots_def)
  next
    case (Disconnect sid)
    with assms(3) shape_frame [OF t(2), of w'] show ?thesis by (intro sound_same [OF t(1)]) auto
  next
    case (Poll now)
    with assms sound_poll show ?thesis by (auto split: wphase.splits)
  next
    case (Open text_of now read)
    with assms sound_open show ?thesis by (auto split: wphase.splits)
  next
    case (GateSpawn gates pid)
    with assms(3) sound_spawn [OF assms(1)] show ?thesis by (auto simp: no_expiry_def split: wphase.splits if_splits)
  next
    case ExpiryTask
    with assms(3) have bg: "0 < w_bg w" and w': "w' = snd (begin_idle_teardown (w\<lparr>w_bg := w_bg w - 1\<rparr>))"
      by (auto split: if_splits)
    with t(2) have a: "w_active w = None" "w_idle_expires w = None" by (simp_all add: shape_def)
    have "tracked w'" unfolding w'
      using t(1) a by (intro tracked_begin_idle) (simp_all add: tracked_def managed_def)
    moreover have "shape w'"
      using t(2) a bg by (cases "w_phase w")
        (auto simp: w' begin_idle_teardown_def shape_def holding_defs crew_def split: option.splits)
    ultimately show ?thesis by (simp add: sound_def)
  next
    case (Reaped h r)
    with assms(3) have h: "h \<in> set (w_reaping w)" and w': "w' = end_idle_teardown r h w"
      and sw: "\<forall>sl argv h'. w_phase w = WSwapping sl argv h' \<longrightarrow> h' \<noteq> h"
      by (auto split: if_splits)
    have "shape w'"
      by (rule shape_frame [OF t(2)]) (use sw in \<open>auto simp: w' intro: remove_reaping\<close>)
    with tracked_end_idle [OF t(1) h] w' show ?thesis by (simp add: sound_def)
  next
    case (Dies h)
    with assms(3) tracked_dies [OF t(1)] shape_frame [OF t(2), of w'] show ?thesis by (auto simp: sound_def)
  next
    case Stop
    with assms(3) shape_frame [OF t(2), of w'] show ?thesis by (intro sound_same [OF t(1)]) auto
  next
    case (Crash e out)
    with assms(3) sound_interrupt [OF assms(1)] show ?thesis by (auto simp: no_expiry_def split: if_splits)
  next
    case Cancel
    with assms(3) sound_interrupt [OF assms(1)] show ?thesis by (auto simp: no_expiry_def split: if_splits)
  next
    case ShutdownTail
    with assms(3) sound_shutdown_tail [OF assms(1)] show ?thesis by (auto split: if_splits)
  qed (use assms(3) steps in \<open>auto simp: no_expiry_def split: wphase.splits if_splits\<close>)
qed

lemma wreach_sound:
  assumes "wreach w w'" and "sound w" and "books_inv w"
  shows "sound w' \<and> books_inv w'"
  using assms by (induction rule: wreach.induct) (auto dest: wfire_sound wfire_books)

lemma init_sound: "sound (init_worker q port_base grace_s extensions idle_s)"
  by (simp add: sound_def shape_def one_of_two_def tracked_def managed_def init_worker_def)

end
