(* ===== verification/WorkerRuns.thy ===== *)
theory WorkerRuns
  imports WorkerSafety
begin

text \<open>
  Properties of the single-slot worker over all its runs, and concrete runs that show where
  it does something its comments do not promise.
\<close>

subsection \<open>Over all runs\<close>

definition fresh_queue :: "tq \<Rightarrow> bool" where
  "fresh_queue q \<longleftrightarrow> queue_inv q \<and> \<not> closed q \<and> distinct (pending q)"

lemma run_ok:
  assumes "fresh_queue q" and "wreach (init_worker q port_base grace_s extensions idle_s) w"
  shows "sound w" and "books_inv w"
  using wreach_sound [OF assms(2) init_sound] init_books assms(1) by (auto simp: fresh_queue_def)

text \<open>The sidecar a request is being loaded into or served by.\<close>

fun served_by :: "wphase \<Rightarrow> handle option" where
  "served_by (WBooting sl h) = Some h"
| "served_by (WWaking sl h) = Some h"
| "served_by (WServing sl h st) = Some h"
| "served_by (WAdmitting sl h kas) = Some h"
| "served_by (WDraining sl h) = Some h"
| "served_by (WServed sl h) = Some h"
| "served_by (WGrace sl h d) = Some h"
| "served_by (WPromoting sl m h d) = Some h"
| "served_by (WMatching sl m h d) = Some h"
| "served_by _ = None"

lemma shape_loose: "shape w \<Longrightarrow> loose w"
  by (cases "w_phase w") (auto simp: shape_def holding_defs)

lemma shape_served: "shape w \<Longrightarrow> served_by (w_phase w) = Some h \<Longrightarrow> w_active w = Some h"
  by (cases "w_phase w") (auto simp: shape_def owns_def)

lemma loose_one: "loose w \<Longrightarrow> managed w h \<Longrightarrow> managed w h' \<Longrightarrow> h = h'"
  by (auto simp: holding_defs managed_def)

definition in_charge :: "worker \<Rightarrow> handle list" where
  "in_charge w = filter (\<lambda>h. h \<notin> set (w_reaping w) \<and> h \<notin> set (w_stray w)) (w_procs w)"


text \<open>
  C2: conservation of requests. Every accepted request is in exactly one place (the queue,
  the hand of the worker, the riders of a fan-out, or the finished ones); a request the
  worker is finished with has its future resolved; and as long as no exception and no
  cancellation has hit the worker, none is dropped unresolved.
\<close>

theorem worker_conserves_requests:
  assumes "fresh_queue q" and "wreach (init_worker q port_base grace_s extensions idle_s) w"
  shows "mset (w_accepted w) = places w \<and> distinct (w_accepted w) \<and>
         (\<forall>sl \<in> set (w_done w). settled sl) \<and> (w_faults w = 0 \<longrightarrow> w_lost w = [])"
  using run_ok(2) [OF assms] by (simp add: books_inv_def ledger_def)

text \<open>The states the slots in hand are in, phase by phase; on an exception any.\<close>

fun expected_states :: "wphase \<Rightarrow> slot_state list option" where
  "expected_states (WOpening sl) = Some [STAGED]"
| "expected_states (WSwapping sl argv h) = Some [LOADING]"
| "expected_states (WGating sl argv) = Some [LOADING]"
| "expected_states (WBooting sl h) = Some [LOADING]"
| "expected_states (WWaking sl h) = Some [LOADING]"
| "expected_states (WServing sl h st) = Some [ACTIVE]"
| "expected_states (WAdmitting sl h kas) = Some [ACTIVE]"
| "expected_states (WDraining sl h) = Some [ACTIVE]"
| "expected_states (WServed sl h) = Some [ACTIVE]"
| "expected_states (WGrace sl h d) = Some [GRACE]"
| "expected_states (WPromoting sl m h d) = Some [GRACE, ACTIVE_MATCH]"
| "expected_states (WMatching sl m h d) = Some [GRACE, ACTIVE]"
| "expected_states (WClosing sl reason) = Some [POPPED]"
| "expected_states (WUnwinding sl None) = Some [POPPED]"
| "expected_states p = None"

definition crew_of :: "worker \<Rightarrow> (slot \<times> handle) option" where
  "crew_of w =
     (case w_phase w of
        WAdmitting sl h kas \<Rightarrow> Some (sl, h)
      | WDraining sl h \<Rightarrow> Some (sl, h)
      | _ \<Rightarrow> None)"

lemma shape_states:
  assumes "shape w" and "expected_states (w_phase w) = Some ss"
  shows "map sl_state (phase_slots (w_phase w)) = ss"
proof (cases "w_phase w")
  case (WUnwinding sl e)
  with assms show ?thesis by (cases e) (simp_all add: shape_def)
qed (use assms in \<open>auto simp: shape_def\<close>)

text \<open>
  C9: the worker and the state machine of the slots agree. In every reachable state the slots
  in hand are in the states their phase expects, which are states the transitions asked for
  next are legal from; and the riders of a fan-out are active, of the anchor's model and
  mode, and with the anchor no more than the sidecar has slots.
\<close>

theorem phases_follow_the_fsm:
  assumes "fresh_queue q" and "wreach (init_worker q port_base grace_s extensions idle_s) w"
  shows "(\<forall>ss. expected_states (w_phase w) = Some ss \<longrightarrow> map sl_state (phase_slots (w_phase w)) = ss) \<and>
         (\<forall>sl h. crew_of w = Some (sl, h) \<longrightarrow>
            int (inflight_count w) \<le> max 1 (h_parallel h) \<and>
            (\<forall>x \<in> set (w_inflight w). sl_state x = ACTIVE \<and> sl_model_tag x = sl_model_tag sl \<and>
               wants_stream x = wants_stream sl))"
proof -
  from run_ok(1) [OF assms] have s: "shape w" by (simp add: sound_def)
  have "crew sl h w" if "crew_of w = Some (sl, h)" for sl h
    using s that by (auto simp: crew_of_def shape_def split: wphase.splits)
  with shape_states [OF s] show ?thesis unfolding crew_def by blast
qed

subsection \<open>Concrete runs\<close>

definition req :: "string \<Rightarrow> string \<Rightarrow> (string \<times> pyval) list \<Rightarrow> slot" where
  "req uid tag meta = (new_slot uid 0 tag [] uid meta)\<lparr>sl_future := Some Pending\<rparr>"

definition idle_worker :: worker where
  "idle_worker = init_worker (new_queue 4 8 3 20) 11500 30 2 120"

definition no_text :: "pyval \<Rightarrow> string" where
  "no_text v = []"

lemma run_view:
  assumes "map_option f (wrun evs w) = Some v"
  obtains w' where "wreach w w'" and "f w' = v"
  using assms that wrun_reach [OF _ wreach.w_here] by (auto simp: map_option_eq_Some)

text \<open>A model without a manifest is tolerated: no flags, so one slot.\<close>

definition cold_start :: "time \<Rightarrow> int \<Rightarrow> wevent list" where
  "cold_start now pid = [Poll now, Open no_text now (Inl NotFound), GateSpawn [] pid, Health True, Wake now]"

definition served_once :: "wevent list" where
  "served_once = [Submit 0 (req ''a'' ''m'' [])] @ cold_start 1 101 @
     [ServeDone (Inr PyNone), ToGrace 2, GraceTick 40 Exits, Unwind Exits]"

lemma idle_worker_fresh: "fresh_queue (new_queue 4 8 3 20)"
  by (simp add: fresh_queue_def new_queue_def queue_inv_def pending_def)

lemma served_once_run:
  "map_option (\<lambda>w. (map h_pid (w_procs w), map_option (h_pid \<circ> fst) (w_idle w), w_idle_expires w,
       map sl_id (w_done w), w_faults w)) (wrun served_once idle_worker) =
     Some ([101], Some 101, Some 160, [''slot-a''], 0)"
  by code_simp

text \<open>
  The single-slot invariant stops at the idle timer. The expired holder is terminated by
  a task of its own while the loop goes on, and the holder is cleared before its process is
  gone: a request that arrives in that window is spawned beside it, so that two sidecars are
  alive on one port, with no fault and no failed teardown anywhere.
\<close>

definition expiry_race :: "wevent list" where
  "expiry_race = served_once @
     [Poll 200, ExpiryTask, Submit 201 (req ''b'' ''n'' []), Poll 201, Open no_text 201 (Inl NotFound), GateSpawn [] 102]"

theorem two_sidecars_on_one_port:
  "\<exists>w. wreach idle_worker w \<and> map h_pid (w_procs w) = [101, 102] \<and> map h_port (w_procs w) = [11500, 11500] \<and>
       w_faults w = 0 \<and> w_stray w = [] \<and> map sl_id (phase_slots (w_phase w)) = [''slot-b'']"
proof -
  have run: "map_option (\<lambda>w. (map h_pid (w_procs w), map h_port (w_procs w), w_faults w, map h_pid (w_stray w),
      map sl_id (phase_slots (w_phase w)))) (wrun expiry_race idle_worker) =
      Some ([101, 102], [11500, 11500], 0, [], [''slot-b''])"
    by code_simp
  show ?thesis by (rule run_view [OF run]) (auto intro!: exI)
qed

text \<open>
  An exception in the one-shot admission loop poisons the worker. The rider already
  admitted is dropped with its future unresolved, and \<open>_inflight\<close> keeps its entries: the
  next request of a model with one slot is answered, then trips over the assertion that no
  rider is left, and its warm sidecar is killed instead of being held idle.
\<close>

definition two_slot_manifest :: manifest where
  "two_slot_manifest =
     \<lparr>mf_tag = ''m'', mf_display = [], mf_description = [], mf_sha256 = [], mf_size = 0, mf_context = 0,
      mf_vram = 0, mf_revision = 1, mf_flags = [(''parallel'', PyInt 2)], mf_system = [], mf_stops = []\<rparr>"

definition poisoned :: "wevent list" where
  "poisoned =
     [Submit 0 (req ''a'' ''m'' []), Submit 0 (req ''b'' ''m'' []), Poll 1, Open no_text 1 (Inr two_slot_manifest),
      GateSpawn [] 101, Health True, Wake 2, Admit 2 Exits, Crash (OtherExc ''database is locked'') (Inr PyNone),
      Unwind Exits, Rescue Exits Exits True, Submit 9 (req ''c'' ''n'' [])] @ cold_start 10 102 @
     [ServeDone (Inr PyNone), ToGrace 12, Unwind Exits]"

definition settled_ids :: "slot list \<Rightarrow> (string \<times> future option) list" where
  "settled_ids sls = map (\<lambda>sl. (sl_id sl, sl_future sl)) sls"

theorem aborted_admission_poisons:
  "\<exists>w sl. wreach idle_worker w \<and> settled_ids (w_lost w) = [(''slot-b'', Some Pending)] \<and>
       w_phase w = WRescuing sl (OtherExc ''AssertionError'') \<and> sl_id sl = ''slot-c'' \<and>
       sl_future sl = Some (Resolved PyNone) \<and> w_procs w = [] \<and> w_idle w = None \<and> w_faults w = 1"
proof -
  have run: "map_option (\<lambda>w. (settled_ids (w_lost w), (case w_phase w of WRescuing sl e \<Rightarrow> Some (sl_id sl, sl_future sl, e) | _ \<Rightarrow> None),
      map h_pid (w_procs w), map_option snd (w_idle w), w_faults w)) (wrun poisoned idle_worker) =
      Some ([(''slot-b'', Some Pending)], Some (''slot-c'', Some (Resolved PyNone), OtherExc ''AssertionError''), [], None, 1)"
    by code_simp
  obtain w where w: "wreach idle_worker w" "settled_ids (w_lost w) = [(''slot-b'', Some Pending)]"
    "(case w_phase w of WRescuing sl e \<Rightarrow> Some (sl_id sl, sl_future sl, e) | _ \<Rightarrow> None) =
        Some (''slot-c'', Some (Resolved PyNone), OtherExc ''AssertionError'')"
    "w_procs w = []" "w_idle w = None" "w_faults w = 1"
    by (rule run_view [OF run]) auto
  from w(3) obtain sl where "w_phase w = WRescuing sl (OtherExc ''AssertionError'')" "sl_id sl = ''slot-c''"
    "sl_future sl = Some (Resolved PyNone)" by (auto split: wphase.splits)
  with w show ?thesis by blast
qed

text \<open>A worker task that has ended never runs again.\<close>

lemma halted_stays:
  assumes "w_phase w = WHalted" and "wfire ev w = Some w'"
  shows "w_phase w' = WHalted"
  using assms same_requests_ops(3) [of "w\<lparr>w_bg := w_bg w - 1\<rparr>"] same_requests_ops(4) [of w]
  by (cases ev) (auto simp: submit_request_def arm_streaming_def update_slots_def same_requests_def
      interruptible_def cancellable_def shutdown_tail_def close_def split: if_splits sum.splits prod.splits)

lemma halted_forever: "wreach w w' \<Longrightarrow> w_phase w = WHalted \<Longrightarrow> w_phase w' = WHalted"
  by (induction rule: wreach.induct) (auto intro: halted_stays)

text \<open>
  The handler that keeps the loop alive is itself not protected. When the database write
  at the end of \<open>_force_cold\<close> fails too (as it will when a locked or full database raised the
  first exception) the worker task ends without a shutdown: requests are still accepted, and
  whatever happens afterwards none of them is ever taken up.
\<close>

theorem rescue_failure_stops_the_worker:
  "\<exists>w. wreach idle_worker w \<and> \<not> w_stop w \<and> pending (w_queue w) = [''slot-b''] \<and>
       (\<forall>w'. wreach w w' \<longrightarrow> w_phase w' = WHalted) \<and>
       is_ok (submit_request 9 (req ''c'' ''m'' []) w)"
proof -
  let ?run = "[Submit 0 (req ''a'' ''m'' []), Submit 0 (req ''b'' ''n'' []), Poll 1,
      Crash (OtherExc ''database is locked'') (Inr PyNone), Unwind Exits, Rescue Exits Exits False]"
  have run: "map_option (\<lambda>w. (w_stop w, pending (w_queue w), case w_phase w of WHalted \<Rightarrow> True | _ \<Rightarrow> False,
      is_ok (submit_request 9 (req ''c'' ''m'' []) w))) (wrun ?run idle_worker) =
      Some (False, [''slot-b''], True, True)"
    by code_simp
  obtain w where w: "wreach idle_worker w" "\<not> w_stop w" "pending (w_queue w) = [''slot-b'']"
    "case w_phase w of WHalted \<Rightarrow> True | _ \<Rightarrow> False" "is_ok (submit_request 9 (req ''c'' ''m'' []) w)"
    by (rule run_view [OF run]) auto
  from w(4) have "w_phase w = WHalted" by (cases "w_phase w") simp_all
  with w halted_forever show ?thesis by blast
qed

theorem rescue_failure_stops_the_worker_witness:
  "\<exists>w. wreach idle_worker w \<and> \<not> w_stop w \<and> pending (w_queue w) = [''slot-b''] \<and> w_phase w = WHalted"
proof -
  from rescue_failure_stops_the_worker obtain w where "wreach idle_worker w" "\<not> w_stop w"
    "pending (w_queue w) = [''slot-b'']" and h: "\<forall>w'. wreach w w' \<longrightarrow> w_phase w' = WHalted"
    by blast
  moreover from h wreach.w_here have "w_phase w = WHalted" by blast
  ultimately show ?thesis by blast
qed

text \<open>
  A streaming request can be served as if it were not streaming. \<open>submit_for_streaming\<close>
  arms the events of the slot only after \<open>submit\<close> has put it into the queue and awaited the
  audit write; a worker that reaches the serve in between takes the branch for plain
  completions, and the ready event that the route waits for is armed but never set.
\<close>

definition stream_meta :: "(string \<times> pyval) list" where
  "stream_meta = [(''stream'', PyBool True)]"

definition late_arming :: "wevent list" where
  "late_arming = [Submit 0 (req ''a'' ''m'' stream_meta)] @ cold_start 1 101 @
     [Arm ''slot-a'', ServeDone (Inr (PyStr ''text'')), ToGrace 2, GraceTick 40 Exits, Unwind Exits]"

definition route_view :: "worker \<Rightarrow> bool \<times> nat \<times> (string \<times> bool \<times> bool option \<times> future option) list" where
  "route_view w = (w_phase w = WPolling, w_faults w,
     map (\<lambda>sl. (sl_id sl, wants_stream sl, sl_stream_ready sl, sl_future sl)) (w_done w))"

lemma polling_eq: "w_phase w = WPolling \<longleftrightarrow> (case w_phase w of WPolling \<Rightarrow> True | _ \<Rightarrow> False)"
  by (cases "w_phase w") simp_all

theorem late_arming_starves_the_route:
  "\<exists>w. wreach idle_worker w \<and>
       route_view w = (True, 0, [(''slot-a'', True, Some False, Some (Resolved (PyStr ''text'')))])"
proof -
  have run: "map_option route_view (wrun late_arming idle_worker) =
      Some (True, 0, [(''slot-a'', True, Some False, Some (Resolved (PyStr ''text'')))])"
    unfolding route_view_def [abs_def] polling_eq by code_simp
  show ?thesis by (rule run_view [OF run]) blast
qed

text \<open>The properties at work on such runs.\<close>

definition serving_run :: "wevent list" where
  "serving_run = [Submit 0 (req ''a'' ''m'' [])] @ cold_start 1 101"

definition fanout_run :: "wevent list" where
  "fanout_run =
     [Submit 0 (req ''a'' ''m'' []), Submit 0 (req ''b'' ''m'' []), Poll 1, Open no_text 1 (Inr two_slot_manifest),
      GateSpawn [] 101, Health True, Wake 2, Admit 2 Exits]"


theorem worker_conserves_requests_witness:
  "\<exists>w. wreach idle_worker w \<and> w_accepted w = [''slot-a''] \<and> map sl_id (w_done w) = [''slot-a''] \<and>
       mset (w_accepted w) = places w \<and> w_lost w = []"
proof -
  have run: "map_option (\<lambda>w. (w_accepted w, map sl_id (w_done w), w_faults w)) (wrun served_once idle_worker) =
      Some ([''slot-a''], [''slot-a''], 0)" by code_simp
  obtain w where w: "wreach idle_worker w" "w_accepted w = [''slot-a'']" "map sl_id (w_done w) = [''slot-a'']"
    "w_faults w = 0" by (rule run_view [OF run]) auto
  from worker_conserves_requests [OF idle_worker_fresh w(1) [unfolded idle_worker_def]] w show ?thesis
    by (intro exI [of _ w]) simp
qed

theorem phases_follow_the_fsm_witness:
  "\<exists>w sl h. wreach idle_worker w \<and> crew_of w = Some (sl, h) \<and> map sl_id (w_inflight w) = [''slot-b''] \<and>
       h_parallel h = 2 \<and> int (inflight_count w) \<le> max 1 (h_parallel h)"
proof -
  have run: "map_option (\<lambda>w. (map_option (\<lambda>(sl, h). (sl_id sl, h_parallel h)) (crew_of w), map sl_id (w_inflight w)))
      (wrun fanout_run idle_worker) = Some (Some (''slot-a'', 2), [''slot-b''])" by code_simp
  obtain w where w: "wreach idle_worker w" "map_option (\<lambda>(sl, h). (sl_id sl, h_parallel h)) (crew_of w) = Some (''slot-a'', 2)"
    "map sl_id (w_inflight w) = [''slot-b'']" by (rule run_view [OF run]) auto
  from w(2) obtain sl h where c: "crew_of w = Some (sl, h)" "h_parallel h = 2" by auto
  from phases_follow_the_fsm [OF idle_worker_fresh w(1) [unfolded idle_worker_def]] c w show ?thesis
    by (intro exI [of _ w] exI [of _ sl] exI [of _ h]) simp
qed

subsection \<open>Smaller things\<close>

text \<open>
  The walk of \<open>_force_cold\<close> always ends in COLD, by legal hops except from the two states
  that have no way there.
\<close>

lemma cold_walk_ends: "cold_walk 4 s = COLD"
  by (cases s) (simp_all add: cold_hop_def eval_nat_numeral)

lemma cold_walk_legal:
  "s \<noteq> RECEIVED \<Longrightarrow> s \<noteq> ACTIVE_MATCH \<Longrightarrow> fsm_reach s COLD"
  by (cases s) (fastforce intro: fsm_reach.here fsm_reach.more)+

text \<open>
  The branch \<open>anchor_shared\<close> of \<open>_force_cold\<close>, written for a drifted follow-up on the anchor's
  sidecar, is not reached from the grace loop: the loop has made the follow-up the active
  slot before, so the follow-up counts as the owner and the anchor's sidecar is killed.
\<close>

lemma drift_kills_the_anchors_sidecar:
  assumes "w_active w = Some h" and "h_pid h \<noteq> 0" and "w_inflight w = []" and "\<not> w_anchor_in w"
    and "w_stale w = 0"
  shows "w_active (match_drift Exits e sl (on_sidecar h m) h d (set_current (on_sidecar h m) w)) = None"
  using assms by (auto simp: match_drift_def force_cold_def pid_source_of_def shares_active_def on_sidecar_def
      inflight_count_def set_current_def fail_completion_future_def split: prod.splits option.splits)

text \<open>
  A \<open>SIGTERM\<close> that reports failure counts as done: the process lives on and no variable of the
  manager refers to it.
\<close>

lemma failed_sigterm_drops_the_sidecar:
  assumes "w_active w = Some h" and "w_idle w = None" and "h \<in> set (w_procs w)"
  shows "h \<in> set (w_procs (snd (teardown_active Survives w))) \<and> \<not> managed (snd (teardown_active Survives w)) h"
  using assms by (simp add: teardown_active_def reaped_def managed_def)

text \<open>
  A follow-up in the grace window that is between its promotion and its completion when an
  audit write fails is dropped with its future unresolved.
\<close>

lemma promoted_followup_is_lost:
  assumes "w_phase w = WPromoting sl m h d" and "\<not> settled m"
  shows "w_lost (interrupt (OtherExc ''database is locked'') out w) = w_lost w @ [m]"
  using assms by (simp add: interrupt_def retire_def)

text \<open>The serial worker asks the gates what the registry's footprint of the model rests on.\<close>

lemma spawn_request_matches_footprint:
  "kv_parallel (snd (spawn_request (Some mf))) = flag_int (mf_flags mf) ''parallel'' 1 \<and>
   f_parallel (footprint_of mf) = max 1 (kv_parallel (snd (spawn_request (Some mf)))) \<and>
   f_main_gpu (footprint_of mf) = kv_main_gpu (snd (spawn_request (Some mf))) \<and>
   f_split (footprint_of mf) = kv_split (snd (spawn_request (Some mf)))"
  by (simp add: spawn_request_def footprint_of_def Let_def)

end
