(* ===== verification/LiveSlots.thy ===== *)
theory LiveSlots
  imports PyStrings
begin

text \<open>
  The metrics plane of the live monitor (\<open>live_monitor.py\<close>): the poller that derives rate and
  progress from two readings of a sidecar's \<open>/slots\<close>, the debounce of what it publishes,
  and the supervisor that polls every resident. Rates are exact rationals and \<open>round\<close> rounds
  halves to even; a row of \<open>/slots\<close> is typed as the sidecar documents it (absent fields are
  \<open>None\<close>). The generation id, a hash of process, spawn number and slot, is given.
\<close>

subsection \<open>Generations\<close>

datatype gen_state = GIdle | GTransitioning | GLoading | GPrefill | GGenerating | GStalled | GFinishing

record generation =
  gn_state :: gen_state
  gn_tok_s :: "rat option"
  gn_tok_s_instant :: rat
  gn_n_decoded :: int
  gn_max_tokens :: "int option"
  gn_n_remain :: "int option"
  gn_n_prompt_tokens :: int
  gn_n_ctx :: "int option"
  gn_prompt_progress :: "rat option"
  gn_pct :: "rat option"
  gn_eta_s :: "rat option"
  gn_stalled :: bool
  gn_streaming :: bool
  gn_id :: "string option"
  gn_riders :: nat

definition STALL_AFTER_S :: rat where "STALL_AFTER_S = 2"
definition STALE_GAP_S :: rat where "STALE_GAP_S = 5"
definition TRANSIENT_HOLD_TICKS :: nat where "TRANSIENT_HOLD_TICKS = 3"
definition EWMA_ALPHA :: rat where "EWMA_ALPHA = 2 / 5"

definition base_generation :: "gen_state \<Rightarrow> string option \<Rightarrow> generation" where
  "base_generation st gid =
     \<lparr>gn_state = st, gn_tok_s = (if st \<in> {GIdle, GStalled, GFinishing} then Some 0 else None),
      gn_tok_s_instant = 0, gn_n_decoded = 0, gn_max_tokens = None, gn_n_remain = None,
      gn_n_prompt_tokens = 0, gn_n_ctx = None, gn_prompt_progress = None, gn_pct = None,
      gn_eta_s = None, gn_stalled = False, gn_streaming = False, gn_id = gid, gn_riders = 0\<rparr>"

definition clip :: "rat \<Rightarrow> rat \<Rightarrow> rat" where
  "clip hi x = min (max x 0) hi"

subsection \<open>Deriving rate and progress\<close>

record slot_row =
  sr_task :: "int option"
  sr_processing :: bool
  sr_n_decoded :: "int option"
  sr_n_remain :: "int option"
  sr_has_next :: "bool option"
  sr_n_prompt :: "int option"
  sr_n_prompt_proc :: "int option"
  sr_n_ctx :: "int option"
  sr_max_tokens :: "int option"
  sr_n_predict :: "int option"
  sr_stream :: bool

record sample =
  sp_decoded :: int
  sp_time :: time
  sp_max :: "int option"
  sp_change :: time

record headline =
  hl_n_decoded :: int
  hl_n_remain :: "int option"
  hl_n_prompt :: "int option"
  hl_n_prompt_proc :: "int option"
  hl_n_ctx :: "int option"
  hl_max_tokens :: "int option"
  hl_n_predict :: "int option"
  hl_has_next :: "bool option"
  hl_change :: time

record poller =
  po_samples :: "int option \<rightharpoonup> sample"
  po_ewma :: "rat option"
  po_gen :: "string option"
  po_held :: "generation option"
  po_ticks :: nat

definition reset_samples :: "poller \<Rightarrow> poller" where
  "reset_samples po = po\<lparr>po_samples := (\<lambda>_. None), po_ewma := None, po_gen := None\<rparr>"

definition positive :: "int option \<Rightarrow> int option" where
  "positive v = (case v of None \<Rightarrow> None | Some m \<Rightarrow> if 0 < m then Some m else None)"

definition positive_or :: "int option \<Rightarrow> int option \<Rightarrow> int option" where
  "positive_or a b = (case positive a of None \<Rightarrow> positive b | Some m \<Rightarrow> Some m)"

text \<open>State, rate, prompt progress and the stalled flag.\<close>

definition derive_running :: "rat option \<Rightarrow> headline \<Rightarrow> rat \<Rightarrow> time \<Rightarrow> gen_state \<times> rat option \<times> bool" where
  "derive_running ewma hl rate now =
     (if rate = 0 \<and> STALL_AFTER_S \<le> now - hl_change hl then
        (if hl_has_next hl \<noteq> Some True then (GFinishing, Some 0, False)
         else if 0 < hl_n_decoded hl then (GStalled, Some 0, True)
         else (GGenerating, None, False))
      else (GGenerating, map_option (\<lambda>e. py_round 1 (clip 10000 e)) ewma, False))"

definition prefill_progress :: "headline \<Rightarrow> rat option" where
  "prefill_progress hl =
     (case (hl_n_prompt hl, hl_n_prompt_proc hl) of
        (Some np, Some pp) \<Rightarrow>
          if hl_n_decoded hl = 0 \<and> np \<noteq> 0 \<and> pp < np
          then Some (py_round 3 (of_int pp / of_int (max 1 np))) else None
      | _ \<Rightarrow> None)"

definition derive :: "rat option \<Rightarrow> string \<Rightarrow> headline \<Rightarrow> rat \<Rightarrow> bool \<Rightarrow> nat \<Rightarrow> time \<Rightarrow> generation" where
  "derive ewma gid hl rate streaming riders now =
     (let nd = hl_n_decoded hl;
          max_tokens = positive (hl_max_tokens hl);
          effective = positive_or (hl_max_tokens hl) (hl_n_predict hl);
          progress = prefill_progress hl;
          (st, tok_s, stalled) = (if progress \<noteq> None then (GPrefill, None, False) else derive_running ewma hl rate now);
          n_remain = (case hl_n_remain hl of Some r \<Rightarrow> if 0 \<le> r then Some r else None | None \<Rightarrow> None);
          eta = (case (effective, ewma, n_remain) of
                   (Some m, Some e, Some r) \<Rightarrow>
                     if 0 < e \<and> r \<le> m then Some (py_round 1 (of_int r / e)) else None
                 | _ \<Rightarrow> None)
      in \<lparr>gn_state = st, gn_tok_s = tok_s, gn_tok_s_instant = py_round 1 (clip 10000 rate),
          gn_n_decoded = nd, gn_max_tokens = max_tokens, gn_n_remain = n_remain,
          gn_n_prompt_tokens = (case hl_n_prompt hl of None \<Rightarrow> 0 | Some n \<Rightarrow> n), gn_n_ctx = hl_n_ctx hl,
          gn_prompt_progress = progress,
          gn_pct = map_option (\<lambda>m. py_round 1 (clip 100 (of_int nd / of_int m * 100))) effective,
          gn_eta_s = eta, gn_stalled = stalled, gn_streaming = streaming, gn_id = Some gid,
          gn_riders = riders\<rparr>)"

subsection \<open>One poll\<close>

text \<open>What the loop over the processing slots carries.\<close>

record poll_acc =
  pa_samples :: "int option \<rightharpoonup> sample"
  pa_ewma :: "rat option"
  pa_total :: rat
  pa_reset :: bool
  pa_streaming :: bool
  pa_headline :: "headline option"

definition headline_of :: "slot_row \<Rightarrow> int \<Rightarrow> time \<Rightarrow> headline" where
  "headline_of s nd change =
     \<lparr>hl_n_decoded = nd, hl_n_remain = sr_n_remain s, hl_n_prompt = sr_n_prompt s,
      hl_n_prompt_proc = sr_n_prompt_proc s, hl_n_ctx = sr_n_ctx s, hl_max_tokens = sr_max_tokens s,
      hl_n_predict = sr_n_predict s, hl_has_next = sr_has_next s, hl_change = change\<rparr>"

definition sample_slot :: "time \<Rightarrow> slot_row \<Rightarrow> poll_acc \<Rightarrow> poll_acc" where
  "sample_slot now s acc0 =
     (let acc = acc0\<lparr>pa_streaming := pa_streaming acc0 \<or> sr_stream s\<rparr> in
      case sr_n_decoded s of
        None \<Rightarrow> acc
      | Some nd \<Rightarrow>
          (let known = pa_samples acc (sr_task s);
               fresh = (case known of None \<Rightarrow> True
                        | Some smp \<Rightarrow> nd < sp_decoded smp \<or> sr_max_tokens s \<noteq> sp_max smp);
               dt = (case known of None \<Rightarrow> 0 | Some smp \<Rightarrow> now - sp_time smp);
               dn = (case known of None \<Rightarrow> 0 | Some smp \<Rightarrow> max 0 (nd - sp_decoded smp));
               inst = (if fresh then 0 else if 1 / 1000 < dt then of_int dn / dt else 0);
               change = (case known of None \<Rightarrow> now
                         | Some smp \<Rightarrow> if fresh \<or> 0 < dn then now else sp_change smp);
               smp' = \<lparr>sp_decoded = nd, sp_time = now, sp_max = sr_max_tokens s, sp_change = change\<rparr>
           in acc\<lparr>pa_samples := (pa_samples acc)(sr_task s \<mapsto> smp'),
                  pa_ewma := (if \<not> fresh \<and> STALE_GAP_S < dt then None else pa_ewma acc),
                  pa_total := pa_total acc + inst,
                  pa_reset := pa_reset acc \<or> fresh,
                  pa_headline :=
                    (case pa_headline acc of
                       None \<Rightarrow> Some (headline_of s nd change)
                     | Some h \<Rightarrow> if hl_n_decoded h < nd then Some (headline_of s nd change) else Some h)\<rparr>))"

definition next_ewma :: "rat option \<Rightarrow> rat \<Rightarrow> rat option" where
  "next_ewma ewma rate =
     (case ewma of
        None \<Rightarrow> if 0 < rate then Some rate else None
      | Some e \<Rightarrow> Some (EWMA_ALPHA * rate + (1 - EWMA_ALPHA) * e))"

definition compute :: "string \<Rightarrow> time \<Rightarrow> slot_row list \<Rightarrow> poller \<Rightarrow> generation \<times> poller" where
  "compute gid now rows po =
     (let proc = filter sr_processing rows in
      if proc = [] then (base_generation GIdle (Some gid), reset_samples po)
      else
        (let acc = fold (sample_slot now) proc
               \<lparr>pa_samples = po_samples po, pa_ewma = po_ewma po, pa_total = 0, pa_reset = False,
                pa_streaming = False, pa_headline = None\<rparr>;
             samples = (\<lambda>k. if k \<in> sr_task ` set proc then pa_samples acc k else None)
         in case pa_headline acc of
              None \<Rightarrow> (base_generation GTransitioning (Some gid),
                       po\<lparr>po_samples := samples, po_ewma := pa_ewma acc\<rparr>)
            | Some h \<Rightarrow>
                (let boundary = (pa_reset acc \<or> po_gen po \<noteq> Some gid);
                     ewma = next_ewma (if boundary then None else pa_ewma acc) (pa_total acc)
                 in (derive ewma gid h (pa_total acc) (pa_streaming acc) (length proc) now,
                     po\<lparr>po_samples := samples, po_ewma := ewma, po_gen := Some gid\<rparr>))))"

text \<open>
  The identity read before the request is checked again after it: \<open>/slots\<close> of a port that was
  reused in between belongs to another sidecar. A handle is given by the number of its
  object, with its process id.
\<close>

datatype slot_phase = PhLoading | PhActive | PhOther

record identity =
  id_handle :: nat
  id_pid :: int
  id_port :: "int option"
  id_seq :: nat

definition fetch_revalidate ::
  "identity \<Rightarrow> slot_phase \<Rightarrow> string \<Rightarrow> (time \<times> slot_row list) option \<Rightarrow> identity option \<Rightarrow> poller
     \<Rightarrow> generation \<times> poller" where
  "fetch_revalidate idn phase gid response after po =
     (if id_port idn = None then (base_generation GTransitioning None, po)
      else case phase of
        PhLoading \<Rightarrow> (base_generation GLoading None, reset_samples po)
      | PhOther \<Rightarrow> (base_generation GTransitioning None, po)
      | PhActive \<Rightarrow>
          (case response of None \<Rightarrow> (base_generation GTransitioning None, po)
           | Some (now, rows) \<Rightarrow>
               (case after of None \<Rightarrow> (base_generation GTransitioning None, po)
                | Some cur \<Rightarrow>
                    if id_handle cur \<noteq> id_handle idn \<or> id_pid cur \<noteq> id_pid idn \<or> id_seq cur \<noteq> id_seq idn
                    then (base_generation GTransitioning None, po)
                    else compute gid now rows po)))"

subsection \<open>Publishing\<close>

definition active_gen :: "gen_state \<Rightarrow> bool" where
  "active_gen st \<longleftrightarrow> st \<in> {GGenerating, GPrefill, GFinishing, GStalled, GLoading}"

text \<open>The published generation, and whether the contentless tick event is sent.\<close>

definition store :: "generation option \<Rightarrow> generation \<Rightarrow> poller \<Rightarrow> generation \<times> bool \<times> poller" where
  "store prev gen po =
     (let (out, po') =
        (if active_gen (gn_state gen) then (gen, po\<lparr>po_held := Some gen, po_ticks := 0\<rparr>)
         else case po_held po of
           None \<Rightarrow> (gen, po)
         | Some h \<Rightarrow>
             if gn_id gen \<noteq> None \<and> gn_id gen \<noteq> gn_id h then (gen, po\<lparr>po_held := None, po_ticks := 0\<rparr>)
             else if po_ticks po + 1 < TRANSIENT_HOLD_TICKS then (h, po\<lparr>po_ticks := po_ticks po + 1\<rparr>)
             else (gen, po\<lparr>po_held := None, po_ticks := po_ticks po + 1\<rparr>));
          changed = (map_option gn_state prev \<noteq> Some (gn_state out))
      in (out, active_gen (gn_state out) \<or> changed, po'))"

text \<open>One tick of the single poller: no slot means idle or a teardown in progress.\<close>

datatype tick_view =
    NoSlot bool
  | HasSlot identity slot_phase string "(time \<times> slot_row list) option" "identity option"

fun poll_tick :: "generation option \<Rightarrow> tick_view \<Rightarrow> poller \<Rightarrow> generation \<times> bool \<times> poller" where
  "poll_tick prev (NoSlot lingering) po =
     store prev (base_generation (if lingering then GTransitioning else GIdle) None) (reset_samples po)"
| "poll_tick prev (HasSlot idn phase gid response after) po =
     (case fetch_revalidate idn phase gid response after po of (gen, po') \<Rightarrow> store prev gen po')"

text \<open>The per-resident poller returns its generation and never debounces.\<close>

fun poll_once :: "tick_view \<Rightarrow> poller \<Rightarrow> generation \<times> poller" where
  "poll_once (NoSlot lingering) po =
     (base_generation (if lingering then GTransitioning else GIdle) None, reset_samples po)"
| "poll_once (HasSlot idn phase gid response after) po = fetch_revalidate idn phase gid response after po"

definition new_poller :: poller where
  "new_poller = \<lparr>po_samples = (\<lambda>_. None), po_ewma = None, po_gen = None, po_held = None, po_ticks = 0\<rparr>"

subsection \<open>The supervisor of several residents\<close>

text \<open>
  \<open>views\<close> lists the live residents at the start of a tick: tag, time of last activity, what the
  poll of its sidecar saw, and whether the resident is still live when the poll returns.
\<close>

record resident_view =
  rv_tag :: string
  rv_last_active :: time
  rv_view :: tick_view
  rv_alive_after :: bool

record supervisor =
  su_pollers :: "string \<rightharpoonup> poller"
  su_generations :: "string \<rightharpoonup> generation"
  su_primary :: "generation option"

definition poll_one :: "resident_view \<Rightarrow> supervisor \<Rightarrow> supervisor" where
  "poll_one r su =
     (let po = (case su_pollers su (rv_tag r) of None \<Rightarrow> new_poller | Some po \<Rightarrow> po);
          (gen, po') = poll_once (rv_view r) po
      in su\<lparr>su_pollers := (su_pollers su)(rv_tag r \<mapsto> po'),
            su_generations :=
              (if rv_alive_after r then (su_generations su)(rv_tag r \<mapsto> gen)
               else (su_generations su)(rv_tag r := None))\<rparr>)"

definition gc_vanished :: "string set \<Rightarrow> supervisor \<Rightarrow> supervisor" where
  "gc_vanished live su =
     su\<lparr>su_generations := (\<lambda>t. if su_pollers su t \<noteq> None \<and> t \<notin> live then None else su_generations su t),
        su_pollers := (\<lambda>t. if t \<in> live then su_pollers su t else None)\<rparr>"

fun most_recent :: "(string \<rightharpoonup> generation) \<Rightarrow> (generation \<times> time) option \<Rightarrow> resident_view list \<Rightarrow> generation option" where
  "most_recent gens best [] = map_option fst best"
| "most_recent gens best (r # rs) =
     (case gens (rv_tag r) of
        None \<Rightarrow> most_recent gens best rs
      | Some g \<Rightarrow>
          (case best of
             None \<Rightarrow> most_recent gens (Some (g, rv_last_active r)) rs
           | Some (b, t) \<Rightarrow>
               most_recent gens (if t < rv_last_active r then Some (g, rv_last_active r) else best) rs))"

definition supervisor_tick :: "resident_view list \<Rightarrow> supervisor \<Rightarrow> supervisor" where
  "supervisor_tick views su =
     (let su' = gc_vanished (rv_tag ` set views) (fold poll_one views su)
      in su'\<lparr>su_primary := most_recent (su_generations su') None views\<rparr>)"

definition close_all :: "supervisor \<Rightarrow> supervisor" where
  "close_all su = su\<lparr>su_pollers := (\<lambda>_. None), su_generations := (\<lambda>_. None), su_primary := None\<rparr>"

subsection \<open>Ranges\<close>

lemma round_half_even_mono: "x \<le> y \<Longrightarrow> round_half_even x \<le> round_half_even y"
proof -
  assume le: "x \<le> y"
  then have f: "\<lfloor>x\<rfloor> \<le> \<lfloor>y\<rfloor>" by (rule floor_mono)
  show ?thesis
  proof (cases "\<lfloor>x\<rfloor> = \<lfloor>y\<rfloor>")
    case True
    with le show ?thesis by (auto simp: round_half_even_def Let_def)
  next
    case False
    with f have "\<lfloor>x\<rfloor> + 1 \<le> \<lfloor>y\<rfloor>" by simp
    then show ?thesis by (auto simp: round_half_even_def Let_def)
  qed
qed

lemma round_half_even_int [simp]: "round_half_even (of_int k) = k"
  by (simp add: round_half_even_def)

lemma py_round_mono: "x \<le> y \<Longrightarrow> py_round n x \<le> py_round n y"
  by (simp add: py_round_def divide_right_mono round_half_even_mono)

lemma py_round_int: "py_round n (of_int k) = of_int k"
proof -
  have "(of_int k :: rat) * 10 ^ n = of_int (k * 10 ^ n)" by simp
  then show ?thesis unfolding py_round_def by (metis (no_types) nonzero_mult_div_cancel_right of_int_mult
      of_int_numeral of_int_power power_not_zero round_half_even_int zero_neq_numeral)
qed

lemma py_round_range: "of_int a \<le> x \<Longrightarrow> x \<le> of_int b \<Longrightarrow> of_int a \<le> py_round n x \<and> py_round n x \<le> of_int b"
  using py_round_mono [of "of_int a" x n] py_round_mono [of x "of_int b" n] by (simp add: py_round_int)

lemma clip_range: "0 \<le> hi \<Longrightarrow> 0 \<le> clip hi x \<and> clip hi x \<le> hi"
  by (auto simp: clip_def)

lemma py_round_clip: "0 \<le> py_round n (clip (of_int b) x) \<and> py_round n (clip (of_int b) x) \<le> of_int b" if "0 \<le> b"
  using py_round_range [of 0 "clip (of_int b) x" b n] clip_range [of "of_int b" x] that by simp

definition opt_within :: "rat \<Rightarrow> rat \<Rightarrow> rat option \<Rightarrow> bool" where
  "opt_within lo hi v = (case v of None \<Rightarrow> True | Some x \<Rightarrow> lo \<le> x \<and> x \<le> hi)"

text \<open>What a client may rely on in a published block.\<close>

definition generation_ok :: "generation \<Rightarrow> bool" where
  "generation_ok g \<longleftrightarrow>
     opt_within 0 10000 (gn_tok_s g) \<and> 0 \<le> gn_tok_s_instant g \<and> gn_tok_s_instant g \<le> 10000 \<and>
     opt_within 0 100 (gn_pct g) \<and>
     (case gn_eta_s g of None \<Rightarrow> True | Some e \<Rightarrow> 0 \<le> e) \<and>
     (case gn_n_remain g of None \<Rightarrow> True | Some r \<Rightarrow> 0 \<le> r) \<and>
     (case gn_max_tokens g of None \<Rightarrow> True | Some m \<Rightarrow> 0 < m) \<and>
     (gn_stalled g = (gn_state g = GStalled) \<or> gn_id g = None) \<and>
     (gn_state g = GPrefill \<longleftrightarrow> gn_prompt_progress g \<noteq> None)"

lemma base_ok: "st \<noteq> GPrefill \<Longrightarrow> st \<noteq> GStalled \<Longrightarrow> generation_ok (base_generation st gid)"
  by (auto simp: generation_ok_def base_generation_def opt_within_def)

lemma derive_running_facts:
  assumes "derive_running ewma h rate now = (st, tok, stalled)"
  shows "st \<noteq> GPrefill" "stalled = (st = GStalled)" "opt_within 0 10000 tok"
  using assms py_round_clip [of 10000 1]
  by (cases ewma; auto simp: derive_running_def opt_within_def split: if_splits)+

lemma derive_fields:
  "gn_state (derive ewma gid h rate streaming riders now) =
     (if prefill_progress h \<noteq> None then GPrefill else fst (derive_running ewma h rate now))"
  "gn_tok_s (derive ewma gid h rate streaming riders now) =
     (if prefill_progress h \<noteq> None then None else fst (snd (derive_running ewma h rate now)))"
  "gn_stalled (derive ewma gid h rate streaming riders now) =
     (prefill_progress h = None \<and> snd (snd (derive_running ewma h rate now)))"
  "gn_tok_s_instant (derive ewma gid h rate streaming riders now) = py_round 1 (clip 10000 rate)"
  "gn_prompt_progress (derive ewma gid h rate streaming riders now) = prefill_progress h"
  "gn_max_tokens (derive ewma gid h rate streaming riders now) = positive (hl_max_tokens h)"
  "gn_pct (derive ewma gid h rate streaming riders now) =
     map_option (\<lambda>m. py_round 1 (clip 100 (of_int (hl_n_decoded h) / of_int m * 100)))
       (positive_or (hl_max_tokens h) (hl_n_predict h))"
  by (simp_all add: derive_def Let_def split_beta)

lemma derive_counts:
  "case gn_eta_s (derive ewma gid h rate streaming riders now) of None \<Rightarrow> True | Some e \<Rightarrow> 0 \<le> e"
  "case gn_n_remain (derive ewma gid h rate streaming riders now) of None \<Rightarrow> True | Some r \<Rightarrow> 0 \<le> r"
proof -
  have "0 \<le> py_round 1 (of_int r / e)" if "0 \<le> r" "0 < e" for r :: int and e
    using py_round_mono [of 0 "of_int r / e" 1] py_round_int [of 1 0] that by simp
  then show "case gn_eta_s (derive ewma gid h rate streaming riders now) of None \<Rightarrow> True | Some e \<Rightarrow> 0 \<le> e"
    by (cases ewma; cases "hl_n_remain h"; cases "positive_or (hl_max_tokens h) (hl_n_predict h)")
       (auto simp: derive_def Let_def split_beta)
  show "case gn_n_remain (derive ewma gid h rate streaming riders now) of None \<Rightarrow> True | Some r \<Rightarrow> 0 \<le> r"
    by (cases "hl_n_remain h") (auto simp: derive_def Let_def split_beta)
qed

lemma derive_ok: "generation_ok (derive ewma gid h rate streaming riders now)"
proof -
  obtain st tok stalled where d: "derive_running ewma h rate now = (st, tok, stalled)" by (metis prod_cases3)
  note f = derive_running_facts [OF d]
  have pct: "opt_within 0 100 (map_option (\<lambda>m. py_round 1 (clip 100 (x m))) v)" for x and v :: "int option"
    using py_round_clip [of 100 1] by (cases v) (auto simp: opt_within_def)
  have inst: "0 \<le> py_round 1 (clip 10000 rate) \<and> py_round 1 (clip 10000 rate) \<le> 10000"
    using py_round_clip [of 10000 1 rate] by simp
  have max: "case positive v of None \<Rightarrow> True | Some m \<Rightarrow> 0 < m" for v
    by (cases v) (auto simp: positive_def)
  have none: "opt_within 0 10000 None" by (simp add: opt_within_def)
  show ?thesis
    unfolding generation_ok_def using derive_counts [of ewma gid h rate streaming riders now] f pct inst max none
    by (simp add: derive_fields d)
qed

lemma compute_ok: "generation_ok (fst (compute gid now rows po))"
  by (auto simp: compute_def Let_def base_ok derive_ok split: option.splits)

lemma fetch_ok: "generation_ok (fst (fetch_revalidate idn phase gid response after po))"
  by (auto simp: fetch_revalidate_def base_ok compute_ok split: option.splits slot_phase.splits)

definition held_ok :: "poller \<Rightarrow> bool" where
  "held_ok po \<longleftrightarrow> (case po_held po of None \<Rightarrow> True | Some g \<Rightarrow> generation_ok g \<and> active_gen (gn_state g))"

lemma compute_held [simp]: "po_held (snd (compute gid now rows po)) = po_held po"
  by (simp add: compute_def Let_def reset_samples_def split: option.splits)

lemma fetch_held [simp]: "po_held (snd (fetch_revalidate idn phase gid response after po)) = po_held po"
  by (auto simp: fetch_revalidate_def reset_samples_def split: option.splits slot_phase.splits)

lemma reset_held [simp]: "po_held (reset_samples po) = po_held po"
  by (simp add: reset_samples_def)

lemma store_ok:
  "generation_ok gen \<Longrightarrow> held_ok po \<Longrightarrow> store prev gen po = (out, nudge, po') \<Longrightarrow> generation_ok out \<and> held_ok po'"
  by (auto simp: store_def held_ok_def Let_def split: if_splits option.splits)

fun poll_ticks :: "generation option \<Rightarrow> tick_view list \<Rightarrow> poller \<Rightarrow> generation option \<times> poller" where
  "poll_ticks prev [] po = (prev, po)"
| "poll_ticks prev (v # vs) po =
     (case poll_tick prev v po of (out, _, po') \<Rightarrow> poll_ticks (Some out) vs po')"

lemma poll_tick_ok: "held_ok po \<Longrightarrow> poll_tick prev v po = (out, nudge, po') \<Longrightarrow> generation_ok out \<and> held_ok po'"
proof (cases v)
  case (NoSlot l)
  assume a: "held_ok po" "poll_tick prev v po = (out, nudge, po')"
  have "held_ok (reset_samples po)" using a(1) by (simp add: held_ok_def)
  moreover have "generation_ok (base_generation (if l then GTransitioning else GIdle) None)"
    by (rule base_ok) simp_all
  ultimately show ?thesis using a(2) NoSlot by (metis poll_tick.simps(1) store_ok)
next
  case (HasSlot idn phase gid response after)
  assume a: "held_ok po" "poll_tick prev v po = (out, nudge, po')"
  obtain gen po1 where f: "fetch_revalidate idn phase gid response after po = (gen, po1)" by force
  have "generation_ok gen" "held_ok po1"
    using fetch_ok [of idn phase gid response after po] fetch_held [of idn phase gid response after po] f a(1)
    by (simp_all add: held_ok_def)
  with a(2) HasSlot f show ?thesis by (intro store_ok) auto
qed

text \<open>
  Whatever the sidecars answer, every block the poller publishes is in range: rates between 0
  and 10000, a percentage between 0 and 100, a nonnegative remaining time and token count, a
  positive token limit, the stalled flag only in the stalled state, prompt progress only
  while prefilling.
\<close>

theorem published_generation_in_range:
  "case poll_ticks None views new_poller of (None, _) \<Rightarrow> views = [] | (Some g, _) \<Rightarrow> generation_ok g"
proof -
  have "held_ok po \<Longrightarrow> views \<noteq> [] \<Longrightarrow> \<exists>g po'. poll_ticks prev views po = (Some g, po') \<and> generation_ok g" for prev po
  proof (induction views arbitrary: prev po)
    case (Cons v vs)
    obtain out nudge po' where t: "poll_tick prev v po = (out, nudge, po')" by (metis prod_cases3)
    from poll_tick_ok [OF Cons.prems(1) t] t Cons.IH show ?case by (cases vs) auto
  qed simp
  note run = this
  have "held_ok new_poller" by (simp add: held_ok_def new_poller_def)
  with run [of new_poller None] show ?thesis by (cases "views = []") auto
qed

subsection \<open>The debounce\<close>

fun stores :: "generation option \<Rightarrow> generation list \<Rightarrow> poller \<Rightarrow> generation list" where
  "stores prev [] po = []"
| "stores prev (g # gs) po = (case store prev g po of (out, _, po') \<Rightarrow> out # stores (Some out) gs po')"

definition same_generation :: "generation \<Rightarrow> generation \<Rightarrow> bool" where
  "same_generation a g \<longleftrightarrow> gn_id g = None \<or> gn_id g = gn_id a"

lemma stores_not_held: "po_held po = None \<Longrightarrow> list_all (\<lambda>g. \<not> active_gen (gn_state g)) gs \<Longrightarrow> stores prev gs po = gs"
proof (induction gs arbitrary: prev po)
  case (Cons g gs)
  then show ?case by (simp add: store_def Let_def)
qed simp

lemma stores_held:
  assumes "po_held po = Some a" "po_ticks po \<le> 2"
    and "list_all (\<lambda>g. \<not> active_gen (gn_state g) \<and> same_generation a g) gs"
  shows "stores prev gs po =
     replicate (min (2 - po_ticks po) (length gs)) a @ drop (2 - po_ticks po) gs"
  using assms
proof (induction gs arbitrary: prev po)
  case (Cons g gs)
  have through: "gn_id g \<noteq> None \<longrightarrow> gn_id g = gn_id a" "\<not> active_gen (gn_state g)"
    using Cons.prems(3) by (auto simp: same_generation_def)
  have down: "list_all (\<lambda>g. \<not> active_gen (gn_state g)) gs"
    using Cons.prems(3) by (auto elim: list.pred_mono_strong)
  show ?case
  proof (cases "po_ticks po = 2")
    case True
    with through Cons.prems(1) stores_not_held [OF _ down] show ?thesis
      by (simp add: store_def Let_def TRANSIENT_HOLD_TICKS_def)
  next
    case False
    with Cons.prems(2) have lt: "po_ticks po < 2" by simp
    let ?po = "po\<lparr>po_ticks := Suc (po_ticks po)\<rparr>"
    have rest: "stores (Some a) gs ?po = replicate (min (2 - Suc (po_ticks po)) (length gs)) a @ drop (2 - Suc (po_ticks po)) gs"
      using Cons.prems(1,3) lt by (subst Cons.IH [of ?po]) simp_all
    have "fst (store prev g po) = a" "snd (snd (store prev g po)) = ?po"
      using through Cons.prems(1) lt by (auto simp: store_def Let_def TRANSIENT_HOLD_TICKS_def)
    then obtain nudge where "store prev g po = (a, nudge, ?po)" by (metis prod.collapse)
    with rest have "stores prev (g # gs) po =
        a # replicate (min (2 - Suc (po_ticks po)) (length gs)) a @ drop (2 - Suc (po_ticks po)) gs" by simp
    moreover from lt have "po_ticks po = 0 \<or> po_ticks po = 1" by linarith
    ultimately show ?thesis
      by (elim disjE) (simp_all add: min_def numeral_2_eq_2 del: stores.simps)
  qed
qed simp

text \<open>
  The debounce holds an active generation for exactly two polls: after an active block,
  inactive readings of no generation or the same one are published from the third on, and
  the first two repeat the active block.
\<close>

theorem debounce_exact:
  assumes "active_gen (gn_state a)"
    and "list_all (\<lambda>g. \<not> active_gen (gn_state g) \<and> same_generation a g) gs"
  shows "stores prev (a # gs) po = a # replicate (min 2 (length gs)) a @ drop 2 gs"
proof -
  obtain out nudge po' where st: "store prev a po = (out, nudge, po')" by (metis prod_cases3)
  with assms(1) have "out = a" "po_held po' = Some a" "po_ticks po' = 0"
    by (auto simp: store_def Let_def)
  with st stores_held [of po' a gs "Some a"] assms(2) show ?thesis by simp
qed

theorem debounce_exact_witness:
  "stores None [base_generation GLoading None, base_generation GIdle None, base_generation GIdle None,
                base_generation GTransitioning None] new_poller =
     base_generation GLoading None #
       replicate (min 2 (length [base_generation GIdle None, base_generation GIdle None, base_generation GTransitioning None]))
         (base_generation GLoading None) @
       drop 2 [base_generation GIdle None, base_generation GIdle None, base_generation GTransitioning None]"
  by (rule debounce_exact) (simp_all add: base_generation_def active_gen_def same_generation_def)

text \<open>Another generation that shows up while one is held is published at once.\<close>

lemma other_generation_published:
  assumes "\<not> active_gen (gn_state g)" "po_held po = Some h" "gn_id g \<noteq> None" "gn_id g \<noteq> gn_id h"
  shows "fst (store prev g po) = g \<and> po_held (snd (snd (store prev g po))) = None"
  using assms by (simp add: store_def Let_def)

subsection \<open>Identity\<close>

text \<open>
  Metrics are published only for the process they were asked for: a block with a rate or a token
  count needs the same handle object, process and spawn number before and after the request.
\<close>

lemma metrics_need_same_identity:
  assumes "fst (fetch_revalidate idn phase gid response after po) = g" "gn_n_decoded g \<noteq> 0 \<or> gn_riders g \<noteq> 0"
  shows "\<exists>cur. after = Some cur \<and> id_handle cur = id_handle idn \<and> id_pid cur = id_pid idn \<and> id_seq cur = id_seq idn"
  using assms by (auto simp: fetch_revalidate_def base_generation_def split: option.splits slot_phase.splits if_splits)

subsection \<open>The smoothed rate\<close>

text \<open>
  The smoothed rate stays positive once it is set, and a smoothing step stays between the old
  rate and the reading.
\<close>

lemma next_ewma_between:
  assumes "next_ewma (Some e) rate = Some e'"
  shows "min e rate \<le> e' \<and> e' \<le> max e rate"
proof -
  have e': "e' = 2 / 5 * rate + 3 / 5 * e" using assms by (simp add: next_ewma_def EWMA_ALPHA_def)
  show ?thesis unfolding e' by (cases "e \<le> rate") (simp_all add: min_def max_def field_simps)
qed

subsection \<open>The supervisor\<close>

definition su_ok :: "supervisor \<Rightarrow> bool" where
  "su_ok su \<longleftrightarrow> (\<forall>t. su_generations su t \<noteq> None \<longrightarrow> su_pollers su t \<noteq> None)"

lemma poll_one_ok: "su_ok su \<Longrightarrow> su_ok (poll_one r su)"
  by (auto simp: su_ok_def poll_one_def Let_def split_beta)

lemma poll_all_ok: "su_ok su \<Longrightarrow> su_ok (fold poll_one views su)"
  by (induction views arbitrary: su) (simp_all add: poll_one_ok)

lemma poll_one_other: "t \<noteq> rv_tag r \<Longrightarrow> su_generations (poll_one r su) t = su_generations su t"
  by (simp add: poll_one_def Let_def split_beta)

lemma poll_all_dead:
  "distinct (map rv_tag views) \<Longrightarrow> r \<in> set views \<Longrightarrow> \<not> rv_alive_after r \<Longrightarrow>
     su_generations (fold poll_one views su) (rv_tag r) = None"
proof (induction views arbitrary: su)
  case (Cons v vs)
  have other: "t \<notin> rv_tag ` set vs \<Longrightarrow> su_generations (fold poll_one vs su) t = su_generations su t" for t su
    by (induction vs arbitrary: su) (simp_all add: poll_one_other)
  show ?case
  proof (cases "r \<in> set vs")
    case True
    with Cons show ?thesis by simp
  next
    case False
    with Cons.prems have "r = v" by simp
    with Cons.prems show ?thesis by (simp add: other) (simp add: poll_one_def Let_def split_beta)
  qed
qed simp

text \<open>The primary block is the one of the most recently active resident that has one.\<close>

definition newest_of :: "(string \<rightharpoonup> generation) \<Rightarrow> resident_view list \<Rightarrow> generation \<Rightarrow> time \<Rightarrow> bool" where
  "newest_of gens rs g t \<longleftrightarrow>
     (\<exists>r \<in> set rs. gens (rv_tag r) = Some g \<and> rv_last_active r = t) \<and>
     (\<forall>r \<in> set rs. gens (rv_tag r) \<noteq> None \<longrightarrow> rv_last_active r \<le> t)"

lemma most_recent_invariant:
  "newest_of gens done_rs g t \<Longrightarrow>
     \<exists>g' t'. most_recent gens (Some (g, t)) rs = Some g' \<and> newest_of gens (done_rs @ rs) g' t'"
proof (induction rs arbitrary: done_rs g t)
  case (Cons r rs)
  show ?case
  proof (cases "gens (rv_tag r)")
    case None
    with Cons.prems have "newest_of gens (done_rs @ [r]) g t" by (auto simp: newest_of_def)
    with None Cons.IH [of "done_rs @ [r]"] show ?thesis by simp
  next
    case (Some h)
    with Cons.prems have "newest_of gens (done_rs @ [r])
       (if t < rv_last_active r then h else g) (if t < rv_last_active r then rv_last_active r else t)"
      by (force simp: newest_of_def)
    with Some Cons.IH [of "done_rs @ [r]"] show ?thesis by (auto split: if_splits)
  qed
qed auto

lemma most_recent_newest:
  "most_recent gens None rs = Some g \<Longrightarrow> \<exists>t. newest_of gens rs g t"
proof (induction rs)
  case (Cons r rs)
  show ?case
  proof (cases "gens (rv_tag r)")
    case None
    with Cons show ?thesis by (auto simp: newest_of_def)
  next
    case (Some h)
    then have "newest_of gens [r] h (rv_last_active r)" by (simp add: newest_of_def)
    from most_recent_invariant [OF this, of rs] Cons.prems Some show ?thesis by auto
  qed
qed simp

text \<open>
  The supervisor never publishes a dead resident: after a tick every published block belongs
  to a resident that was live when its poll returned, and the primary block is that of the
  most recently active resident among those.
\<close>

theorem supervisor_publishes_live_only:
  assumes "su_ok su" "distinct (map rv_tag views)"
  shows "su_ok (supervisor_tick views su) \<and>
    (\<forall>t g. su_generations (supervisor_tick views su) t = Some g \<longrightarrow>
       (\<exists>r \<in> set views. rv_tag r = t \<and> rv_alive_after r)) \<and>
    (\<forall>g. su_primary (supervisor_tick views su) = Some g \<longrightarrow>
       (\<exists>t. newest_of (su_generations (supervisor_tick views su)) views g t))"
proof -
  let ?su = "gc_vanished (rv_tag ` set views) (fold poll_one views su)"
  have ok: "su_ok (fold poll_one views su)" by (rule poll_all_ok [OF assms(1)])
  have gens: "su_generations (supervisor_tick views su) = su_generations ?su"
    by (simp add: supervisor_tick_def Let_def)
  have "\<exists>r \<in> set views. rv_tag r = t \<and> rv_alive_after r" if "su_generations ?su t = Some g" for t g
  proof -
    from that ok have "su_generations (fold poll_one views su) t = Some g" "t \<in> rv_tag ` set views"
      by (auto simp: gc_vanished_def su_ok_def split: if_splits)
    then show ?thesis using poll_all_dead [OF assms(2)] by fastforce
  qed
  moreover have "su_ok (supervisor_tick views su)"
    using ok by (auto simp: su_ok_def supervisor_tick_def gc_vanished_def Let_def)
  moreover have "su_primary (supervisor_tick views su) = most_recent (su_generations ?su) None views"
    by (simp add: supervisor_tick_def Let_def)
  ultimately show ?thesis using most_recent_newest by (auto simp: gens)
qed

definition example_views :: "resident_view list" where
  "example_views = [\<lparr>rv_tag = ''a'', rv_last_active = 1, rv_view = NoSlot True, rv_alive_after = True\<rparr>,
                    \<lparr>rv_tag = ''b'', rv_last_active = 2, rv_view = NoSlot True, rv_alive_after = False\<rparr>]"

definition new_supervisor :: supervisor where
  "new_supervisor = \<lparr>su_pollers = (\<lambda>_. None), su_generations = (\<lambda>_. None), su_primary = None\<rparr>"

theorem supervisor_publishes_live_only_witness:
  "su_ok (supervisor_tick example_views new_supervisor) \<and>
   su_generations (supervisor_tick example_views new_supervisor) ''b'' = None"
proof -
  have "su_ok new_supervisor" "distinct (map rv_tag example_views)"
    by (simp_all add: su_ok_def new_supervisor_def example_views_def)
  from supervisor_publishes_live_only [OF this] show ?thesis
    by (cases "su_generations (supervisor_tick example_views new_supervisor) ''b''")
       (fastforce simp: example_views_def)+
qed

end
