(* ===== verification/Json.thy ===== *)
theory Json
  imports PyStrings
begin

text \<open>
  The part of Python's \<open>json\<close> module the sources call: \<open>json.dumps\<close> with its default
  separators and \<open>ensure_ascii\<close>, and \<open>json.loads\<close> with its scanner's rules (white space,
  literals including \<open>NaN\<close> and \<open>Infinity\<close>, strict strings, numbers, the last of two equal
  keys). Text is ASCII as in \<^theory_text>\<open>PyStrings\<close>; an escape for a character outside ASCII reads as
  a question mark. \<open>float.__repr__\<close> is a parameter.
\<close>

subsection \<open>Printing\<close>

definition hex_digit :: "nat \<Rightarrow> char" where
  "hex_digit d = (if d < 10 then char_of (48 + d) else char_of (87 + d))"

definition escape_char :: "char \<Rightarrow> string" where
  "escape_char c =
     (if c = CHR 0x22 then [CHR 0x5C, CHR 0x22]
      else if c = CHR 0x5C then [CHR 0x5C, CHR 0x5C]
      else if code c = 8 then [CHR 0x5C, CHR ''b'']
      else if code c = 9 then [CHR 0x5C, CHR ''t'']
      else if code c = 10 then [CHR 0x5C, CHR ''n'']
      else if code c = 12 then [CHR 0x5C, CHR ''f'']
      else if code c = 13 then [CHR 0x5C, CHR ''r'']
      else if 32 \<le> code c \<and> code c < 127 then [c]
      else [CHR 0x5C, CHR ''u'', CHR ''0'', CHR ''0'', hex_digit (code c div 16), hex_digit (code c mod 16)])"

definition quote :: "string \<Rightarrow> string" where
  "quote s = CHR 0x22 # concat (map escape_char s) @ [CHR 0x22]"

function dumps :: "(pyfloat \<Rightarrow> string) \<Rightarrow> pyval \<Rightarrow> string" where
  "dumps fr PyNone = ''null''"
| "dumps fr (PyBool b) = (if b then ''true'' else ''false'')"
| "dumps fr (PyInt i) = show_int i"
| "dumps fr (PyFloat f) = fr f"
| "dumps fr (PyStr s) = quote s"
| "dumps fr (PyList vs) = CHR ''['' # join '', '' (map (dumps fr) vs) @ '']''"
| "dumps fr (PyDict kvs) =
     CHR ''{'' # join '', '' (map (\<lambda>kv. quote (fst kv) @ '': '' @ dumps fr (snd kv)) kvs) @ ''}''"
  by pat_completeness auto

lemma size_in_list: "v \<in> set vs \<Longrightarrow> size v < Suc (size_list size vs)"
  by (simp add: less_Suc_eq_le size_list_estimation')

lemma size_in_dict: "kv \<in> set kvs \<Longrightarrow> size (snd kv) < size_list (\<lambda>x. Suc (size (snd x))) kvs"
  by (induction kvs) auto

termination dumps
  by (relation "measure (\<lambda>(_, v). size v)") (auto simp: size_in_list size_prod_simp less_SucI split_beta dest: size_in_dict)

subsection \<open>Scanning\<close>

definition json_space :: "char \<Rightarrow> bool" where
  "json_space c \<longleftrightarrow> code c = 32 \<or> code c = 9 \<or> code c = 10 \<or> code c = 13"

definition skip_ws :: "string \<Rightarrow> string" where
  "skip_ws s = dropWhile json_space s"

definition hex4 :: "char \<Rightarrow> char \<Rightarrow> char \<Rightarrow> char \<Rightarrow> char option" where
  "hex4 a b c d =
     (case (hex_value a, hex_value b, hex_value c, hex_value d) of
        (Some p, Some q, Some r, Some t) \<Rightarrow>
          (let n = ((p * 16 + q) * 16 + r) * 16 + t in
           Some (if n < 128 then char_of n else CHR ''?''))
      | _ \<Rightarrow> None)"

definition unescape :: "char \<Rightarrow> char option" where
  "unescape c =
     (if c = CHR 0x22 \<or> c = CHR 0x5C \<or> c = CHR ''/'' then Some c
      else if c = CHR ''b'' then Some (CHR 0x08)
      else if c = CHR ''t'' then Some (CHR 0x09)
      else if c = CHR ''n'' then Some (CHR 0x0A)
      else if c = CHR ''f'' then Some (CHR 0x0C)
      else if c = CHR ''r'' then Some (CHR 0x0D)
      else None)"

text \<open>The body of a string up to its closing quote, in strict mode.\<close>

function scan_str :: "string \<Rightarrow> (string \<times> string) option" where
  "scan_str [] = None"
| "scan_str (c # cs) =
     (if c = CHR 0x22 then Some ([], cs)
      else if code c < 32 then None
      else if c = CHR 0x5C then
        (case cs of [] \<Rightarrow> None
         | e # ds \<Rightarrow>
             if e = CHR ''u'' then
               (case ds of
                  h1 # h2 # h3 # h4 # rest \<Rightarrow>
                    (case hex4 h1 h2 h3 h4 of None \<Rightarrow> None
                     | Some x \<Rightarrow> map_option (\<lambda>(t, r). (x # t, r)) (scan_str rest))
                | _ \<Rightarrow> None)
             else
               (case unescape e of None \<Rightarrow> None
                | Some x \<Rightarrow> map_option (\<lambda>(t, r). (x # t, r)) (scan_str ds)))
      else map_option (\<lambda>(t, r). (c # t, r)) (scan_str cs))"
  by pat_completeness auto
termination
  by (relation "measure length") auto

fun span :: "(char \<Rightarrow> bool) \<Rightarrow> string \<Rightarrow> string \<times> string" where
  "span P s = (takeWhile P s, dropWhile P s)"

definition digits_value :: "string \<Rightarrow> int" where
  "digits_value ds = fold (\<lambda>c a. 10 * a + int (code c - 48)) ds 0"

text \<open>
  The scanner's number rule: an integer part without leading zeros, then an optional
  fraction and an optional exponent, each taken only when complete.
\<close>

definition scan_frac :: "string \<Rightarrow> string \<times> string" where
  "scan_frac s =
     (case s of
        c # d # _ \<Rightarrow> if c = CHR ''.'' \<and> is_digit d then span is_digit (tl s) else ([], s)
      | _ \<Rightarrow> ([], s))"

definition scan_exp :: "string \<Rightarrow> int option \<times> string" where
  "scan_exp s =
     (case s of [] \<Rightarrow> (None, s)
      | c # r \<Rightarrow>
          if c = CHR ''e'' \<or> c = CHR ''E'' then
            (let neg = (r \<noteq> [] \<and> hd r = CHR ''-'');
                 t = (if r \<noteq> [] \<and> (hd r = CHR ''-'' \<or> hd r = CHR ''+'') then tl r else r);
                 (ds, rest) = span is_digit t
             in if ds = [] then (None, s)
                else (Some (if neg then - digits_value ds else digits_value ds), rest))
          else (None, s))"

definition number_value :: "bool \<Rightarrow> string \<Rightarrow> string \<Rightarrow> int option \<Rightarrow> pyval" where
  "number_value neg ip fp ex =
     (if fp = [] \<and> ex = None then PyInt (if neg then - digits_value ip else digits_value ip)
      else
        (let m = of_int (digits_value (ip @ fp)) / 10 ^ length fp;
             v = (case ex of None \<Rightarrow> m
                  | Some e \<Rightarrow> if 0 \<le> e then m * 10 ^ nat e else m / 10 ^ nat (- e))
         in PyFloat (Finite (if neg then - v else v))))"

definition scan_int :: "string \<Rightarrow> string \<times> string" where
  "scan_int t = (if hd t = CHR ''0'' then ([hd t], tl t) else span is_digit t)"

definition scan_unsigned :: "bool \<Rightarrow> string \<Rightarrow> (pyval \<times> string) option" where
  "scan_unsigned neg t =
     (if t = [] \<or> \<not> is_digit (hd t) then None
      else
        (case scan_int t of (ip, r1) \<Rightarrow>
         case scan_frac r1 of (fp, r2) \<Rightarrow>
         case scan_exp r2 of (ex, r3) \<Rightarrow> Some (number_value neg ip fp ex, r3)))"

definition scan_number :: "string \<Rightarrow> (pyval \<times> string) option" where
  "scan_number s =
     (if s \<noteq> [] \<and> hd s = CHR ''-'' then scan_unsigned True (tl s) else scan_unsigned False s)"

definition scan_literal :: "string \<Rightarrow> (pyval \<times> string) option" where
  "scan_literal s =
     (if starts_with ''null'' s then Some (PyNone, drop 4 s)
      else if starts_with ''true'' s then Some (PyBool True, drop 4 s)
      else if starts_with ''false'' s then Some (PyBool False, drop 5 s)
      else if starts_with ''NaN'' s then Some (PyFloat NaN, drop 3 s)
      else if starts_with ''Infinity'' s then Some (PyFloat PosInf, drop 8 s)
      else if starts_with ''-Infinity'' s then Some (PyFloat NegInf, drop 9 s)
      else scan_number s)"

definition scan_key :: "string \<Rightarrow> (string \<times> string) option" where
  "scan_key s =
     (if s = [] \<or> hd s \<noteq> CHR 0x22 then None
      else
        (case scan_str (tl s) of None \<Rightarrow> None
         | Some (k, r) \<Rightarrow>
             (case skip_ws r of [] \<Rightarrow> None
              | c # cs \<Rightarrow> if c = CHR '':'' then Some (k, skip_ws cs) else None)))"

text \<open>After a member: the closing bracket ends the collection, a comma continues it.\<close>

definition scan_sep :: "char \<Rightarrow> string \<Rightarrow> (bool \<times> string) option" where
  "scan_sep closing s =
     (case skip_ws s of [] \<Rightarrow> None
      | c # cs \<Rightarrow>
          if c = closing then Some (True, cs)
          else if c = CHR '','' then Some (False, skip_ws cs) else None)"

text \<open>
  \<open>scan_once\<close>: fuel counts down one per value and one per member, and a document has
  fewer of either than characters.
\<close>

fun parse_value :: "nat \<Rightarrow> string \<Rightarrow> (pyval \<times> string) option"
  and parse_elems :: "nat \<Rightarrow> string \<Rightarrow> (pyval list \<times> string) option"
  and parse_members :: "nat \<Rightarrow> (string \<times> pyval) list \<Rightarrow> string \<Rightarrow> ((string \<times> pyval) list \<times> string) option" where
  "parse_value 0 s = None"
| "parse_value (Suc n) s =
     (case s of [] \<Rightarrow> None
      | c # cs \<Rightarrow>
          if c = CHR 0x22 then map_option (\<lambda>(t, r). (PyStr t, r)) (scan_str cs)
          else if c = CHR ''['' then
            (if starts_with '']'' (skip_ws cs) then Some (PyList [], tl (skip_ws cs))
             else map_option (\<lambda>(vs, r). (PyList vs, r)) (parse_elems n (skip_ws cs)))
          else if c = CHR ''{'' then
            (if starts_with ''}'' (skip_ws cs) then Some (PyDict [], tl (skip_ws cs))
             else map_option (\<lambda>(kvs, r). (PyDict kvs, r)) (parse_members n [] (skip_ws cs)))
          else scan_literal s)"
| "parse_elems 0 s = None"
| "parse_elems (Suc n) s =
     (case parse_value n s of None \<Rightarrow> None
      | Some (v, r) \<Rightarrow>
          (case scan_sep (CHR '']'') r of None \<Rightarrow> None
           | Some (ended, r') \<Rightarrow>
               if ended then Some ([v], r')
               else map_option (\<lambda>(vs, t). (v # vs, t)) (parse_elems n r')))"
| "parse_members 0 d s = None"
| "parse_members (Suc n) d s =
     (case scan_key s of None \<Rightarrow> None
      | Some (k, r) \<Rightarrow>
          (case parse_value n r of None \<Rightarrow> None
           | Some (v, r') \<Rightarrow>
               (case scan_sep (CHR ''}'') r' of None \<Rightarrow> None
                | Some (ended, r'') \<Rightarrow>
                    if ended then Some (dict_set d k v, r'')
                    else parse_members n (dict_set d k v) r'')))"

definition loads :: "string \<Rightarrow> pyval option" where
  "loads s =
     (case parse_value (2 * length s + 2) (skip_ws s) of None \<Rightarrow> None
      | Some (v, r) \<Rightarrow> if skip_ws r = [] then Some v else None)"

lemma loads_evaluates:
  "loads ''{ \"a\" : [1, -2.5e1, true], \"b\":{}, \"a\":null } '' =
     Some (PyDict [(''a'', PyNone), (''b'', PyDict [])])"
  "loads ''[1,]'' = None" "loads ''[1] 2'' = None" "loads ''01'' = None"
  "loads ''-25e-1'' = Some (PyFloat (Finite (- 5 / 2)))"
  by code_simp+

subsection \<open>Enough fuel\<close>

lemma skip_ws_length: "length (skip_ws s) \<le> length s"
  by (simp add: skip_ws_def length_dropWhile_le)

lemma skip_ws_Cons_length: "skip_ws s = c # cs \<Longrightarrow> length cs < length s"
  using skip_ws_length [of s] by simp

lemma scan_str_length: "scan_str s = Some (t, r) \<Longrightarrow> length r < length s"
proof (induction s arbitrary: t r rule: scan_str.induct)
  case (2 c cs)
  then show ?case by (auto split: if_splits list.splits option.splits) fastforce+
qed simp

lemma scan_literal_length: "scan_literal s = Some (v, r) \<Longrightarrow> length r < length s"
proof -
  have frac: "length (snd (scan_frac t)) \<le> length t" for t
    by (auto simp: scan_frac_def length_dropWhile_le split: list.splits)
       (metis length_dropWhile_le le_SucI length_Cons)
  have ex: "length (snd (scan_exp t)) \<le> length t" for t
    by (auto simp: scan_exp_def Let_def split: list.splits if_splits)
       (metis length_dropWhile_le le_SucI length_Cons list.sel(3) list.exhaust)+
  have int: "length (snd (scan_int t)) < length t" if "t \<noteq> []" "is_digit (hd t)" for t
    using that by (cases t) (simp_all add: scan_int_def length_dropWhile_le less_Suc_eq_le)
  have uns: "length r < length t" if "scan_unsigned neg t = Some (v, r)" for neg t
  proof -
    from that have "t \<noteq> []" "is_digit (hd t)" "r = snd (scan_exp (snd (scan_frac (snd (scan_int t)))))"
      by (auto simp: scan_unsigned_def split_beta split: if_splits)
    then show ?thesis using int frac ex by (metis order.strict_trans1)
  qed
  have num: "length r < length t" if "scan_number t = Some (v, r)" for t
    using that by (cases t) (auto simp: scan_number_def dest!: uns split: if_splits)
  assume "scan_literal s = Some (v, r)"
  then show ?thesis
    by (auto simp: scan_literal_def num dest: starts_with_length split: if_splits)
qed

lemma scan_key_length: "scan_key s = Some (k, r) \<Longrightarrow> length r < length s"
proof -
  assume "scan_key s = Some (k, r)"
  then obtain t c cs where "s \<noteq> []" "scan_str (tl s) = Some (k, t)" "skip_ws t = c # cs" "r = skip_ws cs"
    by (auto simp: scan_key_def split: if_splits option.splits list.splits)
  then have "length r < length t" "length t < length (tl s)"
    using skip_ws_length [of cs] by (auto dest: skip_ws_Cons_length scan_str_length)
  then show ?thesis by simp
qed

lemma scan_sep_length: "scan_sep d s = Some (b, r) \<Longrightarrow> length r < length s"
proof -
  assume "scan_sep d s = Some (b, r)"
  then obtain c cs where "skip_ws s = c # cs" "r = cs \<or> r = skip_ws cs"
    by (auto simp: scan_sep_def split: if_splits list.splits)
  then show ?thesis using skip_ws_length [of cs] by (auto dest: skip_ws_Cons_length)
qed

lemma tl_skip_ws: "length (tl (skip_ws cs)) < Suc (length cs)"
  using skip_ws_length [of cs] by simp

lemma parse_length:
  "parse_value n s = Some (v, r) \<Longrightarrow> length r < length s"
  "parse_elems n s = Some (vs, r) \<Longrightarrow> length r < length s"
  "parse_members n d s = Some (kvs, r) \<Longrightarrow> length r < length s"
proof (induction n arbitrary: s v r vs d kvs)
  case (Suc n)
  {
    case 1
    then obtain c cs where s: "s = c # cs" by (cases s) auto
    have l: "length r < Suc (length cs)"
      if "parse_elems n (skip_ws cs) = Some (vs, r) \<or> parse_members n [] (skip_ws cs) = Some (kvs, r)"
      for vs kvs
      using that Suc.IH(2,3) skip_ws_length [of cs] by (meson le_imp_less_Suc less_imp_le order_trans)
    from 1 s show ?case
      by (auto simp: tl_skip_ws [simplified] dest!: scan_str_length scan_literal_length intro: l split: if_splits)
  next
    case 2
    then obtain r1 b r2 where "parse_value n s = Some (hd vs, r1)" "scan_sep (CHR '']'') r1 = Some (b, r2)"
      "r = r2 \<or> parse_elems n r2 = Some (tl vs, r)"
      by (auto split: option.splits if_splits)
    then show ?case using Suc.IH(1,2) scan_sep_length by (meson less_trans)
  next
    case 3
    then obtain k r0 v r1 b r2 where "scan_key s = Some (k, r0)" "parse_value n r0 = Some (v, r1)"
      "scan_sep (CHR ''}'') r1 = Some (b, r2)"
      "r = r2 \<or> parse_members n (dict_set d k v) r2 = Some (kvs, r)"
      by (auto split: option.splits if_splits)
    then show ?case using Suc.IH(1,3) scan_sep_length scan_key_length by (meson less_trans)
  }
qed simp_all

text \<open>Twice the length of the text is enough: more fuel reads the same.\<close>

lemma parse_fuel:
  "2 * length s < n \<Longrightarrow> parse_value (Suc n) s = parse_value n s"
  "2 * length s + 1 < n \<Longrightarrow> parse_elems (Suc n) s = parse_elems n s"
  "2 * length s + 1 < n \<Longrightarrow> parse_members (Suc n) d s = parse_members n d s"
proof (induction n arbitrary: s d)
  case (Suc n)
  {
    case 1
    show ?case
    proof (cases s)
      case (Cons c cs)
      with 1 have "2 * length (skip_ws cs) + 1 < n" using skip_ws_length [of cs] by simp
      then show ?thesis using Cons Suc.IH(2,3) by (simp del: parse_elems.simps parse_members.simps)
    qed simp
  next
    case 2
    then have v: "parse_value (Suc n) s = parse_value n s" using Suc.IH(1) by simp
    have e: "parse_elems (Suc n) t = parse_elems n t"
      if "parse_value n s = Some (v, r)" "scan_sep (CHR '']'') r = Some (b, t)" for v r b t
      using 2 Suc.IH(2) [of t] parse_length(1) [OF that(1)] scan_sep_length [OF that(2)] by simp
    show ?case
      by (subst (1 2) parse_elems.simps(2))
         (auto simp: v e simp del: parse_value.simps parse_elems.simps split: option.splits)
  next
    case 3
    have v: "parse_value (Suc n) r = parse_value n r" if "scan_key s = Some (k, r)" for k r
      using 3 Suc.IH(1) [of r] scan_key_length [OF that] by simp
    have e: "parse_members (Suc n) d' t = parse_members n d' t"
      if "scan_key s = Some (k, r0)" "parse_value n r0 = Some (v, r)" "scan_sep (CHR ''}'') r = Some (b, t)"
      for k r0 v r b t d'
      using 3 Suc.IH(3) [of t] parse_length(1) [OF that(2)] scan_sep_length [OF that(3)]
        scan_key_length [OF that(1)] by simp
    show ?case
      by (subst (1 2) parse_members.simps(2))
         (auto simp: v e simp del: parse_value.simps parse_members.simps split: option.splits)
  }
qed simp_all

lemma parse_value_fuel: "2 * length s < n \<Longrightarrow> parse_value n s = parse_value (Suc (2 * length s)) s"
proof (induction n)
  case (Suc n)
  then show ?case using parse_fuel(1) [of s n] by (cases "n = 2 * length s") auto
qed simp

subsection \<open>Reading back what was printed\<close>

definition ascii :: "string \<Rightarrow> bool" where
  "ascii s \<longleftrightarrow> (\<forall>c \<in> set s. code c < 128)"

text \<open>A value that is read inside a document ends where a separator, or the text, does.\<close>

definition delim :: "string \<Rightarrow> bool" where
  "delim rest \<longleftrightarrow> rest = [] \<or> hd rest \<in> set '',]}''"

definition plain_text :: "string \<Rightarrow> bool" where
  "plain_text s \<longleftrightarrow> list_all (\<lambda>c. c \<noteq> CHR 0x22 \<and> c \<noteq> CHR ''{'' \<and> c \<noteq> CHR ''}'') s"

definition reads_back :: "(pyfloat \<Rightarrow> string) \<Rightarrow> pyfloat \<Rightarrow> bool" where
  "reads_back fr f \<longleftrightarrow>
     (\<exists>c cs. fr f = c # cs \<and> c \<notin> {CHR 0x22, CHR ''['', CHR ''{'', CHR '']'', CHR ''}''} \<and> \<not> json_space c) \<and>
     plain_text (fr f) \<and>
     (\<forall>rest. delim rest \<longrightarrow> scan_literal (fr f @ rest) = Some (PyFloat f, rest))"

function json_ok :: "(pyfloat \<Rightarrow> string) \<Rightarrow> pyval \<Rightarrow> bool" where
  "json_ok fr PyNone = True"
| "json_ok fr (PyBool b) = True"
| "json_ok fr (PyInt i) = True"
| "json_ok fr (PyFloat f) = reads_back fr f"
| "json_ok fr (PyStr s) = ascii s"
| "json_ok fr (PyList vs) = list_all (json_ok fr) vs"
| "json_ok fr (PyDict kvs) =
     (distinct (map fst kvs) \<and> list_all (\<lambda>kv. ascii (fst kv) \<and> json_ok fr (snd kv)) kvs)"
  by pat_completeness auto
termination
  by (relation "measure (\<lambda>(_, v). size v)")
     (auto simp: size_in_list size_prod_simp less_SucI split_beta dest: size_in_dict)

lemma hex_value_digit: "d < 16 \<Longrightarrow> hex_value (hex_digit d) = Some d"
  by (auto simp: hex_value_def hex_digit_def is_digit_def code_def)

lemma hex4_digits:
  "n < 128 \<Longrightarrow> hex4 (CHR ''0'') (CHR ''0'') (hex_digit (n div 16)) (hex_digit (n mod 16)) = Some (char_of n)"
proof -
  assume n: "n < 128"
  have z: "hex_value (CHR ''0'') = Some 0" by code_simp
  from n have "n div 16 < 16" "n mod 16 < 16" by auto
  with n z show ?thesis by (simp add: hex4_def hex_value_digit Let_def)
qed

lemma char_of_code: "char_of (code c) = c"
  by (simp add: code_def)

lemma control_chars:
  "char_of (8 :: nat) = CHR 0x08" "char_of (9 :: nat) = CHR 0x09" "char_of (10 :: nat) = CHR 0x0A"
  "char_of (12 :: nat) = CHR 0x0C" "char_of (13 :: nat) = CHR 0x0D"
  by code_simp+

lemma scan_escaped:
  assumes "code c < 128"
  shows "scan_str (escape_char c @ r) = map_option (\<lambda>(t, u). (c # t, u)) (scan_str r)"
proof -
  consider "c = CHR 0x22" | "c = CHR 0x5C" | "code c \<in> {8, 9, 10, 12, 13}"
    | "32 \<le> code c" "code c < 127" "c \<noteq> CHR 0x22" "c \<noteq> CHR 0x5C"
    | "code c < 32 \<or> code c = 127" "code c \<notin> {8, 9, 10, 12, 13}" using assms by fastforce
  then show ?thesis
  proof cases
    case 3
    then have "c \<in> char_of ` {8 :: nat, 9, 10, 12, 13}" using char_of_code [of c] by (metis imageI)
    then have "c \<in> {CHR 0x08, CHR 0x09, CHR 0x0A, CHR 0x0C, CHR 0x0D}" by (simp add: control_chars)
    then show ?thesis by (elim insertE emptyE) (simp_all add: escape_char_def code_def unescape_def)
  next
    case 4
    then show ?thesis by (auto simp: escape_char_def)
  next
    case 5
    then have "c \<noteq> CHR 0x22" "c \<noteq> CHR 0x5C" by (auto simp: code_def)
    with 5 assms show ?thesis by (auto simp: escape_char_def hex4_digits char_of_code code_def [of "CHR 0x5C"])
  qed (simp_all add: escape_char_def code_def unescape_def)
qed

lemma scan_str_quoted: "ascii s \<Longrightarrow> scan_str (concat (map escape_char s) @ CHR 0x22 # r) = Some (s, r)"
  by (induction s) (auto simp: ascii_def scan_escaped)

lemma digits_value_append: "digits_value (ds @ [c]) = 10 * digits_value ds + int (code c - 48)"
  by (simp add: digits_value_def)

lemma digits_value_show: "digits_value (show_nat n) = int n"
proof (induction n rule: show_nat.induct)
  case (1 n)
  show ?case
  proof (cases "n < 10")
    case True
    then show ?thesis by (subst show_nat.simps) (simp add: digits_value_def code_digit_char)
  next
    case False
    with 1 have "digits_value (show_nat n) = 10 * int (n div 10) + int (n mod 10)"
      by (subst show_nat.simps) (simp add: digits_value_append code_digit_char)
    also have "\<dots> = int n" by presburger
    finally show ?thesis .
  qed
qed

lemma show_nat_zero: "hd (show_nat n) = CHR ''0'' \<Longrightarrow> show_nat n = ''0''"
proof (induction n rule: show_nat.induct)
  case (1 n)
  have z: "digit_char d = CHR ''0'' \<Longrightarrow> d < 10 \<Longrightarrow> d = 0" for d
    using code_digit_char [of d] by (simp add: code_def)
  have z0: "digit_char 0 = CHR ''0''" by code_simp
  show ?case
  proof (cases "n < 10")
    case True
    with 1 z [of n] z0 show ?thesis by (subst (asm) show_nat.simps, subst show_nat.simps) simp
  next
    case False
    then have "hd (show_nat n) = hd (show_nat (n div 10))" by (subst show_nat.simps) simp
    with False 1 have "show_nat (n div 10) = ''0''" by simp
    then have "int (n div 10) = 0" using digits_value_show [of "n div 10"] by (simp add: digits_value_def code_def)
    with False show ?thesis by simp
  qed
qed

lemma delim_cases:
  assumes "delim rest"
  obtains "rest = []" | c cs where "rest = c # cs" "c \<in> {CHR '','', CHR '']'', CHR ''}''}"
  using assms by (cases rest) (auto simp: delim_def)

lemma delim_stops:
  assumes "delim rest"
  shows "takeWhile is_digit rest = []" "scan_frac rest = ([], rest)" "scan_exp rest = (None, rest)"
proof -
  have nd: "\<not> is_digit (CHR '','')" "\<not> is_digit (CHR '']'')" "\<not> is_digit (CHR ''}'')" by code_simp+
  show "takeWhile is_digit rest = []" by (cases rule: delim_cases [OF assms]) (auto simp: nd)
  show "scan_frac rest = ([], rest)"
    by (cases rule: delim_cases [OF assms]) (auto simp: scan_frac_def split: list.splits)
  show "scan_exp rest = (None, rest)"
    by (cases rule: delim_cases [OF assms]) (auto simp: scan_exp_def)
qed

lemma delim_span:
  assumes "\<forall>c \<in> set ds. is_digit c" "delim rest"
  shows "span is_digit (ds @ rest) = (ds, rest)"
proof -
  have "takeWhile is_digit rest = []" "dropWhile is_digit rest = rest"
    using delim_stops [OF assms(2)] by (cases rest; simp split: if_splits)+
  with assms(1) show ?thesis by (simp add: takeWhile_append2 dropWhile_append2)
qed

lemma scan_unsigned_show:
  assumes "delim rest"
  shows "scan_unsigned neg (show_nat n @ rest) = Some (PyInt (if neg then - int n else int n), rest)"
proof -
  have d: "\<forall>c \<in> set (show_nat n). is_digit c" by (rule show_nat_digits)
  have h: "hd (show_nat n @ rest) = hd (show_nat n)" by simp
  have i: "scan_int (show_nat n @ rest) = (show_nat n, rest)"
  proof (cases "hd (show_nat n) = CHR ''0''")
    case True
    with show_nat_zero have "show_nat n = ''0''" by blast
    then show ?thesis by (simp add: scan_int_def)
  qed (simp add: scan_int_def h delim_span [OF d assms] del: span.simps)
  from d have "is_digit (hd (show_nat n))" by (simp add: list.set_sel(1))
  with i delim_stops [OF assms] show ?thesis
    by (simp add: scan_unsigned_def h number_value_def digits_value_show)
qed

lemma scan_literal_int:
  assumes "delim rest"
  shows "scan_literal (show_int i @ rest) = Some (PyInt i, rest)"
proof -
  obtain c cs where nz: "show_nat (nat \<bar>i\<bar>) = c # cs" using show_nat_nonempty by (metis list.exhaust)
  with show_nat_digits [of "nat \<bar>i\<bar>"] have "is_digit c" by simp
  then have ne: "c \<notin> set ''ntfNI-''" by (auto simp: is_digit_def code_def)
  show ?thesis
  proof (cases "i < 0")
    case True
    then have "show_int i = CHR ''-'' # c # cs" using nz by (simp add: show_int_def)
    with ne True scan_unsigned_show [OF assms, of True "nat \<bar>i\<bar>"] nz show ?thesis
      by (simp add: scan_literal_def starts_with_def scan_number_def)
  next
    case False
    then have "show_int i = c # cs" using nz by (simp add: show_int_def)
    with ne False scan_unsigned_show [OF assms, of False "nat \<bar>i\<bar>"] nz show ?thesis
      by (simp add: scan_literal_def starts_with_def scan_number_def)
  qed
qed

lemma json_space_not [simp]:
  "\<not> json_space (CHR '','')" "\<not> json_space (CHR '']'')" "\<not> json_space (CHR ''}'')" "\<not> json_space (CHR '':'')"
  "\<not> json_space (CHR ''['')" "\<not> json_space (CHR ''{'')" "\<not> json_space (CHR 0x22)" "json_space (CHR '' '')"
  by code_simp+

lemma skip_ws_simps [simp]:
  "\<not> json_space c \<Longrightarrow> skip_ws (c # cs) = c # cs" "skip_ws (CHR '' '' # s) = skip_ws s" "skip_ws [] = []"
  by (simp_all add: skip_ws_def)

definition headed :: "string \<Rightarrow> bool" where
  "headed s \<longleftrightarrow> s \<noteq> [] \<and> \<not> json_space (hd s) \<and> hd s \<noteq> CHR '']'' \<and> hd s \<noteq> CHR ''}''"

lemma headed_skip: "headed s \<Longrightarrow> skip_ws (s @ t) = s @ t"
  by (cases s) (auto simp: headed_def)

lemma headed_not_closing: "headed s \<Longrightarrow> \<not> starts_with '']'' (s @ t) \<and> \<not> starts_with ''}'' (s @ t)"
  by (cases s) (auto simp: headed_def starts_with_def)

lemma headed_join: "headed w \<Longrightarrow> headed (join sep (w # ws))"
  by (cases ws) (auto simp: headed_def)

lemma headed_quote: "headed (quote k @ t)"
  by (simp add: headed_def quote_def)

lemma headed_dumps: "json_ok fr v \<Longrightarrow> headed (dumps fr v)"
proof (cases v)
  case (PyInt i)
  obtain c cs where nz: "show_nat (nat \<bar>i\<bar>) = c # cs" using show_nat_nonempty by (metis list.exhaust)
  with show_nat_digits [of "nat \<bar>i\<bar>"] have "is_digit c" by simp
  then have "headed (c # cs)" by (auto simp: headed_def json_space_def is_digit_def code_def)
  moreover have "headed (CHR ''-'' # t)" for t by (simp add: headed_def json_space_def code_def)
  moreover have "show_int i = CHR ''-'' # c # cs \<or> show_int i = c # cs"
    using nz by (auto simp: show_int_def abs_if split: if_splits)
  ultimately show ?thesis using PyInt by auto
qed (auto simp: headed_def quote_def reads_back_def json_space_def code_def)

lemma parse_elems_join:
  assumes "\<And>v r k. v \<in> set ws \<Longrightarrow> delim r \<Longrightarrow> 2 * length (d v) < k \<Longrightarrow> parse_value k (d v @ r) = Some (v, r)"
    and "\<And>v. v \<in> set ws \<Longrightarrow> headed (d v)"
    and "ws \<noteq> []" and "2 * length (join '', '' (map d ws)) + 1 < m"
  shows "parse_elems m (join '', '' (map d ws) @ CHR '']'' # rest) = Some (ws, rest)"
  using assms
proof (induction ws arbitrary: m)
  case (Cons v ws)
  then obtain k where m: "m = Suc k" by (cases m) auto
  have dl: "delim (CHR '']'' # rest)" "delim (CHR '','' # t)" for t by (simp_all add: delim_def)
  show ?case
  proof (cases ws)
    case Nil
    with Cons.prems m have "parse_value k (d v @ CHR '']'' # rest) = Some (v, CHR '']'' # rest)"
      using dl by simp
    with Nil m show ?thesis by (simp add: scan_sep_def del: parse_value.simps)
  next
    case (Cons u us)
    let ?t = "join '', '' (map d ws) @ CHR '']'' # rest"
    have "headed (join '', '' (map d ws))" using Cons Cons.prems(2) by (auto intro: headed_join)
    then have "skip_ws ?t = ?t" by (rule headed_skip)
    moreover have "parse_value k (d v @ CHR '','' # CHR '' '' # ?t) = Some (v, CHR '','' # CHR '' '' # ?t)"
      using Cons Cons.prems m dl by simp
    moreover have "parse_elems k ?t = Some (ws, rest)"
      using Cons Cons.prems m by (intro Cons.IH) auto
    ultimately show ?thesis using Cons m by (simp add: scan_sep_def del: parse_value.simps)
  qed
qed simp

lemma scan_key_quoted: "ascii k \<Longrightarrow> headed t \<Longrightarrow> scan_key (quote k @ CHR '':'' # CHR '' '' # t) = Some (k, t)"
  using headed_skip [of t "[]"] by (simp add: scan_key_def quote_def scan_str_quoted)

lemma parse_members_join:
  assumes "\<And>k v r n. (k, v) \<in> set ws \<Longrightarrow> delim r \<Longrightarrow> 2 * length (d v) < n \<Longrightarrow> parse_value n (d v @ r) = Some (v, r)"
    and "list_all (\<lambda>kv. headed (d (snd kv)) \<and> ascii (fst kv)) ws"
    and "ws \<noteq> []" and "2 * length (join '', '' (map (\<lambda>kv. quote (fst kv) @ '': '' @ d (snd kv)) ws)) + 1 < m"
    and "distinct (map fst (acc @ ws))"
  shows "parse_members m acc (join '', '' (map (\<lambda>kv. quote (fst kv) @ '': '' @ d (snd kv)) ws) @ CHR ''}'' # rest) =
           Some (acc @ ws, rest)"
  using assms
proof (induction ws arbitrary: m acc)
  case (Cons kv ws)
  obtain k v where kv: "kv = (k, v)" by force
  let ?d = "\<lambda>kv. quote (fst kv) @ '': '' @ d (snd kv)"
  from Cons.prems obtain n where m: "m = Suc n" by (cases m) auto
  have dl: "delim (CHR ''}'' # rest)" "delim (CHR '','' # t)" for t by (simp_all add: delim_def)
  have hk: "headed (d v @ t)" "ascii k" for t using Cons.prems(2) kv by (auto simp: headed_def)
  have pv: "parse_value n (d v @ r) = Some (v, r)" if "delim r" for r
    using Cons.prems(1) [of k v r n] Cons.prems(4) kv m that by (cases ws) auto
  have set: "dict_set acc k v = acc @ [(k, v)]"
    using Cons.prems(5) kv by (intro dict_set_new) auto
  show ?case
  proof (cases ws)
    case Nil
    with m kv hk set show ?thesis
      by (simp add: scan_key_quoted scan_sep_def pv dl del: parse_value.simps)
  next
    case (Cons u us)
    let ?t = "join '', '' (map ?d ws) @ CHR ''}'' # rest"
    have "headed (join '', '' (map ?d ws))" using Cons by (auto intro!: headed_join headed_quote)
    then have "skip_ws ?t = ?t" by (rule headed_skip)
    moreover have "parse_value n (d v @ CHR '','' # CHR '' '' # ?t) = Some (v, CHR '','' # CHR '' '' # ?t)"
      by (rule pv) (rule dl)
    moreover have "parse_members n (acc @ [(k, v)]) ?t = Some ((acc @ [(k, v)]) @ ws, rest)"
      using Cons Cons.prems(1,2,4,5) m kv by (intro Cons.IH) auto
    ultimately show ?thesis using Cons m kv hk set
      by (simp add: scan_key_quoted scan_sep_def del: parse_value.simps)
  qed
qed simp

lemma parse_scalar:
  "0 < n \<Longrightarrow> s \<noteq> [] \<Longrightarrow> hd s \<notin> {CHR 0x22, CHR ''['', CHR ''{''} \<Longrightarrow> parse_value n s = scan_literal s"
  by (cases n; cases s) auto

lemma hd_show_int: "show_int i \<noteq> [] \<and> hd (show_int i) \<notin> {CHR 0x22, CHR ''['', CHR ''{''}"
proof -
  have "is_digit (hd (show_nat k))" for k using show_nat_digits [of k] by (simp add: list.set_sel(1))
  moreover have "c \<notin> {CHR 0x22, CHR ''['', CHR ''{''}" if "is_digit c" for c
    using that by (auto simp: is_digit_def code_def)
  ultimately have "hd (show_nat k) \<notin> {CHR 0x22, CHR ''['', CHR ''{''}" for k by blast
  then show ?thesis by (simp add: show_int_def)
qed

lemma parse_dumps:
  "json_ok fr v \<Longrightarrow> delim rest \<Longrightarrow> 2 * length (dumps fr v) < n \<Longrightarrow>
     parse_value n (dumps fr v @ rest) = Some (v, rest)"
proof (induction fr v arbitrary: rest n rule: dumps.induct)
  case (6 fr vs)
  then obtain m where n: "n = Suc m" by (cases n) auto
  let ?t = "join '', '' (map (dumps fr) vs) @ CHR '']'' # rest"
  show ?case
  proof (cases vs)
    case (Cons u us)
    have h: "headed (dumps fr v)" if "v \<in> set vs" for v
      using that "6.prems"(1) by (auto simp: list_all_iff intro: headed_dumps)
    then have t: "headed (join '', '' (map (dumps fr) vs))" using Cons by (auto intro: headed_join)
    have "parse_elems m ?t = Some (vs, rest)"
      using 6 n Cons h by (intro parse_elems_join) (auto simp: list_all_iff)
    moreover have "\<not> starts_with '']'' ?t" using headed_not_closing [OF t] by blast
    ultimately show ?thesis using n t by (simp add: headed_skip)
  qed (simp add: n starts_with_def)
next
  case (7 fr kvs)
  then obtain m where n: "n = Suc m" by (cases n) auto
  let ?d = "\<lambda>kv. quote (fst kv) @ '': '' @ dumps fr (snd kv)"
  let ?t = "join '', '' (map ?d kvs) @ CHR ''}'' # rest"
  show ?case
  proof (cases kvs)
    case (Cons u us)
    have h: "list_all (\<lambda>kv. headed (dumps fr (snd kv)) \<and> ascii (fst kv)) kvs"
      using "7.prems"(1) by (auto simp: list_all_iff headed_dumps)
    have t: "headed (join '', '' (map ?d kvs))" using Cons by (auto intro!: headed_join headed_quote)
    have "parse_members m [] ?t = Some ([] @ kvs, rest)"
    proof (intro parse_members_join)
      show "parse_value i (dumps fr v @ r) = Some (v, r)"
        if "(k, v) \<in> set kvs" "delim r" "2 * length (dumps fr v) < i" for k v r i
      proof -
        have "json_ok fr v" using that(1) "7.prems"(1) by (auto simp: list_all_iff)
        then show ?thesis using "7.IH" [OF that(1)] that(2,3) by simp
      qed
    qed (use "7.prems" n Cons h in auto)
    moreover have "\<not> starts_with ''}'' ?t" using headed_not_closing [OF t] by blast
    ultimately show ?thesis using n t by (simp add: headed_skip)
  qed (simp add: n starts_with_def)
next
  case (3 fr i)
  then show ?case using hd_show_int [of i] by (subst parse_scalar) (auto simp: scan_literal_int)
next
  case (4 fr f)
  then show ?case by (subst parse_scalar) (auto simp: reads_back_def)
next
  case (5 fr s)
  then show ?case by (cases n) (auto simp: quote_def scan_str_quoted)
qed (auto simp: parse_scalar scan_literal_def starts_with_def)

lemma loads_dumps: "json_ok fr v \<Longrightarrow> loads (dumps fr v) = Some v"
  using parse_dumps [of fr v "[]"] headed_skip [of "dumps fr v" "[]"] headed_dumps [of fr v]
  by (simp add: loads_def delim_def del: parse_value.simps)

text \<open>Printed JSON is one line, as long as the printed floats are.\<close>

lemma hex_digit_line: "d < 16 \<Longrightarrow> hex_digit d \<noteq> newline"
proof
  assume "d < 16" and eq: "hex_digit d = newline"
  have "48 \<le> code (hex_digit d)" using \<open>d < 16\<close> by (simp add: hex_digit_def code_def)
  then show False by (simp add: eq newline_def code_def)
qed

lemma escape_char_line: "newline \<notin> set (escape_char c)"
proof -
  have "code c < 256" by (simp add: code_def)
  then have "hex_digit (code c div 16) \<noteq> newline" "hex_digit (code c mod 16) \<noteq> newline"
    using hex_digit_line [of "code c div 16"] hex_digit_line [of "code c mod 16"] by simp_all
  then show ?thesis
    by (auto simp: escape_char_def newline_def code_def)
qed

lemma join_free: "c \<notin> set sep \<Longrightarrow> \<forall>w \<in> set ws. c \<notin> set w \<Longrightarrow> c \<notin> set (join sep ws)"
  by (induction sep ws rule: join.induct) auto

lemma show_int_line: "newline \<notin> set (show_int i)"
proof -
  have "\<not> is_digit newline" by (simp add: char_class_defs)
  then have "newline \<notin> set (show_nat n)" for n using show_nat_digits [of n] by auto
  then show ?thesis by (simp add: show_int_def newline_def)
qed

lemma quote_line: "newline \<notin> set (quote s)"
  using escape_char_line by (auto simp: quote_def newline_def)

lemma dumps_line:
  assumes "\<And>x. newline \<notin> set (fr x)"
  shows "newline \<notin> set (dumps fr v)"
  using assms
proof (induction fr v rule: dumps.induct)
  case (6 fr vs)
  then have "newline \<notin> set (join '', '' (map (dumps fr) vs))" by (intro join_free) (auto simp: newline_def)
  then show ?case by (simp add: newline_def)
next
  case (7 fr kvs)
  then have "newline \<notin> set (join '', '' (map (\<lambda>kv. quote (fst kv) @ '': '' @ dumps fr (snd kv)) kvs))"
    using quote_line by (intro join_free) (auto simp: newline_def)
  then show ?case by (simp add: newline_def)
qed (simp_all add: newline_def show_int_line [unfolded newline_def] quote_line [unfolded newline_def])

end
