(* ===== verification/LiveOutput.thy ===== *)
theory LiveOutput
  imports Json
begin

text \<open>
  The text plane of the live monitor: \<open>LiveOutputBuffer\<close> of \<open>live_monitor.py\<close> (per-generation
  buffers in an ordered dict, least recently used first), its frame reader, and the
  subscriber queues the endpoint of \<open>api/live_stream.py\<close> reads. Bytes are ASCII text.
  \<open>str\<close> of a value that is not a string and \<open>float.__repr__\<close> are the fields of a \<open>printer\<close>.
\<close>

subsection \<open>Buffers\<close>

record printer =
  pr_str :: "pyval \<Rightarrow> string"
  pr_float :: "pyfloat \<Rightarrow> string"

definition TEXT_TAIL_BYTES :: nat where "TEXT_TAIL_BYTES = 16384"
definition MAX_LIVE_KEYS :: nat where "MAX_LIVE_KEYS = 8"
definition MAX_SUBS_PER_GEN :: nat where "MAX_SUBS_PER_GEN = 32"
definition CARRY_MAX_BYTES :: nat where "CARRY_MAX_BYTES = 65536"
definition SUB_QUEUE_MAX :: nat where "SUB_QUEUE_MAX = 512"

text \<open>
  A subscriber's \<open>asyncio.Queue\<close> is an object with an identity, a number here; it holds text
  pieces and the done sentinel \<open>None\<close>.
\<close>

record gen_buf =
  gb_tail :: string
  gb_carry :: string
  gb_done :: bool
  gb_subs :: "(nat \<times> string option list) list"

definition new_buf :: gen_buf where
  "new_buf = \<lparr>gb_tail = [], gb_carry = [], gb_done = False, gb_subs = []\<rparr>"

record live_output =
  lo_max_keys :: nat
  lo_tail_bytes :: nat
  lo_buffers :: "(string \<times> gen_buf) list"
  lo_fresh :: nat

datatype output_error = KeyError string

definition od_put :: "string \<Rightarrow> gen_buf \<Rightarrow> live_output \<Rightarrow> live_output" where
  "od_put g b lo = lo\<lparr>lo_buffers := map (\<lambda>(h, c). (h, if h = g then b else c)) (lo_buffers lo)\<rparr>"

definition od_pop :: "string \<Rightarrow> live_output \<Rightarrow> live_output" where
  "od_pop g lo = lo\<lparr>lo_buffers := filter (\<lambda>(h, c). h \<noteq> g) (lo_buffers lo)\<rparr>"

definition to_end :: "string \<Rightarrow> gen_buf \<Rightarrow> (string \<times> gen_buf) list \<Rightarrow> (string \<times> gen_buf) list" where
  "to_end g b bs = filter (\<lambda>(h, c). h \<noteq> g) bs @ [(g, b)]"

definition move_to_end :: "string \<Rightarrow> live_output \<Rightarrow> (output_error + gen_buf) \<times> live_output" where
  "move_to_end g lo =
     (case map_of (lo_buffers lo) g of
        None \<Rightarrow> (Inl (KeyError g), lo)
      | Some b \<Rightarrow> (Inr b, lo\<lparr>lo_buffers := to_end g b (lo_buffers lo)\<rparr>))"

text \<open>The loop of \<open>_evict\<close>: the oldest buffer nobody watches goes first.\<close>

function evict_over :: "nat \<Rightarrow> (string \<times> gen_buf) list \<Rightarrow> (string \<times> gen_buf) list" where
  "evict_over m bs =
     (if length bs \<le> m then bs
      else case pop_match (\<lambda>(g, b). gb_subs b = []) bs of
        None \<Rightarrow> bs
      | Some (_, bs') \<Rightarrow> evict_over m bs')"
  by pat_completeness auto

termination
proof (relation "measure (\<lambda>(_, bs). length bs)")
  fix m :: nat and bs bs' :: "(string \<times> gen_buf) list" and xy x
  assume "pop_match (\<lambda>(g, b). gb_subs b = []) bs = Some xy" "(x, bs') = xy"
  then show "((m, bs'), m, bs) \<in> measure (\<lambda>(_, bs). length bs)"
    by (auto dest!: sym [of "(x, bs')"] pop_match_Some)
qed simp

declare evict_over.simps [simp del]

definition evict_buffers :: "live_output \<Rightarrow> live_output" where
  "evict_buffers lo = lo\<lparr>lo_buffers := evict_over (lo_max_keys lo) (lo_buffers lo)\<rparr>"

definition get_buffer :: "bool \<Rightarrow> string \<Rightarrow> live_output \<Rightarrow> (output_error + gen_buf option) \<times> live_output" where
  "get_buffer create g lo =
     (if map_of (lo_buffers lo) g = None \<and> \<not> create then (Inr None, lo)
      else
        (let lo' = (if map_of (lo_buffers lo) g = None
                    then evict_buffers (lo\<lparr>lo_buffers := lo_buffers lo @ [(g, new_buf)]\<rparr>) else lo)
         in case move_to_end g lo' of
              (Inl e, lo'') \<Rightarrow> (Inl e, lo'')
            | (Inr b, lo'') \<Rightarrow> (Inr (Some b), lo'')))"

subsection \<open>Reading a frame\<close>

definition bytes_space :: "char \<Rightarrow> bool" where
  "bytes_space c \<longleftrightarrow> code c = 32 \<or> (9 \<le> code c \<and> code c \<le> 13)"

definition bytes_strip :: "string \<Rightarrow> string" where
  "bytes_strip s = rev (dropWhile bytes_space (rev (dropWhile bytes_space s)))"

text \<open>
  \<open>d.get(k) or {}\<close> and \<open>d.get(k) or []\<close>: absent and falsy values read as empty; the attribute
  or type error of using any other value is \<open>None\<close>.
\<close>

fun as_dict :: "pyval \<Rightarrow> (string \<times> pyval) list option" where
  "as_dict (PyDict d) = Some d"
| "as_dict _ = None"

definition or_dict :: "pyval \<Rightarrow> (string \<times> pyval) list option" where
  "or_dict v = (if truthy v then as_dict v else Some [])"

fun as_list :: "pyval \<Rightarrow> pyval list option" where
  "as_list (PyList vs) = Some vs"
| "as_list _ = None"

definition or_list :: "pyval \<Rightarrow> pyval list option" where
  "or_list v = (if truthy v then as_list v else Some [])"

fun collect :: "('a \<Rightarrow> 'b list option) \<Rightarrow> 'a list \<Rightarrow> 'b list option" where
  "collect f [] = Some []"
| "collect f (x # xs) =
     (case f x of None \<Rightarrow> None
      | Some ys \<Rightarrow> map_option (\<lambda>zs. ys @ zs) (collect f xs))"

definition text_piece :: "printer \<Rightarrow> pyval \<Rightarrow> string list" where
  "text_piece p v =
     (if truthy v then [case v of PyStr s \<Rightarrow> s | _ \<Rightarrow> pr_str p v] else [])"

definition tool_pieces :: "printer \<Rightarrow> pyval \<Rightarrow> string list option" where
  "tool_pieces p tc =
     (case as_dict tc of None \<Rightarrow> None
      | Some t \<Rightarrow>
          (case or_dict (get_or_none t ''function'') of None \<Rightarrow> None
           | Some fn \<Rightarrow>
               Some
                 (map (\<lambda>n. newline # ''? tool_call: '' @ n @ '' '') (text_piece p (get_or_none fn ''name'')) @
                  (case get_or_none fn ''arguments'' of
                     PyNone \<Rightarrow> []
                   | PyStr s \<Rightarrow> [s]
                   | v \<Rightarrow> [dumps (pr_float p) v]))))"

definition choice_pieces :: "printer \<Rightarrow> pyval \<Rightarrow> string list option" where
  "choice_pieces p ch =
     (case as_dict ch of None \<Rightarrow> None
      | Some c \<Rightarrow>
          (case or_dict (get_or_none c ''delta'') of None \<Rightarrow> None
           | Some d \<Rightarrow>
               (case or_list (get_or_none d ''tool_calls'') of None \<Rightarrow> None
                | Some tcs \<Rightarrow>
                    map_option (\<lambda>ts. text_piece p (get_or_none d ''content'') @
                                     text_piece p (get_or_none d ''reasoning_content'') @ ts)
                      (collect (tool_pieces p) tcs))))"

definition line_pieces :: "printer \<Rightarrow> string \<Rightarrow> string list option" where
  "line_pieces p raw =
     (let line = bytes_strip raw; payload = bytes_strip (drop 5 line) in
      if \<not> starts_with ''data:'' line \<or> payload = [] \<or> payload = ''[DONE]'' then Some []
      else
        (case loads payload of None \<Rightarrow> Some []
         | Some obj \<Rightarrow>
             (case as_dict obj of None \<Rightarrow> None
              | Some o' \<Rightarrow>
                  (case or_list (get_or_none o' ''choices'') of None \<Rightarrow> None
                   | Some chs \<Rightarrow> collect (choice_pieces p) chs))))"

text \<open>The text of a frame: an exception anywhere drops the whole frame.\<close>

definition frame_text :: "printer \<Rightarrow> string \<Rightarrow> string" where
  "frame_text p frame =
     (case collect (line_pieces p) (split_on newline frame) of None \<Rightarrow> [] | Some ps \<Rightarrow> concat ps)"

definition frame_has_pieces :: "printer \<Rightarrow> string \<Rightarrow> bool" where
  "frame_has_pieces p frame =
     (case collect (line_pieces p) (split_on newline frame) of None \<Rightarrow> False | Some ps \<Rightarrow> ps \<noteq> [])"

definition append_piece :: "nat \<Rightarrow> string \<Rightarrow> gen_buf \<Rightarrow> gen_buf" where
  "append_piece n piece b =
     b\<lparr>gb_tail := last_n n (gb_tail b @ piece),
       gb_subs := map (\<lambda>(i, q). (i, put_nowait SUB_QUEUE_MAX (Some piece) q)) (gb_subs b)\<rparr>"

definition consume_frame :: "printer \<Rightarrow> nat \<Rightarrow> string \<Rightarrow> gen_buf \<Rightarrow> gen_buf" where
  "consume_frame p n frame b =
     (if frame_has_pieces p frame then append_piece n (frame_text p frame) b else b)"

definition FRAME_END :: string where
  "FRAME_END = [newline, newline]"

subsection \<open>Feeding, subscribing, finishing\<close>

function drain_carry :: "printer \<Rightarrow> nat \<Rightarrow> gen_buf \<Rightarrow> gen_buf" where
  "drain_carry p n b =
     (case find_sub FRAME_END (gb_carry b) of
        None \<Rightarrow> b
      | Some i \<Rightarrow>
          drain_carry p n (consume_frame p n (take i (gb_carry b)) (b\<lparr>gb_carry := drop (i + 2) (gb_carry b)\<rparr>)))"
  by pat_completeness auto

lemma consume_frame_carry [simp]: "gb_carry (consume_frame p n f b) = gb_carry b"
  by (simp add: consume_frame_def append_piece_def)

termination drain_carry
  by (relation "measure (\<lambda>(_, _, b). length (gb_carry b))") (auto simp: FRAME_END_def dest: find_sub_Some)

declare drain_carry.simps [simp del]

definition feed_buf :: "printer \<Rightarrow> nat \<Rightarrow> string \<Rightarrow> gen_buf \<Rightarrow> gen_buf" where
  "feed_buf p n bytes b =
     (let b' = drain_carry p n (b\<lparr>gb_carry := gb_carry b @ bytes\<rparr>) in
      if CARRY_MAX_BYTES < length (gb_carry b') then b'\<lparr>gb_carry := []\<rparr> else b')"

definition feed :: "printer \<Rightarrow> string \<Rightarrow> string \<Rightarrow> live_output \<Rightarrow> (output_error + unit) \<times> live_output" where
  "feed p g bytes lo =
     (case get_buffer True g lo of
        (Inl e, lo') \<Rightarrow> (Inl e, lo')
      | (Inr None, lo') \<Rightarrow> (Inr (), lo')
      | (Inr (Some b), lo') \<Rightarrow> (Inr (), od_put g (feed_buf p (lo_tail_bytes lo') bytes b) lo'))"

definition live_subscribe ::
  "bool \<Rightarrow> string \<Rightarrow> live_output \<Rightarrow> (output_error + (nat option \<times> string \<times> bool)) \<times> live_output" where
  "live_subscribe allow_create g lo =
     (case get_buffer allow_create g lo of
        (Inl e, lo') \<Rightarrow> (Inl e, lo')
      | (Inr None, lo') \<Rightarrow> (Inr (None, [], True), lo')
      | (Inr (Some b), lo') \<Rightarrow>
          if MAX_SUBS_PER_GEN \<le> length (gb_subs b) then (Inr (None, gb_tail b, gb_done b), lo')
          else (Inr (Some (lo_fresh lo'), gb_tail b, gb_done b),
                od_put g (b\<lparr>gb_subs := gb_subs b @ [(lo_fresh lo', [])]\<rparr>) (lo'\<lparr>lo_fresh := Suc (lo_fresh lo')\<rparr>)))"

definition live_unsubscribe :: "string \<Rightarrow> nat \<Rightarrow> live_output \<Rightarrow> live_output" where
  "live_unsubscribe g i lo =
     (case map_of (lo_buffers lo) g of
        None \<Rightarrow> lo
      | Some b \<Rightarrow>
          (let b' = b\<lparr>gb_subs := filter (\<lambda>(j, q). j \<noteq> i) (gb_subs b)\<rparr>; lo' = od_put g b' lo in
           if gb_done b' \<and> gb_subs b' = [] then od_pop g lo' else lo'))"

definition mark_done :: "string \<Rightarrow> live_output \<Rightarrow> live_output" where
  "mark_done g lo =
     (case map_of (lo_buffers lo) g of
        None \<Rightarrow> lo
      | Some b \<Rightarrow>
          od_put g (b\<lparr>gb_done := True,
                      gb_subs := map (\<lambda>(i, q). (i, put_nowait SUB_QUEUE_MAX None q)) (gb_subs b)\<rparr>) lo)"

subsection \<open>The stream a buffer stands for\<close>

text \<open>
  Reference: the frames of a byte stream are what lies before each blank line, read from
  left to right, and the rest is what follows the last one.
\<close>

fun split_frames :: "string \<Rightarrow> string list \<times> string" where
  "split_frames [] = ([], [])"
| "split_frames (c # cs) =
     (if starts_with FRAME_END (c # cs) then (case split_frames (tl cs) of (fs, r) \<Rightarrow> ([] # fs, r))
      else
        (case split_frames cs of
           ([], r) \<Rightarrow> ([], c # r)
         | (f # fs, r) \<Rightarrow> ((c # f) # fs, r)))"

definition stream_pieces :: "printer \<Rightarrow> string \<Rightarrow> string list" where
  "stream_pieces p bytes = map (frame_text p) (filter (frame_has_pieces p) (fst (split_frames bytes)))"

definition stream_text :: "printer \<Rightarrow> string \<Rightarrow> string" where
  "stream_text p bytes = concat (stream_pieces p bytes)"

definition stream_rest :: "string \<Rightarrow> string" where
  "stream_rest bytes = snd (split_frames bytes)"

definition represents :: "printer \<Rightarrow> nat \<Rightarrow> string \<Rightarrow> gen_buf \<Rightarrow> bool" where
  "represents p n heard b \<longleftrightarrow> gb_tail b = last_n n (stream_text p heard) \<and> gb_carry b = stream_rest heard"

lemma FRAME_END_start: "starts_with FRAME_END (c # cs) \<longleftrightarrow> c = newline \<and> cs \<noteq> [] \<and> hd cs = newline"
  by (cases cs) (auto simp: FRAME_END_def starts_with_def)

lemma split_frames_none: "fst (split_frames s) = [] \<Longrightarrow> snd (split_frames s) = s"
  by (induction s rule: split_frames.induct) (auto split: prod.splits list.splits if_splits)

lemma split_frames_find:
  "split_frames s =
     (case find_sub FRAME_END s of
        None \<Rightarrow> ([], s)
      | Some i \<Rightarrow> (case split_frames (drop (i + 2) s) of (fs, r) \<Rightarrow> (take i s # fs, r)))"
proof (induction s)
  case (Cons c cs)
  show ?case
  proof (cases "starts_with FRAME_END (c # cs)")
    case True
    then show ?thesis by (auto simp: FRAME_END_start drop_Suc)
  next
    case False
    with Cons show ?thesis
      by (cases "find_sub FRAME_END cs") (auto split: prod.splits)
  qed
qed (simp add: FRAME_END_def)

lemma split_frames_append:
  "split_frames (a @ b) =
     (fst (split_frames a) @ fst (split_frames (snd (split_frames a) @ b)),
      snd (split_frames (snd (split_frames a) @ b)))"
proof (induction a rule: split_frames.induct)
  case (2 c cs)
  show ?case
  proof (cases "starts_with FRAME_END (c # cs)")
    case True
    then have "tl (cs @ b) = tl cs @ b" "starts_with FRAME_END (c # cs @ b)" by (auto simp: FRAME_END_start)
    with True "2.IH"(1) show ?thesis by (simp split: prod.splits)
  next
    case False
    show ?thesis
    proof (cases "fst (split_frames cs)")
      case Nil
      then have "split_frames cs = ([], cs)" using split_frames_none [of cs] by (metis prod.collapse)
      with False show ?thesis by simp
    next
      case (Cons f fs)
      then have "cs \<noteq> []" by auto
      with False have "\<not> starts_with FRAME_END (c # cs @ b)" by (simp add: FRAME_END_start)
      with False Cons "2.IH"(2) [OF False] show ?thesis by (cases "split_frames cs") simp
    qed
  qed
qed simp

lemma stream_pieces_append:
  "stream_pieces p (a @ b) = stream_pieces p a @ stream_pieces p (stream_rest a @ b)"
  by (simp add: stream_pieces_def stream_rest_def split_frames_append [of a b])

lemma stream_rest_append: "stream_rest (a @ b) = stream_rest (stream_rest a @ b)"
  by (simp add: stream_rest_def split_frames_append [of a b])

lemma consume_frame_upd: "consume_frame p n f (b\<lparr>gb_carry := c\<rparr>) = (consume_frame p n f b)\<lparr>gb_carry := c\<rparr>"
  by (simp add: consume_frame_def append_piece_def)

lemma consume_frames_upd:
  "fold (consume_frame p n) fs (b\<lparr>gb_carry := c\<rparr>) = (fold (consume_frame p n) fs b)\<lparr>gb_carry := c\<rparr>"
  by (induction fs arbitrary: b) (simp_all add: consume_frame_upd)

lemma drain_carry_frames:
  "drain_carry p n b =
     (fold (consume_frame p n) (fst (split_frames (gb_carry b))) b)\<lparr>gb_carry := stream_rest (gb_carry b)\<rparr>"
proof (induction p n b rule: drain_carry.induct)
  case (1 p n b)
  show ?case
  proof (cases "find_sub FRAME_END (gb_carry b)")
    case None
    then have "split_frames (gb_carry b) = ([], gb_carry b)" by (subst split_frames_find) simp
    with None show ?thesis by (subst drain_carry.simps) (simp add: stream_rest_def)
  next
    case (Some i)
    let ?r = "drop (i + 2) (gb_carry b)"
    from Some have "split_frames (gb_carry b) = (take i (gb_carry b) # fst (split_frames ?r), snd (split_frames ?r))"
      by (subst split_frames_find) (simp split: prod.splits)
    moreover from Some have "drain_carry p n b = drain_carry p n (consume_frame p n (take i (gb_carry b)) (b\<lparr>gb_carry := ?r\<rparr>))"
      by (subst drain_carry.simps) simp
    ultimately show ?thesis using "1.IH" [OF Some]
      by (simp add: stream_rest_def consume_frame_upd consume_frames_upd)
  qed
qed

lemma append_pieces_tail:
  "gb_tail (fold (consume_frame p n) fs b) =
     last_n n (gb_tail b @ concat (map (frame_text p) (filter (frame_has_pieces p) fs)))
   \<or> filter (frame_has_pieces p) fs = [] \<and> gb_tail (fold (consume_frame p n) fs b) = gb_tail b"
proof (induction fs arbitrary: b)
  case (Cons f fs)
  from Cons [of "consume_frame p n f b"] show ?case
    by (auto simp: consume_frame_def append_piece_def last_n_append)
qed simp

lemma feed_buf_represents:
  assumes "represents p n heard b" "length (stream_rest (heard @ bytes)) \<le> CARRY_MAX_BYTES"
  shows "represents p n (heard @ bytes) (feed_buf p n bytes b)"
proof -
  let ?b = "b\<lparr>gb_carry := gb_carry b @ bytes\<rparr>"
  let ?fs = "fst (split_frames (gb_carry ?b))"
  have carry: "gb_carry ?b = stream_rest heard @ bytes" using assms(1) by (simp add: represents_def)
  have rest: "stream_rest (gb_carry ?b) = stream_rest (heard @ bytes)"
    by (simp only: carry stream_rest_append [of heard bytes])
  have pieces: "map (frame_text p) (filter (frame_has_pieces p) ?fs) = stream_pieces p (stream_rest heard @ bytes)"
    by (simp only: carry stream_pieces_def)
  have "gb_tail (fold (consume_frame p n) ?fs ?b) = last_n n (stream_text p (heard @ bytes))"
    using append_pieces_tail [of p n ?fs ?b] assms(1) pieces
    by (auto simp: represents_def last_n_append stream_text_def stream_pieces_append [of p heard bytes]
        simp del: split_frames.simps)
  with assms(2) rest show ?thesis
    by (simp add: represents_def feed_buf_def Let_def drain_carry_frames)
qed

subsection \<open>The ordered dict\<close>

lemma map_of_od_put: "map_of (lo_buffers (od_put g b lo)) h =
    (if h = g then map_option (\<lambda>_. b) (map_of (lo_buffers lo) g) else map_of (lo_buffers lo) h)"
proof -
  have "map_of (map (\<lambda>(h, c). (h, if h = g then b else c)) bs) h =
      (if h = g then map_option (\<lambda>_. b) (map_of bs g) else map_of bs h)" for bs
    by (induction bs) auto
  then show ?thesis by (simp add: od_put_def)
qed

lemma od_put_frame [simp]:
  "lo_tail_bytes (od_put g b lo) = lo_tail_bytes lo" "lo_max_keys (od_put g b lo) = lo_max_keys lo"
  "lo_fresh (od_put g b lo) = lo_fresh lo"
  by (simp_all add: od_put_def)

lemma od_pop_buffers [simp]:
  "lo_tail_bytes (od_pop g lo) = lo_tail_bytes lo"
  "map_of (lo_buffers (od_pop g lo)) h = (if h = g then None else map_of (lo_buffers lo) h)"
proof -
  have "map_of (filter (\<lambda>(h, c). h \<noteq> g) bs) h = (if h = g then None else map_of bs h)" for bs :: "(string \<times> gen_buf) list"
    by (induction bs) auto
  then show "map_of (lo_buffers (od_pop g lo)) h = (if h = g then None else map_of (lo_buffers lo) h)"
    by (simp add: od_pop_def)
qed (simp add: od_pop_def)

lemma map_of_to_end [simp]: "map_of (to_end g b bs) h = (if h = g then Some b else map_of bs h)"
  by (induction bs) (auto simp: to_end_def map_add_def split: option.splits)

lemma evict_over_subset:
  "distinct (map fst bs) \<Longrightarrow>
     distinct (map fst (evict_over m bs)) \<and> set (evict_over m bs) \<subseteq> set bs"
proof (induction m bs rule: evict_over.induct)
  case (1 m bs)
  show ?case
  proof (cases "length bs \<le> m \<or> pop_match (\<lambda>(g, b). gb_subs b = []) bs = None")
    case True
    with 1(2) show ?thesis by (subst (1 2) evict_over.simps) auto
  next
    case False
    then obtain x bs' where pm: "pop_match (\<lambda>(g, b). gb_subs b = []) bs = Some (x, bs')" "\<not> length bs \<le> m" by auto
    from pop_match_Some [OF pm(1)] obtain us vs where bs: "bs = us @ x # vs" "bs' = us @ vs" by blast
    with 1(2) have "distinct (map fst bs')" by auto
    with "1.IH" [OF pm(2,1) refl] bs pm show ?thesis by (subst (1 2) evict_over.simps) auto
  qed
qed

lemma get_buffer_known:
  "map_of (lo_buffers lo) g = Some b \<Longrightarrow>
     get_buffer c g lo =
       (Inr (Some b), lo\<lparr>lo_buffers := to_end g b (lo_buffers lo)\<rparr>)"
  by (simp add: get_buffer_def move_to_end_def)

lemma get_buffer_frame:
  "lo_tail_bytes (snd (get_buffer c g lo)) = lo_tail_bytes lo"
  "lo_max_keys (snd (get_buffer c g lo)) = lo_max_keys lo"
  "lo_fresh (snd (get_buffer c g lo)) = lo_fresh lo"
  by (simp_all add: get_buffer_def move_to_end_def evict_buffers_def Let_def split: option.splits)

lemma get_buffer_lookup:
  assumes "distinct (map fst (lo_buffers lo))" "get_buffer c g lo = (r, lo')"
    and "map_of (lo_buffers lo') h = Some b"
  shows "map_of (lo_buffers lo) h = Some b \<or> (h = g \<and> map_of (lo_buffers lo) g = None \<and> b = new_buf)"
proof (cases "map_of (lo_buffers lo) g")
  case None
  show ?thesis
  proof (cases c)
    case True
    let ?bs = "lo_buffers lo @ [(g, new_buf)]"
    from None assms(1) have d: "distinct (map fst ?bs)" by (auto simp: map_of_eq_None_iff)
    note ev = evict_over_subset [OF d, of "lo_max_keys lo"]
    have "map_of (evict_over (lo_max_keys lo) ?bs) h = Some b"
      using assms(2,3) None True
      by (auto simp: get_buffer_def move_to_end_def evict_buffers_def Let_def
          split: option.splits if_splits)
    with ev d have "map_of ?bs h = Some b" by (meson map_of_SomeD map_of_is_SomeI subset_iff)
    with None show ?thesis by (auto simp: map_add_def split: option.splits if_splits)
  qed (use None assms(2,3) in \<open>simp add: get_buffer_def\<close>)
next
  case (Some b0)
  with assms(2,3) show ?thesis by (auto simp: get_buffer_known  split: if_splits)
qed

lemma get_buffer_some:
  "get_buffer c g lo = (Inr (Some b), lo') \<Longrightarrow> map_of (lo_buffers lo') g = Some b"
  by (auto simp: get_buffer_def move_to_end_def  Let_def split: option.splits if_splits)

subsection \<open>Eviction\<close>

definition watched :: "string \<times> gen_buf \<Rightarrow> bool" where
  "watched gb \<longleftrightarrow> gb_subs (snd gb) \<noteq> []"

lemma unwatched_pred: "(\<lambda>(g, b). gb_subs b = []) = (\<lambda>gb. \<not> watched gb)"
  by (auto simp: watched_def)

text \<open>One buffer too many: exactly one unwatched buffer goes, the oldest; the new one is the last resort.\<close>

lemma evict_one_over:
  assumes "length bs \<le> m"
  shows "evict_over m (bs @ [(g, new_buf)]) =
    (if length bs < m then bs @ [(g, new_buf)]
     else case pop_match (\<lambda>gb. \<not> watched gb) bs of
            None \<Rightarrow> bs
          | Some (_, bs') \<Rightarrow> bs' @ [(g, new_buf)])"
proof (cases "length bs < m")
  case True
  then show ?thesis by (subst evict_over.simps) simp
next
  case False
  with assms have m: "length bs = m" by simp
  have new: "\<not> watched (g, new_buf)" by (simp add: watched_def new_buf_def)
  have step: "evict_over m (bs @ [(g, new_buf)]) = bs'"
    if "pop_match (\<lambda>gb. \<not> watched gb) (bs @ [(g, new_buf)]) = Some (x, bs')" for x bs'
  proof -
    from pop_match_Some [OF that] obtain us vs where "bs @ [(g, new_buf)] = us @ x # vs" "bs' = us @ vs" by blast
    then have "length bs' = length bs" by (metis add_Suc_right length_Cons length_append length_append_singleton nat.inject)
    with m have stop: "evict_over m bs' = bs'" by (simp add: evict_over.simps [of m bs'])
    from that m stop show ?thesis
      by (simp add: evict_over.simps [of m "bs @ [(g, new_buf)]"] unwatched_pred)
  qed
  show ?thesis
  proof (cases "pop_match (\<lambda>gb. \<not> watched gb) bs")
    case None
    then have "pop_match (\<lambda>gb. \<not> watched gb) (bs @ (g, new_buf) # []) = Some ((g, new_buf), bs @ [])"
      using new by (intro pop_match_first) (auto simp: pop_match_None_iff)
    with None m step show ?thesis by simp
  next
    case (Some xy)
    obtain x bs' where xy: "xy = (x, bs')" by (rule prod.exhaust)
    from pop_match_Some [OF Some [unfolded xy]] obtain us vs
      where "bs = us @ x # vs" "bs' = us @ vs" "\<not> watched x" "\<forall>u \<in> set us. watched u" by auto
    then have "pop_match (\<lambda>gb. \<not> watched gb) (bs @ [(g, new_buf)]) = Some (x, bs' @ [(g, new_buf)])"
      using pop_match_first [of us "\<lambda>gb. \<not> watched gb" x "vs @ [(g, new_buf)]"] by simp
    with Some xy m step show ?thesis by simp
  qed
qed

definition room_for_new :: "live_output \<Rightarrow> bool" where
  "room_for_new lo \<longleftrightarrow> length (lo_buffers lo) < lo_max_keys lo \<or> list_ex (\<lambda>gb. \<not> watched gb) (lo_buffers lo)"

text \<open>The buffers after a new generation was admitted.\<close>

definition make_room :: "live_output \<Rightarrow> (string \<times> gen_buf) list" where
  "make_room lo =
     (if length (lo_buffers lo) < lo_max_keys lo then lo_buffers lo
      else case pop_match (\<lambda>gb. \<not> watched gb) (lo_buffers lo) of
             None \<Rightarrow> lo_buffers lo
           | Some (_, bs) \<Rightarrow> bs)"

lemma make_room_subset:
  "set (make_room lo) \<subseteq> set (lo_buffers lo)"
  "distinct (map fst (lo_buffers lo)) \<Longrightarrow> distinct (map fst (make_room lo))"
  "length (make_room lo) \<le> length (lo_buffers lo)"
  by (auto simp: make_room_def split: option.splits dest!: pop_match_Some)

lemma make_room_keeps_watched: "gb \<in> set (lo_buffers lo) \<Longrightarrow> watched gb \<Longrightarrow> gb \<in> set (make_room lo)"
  by (auto simp: make_room_def split: option.splits dest!: pop_match_Some)

lemma get_buffer_new:
  assumes "distinct (map fst (lo_buffers lo))" "length (lo_buffers lo) \<le> lo_max_keys lo"
    and new: "map_of (lo_buffers lo) g = None"
  shows "get_buffer True g lo =
     (if room_for_new lo then (Inr (Some new_buf), lo\<lparr>lo_buffers := make_room lo @ [(g, new_buf)]\<rparr>)
      else (Inl (KeyError g), lo))"
proof -
  have pm: "pop_match (\<lambda>gb. \<not> watched gb) (lo_buffers lo) = None \<longleftrightarrow> \<not> list_ex (\<lambda>gb. \<not> watched gb) (lo_buffers lo)"
    by (auto simp: pop_match_None_iff list_ex_iff)
  have ev: "evict_over (lo_max_keys lo) (lo_buffers lo @ [(g, new_buf)]) =
      (if room_for_new lo then make_room lo @ [(g, new_buf)] else lo_buffers lo)"
    using pm by (auto simp: evict_one_over [OF assms(2)] room_for_new_def make_room_def split: option.splits)
  have "g \<notin> fst ` set (make_room lo)"
    using make_room_subset(1) [of lo] new by (auto simp: map_of_eq_None_iff)
  then have "to_end g new_buf (make_room lo @ [(g, new_buf)]) = make_room lo @ [(g, new_buf)]"
    "map_of (make_room lo @ [(g, new_buf)]) g = Some new_buf"
    by (force simp: to_end_def filter_id_conv, force simp: map_add_def split: option.splits dest: map_of_SomeD)
  with new ev show ?thesis
    by (simp add: get_buffer_def evict_buffers_def move_to_end_def Let_def)
qed

subsection \<open>Bounds\<close>

definition buf_ok :: "nat \<Rightarrow> nat \<Rightarrow> gen_buf \<Rightarrow> bool" where
  "buf_ok n fresh b \<longleftrightarrow>
     (n = 0 \<or> length (gb_tail b) \<le> n) \<and> length (gb_carry b) \<le> CARRY_MAX_BYTES \<and>
     length (gb_subs b) \<le> MAX_SUBS_PER_GEN \<and> distinct (map fst (gb_subs b)) \<and>
     list_all (\<lambda>(i, q). i < fresh \<and> length q \<le> SUB_QUEUE_MAX) (gb_subs b)"

definition plane_ok :: "live_output \<Rightarrow> bool" where
  "plane_ok lo \<longleftrightarrow>
     distinct (map fst (lo_buffers lo)) \<and> length (lo_buffers lo) \<le> lo_max_keys lo \<and>
     list_all (\<lambda>(g, b). buf_ok (lo_tail_bytes lo) (lo_fresh lo) b) (lo_buffers lo)"

lemma new_buf_ok: "buf_ok n f new_buf"
  by (simp add: buf_ok_def new_buf_def)

lemma plane_ok_buf: "plane_ok lo \<Longrightarrow> map_of (lo_buffers lo) g = Some b \<Longrightarrow> buf_ok (lo_tail_bytes lo) (lo_fresh lo) b"
  by (auto simp: plane_ok_def list_all_iff dest: map_of_SomeD)

lemma to_end_facts:
  assumes "distinct (map fst bs)" "map_of bs g = Some b"
  shows "distinct (map fst (to_end g c bs))" "length (to_end g c bs) = length bs"
    "set (to_end g b bs) \<subseteq> set bs"
proof -
  show "distinct (map fst (to_end g c bs))"
    using assms(1) by (auto simp: to_end_def distinct_map inj_on_def)
  obtain us vs where bs: "bs = us @ (g, b) # vs"
    using assms(2) by (meson map_of_SomeD split_list)
  with assms(1) have "filter (\<lambda>(h, c). h \<noteq> g) us = us" "filter (\<lambda>(h, c). h \<noteq> g) vs = vs"
    by (auto simp: filter_id_conv rev_image_eqI)
  with bs show "length (to_end g c bs) = length bs" "set (to_end g b bs) \<subseteq> set bs"
    by (auto simp: to_end_def)
qed

lemma get_buffer_ok:
  assumes "plane_ok lo"
  shows "plane_ok (snd (get_buffer c g lo))"
proof (cases "map_of (lo_buffers lo) g")
  case None
  consider "\<not> c" | "c" "room_for_new lo" | "c" "\<not> room_for_new lo" by blast
  then show ?thesis
  proof cases
    case 2
    with assms have "Suc (length (make_room lo)) \<le> lo_max_keys lo"
      by (auto simp: plane_ok_def make_room_def room_for_new_def list_ex_iff pop_match_None_iff
          split: option.splits dest!: pop_match_Some)
    with 2 None assms make_room_subset [of lo] show ?thesis
      by (auto simp: get_buffer_new plane_ok_def list_all_iff new_buf_ok map_of_eq_None_iff)
  qed (use None assms in \<open>auto simp: get_buffer_def [where create = False] get_buffer_new plane_ok_def\<close>)
next
  case (Some b)
  then show ?thesis
    using assms to_end_facts [of "lo_buffers lo" g b]
    by (auto simp: get_buffer_known plane_ok_def list_all_iff)
qed

lemma od_put_ok:
  assumes "plane_ok lo" "buf_ok (lo_tail_bytes lo) (lo_fresh lo) b"
  shows "plane_ok (od_put g b lo)"
proof -
  have "map fst (lo_buffers (od_put g b lo)) = map fst (lo_buffers lo)"
    by (simp add: od_put_def split_beta comp_def)
  moreover have "length (lo_buffers (od_put g b lo)) = length (lo_buffers lo)" by (simp add: od_put_def)
  ultimately show ?thesis using assms by (auto simp: plane_ok_def list_all_iff) (auto simp: od_put_def)
qed

lemma append_piece_ok: "buf_ok n f b \<Longrightarrow> buf_ok n f (append_piece n s b)"
  by (auto simp: buf_ok_def append_piece_def last_n_def list_all_iff comp_def split_beta put_nowait_bound)

lemma consume_frames_ok: "buf_ok n f b \<Longrightarrow> buf_ok n f (fold (consume_frame p n) fs b)"
  by (induction fs arbitrary: b) (simp_all add: consume_frame_def append_piece_ok)

lemma feed_buf_ok: "buf_ok n f b \<Longrightarrow> buf_ok n f (feed_buf p n bytes b)"
proof -
  assume ok: "buf_ok n f b"
  let ?r = "stream_rest (gb_carry b @ bytes)"
  obtain fs where d: "drain_carry p n (b\<lparr>gb_carry := gb_carry b @ bytes\<rparr>) = (fold (consume_frame p n) fs b)\<lparr>gb_carry := ?r\<rparr>"
    by (simp add: drain_carry_frames consume_frames_upd)
  have "buf_ok n f ((fold (consume_frame p n) fs b)\<lparr>gb_carry := r\<rparr>)" if "length r \<le> CARRY_MAX_BYTES" for r
    using consume_frames_ok [OF ok, of p fs] that by (simp add: buf_ok_def)
  from this [of ?r] this [of "[]"] show ?thesis by (simp add: feed_buf_def Let_def d)
qed

definition take_piece :: "string \<Rightarrow> nat \<Rightarrow> live_output \<Rightarrow> string option option \<times> live_output" where
  "take_piece g i lo =
     (case map_of (lo_buffers lo) g of
        None \<Rightarrow> (None, lo)
      | Some b \<Rightarrow>
          (case map_of (gb_subs b) i of
             Some (x # q) \<Rightarrow>
               (Some x, od_put g (b\<lparr>gb_subs := map (\<lambda>(j, r). (j, if j = i then q else r)) (gb_subs b)\<rparr>) lo)
           | _ \<Rightarrow> (None, lo)))"

datatype plane_op =
    Feed string string
  | Subscribe bool string
  | Unsubscribe string nat
  | MarkDone string
  | TakePiece string nat

fun plane_step :: "printer \<Rightarrow> plane_op \<Rightarrow> live_output \<Rightarrow> live_output" where
  "plane_step p (Feed g bytes) lo = snd (feed p g bytes lo)"
| "plane_step p (Subscribe c g) lo = snd (live_subscribe c g lo)"
| "plane_step p (Unsubscribe g i) lo = live_unsubscribe g i lo"
| "plane_step p (MarkDone g) lo = mark_done g lo"
| "plane_step p (TakePiece g i) lo = snd (take_piece g i lo)"

definition empty_plane :: "nat \<Rightarrow> nat \<Rightarrow> live_output" where
  "empty_plane m n = \<lparr>lo_max_keys = m, lo_tail_bytes = n, lo_buffers = [], lo_fresh = 0\<rparr>"

lemma feed_ok: "plane_ok lo \<Longrightarrow> plane_ok (snd (feed p g bytes lo))"
proof -
  assume ok: "plane_ok lo"
  obtain r lo' where gb: "get_buffer True g lo = (r, lo')" by force
  have ok': "plane_ok lo'" using get_buffer_ok [OF ok, of True g] gb by simp
  show ?thesis
  proof (cases r)
    case (Inr x)
    with gb ok' show ?thesis
      by (cases x) (auto simp: feed_def dest!: get_buffer_some intro!: od_put_ok feed_buf_ok dest: plane_ok_buf)
  qed (use gb ok' in \<open>simp add: feed_def\<close>)
qed

lemma fresh_mono: "plane_ok lo \<Longrightarrow> plane_ok (lo\<lparr>lo_fresh := Suc (lo_fresh lo)\<rparr>)"
proof -
  have "buf_ok n f b \<Longrightarrow> buf_ok n (Suc f) b" for n f b
    by (auto simp: buf_ok_def elim!: list.pred_mono_strong)
  then show "plane_ok lo \<Longrightarrow> plane_ok (lo\<lparr>lo_fresh := Suc (lo_fresh lo)\<rparr>)"
    by (auto simp: plane_ok_def elim!: list.pred_mono_strong)
qed

lemma subscribe_ok: "plane_ok lo \<Longrightarrow> plane_ok (snd (live_subscribe c g lo))"
proof -
  assume ok: "plane_ok lo"
  obtain r lo' where gb: "get_buffer c g lo = (r, lo')" by force
  have ok': "plane_ok lo'" using get_buffer_ok [OF ok, of c g] gb by simp
  show ?thesis
  proof (cases "\<exists>b. r = Inr (Some b) \<and> length (gb_subs b) < MAX_SUBS_PER_GEN")
    case True
    then obtain b where b: "r = Inr (Some b)" "length (gb_subs b) < MAX_SUBS_PER_GEN" by blast
    with gb have "map_of (lo_buffers lo') g = Some b" by (auto dest: get_buffer_some)
    with ok' have "buf_ok (lo_tail_bytes lo') (lo_fresh lo') b" by (rule plane_ok_buf)
    with b have nb: "buf_ok (lo_tail_bytes lo') (Suc (lo_fresh lo')) (b\<lparr>gb_subs := gb_subs b @ [(lo_fresh lo', [])]\<rparr>)"
      by (force simp: buf_ok_def list_all_iff)
    have "plane_ok (od_put g (b\<lparr>gb_subs := gb_subs b @ [(lo_fresh lo', [])]\<rparr>) (lo'\<lparr>lo_fresh := Suc (lo_fresh lo')\<rparr>))"
      using ok' nb by (intro od_put_ok fresh_mono) simp_all
    with b gb show ?thesis by (simp add: live_subscribe_def od_put_def)
  qed (use gb ok' in \<open>auto simp: live_subscribe_def split: sum.splits option.splits\<close>)
qed

lemma unsubscribe_ok: "plane_ok lo \<Longrightarrow> plane_ok (live_unsubscribe g i lo)"
proof (cases "map_of (lo_buffers lo) g")
  case (Some b)
  assume ok: "plane_ok lo"
  let ?b = "b\<lparr>gb_subs := filter (\<lambda>(j, q). j \<noteq> i) (gb_subs b)\<rparr>"
  have "buf_ok (lo_tail_bytes lo) (lo_fresh lo) ?b"
    using plane_ok_buf [OF ok Some]
    by (auto simp: buf_ok_def list_all_iff distinct_map inj_on_def intro: order_trans [OF length_filter_le])
  then have "plane_ok (od_put g ?b lo)" using ok by (intro od_put_ok)
  moreover have "plane_ok (od_pop g l)" if "plane_ok l" for l
    using that by (auto simp: plane_ok_def od_pop_def list_all_iff distinct_map inj_on_def
        intro: order_trans [OF length_filter_le])
  moreover have "live_unsubscribe g i lo \<in> {od_put g ?b lo, od_pop g (od_put g ?b lo)}"
    by (simp only: live_unsubscribe_def Some Let_def option.case) simp
  ultimately show ?thesis by auto
qed (simp add: live_unsubscribe_def)

lemma mark_done_ok: "plane_ok lo \<Longrightarrow> plane_ok (mark_done g lo)"
proof (cases "map_of (lo_buffers lo) g")
  case (Some b)
  assume ok: "plane_ok lo"
  from plane_ok_buf [OF ok Some] have "buf_ok (lo_tail_bytes lo) (lo_fresh lo)
     (b\<lparr>gb_done := True, gb_subs := map (\<lambda>(i, q). (i, put_nowait SUB_QUEUE_MAX None q)) (gb_subs b)\<rparr>)"
    by (auto simp: buf_ok_def list_all_iff comp_def split_beta put_nowait_bound)
  with ok Some show ?thesis by (simp add: mark_done_def od_put_ok)
qed (simp add: mark_done_def)

lemma take_piece_ok: "plane_ok lo \<Longrightarrow> plane_ok (snd (take_piece g i lo))"
proof -
  assume ok: "plane_ok lo"
  have "buf_ok (lo_tail_bytes lo) (lo_fresh lo) (b\<lparr>gb_subs := map (\<lambda>(j, r). (j, if j = i then q else r)) (gb_subs b)\<rparr>)"
    if "map_of (lo_buffers lo) g = Some b" "map_of (gb_subs b) i = Some (x # q)" for b x q
    using plane_ok_buf [OF ok that(1)] map_of_SomeD [OF that(2)]
    by (auto simp: buf_ok_def list_all_iff comp_def split_beta)
  with ok show ?thesis by (auto simp: take_piece_def od_put_ok split: option.splits list.splits)
qed

lemma plane_step_ok: "plane_ok lo \<Longrightarrow> plane_ok (plane_step p op lo)"
  by (cases op) (simp_all add: feed_ok subscribe_ok unsubscribe_ok mark_done_ok take_piece_ok)

text \<open>
  Whatever the tee and the watchers do, and in any order, the live-output plane stays within
  its bounds: at most \<open>max_keys\<close> buffers under distinct generation ids, each with a tail of at
  most \<open>tail_bytes\<close> characters, a carry of at most 64 KiB and at most 32 watchers whose
  queues hold at most 512 pieces.
\<close>

theorem live_output_bounded: "plane_ok (fold (plane_step p) ops (empty_plane m n))"
proof -
  have "plane_ok lo \<Longrightarrow> plane_ok (fold (plane_step p) ops lo)" for lo
    by (induction ops arbitrary: lo) (simp_all add: plane_step_ok)
  then show ?thesis by (simp add: plane_ok_def empty_plane_def)
qed

end
