(* ===== verification/LiveStream.thy ===== *)
theory LiveStream
  imports LiveOutput
begin

text \<open>
  What the live-output plane promises its readers: it refines the byte streams of the
  generations, chunk boundaries do not show, a watcher that keeps up hears everything and
  keeps its queue, and the one way a feed fails. The endpoint of \<open>api/live_stream.py\<close> that
  follows the current generation is modelled on top.
\<close>

subsection \<open>Refinement\<close>

text \<open>
  Abstractly a generation is the byte stream its buffer was fed since it was created;
  \<open>heard\<close> keeps those streams, and each operation changes them in the obvious way.
\<close>

definition known :: "live_output \<Rightarrow> string \<Rightarrow> bool" where
  "known lo g \<longleftrightarrow> map_of (lo_buffers lo) g \<noteq> None"

fun heard_step :: "live_output \<Rightarrow> plane_op \<Rightarrow> (string \<Rightarrow> string) \<Rightarrow> (string \<Rightarrow> string)" where
  "heard_step lo (Feed g bytes) heard = heard(g := (if known lo g then heard g else []) @ bytes)"
| "heard_step lo (Subscribe c g) heard = (if known lo g then heard else heard(g := []))"
| "heard_step lo op heard = heard"

fun carry_fits :: "live_output \<Rightarrow> plane_op \<Rightarrow> (string \<Rightarrow> string) \<Rightarrow> bool" where
  "carry_fits lo (Feed g bytes) heard \<longleftrightarrow>
     length (stream_rest (heard_step lo (Feed g bytes) heard g)) \<le> CARRY_MAX_BYTES"
| "carry_fits lo op heard \<longleftrightarrow> True"

definition plane_heard :: "printer \<Rightarrow> (string \<Rightarrow> string) \<Rightarrow> live_output \<Rightarrow> bool" where
  "plane_heard p heard lo \<longleftrightarrow> list_all (\<lambda>(g, b). represents p (lo_tail_bytes lo) (heard g) b) (lo_buffers lo)"

lemma plane_heardI:
  "plane_ok lo \<Longrightarrow> (\<And>g b. map_of (lo_buffers lo) g = Some b \<Longrightarrow> represents p (lo_tail_bytes lo) (heard g) b) \<Longrightarrow>
     plane_heard p heard lo"
  by (auto simp: plane_heard_def list_all_iff plane_ok_def)

lemma plane_heardD:
  "plane_heard p heard lo \<Longrightarrow> map_of (lo_buffers lo) g = Some b \<Longrightarrow> represents p (lo_tail_bytes lo) (heard g) b"
  by (auto simp: plane_heard_def list_all_iff dest: map_of_SomeD)

lemma represents_new: "represents p n [] new_buf"
  by (simp add: represents_def new_buf_def stream_text_def stream_pieces_def stream_rest_def last_n_def)

text \<open>Operations that leave the tail and the carry of every buffer alone.\<close>

lemma plane_heard_same:
  assumes "plane_heard p heard lo" "plane_ok lo'" "lo_tail_bytes lo' = lo_tail_bytes lo"
    and "\<And>g b. map_of (lo_buffers lo') g = Some b \<Longrightarrow>
           \<exists>c. map_of (lo_buffers lo) g = Some c \<and> gb_tail c = gb_tail b \<and> gb_carry c = gb_carry b"
  shows "plane_heard p heard lo'"
proof (rule plane_heardI [OF assms(2)])
  fix g b
  assume "map_of (lo_buffers lo') g = Some b"
  with assms(4) obtain c where "map_of (lo_buffers lo) g = Some c" "gb_tail c = gb_tail b" "gb_carry c = gb_carry b"
    by blast
  with plane_heardD [OF assms(1)] assms(3) show "represents p (lo_tail_bytes lo') (heard g) b"
    by (fastforce simp: represents_def)
qed

lemma get_buffer_heard:
  assumes "plane_ok lo" "plane_heard p heard lo" "get_buffer c g lo = (r, lo')"
  shows "plane_heard p (if known lo g then heard else heard(g := [])) lo'"
proof (rule plane_heardI)
  show "plane_ok lo'" using get_buffer_ok [OF assms(1), of c g] assms(3) by simp
  fix h b
  assume "map_of (lo_buffers lo') h = Some b"
  with get_buffer_lookup [OF _ assms(3)] assms(1)
  have "map_of (lo_buffers lo) h = Some b \<or> (h = g \<and> \<not> known lo g \<and> b = new_buf)"
    by (auto simp: plane_ok_def known_def)
  moreover have "lo_tail_bytes lo' = lo_tail_bytes lo" using get_buffer_frame(1) [of c g lo] assms(3) by simp
  ultimately show "represents p (lo_tail_bytes lo') ((if known lo g then heard else heard(g := [])) h) b"
    using plane_heardD [OF assms(2), of h b] represents_new
    by (auto simp: known_def)
qed

lemma feed_heard:
  assumes "plane_ok lo" "plane_heard p heard lo" "carry_fits lo (Feed g bytes) heard"
  shows "plane_heard p (heard_step lo (Feed g bytes) heard) (snd (feed p g bytes lo))"
proof -
  obtain r lo' where gb: "get_buffer True g lo = (r, lo')" by force
  let ?h = "if known lo g then heard else heard(g := [])"
  have h': "plane_heard p ?h lo'" by (rule get_buffer_heard [OF assms(1,2) gb])
  have ok': "plane_ok lo'" using get_buffer_ok [OF assms(1), of True g] gb by simp
  have upd: "heard_step lo (Feed g bytes) heard = ?h(g := ?h g @ bytes)" by auto
  show ?thesis
  proof (cases "\<exists>b. r = Inr (Some b)")
    case True
    then obtain b where b: "r = Inr (Some b)" by blast
    with gb have gb': "map_of (lo_buffers lo') g = Some b" by (auto dest: get_buffer_some)
    let ?b = "feed_buf p (lo_tail_bytes lo') bytes b"
    have rep: "represents p (lo_tail_bytes lo') (?h g @ bytes) ?b"
      using plane_heardD [OF h' gb'] assms(3) by (intro feed_buf_represents) (auto split: if_splits)
    have ok: "plane_ok (od_put g ?b lo')"
      using ok' plane_ok_buf [OF ok' gb'] by (intro od_put_ok feed_buf_ok)
    have "plane_heard p (?h(g := ?h g @ bytes)) (od_put g ?b lo')"
    proof (rule plane_heardI [OF ok])
      fix k c
      assume "map_of (lo_buffers (od_put g ?b lo')) k = Some c"
      then show "represents p (lo_tail_bytes (od_put g ?b lo')) ((?h(g := ?h g @ bytes)) k) c"
        using rep plane_heardD [OF h', of k c] by (auto simp: map_of_od_put gb' split: if_splits)
    qed
    moreover have "snd (feed p g bytes lo) = od_put g ?b lo'" by (simp add: feed_def gb b)
    ultimately show ?thesis by (simp only: upd)
  next
    case False
    have "r = Inr None \<Longrightarrow> False"
      using gb by (auto simp: get_buffer_def Let_def split: prod.splits sum.splits)
    with False obtain e where r: "r = Inl e" by (cases r) (auto split: option.splits)
    then have g: "map_of (lo_buffers lo) g = None" "lo' = lo" "\<not> room_for_new lo"
      using gb get_buffer_new [of lo g] assms(1)
      by (cases "map_of (lo_buffers lo) g"; auto simp: get_buffer_known plane_ok_def split: if_splits)+
    then show ?thesis using assms(2) r gb
      by (intro plane_heardI) (auto simp: feed_def assms(1) known_def dest: plane_heardD)
  qed
qed

text \<open>
  C14: The live-output plane refines the byte streams: if every buffer shows the tail of the text
  of the stream its generation was fed, and carries the unfinished frame of that stream,
  then after any operation (a chunk of the tee, a subscription, an eviction, a finished
  generation, a watcher reading) every buffer still does, for the streams changed by that operation
  alone; the one condition is that the unfinished frame stays within 64 KiB.
\<close>

theorem plane_step_refines:
  assumes "plane_ok lo" "plane_heard p heard lo" "carry_fits lo op heard"
  shows "plane_heard p (heard_step lo op heard) (plane_step p op lo)"
proof (cases op)
  case (Feed g bytes)
  with assms feed_heard show ?thesis by simp
next
  case (Subscribe c g)
  obtain r lo' where gb: "get_buffer c g lo = (r, lo')" by force
  let ?h = "if known lo g then heard else heard(g := [])"
  have ok: "plane_ok (snd (live_subscribe c g lo))" by (rule subscribe_ok [OF assms(1)])
  have "plane_heard p ?h (snd (live_subscribe c g lo))"
    using get_buffer_heard [OF assms(1,2) gb] ok
    by (rule plane_heard_same)
       (use gb in \<open>auto simp: live_subscribe_def map_of_od_put
          split: sum.splits option.splits if_splits dest: get_buffer_some\<close>)
  with Subscribe show ?thesis by simp
next
  case (Unsubscribe g i)
  have "plane_heard p heard (live_unsubscribe g i lo)"
    by (rule plane_heard_same [OF assms(2) unsubscribe_ok [OF assms(1)]])
       (auto simp: live_unsubscribe_def Let_def map_of_od_put
          split: option.splits if_splits)
  with Unsubscribe show ?thesis by simp
next
  case (MarkDone g)
  have "plane_heard p heard (mark_done g lo)"
    by (rule plane_heard_same [OF assms(2) mark_done_ok [OF assms(1)]])
       (auto simp: mark_done_def map_of_od_put split: option.splits if_splits)
  with MarkDone show ?thesis by simp
next
  case (TakePiece g i)
  have "plane_heard p heard (snd (take_piece g i lo))"
    by (rule plane_heard_same [OF assms(2) take_piece_ok [OF assms(1)]])
       (auto simp: take_piece_def map_of_od_put split: option.splits if_splits list.splits)
  with TakePiece show ?thesis by simp
qed

definition plain_printer :: printer where
  "plain_printer = \<lparr>pr_str = (\<lambda>v. ''?''), pr_float = (\<lambda>f. ''0.5'')\<rparr>"

definition hello_frame :: string where
  "hello_frame = ''data: {\"choices\":[{\"delta\":{\"content\":\"hi\"}}]}'' @ FRAME_END"

lemma frame_text_evaluates:
  "frame_text plain_printer ''data: {\"choices\":[{\"delta\":{\"content\":\"hi\"}}]}'' = ''hi''"
  "frame_text plain_printer ''data: [DONE]'' = []"
  "frame_text plain_printer ''data: {\"choices\":[7]}'' = []"
  by code_simp+

lemma hello_stream:
  "split_frames hello_frame = ([''data: {\"choices\":[{\"delta\":{\"content\":\"hi\"}}]}''], [])"
  by code_simp

theorem plane_step_refines_witness:
  "plane_heard plain_printer (heard_step (empty_plane 8 5) (Feed ''g'' hello_frame) (\<lambda>_. []))
     (plane_step plain_printer (Feed ''g'' hello_frame) (empty_plane 8 5))"
proof (rule plane_step_refines)
  show "plane_ok (empty_plane 8 5)" by (simp add: plane_ok_def empty_plane_def)
  show "plane_heard plain_printer (\<lambda>_. []) (empty_plane 8 5)" by (simp add: plane_heard_def empty_plane_def)
  show "carry_fits (empty_plane 8 5) (Feed ''g'' hello_frame) (\<lambda>_. [])"
    by (simp add: stream_rest_def hello_stream)
qed

subsection \<open>Chunk boundaries\<close>

text \<open>No unfinished frame outgrows the carry while the chunks arrive.\<close>

fun carries_fit :: "string \<Rightarrow> string list \<Rightarrow> bool" where
  "carries_fit heard [] = True"
| "carries_fit heard (c # cs) =
     (length (stream_rest (heard @ c)) \<le> CARRY_MAX_BYTES \<and> carries_fit (heard @ c) cs)"

lemma feed_chunks_represents:
  "represents p n heard b \<Longrightarrow> carries_fit heard chunks \<Longrightarrow>
     represents p n (heard @ concat chunks) (fold (feed_buf p n) chunks b)"
proof (induction chunks arbitrary: heard b)
  case (Cons c cs)
  then have "represents p n (heard @ c) (feed_buf p n c b)" by (intro feed_buf_represents) auto
  with Cons.IH [of "heard @ c"] Cons.prems(2) show ?case by simp
qed simp

text \<open>
  C27: TCP chunk boundaries are invisible: two ways of cutting the same bytes into chunks leave the
  same replay tail and the same unfinished frame, as long as no unfinished frame reaches
  64 KiB; the tail is the end of the text of the whole stream.
\<close>

theorem chunking_is_invisible:
  assumes "concat chunks = bytes" "carries_fit [] chunks"
  shows "gb_tail (fold (feed_buf p n) chunks new_buf) = last_n n (stream_text p bytes) \<and>
         gb_carry (fold (feed_buf p n) chunks new_buf) = stream_rest bytes"
  using feed_chunks_represents [OF represents_new assms(2)] assms(1) by (simp add: represents_def)

theorem chunking_is_invisible_witness:
  "gb_tail (fold (feed_buf plain_printer 5) [take 20 hello_frame, drop 20 hello_frame] new_buf) =
     last_n 5 (stream_text plain_printer hello_frame) \<and>
   gb_carry (fold (feed_buf plain_printer 5) [take 20 hello_frame, drop 20 hello_frame] new_buf) =
     stream_rest hello_frame"
proof (rule chunking_is_invisible)
  have "length (stream_rest (take 20 hello_frame)) = 20" by code_simp
  then show "carries_fit [] [take 20 hello_frame, drop 20 hello_frame]"
    by (simp add: CARRY_MAX_BYTES_def) (simp add: stream_rest_def hello_stream)
qed simp

subsection \<open>Watchers\<close>

lemma append_pieces_subs:
  "map_of (gb_subs b) i = Some q \<Longrightarrow>
   length q + length (filter (frame_has_pieces p) fs) \<le> SUB_QUEUE_MAX \<Longrightarrow>
   map_of (gb_subs (fold (consume_frame p n) fs b)) i =
     Some (q @ map (Some \<circ> frame_text p) (filter (frame_has_pieces p) fs))"
proof (induction fs arbitrary: b q)
  case (Cons f fs)
  have m: "map_of (map (\<lambda>(i, q). (i, put_nowait k x q)) ss) i = map_option (put_nowait k x) (map_of ss i)"
    for k x and ss :: "(nat \<times> string option list) list"
    by (induction ss) auto
  show ?case
  proof (cases "frame_has_pieces p f")
    case True
    with Cons.prems(1) have "map_of (gb_subs (consume_frame p n f b)) i =
        Some (put_nowait SUB_QUEUE_MAX (Some (frame_text p f)) q)"
      by (simp add: consume_frame_def append_piece_def m)
    with True Cons.prems(2) have "map_of (gb_subs (consume_frame p n f b)) i = Some (q @ [Some (frame_text p f)])"
      by (simp add: put_nowait_def)
    with Cons.IH Cons.prems(2) True show ?thesis by simp
  next
    case False
    with Cons.prems Cons.IH show ?thesis by (simp add: consume_frame_def)
  qed
qed simp

text \<open>
  A watcher that keeps up misses nothing: as long as its queue has room for the pieces of a
  chunk, each piece is queued for it once and in order, and the replay tail it would get now
  is what it had with these pieces appended.
\<close>

theorem watcher_hears_everything:
  assumes "map_of (gb_subs b) i = Some q"
    and "length q + length (stream_pieces p (gb_carry b @ bytes)) \<le> SUB_QUEUE_MAX"
    and "n = 0 \<or> length (gb_tail b) \<le> n"
  shows "map_of (gb_subs (feed_buf p n bytes b)) i = Some (q @ map Some (stream_pieces p (gb_carry b @ bytes))) \<and>
         gb_tail (feed_buf p n bytes b) = last_n n (gb_tail b @ concat (stream_pieces p (gb_carry b @ bytes)))"
proof -
  let ?fs = "fst (split_frames (gb_carry b @ bytes))" and ?b = "b\<lparr>gb_carry := gb_carry b @ bytes\<rparr>"
  have subs: "map_of (gb_subs (fold (consume_frame p n) ?fs ?b)) i =
      Some (q @ map (Some \<circ> frame_text p) (filter (frame_has_pieces p) ?fs))"
    using assms(1,2) by (intro append_pieces_subs) (simp_all add: stream_pieces_def)
  have "last_n n (gb_tail b) = gb_tail b" using assms(3) by (auto simp: last_n_def)
  then have "gb_tail (fold (consume_frame p n) ?fs ?b) = last_n n (gb_tail b @ stream_text p (gb_carry b @ bytes))"
    using append_pieces_tail [of p n ?fs ?b] by (auto simp: stream_text_def stream_pieces_def)
  with subs show ?thesis
    by (simp add: feed_buf_def Let_def drain_carry_frames stream_text_def)
       (simp add: stream_pieces_def comp_def)
qed

theorem watcher_hears_everything_witness:
  "map_of (gb_subs (feed_buf plain_printer 5 hello_frame (new_buf\<lparr>gb_subs := [(0, [])]\<rparr>))) 0 =
     Some ([] @ map Some (stream_pieces plain_printer (gb_carry (new_buf\<lparr>gb_subs := [(0, [])]\<rparr>) @ hello_frame))) \<and>
   gb_tail (feed_buf plain_printer 5 hello_frame (new_buf\<lparr>gb_subs := [(0, [])]\<rparr>)) =
     last_n 5 (gb_tail (new_buf\<lparr>gb_subs := [(0, [])]\<rparr>) @
       concat (stream_pieces plain_printer (gb_carry (new_buf\<lparr>gb_subs := [(0, [])]\<rparr>) @ hello_frame)))"
  by (rule watcher_hears_everything)
     (simp_all add: new_buf_def stream_pieces_def hello_stream SUB_QUEUE_MAX_def)

text \<open>
  Every generation in the buffer being watched shuts new ones out: the tee's \<open>feed\<close> of a new
  generation raises a \<open>KeyError\<close> exactly when the buffer is full and every one of its
  generations has a watcher (the new, unwatched buffer is then the one evicted), and nothing
  changes; in every other case the chunk is taken in.
\<close>

theorem feed_error_iff:
  assumes "plane_ok lo"
  shows "(fst (feed p g bytes lo) =
            (if known lo g \<or> room_for_new lo then Inr () else Inl (KeyError g))) \<and>
         (known lo g \<or> room_for_new lo \<or> snd (feed p g bytes lo) = lo)"
proof (cases "map_of (lo_buffers lo) g")
  case None
  with assms show ?thesis
    by (simp add: feed_def get_buffer_new plane_ok_def known_def)
next
  case (Some b)
  then show ?thesis by (simp add: feed_def get_buffer_known known_def)
qed

definition watched_plane :: live_output where
  "watched_plane = \<lparr>lo_max_keys = 1, lo_tail_bytes = 5,
     lo_buffers = [(''a'', new_buf\<lparr>gb_subs := [(0, [])]\<rparr>)], lo_fresh = 1\<rparr>"

theorem feed_error_iff_witness:
  "fst (feed plain_printer ''b'' hello_frame watched_plane) = Inl (KeyError ''b'') \<and>
   snd (feed plain_printer ''b'' hello_frame watched_plane) = watched_plane"
proof -
  have "plane_ok watched_plane"
    by (simp add: plane_ok_def watched_plane_def buf_ok_def new_buf_def MAX_SUBS_PER_GEN_def)
  moreover have "\<not> known watched_plane ''b'' \<and> \<not> room_for_new watched_plane"
    by (simp add: known_def room_for_new_def watched_plane_def watched_def)
  ultimately show ?thesis using feed_error_iff [of watched_plane plain_printer "''b''" hello_frame] by simp
qed

subsection \<open>The endpoint that follows the live generation\<close>

text \<open>
  One connection of \<open>/ui/live/output/stream\<close>: the generation it follows and its queue. An
  iteration of its loop first switches when the anchor (the current generation's id) has
  changed, then waits for a piece; the two halves are separate steps, since other tasks run
  between them. \<open>gens\<close> is \<open>mgr.live_generations\<close>, by model tag.
\<close>

record follower =
  fo_cur :: "string option"
  fo_queue :: "nat option"

datatype sse_frame =
    ResetFrame string string "string option"
  | IdleFrame
  | DeltaFrame "string option" string "string option"
  | DoneFrame "string option" "string option"
  | KeepAlive

definition tag_for_gid :: "(string \<times> string option) list \<Rightarrow> string option \<Rightarrow> string option" where
  "tag_for_gid gens gid =
     (case gid of None \<Rightarrow> None
      | Some g \<Rightarrow> if g = [] then None
                 else map_option fst (find (\<lambda>(tag, id). id = Some g) gens))"

definition follow_leave :: "follower \<Rightarrow> live_output \<Rightarrow> live_output" where
  "follow_leave f lo =
     (case (fo_queue f, fo_cur f) of (Some i, Some g) \<Rightarrow> live_unsubscribe g i lo | _ \<Rightarrow> lo)"

definition follow_switch ::
  "(string \<times> string option) list \<Rightarrow> string option \<Rightarrow> follower \<Rightarrow> live_output
     \<Rightarrow> (output_error + sse_frame list \<times> follower) \<times> live_output" where
  "follow_switch gens anchor f lo =
     (if anchor = fo_cur f then (Inr ([], f), lo)
      else
        (let lo1 = follow_leave f lo in
         case anchor of
           None \<Rightarrow> (Inr ([IdleFrame], \<lparr>fo_cur = None, fo_queue = None\<rparr>), lo1)
         | Some g \<Rightarrow>
             if g = [] then (Inr ([IdleFrame], \<lparr>fo_cur = anchor, fo_queue = None\<rparr>), lo1)
             else
               (case live_subscribe True g lo1 of
                  (Inl e, lo2) \<Rightarrow> (Inl e, lo2)
                | (Inr (q, replay, done0), lo2) \<Rightarrow>
                    (let frame = ResetFrame g replay (tag_for_gid gens anchor) in
                     if done0 \<and> q \<noteq> None
                     then (Inr ([frame], \<lparr>fo_cur = anchor, fo_queue = None\<rparr>), live_unsubscribe g (the q) lo2)
                     else (Inr ([frame], \<lparr>fo_cur = anchor, fo_queue = q\<rparr>), lo2)))))"

definition follow_pull ::
  "(string \<times> string option) list \<Rightarrow> follower \<Rightarrow> live_output \<Rightarrow> sse_frame list \<times> follower \<times> live_output" where
  "follow_pull gens f lo =
     (case (fo_queue f, fo_cur f) of
        (Some i, Some g) \<Rightarrow>
          (case take_piece g i lo of
             (None, lo') \<Rightarrow> ([KeepAlive], f, lo')
           | (Some None, lo') \<Rightarrow>
               ([DoneFrame (fo_cur f) (tag_for_gid gens (fo_cur f))], f\<lparr>fo_queue := None\<rparr>, live_unsubscribe g i lo')
           | (Some (Some piece), lo') \<Rightarrow>
               ([DeltaFrame (fo_cur f) piece (tag_for_gid gens (fo_cur f))], f, lo'))
      | _ \<Rightarrow> ([KeepAlive], f, lo))"

definition sub_ids :: "gen_buf \<Rightarrow> nat list" where
  "sub_ids b = map fst (gb_subs b)"

definition subscribed :: "live_output \<Rightarrow> string \<Rightarrow> nat \<Rightarrow> bool" where
  "subscribed lo g i \<longleftrightarrow> (case map_of (lo_buffers lo) g of None \<Rightarrow> False | Some b \<Rightarrow> i \<in> set (sub_ids b))"

lemma sub_ids_simps [simp]:
  "sub_ids (b\<lparr>gb_carry := c\<rparr>) = sub_ids b"
  "sub_ids (append_piece n s b) = sub_ids b"
  "sub_ids (b\<lparr>gb_done := d, gb_subs := map (\<lambda>(i, q). (i, put_nowait k x q)) (gb_subs b)\<rparr>) = sub_ids b"
  "sub_ids (b\<lparr>gb_subs := map (\<lambda>(j, r). (j, if j = i then q else r)) (gb_subs b)\<rparr>) = sub_ids b"
  "sub_ids (b\<lparr>gb_subs := gb_subs b @ [(i, q)]\<rparr>) = sub_ids b @ [i]"
  "sub_ids (b\<lparr>gb_subs := filter (\<lambda>(j, q). j \<noteq> i) (gb_subs b)\<rparr>) = filter (\<lambda>j. j \<noteq> i) (sub_ids b)"
proof -
  have "map fst (filter (\<lambda>(j, q). j \<noteq> i) xs) = filter (\<lambda>j. j \<noteq> i) (map fst xs)" for xs :: "(nat \<times> string option list) list"
    by (induction xs) auto
  then show "sub_ids (b\<lparr>gb_subs := filter (\<lambda>(j, q). j \<noteq> i) (gb_subs b)\<rparr>) = filter (\<lambda>j. j \<noteq> i) (sub_ids b)"
    by (simp add: sub_ids_def)
qed (simp_all add: sub_ids_def append_piece_def comp_def split_beta)

lemma sub_ids_feed_buf [simp]: "sub_ids (feed_buf p n bytes b) = sub_ids b"
proof -
  have "sub_ids (fold (consume_frame p n) fs b) = sub_ids b" for fs b
    by (induction fs arbitrary: b) (simp_all add: consume_frame_def)
  then show ?thesis by (simp add: feed_buf_def Let_def drain_carry_frames)
qed

lemma subscribedI: "map_of (lo_buffers lo) g = Some b \<Longrightarrow> i \<in> set (sub_ids b) \<Longrightarrow> subscribed lo g i"
  by (simp add: subscribed_def)

lemma subscribedE:
  assumes "subscribed lo g i"
  obtains b where "map_of (lo_buffers lo) g = Some b" "i \<in> set (sub_ids b)"
  using assms by (auto simp: subscribed_def split: option.splits)

lemma subscribed_od_put:
  "subscribed lo g i \<Longrightarrow> (g = h \<Longrightarrow> i \<in> set (sub_ids b)) \<Longrightarrow> subscribed (od_put h b lo) g i"
  by (auto simp: subscribed_def map_of_od_put split: option.splits)

lemma get_buffer_subscribed:
  assumes "plane_ok lo" "subscribed lo g i" "get_buffer c h lo = (r, lo')"
  shows "subscribed lo' g i"
proof -
  obtain b where b: "map_of (lo_buffers lo) g = Some b" "i \<in> set (sub_ids b)"
    using assms(2) by (rule subscribedE)
  have "map_of (lo_buffers lo') g = Some b"
  proof (cases "map_of (lo_buffers lo) h")
    case (Some c)
    with assms(3) b(1) show ?thesis by (auto simp: get_buffer_known)
  next
    case None
    have "(g, b) \<in> set (make_room lo)"
      using b by (intro make_room_keeps_watched) (auto simp: watched_def sub_ids_def dest: map_of_SomeD)
    moreover have "distinct (map fst (make_room lo))" using assms(1) by (intro make_room_subset(2)) (simp add: plane_ok_def)
    ultimately have "map_of (make_room lo) g = Some b" by simp
    with assms None b(1) show ?thesis
      by (cases c)
         (auto simp: get_buffer_new plane_ok_def get_buffer_def [where create = False] map_add_def split: if_splits)
  qed
  then show ?thesis using b(2) by (rule subscribedI)
qed

lemma take_piece_subscribed: "subscribed lo g i \<Longrightarrow> subscribed (snd (take_piece h j lo)) g i"
  by (auto simp: take_piece_def subscribed_def map_of_od_put split: option.splits list.splits)

text \<open>
  Nobody loses a queue they are reading: a subscription ends only when its owner unsubscribes.
  No chunk, new generation, eviction, finished generation or other watcher removes the
  buffer of a watched generation or the queue from it.
\<close>

theorem subscription_is_kept:
  assumes "plane_ok lo" "subscribed lo g i" "op \<noteq> Unsubscribe g i"
  shows "subscribed (plane_step p op lo) g i"
proof (cases op)
  case (Feed h bytes)
  obtain r lo' where gb: "get_buffer True h lo = (r, lo')" by force
  note kept = get_buffer_subscribed [OF assms(1,2) gb]
  have "subscribed (od_put h (feed_buf p n bytes b) lo') g i" if "r = Inr (Some b)" for n b
    using kept get_buffer_some [of True h lo b lo'] gb that
    by (intro subscribed_od_put) (auto simp: subscribed_def)
  with kept gb Feed show ?thesis by (auto simp: feed_def split: sum.splits option.splits)
next
  case (Subscribe c h)
  obtain r lo' where gb: "get_buffer c h lo = (r, lo')" by force
  note kept = get_buffer_subscribed [OF assms(1,2) gb]
  have "subscribed (od_put h (b\<lparr>gb_subs := gb_subs b @ [(j, [])]\<rparr>) (lo'\<lparr>lo_fresh := k\<rparr>)) g i"
    if "r = Inr (Some b)" for b j k
    using kept get_buffer_some [of c h lo b lo'] gb that
    by (intro subscribed_od_put) (auto simp: subscribed_def)
  with kept gb Subscribe show ?thesis by (auto simp: live_subscribe_def split: sum.splits option.splits)
next
  case (Unsubscribe h j)
  show ?thesis
  proof (cases "map_of (lo_buffers lo) h")
    case (Some b)
    let ?b = "b\<lparr>gb_subs := filter (\<lambda>(j', q). j' \<noteq> j) (gb_subs b)\<rparr>"
    from assms(2) Some have i: "g = h \<Longrightarrow> i \<in> set (sub_ids b)" by (auto simp: subscribed_def)
    with assms(3) Unsubscribe have i': "g = h \<Longrightarrow> i \<in> set (sub_ids ?b)" by auto
    then have "g = h \<Longrightarrow> gb_subs ?b \<noteq> []" unfolding sub_ids_def by fastforce
    moreover have "subscribed (od_put h ?b lo) g i" using assms(2) i' by (rule subscribed_od_put)
    ultimately show ?thesis using Some Unsubscribe
      by (auto simp: live_unsubscribe_def Let_def subscribed_def)
  qed (use Unsubscribe assms(2) in \<open>simp add: live_unsubscribe_def\<close>)
next
  case (MarkDone h)
  then show ?thesis using assms(2)
    by (auto simp: mark_done_def subscribed_def map_of_od_put split: option.splits)
next
  case (TakePiece h j)
  then show ?thesis using take_piece_subscribed [OF assms(2)] by simp
qed

theorem subscription_is_kept_witness:
  "subscribed (plane_step plain_printer (Feed ''b'' hello_frame) watched_plane) ''a'' 0"
proof (rule subscription_is_kept)
  show "plane_ok watched_plane"
    by (simp add: plane_ok_def watched_plane_def buf_ok_def new_buf_def MAX_SUBS_PER_GEN_def)
  show "subscribed watched_plane ''a'' 0"
    by (simp add: subscribed_def watched_plane_def sub_ids_def)
qed simp

text \<open>What a connection holds: a queue only with the generation it follows, and still subscribed there.\<close>

definition follower_ok :: "follower \<Rightarrow> live_output \<Rightarrow> bool" where
  "follower_ok f lo \<longleftrightarrow>
     (case fo_queue f of None \<Rightarrow> True
      | Some i \<Rightarrow> (case fo_cur f of None \<Rightarrow> False | Some g \<Rightarrow> subscribed lo g i))"

lemma subscribe_subscribed:
  assumes "live_subscribe c g lo = (Inr (Some i, replay, d), lo')"
  shows "subscribed lo' g i"
proof -
  obtain r lo1 where gb: "get_buffer c g lo = (r, lo1)" by force
  with assms obtain b where b: "r = Inr (Some b)" "i = lo_fresh lo1"
    "lo' = od_put g (b\<lparr>gb_subs := gb_subs b @ [(i, [])]\<rparr>) (lo1\<lparr>lo_fresh := Suc (lo_fresh lo1)\<rparr>)"
    by (auto simp: live_subscribe_def split: sum.splits option.splits if_splits)
  with gb have "map_of (lo_buffers lo1) g = Some b" by (auto dest: get_buffer_some)
  with b show ?thesis by (simp add: subscribed_def map_of_od_put)
qed

lemma follow_switch_ok:
  assumes "follower_ok f lo" "follow_switch gens anchor f lo = (Inr (frames, f'), lo')"
  shows "follower_ok f' lo' \<and> fo_cur f' = anchor"
proof (cases "anchor = fo_cur f")
  case False
  show ?thesis
  proof (cases "anchor = None \<or> anchor = Some []")
    case True
    with False assms(2) have "fo_queue f' = None" "fo_cur f' = anchor"
      by (auto simp: follow_switch_def Let_def split: if_splits)
    then show ?thesis by (simp add: follower_ok_def)
  next
    case ng: False
    then obtain g where g: "anchor = Some g" "g \<noteq> []" by auto
    with False assms(2) obtain q replay done0 lo2
      where sub: "live_subscribe True g (follow_leave f lo) = (Inr (q, replay, done0), lo2)"
        and res: "(if done0 \<and> q \<noteq> None then (\<lparr>fo_cur = anchor, fo_queue = None\<rparr>, live_unsubscribe g (the q) lo2)
                   else (\<lparr>fo_cur = anchor, fo_queue = q\<rparr>, lo2)) = (f', lo')"
      by (auto simp: follow_switch_def Let_def split: prod.splits sum.splits if_splits)
    with g show ?thesis
      by (cases q) (auto simp: follower_ok_def split: if_splits dest!: subscribe_subscribed)
  qed
qed (use assms in \<open>simp add: follow_switch_def\<close>)

lemma follow_pull_ok:
  assumes "follower_ok f lo" "follow_pull gens f lo = (frames, f', lo')"
  shows "follower_ok f' lo' \<and> fo_cur f' = fo_cur f"
proof -
  have "subscribed lo1 g i" if "subscribed lo g i" "take_piece g i lo = (x, lo1)" for g i x lo1
    using take_piece_subscribed [OF that(1), of g i] that(2) by simp
  with assms show ?thesis
    by (auto simp: follow_pull_def follower_ok_def split: option.splits prod.splits)
qed

end
