(* ===== verification/ChatStream.thy ===== *)
theory ChatStream
  imports LiveStream
begin

text \<open>
  \<open>stream_gen\<close> of \<open>api/chat_completion.py\<close>: what one streaming client is sent, and what is left
  behind, for every course the exchange with the sidecar can take. A course counts the
  heartbeat ticks that pass while the generator waits: for the slot, for the sidecar to open
  the response, for each chunk, and for the end; the client may leave during any of these waits,
  or while a chunk is being handed to it (the chunk is then not teed).
\<close>

subsection \<open>Courses\<close>

datatype failure = NetworkFail string | TimeoutFail string | OtherFail string

datatype waiting = SlotReady nat | SlotTimeout nat | GoneWaiting nat
datatype open_course =
    Opened nat nat string
  | OpenFails nat failure
  | BodyFails nat nat failure  \<comment> \<open>an error status whose body cannot be read\<close>
  | GoneOpening nat
datatype ending = StreamEnds nat | StreamFails nat failure | GoneReading nat | GoneAtChunk nat string

record course =
  co_waiting :: waiting
  co_handle :: bool
  co_opening :: open_course
  co_chunks :: "(nat \<times> string) list"
  co_ending :: ending

datatype out_frame = Beat | Bytes string | ErrorFrame string | DoneMark

definition beats :: "nat \<Rightarrow> out_frame list" where
  "beats n = replicate n Beat"

text \<open>The error frame and the end marker of an upstream failure.\<close>

fun failure_frames :: "failure \<Rightarrow> out_frame list" where
  "failure_frames (NetworkFail m) = [ErrorFrame ''sidecar_unavailable'', DoneMark]"
| "failure_frames (TimeoutFail m) = [ErrorFrame ''sidecar_timeout'', DoneMark]"
| "failure_frames (OtherFail m) = [ErrorFrame ''internal_error'', DoneMark]"

fun chunk_frames :: "(nat \<times> string) list \<Rightarrow> out_frame list" where
  "chunk_frames [] = []"
| "chunk_frames ((n, c) # cs) = beats n @ (if c = [] then [] else [Bytes c]) @ chunk_frames cs"

fun ending_frames :: "ending \<Rightarrow> out_frame list" where
  "ending_frames (StreamEnds n) = beats n"
| "ending_frames (StreamFails n f) = beats n @ failure_frames f"
| "ending_frames (GoneReading n) = beats n"
| "ending_frames (GoneAtChunk n c) = beats n @ (if c = [] then [] else [Bytes c])"

fun opening_frames :: "open_course \<Rightarrow> (nat \<times> string) list \<Rightarrow> ending \<Rightarrow> out_frame list" where
  "opening_frames (Opened n status body) chunks e =
     beats n @ (if 400 \<le> status then [ErrorFrame ''upstream_sidecar_error'', DoneMark]
                else chunk_frames chunks @ ending_frames e)"
| "opening_frames (OpenFails n f) chunks e = beats n @ failure_frames f"
| "opening_frames (BodyFails n status f) chunks e = beats n @ failure_frames f"
| "opening_frames (GoneOpening n) chunks e = beats n"

definition stream_frames :: "course \<Rightarrow> out_frame list" where
  "stream_frames co =
     (case co_waiting co of
        SlotTimeout n \<Rightarrow> beats n @ [ErrorFrame ''slot_ready_timeout'', DoneMark]
      | GoneWaiting n \<Rightarrow> beats n
      | SlotReady n \<Rightarrow>
          beats n @ (if \<not> co_handle co then [ErrorFrame ''no_sidecar_handle'', DoneMark]
                     else opening_frames (co_opening co) (co_chunks co) (co_ending co)))"

text \<open>The course reaches the relay of chunks.\<close>

definition relays :: "course \<Rightarrow> bool" where
  "relays co \<longleftrightarrow>
     (case co_waiting co of SlotReady n \<Rightarrow> co_handle co | _ \<Rightarrow> False) \<and>
     (case co_opening co of Opened n status body \<Rightarrow> status < 400 | _ \<Rightarrow> False)"

definition fed_chunks :: "course \<Rightarrow> string list" where
  "fed_chunks co = (if relays co then filter (\<lambda>c. c \<noteq> []) (map snd (co_chunks co)) else [])"

definition has_generation :: "course \<Rightarrow> bool" where
  "has_generation co \<longleftrightarrow> (case co_waiting co of SlotReady n \<Rightarrow> co_handle co | _ \<Rightarrow> False)"

text \<open>
  What the generator leaves behind: the slot's done event, if it has one, set by the
  \<open>finally\<close> block of every course, and the text plane, fed with every relayed chunk (errors of the tee are
  swallowed) and told that the generation is over.
\<close>

definition feed_quietly :: "printer \<Rightarrow> string \<Rightarrow> string \<Rightarrow> live_output \<Rightarrow> live_output" where
  "feed_quietly p gid c lo = snd (feed p gid c lo)"

definition stream_gen ::
  "printer \<Rightarrow> string \<Rightarrow> course \<Rightarrow> bool option \<times> live_output \<Rightarrow> out_frame list \<times> bool option \<times> live_output" where
  "stream_gen p gid co st =
     (case st of (done_event, lo) \<Rightarrow>
      let lo' = fold (feed_quietly p gid) (fed_chunks co) lo
      in (stream_frames co, case done_event of Some False \<Rightarrow> Some True | e \<Rightarrow> e,
         if has_generation co then mark_done gid lo' else lo'))"

subsection \<open>Endings\<close>

fun gone_at_end :: "ending \<Rightarrow> bool" where
  "gone_at_end (StreamEnds n) = False"
| "gone_at_end (StreamFails n f) = False"
| "gone_at_end (GoneReading n) = True"
| "gone_at_end (GoneAtChunk n c) = True"

definition cancelled :: "course \<Rightarrow> bool" where
  "cancelled co \<longleftrightarrow>
     (case co_waiting co of GoneWaiting n \<Rightarrow> True | SlotTimeout n \<Rightarrow> False
      | SlotReady n \<Rightarrow>
          co_handle co \<and>
          (case co_opening co of GoneOpening n \<Rightarrow> True | OpenFails n f \<Rightarrow> False | BodyFails n st f \<Rightarrow> False
           | Opened n status body \<Rightarrow> status < 400 \<and> gone_at_end (co_ending co)))"

definition is_error :: "out_frame \<Rightarrow> bool" where
  "is_error f = (case f of ErrorFrame e \<Rightarrow> True | _ \<Rightarrow> False)"

lemma no_error_beats [simp]: "\<not> list_ex is_error (beats n)" "DoneMark \<notin> set (beats n)"
  by (auto simp: beats_def list_ex_iff is_error_def)

lemma no_error_chunks [simp]: "\<not> list_ex is_error (chunk_frames cs)" "DoneMark \<notin> set (chunk_frames cs)"
  by (induction cs rule: chunk_frames.induct) (auto simp: is_error_def beats_def list_ex_iff)

lemma no_error_bytes [simp]: "\<not> is_error (Bytes c)"
  by (simp add: is_error_def)

lemma failure_shape: "\<exists>e. failure_frames f = [ErrorFrame e, DoneMark]"
  by (cases f) auto

definition error_ended :: "out_frame list \<Rightarrow> bool" where
  "error_ended fs \<longleftrightarrow> (\<exists>pre e. fs = pre @ [ErrorFrame e, DoneMark] \<and> \<not> list_ex is_error pre \<and> DoneMark \<notin> set pre)"

lemma error_endedI: "\<not> list_ex is_error pre \<Longrightarrow> DoneMark \<notin> set pre \<Longrightarrow> error_ended (pre @ [ErrorFrame e, DoneMark])"
  unfolding error_ended_def by blast

lemma failure_ended: "\<not> list_ex is_error pre \<Longrightarrow> DoneMark \<notin> set pre \<Longrightarrow> error_ended (pre @ failure_frames f)"
  using failure_shape [of f] error_endedI by metis


subsection \<open>Waiting for the slot\<close>

text \<open>
  The wait loop on a clock in milliseconds: \<open>ready\<close> is when the ready event is set, counted from
  the start of the wait, \<open>now\<close> the time already waited. Each round waits for the event at most
  one heartbeat interval and never past the deadline.
\<close>

definition SLOT_READY_TIMEOUT_MS :: nat where
  "SLOT_READY_TIMEOUT_MS = 7200000"

definition HEARTBEAT_INTERVAL_MS :: nat where
  "HEARTBEAT_INTERVAL_MS = 12000"

function slot_wait :: "nat option \<Rightarrow> nat \<Rightarrow> nat list \<times> bool" where
  "slot_wait ready now =
     (if (case ready of None \<Rightarrow> False | Some r \<Rightarrow> r \<le> now) then ([], True)
      else if SLOT_READY_TIMEOUT_MS \<le> now then ([], False)
      else
        (let next_tick = now + min HEARTBEAT_INTERVAL_MS (SLOT_READY_TIMEOUT_MS - now) in
         if (case ready of None \<Rightarrow> False | Some r \<Rightarrow> r \<le> next_tick) then ([], True)
         else (case slot_wait ready next_tick of (ticks, ok) \<Rightarrow> (next_tick # ticks, ok))))"
  by pat_completeness auto
termination
  by (relation "measure (\<lambda>(r, now). SLOT_READY_TIMEOUT_MS - now)") (auto simp: HEARTBEAT_INTERVAL_MS_def)

declare slot_wait.simps [simp del]

fun gaps_within :: "nat \<Rightarrow> nat \<Rightarrow> nat list \<Rightarrow> bool" where
  "gaps_within d now [] = True"
| "gaps_within d now (t # ts) = (now < t \<and> t \<le> now + d \<and> gaps_within d t ts)"

lemma slot_wait_gaps: "gaps_within HEARTBEAT_INTERVAL_MS now (fst (slot_wait ready now))"
  by (induction ready now rule: slot_wait.induct)
    (subst slot_wait.simps, auto simp: Let_def HEARTBEAT_INTERVAL_MS_def split: prod.splits option.splits)

lemma slot_wait_outcome:
  "snd (slot_wait ready now) = (case ready of None \<Rightarrow> False | Some r \<Rightarrow> r \<le> max now SLOT_READY_TIMEOUT_MS)"
proof (induction ready now rule: slot_wait.induct)
  case (1 ready now)
  then show ?case
    by (subst slot_wait.simps) (auto simp: Let_def split: prod.splits option.splits)
qed

lemma slot_wait_last_gap:
  "(case ready of None \<Rightarrow> SLOT_READY_TIMEOUT_MS | Some r \<Rightarrow> min r SLOT_READY_TIMEOUT_MS)
     \<le> List.last (now # fst (slot_wait ready now)) + HEARTBEAT_INTERVAL_MS"
proof (induction ready now rule: slot_wait.induct)
  case (1 ready now)
  then show ?case
    by (subst slot_wait.simps) (auto simp: Let_def split: prod.splits option.splits)
qed

text \<open>
  A waiting client is never left in silence: however long the slot takes, the time between two
  keep-alive comments, and from the last of them to the outcome, is at most the heartbeat
  interval, and the wait ends with the slot exactly when it is ready by the deadline.
\<close>

theorem waiting_is_never_silent:
  "gaps_within HEARTBEAT_INTERVAL_MS 0 (fst (slot_wait ready 0)) \<and>
   (case ready of None \<Rightarrow> SLOT_READY_TIMEOUT_MS | Some r \<Rightarrow> min r SLOT_READY_TIMEOUT_MS)
     \<le> List.last (0 # fst (slot_wait ready 0)) + HEARTBEAT_INTERVAL_MS \<and>
   snd (slot_wait ready 0) = (case ready of None \<Rightarrow> False | Some r \<Rightarrow> r \<le> SLOT_READY_TIMEOUT_MS)"
  using slot_wait_gaps [of 0 ready] slot_wait_last_gap [of ready 0] slot_wait_outcome [of ready 0]
  by (cases ready) simp_all

subsection \<open>Keep-alive comments inside the relayed stream\<close>

definition KEEP_ALIVE :: string where
  "KEEP_ALIVE = '': keep-alive''"

text \<open>The bytes of relayed chunks and the comments between them, as the client receives them.\<close>

fun wire :: "out_frame list \<Rightarrow> string" where
  "wire [] = []"
| "wire (Beat # fs) = KEEP_ALIVE @ FRAME_END @ wire fs"
| "wire (Bytes c # fs) = c @ wire fs"
| "wire (ErrorFrame e # fs) = wire fs"
| "wire (DoneMark # fs) = wire fs"

text \<open>What an event-stream client makes of its bytes: the frames that are not comments.\<close>

definition sse_events :: "string \<Rightarrow> string list" where
  "sse_events s = filter (\<lambda>f. \<not> starts_with '':'' f) (fst (split_frames s))"

text \<open>Every comment of the relay comes where a frame of the upstream has just ended.\<close>

fun beats_between :: "string \<Rightarrow> (nat \<times> string) list \<Rightarrow> bool" where
  "beats_between heard [] = True"
| "beats_between heard ((n, c) # cs) =
     ((n = 0 \<or> stream_rest heard = []) \<and> beats_between (heard @ c) cs)"

lemma wire_append [simp]: "wire (a @ b) = wire a @ wire b"
  by (induction a rule: wire.induct) simp_all

lemma sse_events_append: "sse_events (a @ b) = sse_events a @ sse_events (stream_rest a @ b)"
  by (simp add: sse_events_def stream_rest_def split_frames_append [of a b])

lemma sse_events_keep_alive: "sse_events (KEEP_ALIVE @ FRAME_END) = []"
  "stream_rest (KEEP_ALIVE @ FRAME_END) = []"
  by code_simp+

lemma wire_beats:
  "stream_rest a = [] \<Longrightarrow> stream_rest (a @ wire (beats n)) = [] \<and> sse_events (a @ wire (beats n)) = sse_events a"
proof (induction n arbitrary: a)
  case 0
  then show ?case by (simp add: beats_def)
next
  case (Suc n)
  let ?a = "a @ KEEP_ALIVE @ FRAME_END"
  have "stream_rest ?a = []" "sse_events ?a = sse_events a"
    using Suc.prems sse_events_keep_alive
    by (simp_all add: stream_rest_append [of a] sse_events_append [of a])
  with Suc.IH [of ?a] show ?case by (simp add: beats_def)
qed

lemma wire_chunks:
  "beats_between heard cs \<Longrightarrow> stream_rest sent = stream_rest heard \<Longrightarrow> sse_events sent = sse_events heard \<Longrightarrow>
   sse_events (sent @ wire (chunk_frames cs)) = sse_events (heard @ concat (map snd cs)) \<and>
   stream_rest (sent @ wire (chunk_frames cs)) = stream_rest (heard @ concat (map snd cs))"
proof (induction cs arbitrary: heard sent rule: chunk_frames.induct)
  case (2 n c cs)
  let ?sent = "sent @ wire (beats n) @ c"
  have "stream_rest (sent @ wire (beats n)) = stream_rest heard \<and>
      sse_events (sent @ wire (beats n)) = sse_events heard"
    using 2(2-4) wire_beats [of sent n] by (cases "n = 0") (simp_all add: beats_def)
  then have "stream_rest ?sent = stream_rest (heard @ c)" "sse_events ?sent = sse_events (heard @ c)"
    by (simp_all add: stream_rest_append [of "sent @ wire (beats n)" c, simplified]
        stream_rest_append [of heard c] sse_events_append [of "sent @ wire (beats n)" c, simplified]
        sse_events_append [of heard c])
  with 2(1) [of "heard @ c" ?sent] 2(2) show ?case by (cases "c = []") simp_all
qed simp

text \<open>
  Keep-alive comments that come between whole frames are invisible: the client reads exactly
  the events of the upstream's bytes and is left with the same unfinished rest, however the
  bytes are cut into chunks.
\<close>

theorem keep_alives_are_invisible:
  assumes "beats_between [] cs"
  shows "sse_events (wire (chunk_frames cs)) = sse_events (concat (map snd cs)) \<and>
    stream_rest (wire (chunk_frames cs)) = stream_rest (concat (map snd cs))"
  using wire_chunks [of "[]" cs "[]"] assms by simp

definition two_chunks :: "(nat \<times> string) list" where
  "two_chunks = [(1, ''data: {'' @ FRAME_END @ ''dat''), (0, ''a: }'' @ FRAME_END), (2, ''data: [DONE]'' @ FRAME_END)]"

theorem keep_alives_are_invisible_witness:
  "sse_events (wire (chunk_frames two_chunks)) = [''data: {'', ''data: }'', ''data: [DONE]'']"
proof -
  have "beats_between [] two_chunks" by code_simp
  from keep_alives_are_invisible [OF this]
  have "sse_events (wire (chunk_frames two_chunks)) = sse_events (concat (map snd two_chunks))" by simp
  also have "\<dots> = [''data: {'', ''data: }'', ''data: [DONE]'']" by code_simp
  finally show ?thesis .
qed

lemma split_frames_snoc:
  "fst (split_frames s) = [] \<Longrightarrow> c \<noteq> newline \<Longrightarrow> fst (split_frames (s @ [c])) = []"
proof (induction s rule: split_frames.induct)
  case (2 d cs)
  have nd: "\<not> starts_with FRAME_END (d # cs)" using 2(3) by (auto split: prod.splits)
  have cs: "fst (split_frames cs) = []" using 2(3) nd by (auto split: prod.splits list.splits)
  have "\<not> starts_with FRAME_END (d # cs @ [c])"
    using nd 2(4) by (cases cs) (auto simp: FRAME_END_start)
  with 2(2) [OF nd cs 2(4)] show ?case by (cases "split_frames (cs @ [c])") simp
qed (simp add: starts_with_def FRAME_END_def)

lemma split_frames_no_newline:
  "fst (split_frames s) = [] \<Longrightarrow> newline \<notin> set t \<Longrightarrow> fst (split_frames (s @ t)) = []"
proof (induction t arbitrary: s)
  case (Cons c t)
  then show ?case using split_frames_snoc [of s c] Cons.IH [of "s @ [c]"] by auto
qed simp

lemma split_frames_closed:
  "fst (split_frames s) = [] \<Longrightarrow> c \<noteq> newline \<Longrightarrow> split_frames (s @ [c] @ FRAME_END) = ([s @ [c]], [])"
proof (induction s rule: split_frames.induct)
  case 1
  then show ?case by (simp add: starts_with_def FRAME_END_def)
next
  case (2 d cs)
  have nd: "\<not> starts_with FRAME_END (d # cs)" using 2(3) by (auto split: prod.splits)
  have cs: "fst (split_frames cs) = []" using 2(3) nd by (auto split: prod.splits list.splits)
  have "\<not> starts_with FRAME_END (d # cs @ [c] @ FRAME_END)"
    using nd 2(4) by (cases cs) (auto simp: FRAME_END_start)
  with 2(2) [OF nd cs 2(4)] show ?case by simp
qed

text \<open>
  A keep-alive comment that comes while a frame is cut by a chunk border destroys that frame:
  the client reads the beginning of the frame with the comment's text glued to it, and the rest
  of the frame on its own, instead of the one frame the upstream sent.
\<close>

theorem keep_alive_splits_a_frame:
  assumes "fst (split_frames a) = []"
  shows "fst (split_frames (wire (chunk_frames [(0, a), (Suc n, b)]))) =
    (a @ KEEP_ALIVE) # replicate n KEEP_ALIVE @ fst (split_frames b)"
proof -
  have ka: "KEEP_ALIVE = '': keep-aliv'' @ ''e''" "newline \<notin> set '': keep-aliv''" "CHR ''e'' \<noteq> newline"
    by (simp_all add: KEEP_ALIVE_def newline_def)
  have beat: "split_frames (x @ KEEP_ALIVE @ FRAME_END) = ([x @ KEEP_ALIVE], [])"
    if "fst (split_frames x) = []" for x
    using split_frames_closed [OF split_frames_no_newline [OF that ka(2)] ka(3)]
    by (simp only: ka(1) append_assoc)
  have many: "split_frames (wire (beats n) @ b) =
      (replicate n KEEP_ALIVE @ fst (split_frames b), snd (split_frames b))" for n
  proof (induction n)
    case (Suc n)
    show ?case
      using Suc beat [of "[]"] split_frames_append [of "KEEP_ALIVE @ FRAME_END" "wire (beats n) @ b"]
      by (simp add: beats_def)
  qed (simp add: beats_def)
  have "wire (chunk_frames [(0, a), (Suc n, b)]) = (a @ KEEP_ALIVE @ FRAME_END) @ wire (beats n) @ b"
    by (simp add: beats_def)
  then show ?thesis
    using beat [OF assms] many [of n] split_frames_append [of "a @ KEEP_ALIVE @ FRAME_END" "wire (beats n) @ b"]
    by (simp del: append_assoc)
qed

theorem keep_alive_splits_a_frame_witness:
  "fst (split_frames (''data: {\"a\":'' @ ''1}'' @ FRAME_END)) = [''data: {\"a\":1}''] \<and>
   fst (split_frames (wire (chunk_frames [(0, ''data: {\"a\":''), (1, ''1}'' @ FRAME_END)]))) =
     [''data: {\"a\":: keep-alive'', ''1}'']"
proof -
  have "fst (split_frames ''data: {\"a\":'') = []" by code_simp
  from keep_alive_splits_a_frame [OF this, of 0 "''1}'' @ FRAME_END"]
  have "fst (split_frames (wire (chunk_frames [(0, ''data: {\"a\":''), (1, ''1}'' @ FRAME_END)]))) =
      (''data: {\"a\":'' @ KEEP_ALIVE) # fst (split_frames (''1}'' @ FRAME_END))"
    by simp
  moreover have "fst (split_frames (''1}'' @ FRAME_END)) = [''1}'']"
    "fst (split_frames (''data: {\"a\":'' @ ''1}'' @ FRAME_END)) = [''data: {\"a\":1}'']" by code_simp+
  ultimately show ?thesis by (simp add: KEEP_ALIVE_def)
qed

end
