(* ===== verification/ChatRequest.thy ===== *)
theory ChatRequest
  imports Json Timers
begin

text \<open>
  What \<open>api/chat_completion.py\<close> does with a request before it reaches the manager: the checks
  of a caller's JSON schema, \<open>keep_alive\<close>, the prompt and thread identity, the
  \<open>response_format\<close> rule, the client metadata of the three entry points and the payload built
  from it for the sidecar. The \<open>jsonschema\<close> package, the manifest read and the client address
  are parameters.
\<close>

subsection \<open>Schema checks\<close>

definition SCHEMA_MAX_BYTES :: nat where "SCHEMA_MAX_BYTES = 65536"
definition SCHEMA_MAX_DEPTH :: nat where "SCHEMA_MAX_DEPTH = 16"
definition SCHEMA_MAX_PROPERTIES :: nat where "SCHEMA_MAX_PROPERTIES = 64"

fun children :: "pyval \<Rightarrow> pyval list" where
  "children (PyDict d) = map snd d"
| "children (PyList vs) = vs"
| "children _ = []"

lemma size_children: "v \<in> set (children n) \<Longrightarrow> size v < size n"
  by (cases n) (auto simp: size_in_list size_prod_simp less_SucI split_beta dest: size_in_dict)

function schema_depth :: "pyval \<Rightarrow> nat \<Rightarrow> nat" where
  "schema_depth n d =
     (if SCHEMA_MAX_DEPTH < d then d
      else foldr max (map (\<lambda>v. schema_depth v (Suc d)) (children n)) d)"
  by pat_completeness auto
termination
  by (relation "measure (\<lambda>(n, _). size n)") (auto simp: size_children)

function schema_property_count :: "pyval \<Rightarrow> nat" where
  "schema_property_count n =
     (case n of
        PyDict d \<Rightarrow>
          (case dict_get d ''properties'' of Some (PyDict ps) \<Rightarrow> length ps | _ \<Rightarrow> 0) +
          sum_list (map schema_property_count (children n))
      | PyList _ \<Rightarrow> sum_list (map schema_property_count (children n))
      | _ \<Rightarrow> 0)"
  by pat_completeness auto
termination
  by (relation "measure size") (simp_all only: wf_measure in_measure size_children)

function schema_has_ref :: "pyval \<Rightarrow> bool" where
  "schema_has_ref n =
     ((case n of PyDict d \<Rightarrow> dict_get d ''$ref'' \<noteq> None | _ \<Rightarrow> False) \<or>
      list_ex schema_has_ref (children n))"
  by pat_completeness auto
termination
  by (relation "measure size") (auto simp: size_children)

definition unguarded_object :: "pyval \<Rightarrow> bool" where
  "unguarded_object n =
     (case n of
        PyDict d \<Rightarrow> dict_get d ''type'' = Some (PyStr ''object'') \<and> dict_get d ''additionalProperties'' = None
      | _ \<Rightarrow> False)"

function schema_missing_guard :: "pyval \<Rightarrow> bool" where
  "schema_missing_guard n = (unguarded_object n \<or> list_ex schema_missing_guard (children n))"
  by pat_completeness auto
termination
  by (relation "measure size") (auto simp: size_children)

declare schema_depth.simps [simp del] schema_property_count.simps [simp del]
  schema_has_ref.simps [simp del] schema_missing_guard.simps [simp del]

record schema_lib =
  sl_available :: bool
  sl_compile :: "pyval \<Rightarrow> string option"
  sl_float :: "pyfloat \<Rightarrow> string"

datatype schema_reason =
    LibUnavailable | MissingField | MissingSchema | SizeExceeded nat | DepthExceeded
  | PropertiesExceeded | ContainsRef | MissingGuard | CompileFailed string

text \<open>The reason of a refusal, \<open>None\<close> for a schema that is accepted.\<close>

definition validate_json_schema :: "schema_lib \<Rightarrow> (string \<times> pyval) list \<Rightarrow> schema_reason option" where
  "validate_json_schema lib rf =
     (if \<not> sl_available lib then Some LibUnavailable
      else case dict_get rf ''json_schema'' of
        Some (PyDict js) \<Rightarrow>
          (case dict_get js ''schema'' of
             Some (PyDict sd) \<Rightarrow>
               (let s = PyDict sd; bytes = length (dumps (sl_float lib) s) in
                if SCHEMA_MAX_BYTES < bytes then Some (SizeExceeded bytes)
                else if SCHEMA_MAX_DEPTH < schema_depth s 0 then Some DepthExceeded
                else if SCHEMA_MAX_PROPERTIES < schema_property_count s then Some PropertiesExceeded
                else if schema_has_ref s then Some ContainsRef
                else if schema_missing_guard s then Some MissingGuard
                else map_option CompileFailed (sl_compile lib s))
           | _ \<Rightarrow> Some MissingSchema)
      | _ \<Rightarrow> Some MissingField)"

subsection \<open>Keep-alive\<close>

datatype py_exception = ValueError | OverflowError | TypeError | AttributeError | TimeoutError

definition clamp_negative :: "int \<Rightarrow> int" where
  "clamp_negative v = (if v < 0 then KEEP_ALIVE_MAX_S else v)"

definition keep_alive_unit :: "char \<Rightarrow> int option" where
  "keep_alive_unit c =
     (if to_lower c = CHR ''s'' then Some 1
      else if to_lower c = CHR ''m'' then Some 60
      else if to_lower c = CHR ''h'' then Some 3600 else None)"

definition lstrip_dashes :: "string \<Rightarrow> string" where
  "lstrip_dashes s = dropWhile (\<lambda>c. c = CHR ''-'') s"

fun parse_keep_alive :: "pyval \<Rightarrow> py_exception + int option" where
  "parse_keep_alive PyNone = Inr None"
| "parse_keep_alive (PyBool b) = Inr (if b then None else Some 0)"
| "parse_keep_alive (PyInt i) = Inr (Some (clamp_negative i))"
| "parse_keep_alive (PyFloat f) =
     (case f of Finite x \<Rightarrow> Inr (Some (clamp_negative (trunc_rat x)))
      | NaN \<Rightarrow> Inl ValueError | _ \<Rightarrow> Inl OverflowError)"
| "parse_keep_alive (PyStr raw) =
     (let s = strip raw in
      if s = [] then Inr None
      else case py_int s of
        Some v \<Rightarrow> Inr (Some (clamp_negative v))
      | None \<Rightarrow>
          (case keep_alive_unit (last s) of
             Some u \<Rightarrow>
               if 2 \<le> length s \<and> all_digits (lstrip_dashes (butlast s)) then
                 (case py_int (butlast s) of Some v \<Rightarrow> Inr (Some (v * u)) | None \<Rightarrow> Inl ValueError)
               else Inr None
           | None \<Rightarrow> Inr None))"
| "parse_keep_alive _ = Inr None"

subsection \<open>Admission\<close>

record chat_env =
  ce_single_residency :: bool
  ce_host :: "string option"
  ce_lib :: schema_lib
  ce_budget :: "pyval \<Rightarrow> pyval option"

datatype http_error = HttpError nat string "nat option" | Unhandled py_exception

text \<open>\<open>" ".join(m.get("content", "") for m in messages if isinstance(m, dict))\<close>.\<close>

fun message_texts :: "pyval list \<Rightarrow> py_exception + string list" where
  "message_texts [] = Inr []"
| "message_texts (m # ms) =
     (case m of
        PyDict d \<Rightarrow>
          (case dict_get d ''content'' of
             None \<Rightarrow> rbind (message_texts ms) (\<lambda>ts. Inr ([] # ts))
           | Some (PyStr t) \<Rightarrow> rbind (message_texts ms) (\<lambda>ts. Inr (t # ts))
           | Some _ \<Rightarrow> Inl TypeError)
      | _ \<Rightarrow> message_texts ms)"

definition prompt_of :: "pyval list \<Rightarrow> py_exception + string" where
  "prompt_of ms = rbind (message_texts ms) (\<lambda>ts. Inr (join '' '' ts))"

definition thread_of :: "chat_env \<Rightarrow> (string \<times> pyval) list \<Rightarrow> pyval" where
  "thread_of env payload =
     (let t = get_or_none payload ''thread_id'' in
      if truthy t then t
      else case ce_host env of
        Some h \<Rightarrow> if h \<noteq> [] \<and> ce_single_residency env then PyStr (''agent-ip-'' @ h) else PyStr []
      | None \<Rightarrow> PyStr [])"

text \<open>The response format rule, shared by the two endpoints; the payload it leaves.\<close>

definition check_response_format ::
  "schema_lib \<Rightarrow> (string \<times> pyval) list \<Rightarrow> http_error + (string \<times> pyval) list" where
  "check_response_format lib payload =
     (case get_or_none payload ''response_format'' of
        PyNone \<Rightarrow> Inr payload
      | PyDict rf \<Rightarrow>
          (let ty = get_or_none rf ''type'' in
           if ty = PyStr ''text'' then Inr (dict_set payload ''response_format'' PyNone)
           else if ty = PyStr ''json_object'' then Inr payload
           else if ty = PyStr ''json_schema'' then
             (case validate_json_schema lib rf of
                None \<Rightarrow> Inr payload
              | Some _ \<Rightarrow> Inl (HttpError 422 ''schema_validation_failed'' None))
           else Inl (HttpError 400 ''response_format_unsupported_type'' None))
      | _ \<Rightarrow> Inl (HttpError 400 ''response_format_unsupported_type'' None))"

record chat_request =
  cr_model :: pyval
  cr_messages :: "pyval list"
  cr_prompt :: string
  cr_thread :: pyval
  cr_payload :: "(string \<times> pyval) list"

definition base_request ::
  "chat_env \<Rightarrow> (string \<times> pyval) list \<Rightarrow> http_error + chat_request" where
  "base_request env payload =
     (case (truthy (get_or_none payload ''model''), get_or_none payload ''messages'') of
        (True, PyList (m # ms)) \<Rightarrow>
          (case prompt_of (m # ms) of
             Inl e \<Rightarrow> Inl (Unhandled e)
           | Inr p \<Rightarrow>
               rbind (check_response_format (ce_lib env) payload) (\<lambda>payload'.
                 Inr \<lparr>cr_model = get_or_none payload ''model'', cr_messages = m # ms, cr_prompt = p,
                      cr_thread = thread_of env payload, cr_payload = payload'\<rparr>))
      | _ \<Rightarrow> Inl (HttpError 400 ''bad_request'' None))"

definition TOOL_KNOBS :: "string list" where
  "TOOL_KNOBS = [''tools'', ''tool_choice'', ''parallel_tool_calls'', ''function_call'', ''functions'']"

definition rejects_tool_stream :: "(string \<times> pyval) list \<Rightarrow> bool" where
  "rejects_tool_stream payload \<longleftrightarrow>
     truthy (get_or_none payload ''stream'') \<and> list_ex (\<lambda>k. truthy (get_or_none payload k)) TOOL_KNOBS"

text \<open>The manifest slice read for callers that asked for a schema; empty when the read fails.\<close>

definition wants_schema :: "(string \<times> pyval) list \<Rightarrow> bool" where
  "wants_schema payload \<longleftrightarrow>
     (case get_or_none payload ''response_format'' of
        PyDict rf \<Rightarrow> get_or_none rf ''type'' = PyStr ''json_schema'' | _ \<Rightarrow> False)"

definition thinking_manifest :: "chat_env \<Rightarrow> chat_request \<Rightarrow> pyval" where
  "thinking_manifest env r =
     (if wants_schema (cr_payload r)
      then (case ce_budget env (cr_model r) of
              Some b \<Rightarrow> PyDict [(''reasoning_budget'', b)] | None \<Rightarrow> PyDict [])
      else PyDict [])"

fun keep_value :: "int option \<Rightarrow> pyval" where
  "keep_value None = PyNone"
| "keep_value (Some k) = PyInt k"

definition copied :: "(string \<times> pyval) list \<Rightarrow> string list \<Rightarrow> (string \<times> pyval) list" where
  "copied payload ks = map (\<lambda>k. (k, get_or_none payload k)) ks"

definition openai_meta :: "chat_env \<Rightarrow> chat_request \<Rightarrow> py_exception + (string \<times> pyval) list" where
  "openai_meta env r =
     rbind (parse_keep_alive (get_or_none (cr_payload r) ''keep_alive'')) (\<lambda>ka.
       Inr ([(''kind'', PyStr ''openai-chat-completion''), (''messages'', PyList (cr_messages r)),
             (''model'', cr_model r), (''stream'', PyBool False), (''keep_alive_s'', keep_value ka),
             (''thinking_manifest'', thinking_manifest env r)] @
            copied (cr_payload r) ([''temperature'', ''top_p'', ''max_tokens'', ''response_format''] @ TOOL_KNOBS)))"

definition COMMON_FORWARDED_KNOBS :: "string list" where
  "COMMON_FORWARDED_KNOBS =
     [''temperature'', ''top_p'', ''top_k'', ''max_tokens'', ''min_p'', ''response_format'',
      ''thinking_budget_tokens'', ''reasoning_budget'', ''reasoning'',
      ''presence_penalty'', ''frequency_penalty'', ''repeat_penalty'', ''repeat_last_n'',
      ''typical_p'', ''seed'', ''mirostat'', ''mirostat_lr'', ''mirostat_ent'', ''n_predict'',
      ''tools'', ''tool_choice'', ''parallel_tool_calls'', ''function_call'', ''functions'']"

definition STREAM_FORWARDED_KNOBS :: "string list" where
  "STREAM_FORWARDED_KNOBS = COMMON_FORWARDED_KNOBS @ [''stream'', ''stream_options'']"

definition present :: "(string \<times> pyval) list \<Rightarrow> string list \<Rightarrow> (string \<times> pyval) list" where
  "present d ks = filter (\<lambda>(k, v). v \<noteq> PyNone) (copied d ks)"

definition openai_stream_meta :: "chat_request \<Rightarrow> py_exception + (string \<times> pyval) list" where
  "openai_stream_meta r =
     rbind (parse_keep_alive (get_or_none (cr_payload r) ''keep_alive'')) (\<lambda>ka.
       Inr (set_all (present (cr_payload r) STREAM_FORWARDED_KNOBS)
         ([(''kind'', PyStr ''openai-chat-completion-stream''), (''messages'', PyList (cr_messages r)),
           (''model'', cr_model r), (''stream'', PyBool True)] @
          copied (cr_payload r) [''temperature'', ''top_p'', ''max_tokens''] @
          [(''keep_alive_s'', keep_value ka)])))"

definition ollama_keep_alive :: "(string \<times> pyval) list \<Rightarrow> pyval" where
  "ollama_keep_alive payload =
     (case (get_or_none payload ''keep_alive'', get_or_none payload ''options'') of
        (PyNone, PyDict opts) \<Rightarrow> get_or_none opts ''keep_alive''
      | (ka, _) \<Rightarrow> ka)"

definition ollama_meta :: "chat_env \<Rightarrow> chat_request \<Rightarrow> http_error + (string \<times> pyval) list" where
  "ollama_meta env r =
     (if rejects_tool_stream (cr_payload r) then Inl (HttpError 400 ''streaming_with_tools_deferred'' None)
      else case parse_keep_alive (ollama_keep_alive (cr_payload r)) of
        Inl e \<Rightarrow> Inl (Unhandled e)
      | Inr ka \<Rightarrow>
          Inr ([(''kind'', PyStr ''ollama-chat''), (''messages'', PyList (cr_messages r)),
                (''model'', cr_model r), (''stream'', PyBool (truthy (get_or_none (cr_payload r) ''stream''))),
                (''keep_alive_s'', keep_value ka), (''thinking_manifest'', thinking_manifest env r)] @
               copied (cr_payload r) ([''options'', ''response_format''] @ TOOL_KNOBS)))"

subsection \<open>What the sidecar is sent\<close>

definition build_stream_payload :: "(string \<times> pyval) list \<Rightarrow> pyval \<Rightarrow> pyval list \<Rightarrow> (string \<times> pyval) list" where
  "build_stream_payload meta model messages =
     set_all (present meta STREAM_FORWARDED_KNOBS)
       [(''model'', model), (''messages'', PyList messages), (''stream'', PyBool True)]"

definition build_plain_payload :: "(string \<times> pyval) list \<Rightarrow> pyval \<Rightarrow> pyval \<Rightarrow> (string \<times> pyval) list" where
  "build_plain_payload meta model messages =
     set_all (present meta COMMON_FORWARDED_KNOBS)
       [(''model'', model), (''messages'', messages), (''stream'', PyBool False)]"

subsection \<open>The schema checks against their reference\<close>

text \<open>The nodes of a document, itself included, and its true nesting depth.\<close>

function subnodes :: "pyval \<Rightarrow> pyval list" where
  "subnodes n = n # concat (map subnodes (children n))"
  by pat_completeness auto
termination
  by (relation "measure size") (auto simp: size_children)

function nesting :: "pyval \<Rightarrow> nat" where
  "nesting n = foldr max (map (\<lambda>v. Suc (nesting v)) (children n)) 0"
  by pat_completeness auto
termination
  by (relation "measure size") (auto simp: size_children)

declare subnodes.simps [simp del] nesting.simps [simp del]

definition named_properties :: "pyval \<Rightarrow> nat" where
  "named_properties n =
     (case n of PyDict d \<Rightarrow> (case dict_get d ''properties'' of Some (PyDict ps) \<Rightarrow> length ps | _ \<Rightarrow> 0) | _ \<Rightarrow> 0)"

definition refers :: "pyval \<Rightarrow> bool" where
  "refers n = (case n of PyDict d \<Rightarrow> dict_get d ''$ref'' \<noteq> None | _ \<Rightarrow> False)"

lemma foldr_max_clip:
  "\<forall>v \<in> set vs. f v = min K (d + g v) \<Longrightarrow> d \<le> K \<Longrightarrow> foldr max (map f vs) d = min K (d + foldr max (map g vs) 0)"
  for f g :: "'a \<Rightarrow> nat"
  by (induction vs) (auto simp: min_def max_def)

lemma schema_depth_clips: "d \<le> Suc SCHEMA_MAX_DEPTH \<Longrightarrow> schema_depth n d = min (Suc SCHEMA_MAX_DEPTH) (d + nesting n)"
proof (induction n d rule: schema_depth.induct)
  case (1 n d)
  show ?case
  proof (cases "SCHEMA_MAX_DEPTH < d")
    case True
    with 1(2) show ?thesis by (subst schema_depth.simps) auto
  next
    case False
    with 1 have "\<forall>v \<in> set (children n). schema_depth v (Suc d) = min (Suc SCHEMA_MAX_DEPTH) (d + Suc (nesting v))"
      by auto
    with False 1(2) show ?thesis
      by (subst schema_depth.simps, subst nesting.simps) (simp add: foldr_max_clip)
  qed
qed

lemma schema_depth_exact: "schema_depth n 0 \<le> SCHEMA_MAX_DEPTH \<longleftrightarrow> nesting n \<le> SCHEMA_MAX_DEPTH"
  by (simp add: schema_depth_clips min_def)

lemma schema_depth_exceeds: "SCHEMA_MAX_DEPTH < schema_depth n 0 \<longleftrightarrow> SCHEMA_MAX_DEPTH < nesting n"
  using schema_depth_exact [of n] by (simp add: not_le [symmetric])

lemma schema_has_ref_iff: "schema_has_ref n \<longleftrightarrow> list_ex refers (subnodes n)"
proof (induction n rule: schema_has_ref.induct)
  case (1 n)
  then show ?case
    by (subst schema_has_ref.simps, subst subnodes.simps) (auto simp: refers_def list_ex_iff split: pyval.splits)
qed

lemma schema_missing_guard_iff: "schema_missing_guard n \<longleftrightarrow> list_ex unguarded_object (subnodes n)"
proof (induction n rule: schema_missing_guard.induct)
  case (1 n)
  then show ?case
    by (subst schema_missing_guard.simps, subst subnodes.simps) (auto simp: list_ex_iff)
qed

lemma schema_property_count_eq: "schema_property_count n = sum_list (map named_properties (subnodes n))"
proof (induction n rule: schema_property_count.induct)
  case (1 n)
  then have ih: "map schema_property_count (children n) = map (\<lambda>v. sum_list (map named_properties (subnodes v))) (children n)"
    by (cases n) auto
  have flat: "sum_list (map named_properties (concat (map subnodes vs))) =
      sum_list (map (\<lambda>v. sum_list (map named_properties (subnodes v))) vs)" for vs
    by (induction vs) auto
  have "schema_property_count n = named_properties n + sum_list (map schema_property_count (children n))"
    by (subst schema_property_count.simps) (cases n; simp add: named_properties_def)
  also have "\<dots> = sum_list (map named_properties (subnodes n))"
    by (subst subnodes.simps) (simp only: list.map sum_list.Cons ih flat)
  finally show ?case .
qed

text \<open>
  C28: A caller's schema is accepted exactly when it is a dict under
  \<open>json_schema.schema\<close> that prints to at most 64 KiB, nests at most 16 deep, names at most 64
  properties in all its objects together, holds no \<open>$ref\<close> key anywhere, guards every
  object schema with \<open>additionalProperties\<close>, and compiles.
\<close>

theorem schema_accepted_iff:
  "validate_json_schema lib rf = None \<longleftrightarrow>
     sl_available lib \<and>
     (\<exists>js sd. dict_get rf ''json_schema'' = Some (PyDict js) \<and> dict_get js ''schema'' = Some (PyDict sd) \<and>
        length (dumps (sl_float lib) (PyDict sd)) \<le> SCHEMA_MAX_BYTES \<and>
        nesting (PyDict sd) \<le> SCHEMA_MAX_DEPTH \<and>
        sum_list (map named_properties (subnodes (PyDict sd))) \<le> SCHEMA_MAX_PROPERTIES \<and>
        \<not> list_ex refers (subnodes (PyDict sd)) \<and>
        \<not> list_ex unguarded_object (subnodes (PyDict sd)) \<and>
        sl_compile lib (PyDict sd) = None)"
  by (auto simp: validate_json_schema_def Let_def not_less schema_depth_exceeds schema_has_ref_iff
        schema_missing_guard_iff schema_property_count_eq
      split: option.splits pyval.splits simp del: dumps.simps)

subsection \<open>Keep-alive through to the idle window\<close>

text \<open>
  Whatever \<open>keep_alive\<close> a client sends, if it parses, the window its model then stays warm is
  between zero and \<open>KEEP_ALIVE_MAX_S\<close>: the parser lets negative and huge values through, and the
  manager's clamp takes care of them.
\<close>

theorem keep_alive_window_bounded:
  assumes "parse_keep_alive v = Inr k" "0 \<le> dflt" "dflt \<le> KEEP_ALIVE_MAX_S"
  shows "0 \<le> idle_window_seconds k dflt \<and> idle_window_seconds k dflt \<le> KEEP_ALIVE_MAX_S"
  using assms(2,3) by (auto simp: idle_window_seconds_def KEEP_ALIVE_MAX_S_def split: option.splits)

theorem keep_alive_window_bounded_witness:
  "0 \<le> idle_window_seconds (Some (- 300)) 60 \<and> idle_window_seconds (Some (- 300)) 60 \<le> KEEP_ALIVE_MAX_S"
proof (rule keep_alive_window_bounded)
  show "parse_keep_alive (PyStr ''-5m'') = Inr (Some (- 300))" by code_simp
qed (simp_all add: KEEP_ALIVE_MAX_S_def)

lemma parse_digits_total: "all_digits s \<Longrightarrow> parse_nat s \<noteq> None"
proof -
  have scan: "list_all is_digit s \<Longrightarrow> scan_digits a s \<noteq> None" for s a
    by (induction s arbitrary: a) auto
  assume "all_digits s"
  with scan show ?thesis by (cases s) (auto simp: all_digits_def parse_nat_def)
qed

lemma lstrip_dashes_split: "b = replicate (length (takeWhile (\<lambda>c. c = CHR ''-'') b)) (CHR ''-'') @ lstrip_dashes b"
proof -
  have "takeWhile (\<lambda>c. c = CHR ''-'') b = replicate (length (takeWhile (\<lambda>c. c = CHR ''-'') b)) (CHR ''-'')"
    by (induction b) auto
  then show ?thesis by (metis lstrip_dashes_def takeWhile_dropWhile_id)
qed

lemma lstrip_lstrip [simp]: "lstrip (lstrip s) = lstrip s"
  by (simp add: lstrip_def)

lemma strip_strip: "strip (strip s) = strip s"
proof -
  let ?l = "lstrip s" and ?m = "rev (lstrip (rev (lstrip s)))"
  have "lstrip ?m = ?m"
  proof (cases "?m = []")
    case False
    have "takeWhile is_space (rev ?l) @ lstrip (rev ?l) = rev ?l" by (simp add: lstrip_def)
    then have "rev (rev ?l) = ?m @ rev (takeWhile is_space (rev ?l))" by (metis rev_append)
    then have m: "?l = ?m @ rev (takeWhile is_space (rev ?l))" by simp
    with False have "?l \<noteq> []" "hd ?m = hd ?l" by (metis append_is_Nil_conv, metis hd_append2)
    then have "\<not> is_space (hd ?m)" by (simp add: lstrip_def hd_dropWhile)
    then show ?thesis by (intro lstrip_id) simp
  next
    case True
    then show ?thesis by (metis lstrip_id)
  qed
  then show ?thesis by (simp add: strip_def)
qed

lemma dash_facts: "\<not> is_digit (CHR ''-'')" "\<not> is_space (CHR ''-'')" "CHR ''-'' \<noteq> CHR ''+''"
  by code_simp+

lemma py_int_dashes:
  assumes "all_digits ds"
  shows "py_int (replicate k (CHR ''-'') @ ds) = None \<longleftrightarrow> 2 \<le> k"
proof -
  from assms have "strip (replicate k (CHR ''-'') @ ds) = replicate k (CHR ''-'') @ ds"
    by (intro strip_id) (auto simp: all_digits_def list_all_iff dash_facts dest: digit_not_space)
  moreover have "parse_nat ds \<noteq> None" using assms by (rule parse_digits_total)
  moreover obtain d es where "ds = d # es" "is_digit d" using assms by (cases ds) (auto simp: all_digits_def)
  moreover have "parse_nat (CHR ''-'' # t) = None" for t by (simp add: parse_nat_def dash_facts)
  ultimately show ?thesis
    by (cases k rule: nat.exhaust; cases "k - 1" rule: nat.exhaust)
       (auto simp: py_int_def dest: digit_not_sign)
qed

definition double_dashed :: "string \<Rightarrow> bool" where
  "double_dashed s \<longleftrightarrow>
     (\<exists>k ds u. s = replicate (k + 2) (CHR ''-'') @ ds @ [u] \<and> all_digits ds \<and> keep_alive_unit u \<noteq> None)"

lemma double_dashed_raises:
  assumes "strip raw = s" "double_dashed s"
  shows "parse_keep_alive (PyStr raw) = Inl ValueError"
proof -
  from assms(2) obtain k ds u where s: "s = (replicate (k + 2) (CHR ''-'') @ ds) @ [u]" and ds: "all_digits ds"
    and u: "keep_alive_unit u \<noteq> None" by (auto simp: double_dashed_def)
  have bl: "butlast s = replicate (k + 2) (CHR ''-'') @ ds" "last s = u" by (simp_all only: s butlast_snoc last_snoc)
  have len: "2 \<le> length s" "s \<noteq> []" by (simp_all add: s)
  have "lstrip_dashes (butlast s) = ds"
    using ds dash_facts by (cases ds) (auto simp: bl lstrip_dashes_def dropWhile_append all_digits_def)
  moreover have "py_int (butlast s) = None" using py_int_dashes [OF ds, of "k + 2"] bl(1) by simp
  moreover have "py_int s = None"
  proof -
    have "strip s = s" using assms(1) strip_strip by metis
    then have "py_int s = map_option (\<lambda>n. - int n) (parse_nat (CHR ''-'' # replicate k (CHR ''-'') @ ds @ [u]))"
      by (simp add: py_int_def s)
    then show ?thesis by (simp add: parse_nat_def dash_facts)
  qed
  ultimately show ?thesis using assms(1) ds u bl len by (auto simp: Let_def split: option.splits)
qed

text \<open>
  The texts that make \<open>keep_alive\<close> raise, and so answer 500, are exactly those that strip to two
  or more dashes, digits and a unit letter: the guard strips every dash before it tests for
  digits, and \<open>int\<close> then refuses the dashes.
\<close>

theorem keep_alive_text_raises_iff:
  "(\<exists>e. parse_keep_alive (PyStr raw) = Inl e) \<longleftrightarrow> double_dashed (strip raw)"
proof
  assume "\<exists>e. parse_keep_alive (PyStr raw) = Inl e"
  then obtain u where "strip raw \<noteq> []" and u: "keep_alive_unit (last (strip raw)) = Some u"
    and ds: "all_digits (lstrip_dashes (butlast (strip raw)))" and none: "py_int (butlast (strip raw)) = None"
    by (auto simp: Let_def split: if_splits option.splits)
  let ?b = "butlast (strip raw)" and ?k = "length (takeWhile (\<lambda>c. c = CHR ''-'') (butlast (strip raw)))"
  have b: "?b = replicate ?k (CHR ''-'') @ lstrip_dashes ?b" by (rule lstrip_dashes_split)
  with none py_int_dashes [OF ds, of ?k] have "2 \<le> ?k" by simp
  then obtain k where "?k = k + 2" by (metis add.commute le_Suc_ex)
  with b have "strip raw = replicate (k + 2) (CHR ''-'') @ lstrip_dashes ?b @ [last (strip raw)]"
    using \<open>strip raw \<noteq> []\<close> by (metis append.assoc append_butlast_last_id)
  with ds u show "double_dashed (strip raw)" unfolding double_dashed_def by blast
qed (use double_dashed_raises in blast)

subsection \<open>Which parameters reach the sidecar\<close>

lemma set_all_get:
  "dict_get (set_all (present d ks) base) k =
     (if k \<in> set ks \<and> get_or_none d k \<noteq> PyNone then Some (get_or_none d k) else dict_get base k)"
proof (induction ks arbitrary: base)
  case (Cons a ks)
  then show ?case
    by (auto simp: present_def copied_def set_all_def dict_get_set)
qed (simp add: present_def copied_def set_all_def)

lemma set_all_value:
  assumes "k \<in> set ks" "dict_get base k \<in> {None, Some (get_or_none d k)}"
  shows "get_or_none (set_all (present d ks) base) k = get_or_none d k"
proof -
  have "dict_get (set_all (present d ks) base) k =
      (if get_or_none d k \<noteq> PyNone then Some (get_or_none d k) else dict_get base k)"
    using assms(1) by (simp add: set_all_get)
  with assms(2) show ?thesis
    by (cases "get_or_none d k = PyNone") (auto simp: get_or_none_def [of "set_all (present d ks) base"])
qed

lemma copied_get: "map_of (copied p ks) k = (if k \<in> set ks then Some (get_or_none p k) else None)"
  by (induction ks) (auto simp: copied_def)

definition PLAIN_KNOBS :: "string list" where
  "PLAIN_KNOBS = [''temperature'', ''top_p'', ''max_tokens'', ''response_format''] @ TOOL_KNOBS"

lemma dict_get_append: "k \<notin> fst ` set a \<Longrightarrow> dict_get (a @ b) k = dict_get b k"
  by (induction a) (auto simp: dict_get_def)

lemma openai_meta_knob:
  assumes "openai_meta env r = Inr meta" "k \<in> set COMMON_FORWARDED_KNOBS"
  shows "get_or_none meta k = (if k \<in> set PLAIN_KNOBS then get_or_none (cr_payload r) k else PyNone)"
proof -
  let ?fixed = "\<lambda>ka. [(''kind'', PyStr ''openai-chat-completion''), (''messages'', PyList (cr_messages r)),
             (''model'', cr_model r), (''stream'', PyBool False), (''keep_alive_s'', keep_value ka),
             (''thinking_manifest'', thinking_manifest env r)]"
  obtain ka where meta: "meta = ?fixed ka @ copied (cr_payload r) PLAIN_KNOBS"
    using assms(1) by (auto simp: openai_meta_def PLAIN_KNOBS_def)
  have "k \<notin> {''kind'', ''messages'', ''model'', ''stream'', ''keep_alive_s'', ''thinking_manifest''}"
    using assms(2) unfolding COMMON_FORWARDED_KNOBS_def by (simp only: set_simps insert_iff empty_iff) (elim disjE; simp)
  then have "dict_get meta k = map_of (copied (cr_payload r) PLAIN_KNOBS) k"
    unfolding meta by (subst dict_get_append) (simp_all add: dict_get_def)
  then show ?thesis by (simp add: get_or_none_def [of meta] copied_get)
qed

lemma openai_stream_meta_knob:
  assumes "openai_stream_meta r = Inr meta" "k \<in> set COMMON_FORWARDED_KNOBS"
  shows "get_or_none meta k = get_or_none (cr_payload r) k"
proof -
  from assms(2) have k: "k \<in> set STREAM_FORWARDED_KNOBS" "k \<noteq> ''kind''" "k \<noteq> ''messages''" "k \<noteq> ''model''" "k \<noteq> ''stream''" "k \<noteq> ''keep_alive_s''"
    by (auto simp: STREAM_FORWARDED_KNOBS_def COMMON_FORWARDED_KNOBS_def)
  let ?base = "\<lambda>ka. [(''kind'', PyStr ''openai-chat-completion-stream''), (''messages'', PyList (cr_messages r)),
           (''model'', cr_model r), (''stream'', PyBool True)] @
          copied (cr_payload r) [''temperature'', ''top_p'', ''max_tokens''] @ [(''keep_alive_s'', keep_value ka)]"
  have base: "dict_get (?base ka) k \<in> {None, Some (get_or_none (cr_payload r) k)}" for ka
    using k by (auto simp: dict_get_def map_add_def copied_get split: option.splits)
  from assms(1) obtain ka where "meta = set_all (present (cr_payload r) STREAM_FORWARDED_KNOBS) (?base ka)"
    by (auto simp: openai_stream_meta_def)
  with set_all_value [OF k(1) base] show ?thesis by simp
qed

text \<open>
  Streaming decides which sampling parameters count: with \<open>stream\<close> every forwardable parameter
  the client set reaches the sidecar with its value; without it only temperature, top_p,
  max_tokens, the response format and the tool parameters do, and every other sampler (top_k,
  min_p, seed, the penalties, mirostat, n_predict, the reasoning budgets) is dropped without a
  word.
\<close>

theorem samplers_need_streaming:
  assumes "k \<in> set COMMON_FORWARDED_KNOBS" "openai_meta env r = Inr meta" "openai_stream_meta r = Inr smeta"
  shows "get_or_none (build_stream_payload smeta model msgs) k = get_or_none (cr_payload r) k \<and>
    get_or_none (build_plain_payload meta model (PyList msgs)) k =
      (if k \<in> set PLAIN_KNOBS then get_or_none (cr_payload r) k else PyNone)"
proof -
  from assms(1) have k: "k \<in> set STREAM_FORWARDED_KNOBS" "k \<noteq> ''model''" "k \<noteq> ''messages''" "k \<noteq> ''stream''"
    by (auto simp: STREAM_FORWARDED_KNOBS_def COMMON_FORWARDED_KNOBS_def)
  have empty: "dict_get [(''model'', a), (''messages'', b), (''stream'', c)] k = None" for a b c
    using k by (simp add: dict_get_def)
  have set: "get_or_none (set_all (present d ks) [(''model'', a), (''messages'', b), (''stream'', c)]) k = get_or_none d k"
    if "k \<in> set ks" for d ks a b c
    using that empty [of a b c] by (intro set_all_value) simp_all
  from set [OF k(1)] set [OF assms(1)] openai_stream_meta_knob [OF assms(3,1)] openai_meta_knob [OF assms(2,1)]
  show ?thesis by (simp add: build_stream_payload_def build_plain_payload_def)
qed

definition seeded_request :: chat_request where
  "seeded_request = \<lparr>cr_model = PyStr ''m'', cr_messages = [], cr_prompt = [], cr_thread = PyStr [],
     cr_payload = [(''seed'', PyInt 7), (''top_p'', PyInt 1)]\<rparr>"

definition example_env :: chat_env where
  "example_env = \<lparr>ce_single_residency = True, ce_host = Some ''h'',
     ce_lib = \<lparr>sl_available = True, sl_compile = (\<lambda>_. None), sl_float = (\<lambda>_. ''0.5'')\<rparr>, ce_budget = (\<lambda>_. None)\<rparr>"

theorem samplers_need_streaming_witness:
  "\<exists>meta smeta. get_or_none (build_stream_payload smeta (PyStr ''m'') []) ''seed'' = PyInt 7 \<and>
     get_or_none (build_plain_payload meta (PyStr ''m'') (PyList [])) ''seed'' = PyNone"
proof -
  obtain meta smeta where m: "openai_meta example_env seeded_request = Inr meta" "openai_stream_meta seeded_request = Inr smeta"
    by (simp add: openai_meta_def openai_stream_meta_def seeded_request_def get_or_none_def dict_get_def)
  have "''seed'' \<in> set COMMON_FORWARDED_KNOBS" "''seed'' \<notin> set PLAIN_KNOBS"
    by (simp_all add: COMMON_FORWARDED_KNOBS_def PLAIN_KNOBS_def TOOL_KNOBS_def)
  moreover have "get_or_none (cr_payload seeded_request) ''seed'' = PyInt 7"
    by (simp add: seeded_request_def get_or_none_def dict_get_def)
  ultimately show ?thesis using samplers_need_streaming [OF _ m, of "''seed''" "PyStr ''m''" "[]"] by auto
qed

text \<open>\<open>options\<close> of an Ollama request, temperature included, never reaches the sidecar.\<close>

lemma ollama_options_ignored:
  assumes "ollama_meta env r = Inr meta" "k \<in> {''temperature'', ''top_p'', ''top_k'', ''seed'', ''max_tokens'', ''n_predict''}"
  shows "dict_get (build_plain_payload meta model msgs) k = None"
proof -
  from assms have "get_or_none meta k = PyNone"
    by (auto simp: ollama_meta_def get_or_none_def dict_get_def map_add_def copied_get TOOL_KNOBS_def
        split: if_splits sum.splits option.splits)
  moreover from assms(2) have "dict_get [(''model'', model), (''messages'', msgs), (''stream'', PyBool False)] k = None"
    by (auto simp: dict_get_def)
  ultimately show ?thesis by (simp add: build_plain_payload_def set_all_get)
qed

subsection \<open>Messages that answer 500\<close>

definition nontext_content :: "pyval \<Rightarrow> bool" where
  "nontext_content m =
     (case m of
        PyDict d \<Rightarrow> (case dict_get d ''content'' of None \<Rightarrow> False | Some c \<Rightarrow> \<not> is_py_str c)
      | _ \<Rightarrow> False)"

lemma message_texts_raise:
  "(\<exists>e. message_texts ms = Inl e) \<longleftrightarrow>
     list_ex nontext_content ms"
proof (induction ms)
  case (Cons m ms)
  have r: "(\<exists>e. rbind x (\<lambda>ts. Inr (f ts)) = Inl e) \<longleftrightarrow> (\<exists>e. x = Inl e)" for x :: "py_exception + string list" and f :: "string list \<Rightarrow> string list"
    by (cases x) auto
  show ?case
  proof (cases m)
    case (PyDict d)
    then show ?thesis using Cons r
      by (cases "dict_get d ''content''"; cases "the (dict_get d ''content'')") (simp_all add: nontext_content_def)
  qed (use Cons in \<open>simp_all add: nontext_content_def\<close>)
qed simp

text \<open>
  A chat with tool calls in its history, or with content parts, is refused with an unhandled
  \<open>TypeError\<close>: a request with a model and messages gets past the prompt extraction exactly when
  every message object with a \<open>content\<close> has a string there; the null the chat format
  requires next to \<open>tool_calls\<close>, and a list of parts, do not pass.
\<close>

theorem null_content_is_unhandled:
  assumes "truthy (get_or_none payload ''model'')" "get_or_none payload ''messages'' = PyList (m # ms)"
  shows "(\<exists>e. base_request env payload = Inl (Unhandled e)) \<longleftrightarrow>
     list_ex nontext_content (m # ms)"
proof -
  have rf: "check_response_format lib p \<noteq> Inl (Unhandled e)" for lib p e
    by (auto simp: check_response_format_def Let_def split: pyval.splits option.splits)
  have p: "(\<exists>e. prompt_of (m # ms) = Inl e) \<longleftrightarrow> (\<exists>e. message_texts (m # ms) = Inl e)"
    by (cases "message_texts (m # ms)") (simp_all add: prompt_of_def del: message_texts.simps)
  show ?thesis
  proof (cases "prompt_of (m # ms)")
    case (Inl e)
    with assms p message_texts_raise [of "m # ms"] show ?thesis
      by (simp add: base_request_def del: message_texts.simps)
  next
    case (Inr t)
    with assms p message_texts_raise [of "m # ms"] rf show ?thesis
      by (auto simp: base_request_def rbind_eq_Inl simp del: message_texts.simps)
  qed
qed

theorem null_content_is_unhandled_witness:
  "\<exists>e. base_request example_env
     [(''model'', PyStr ''m''), (''messages'', PyList [PyDict [(''role'', PyStr ''assistant''), (''content'', PyNone)]])] =
     Inl (Unhandled e)"
  by (subst null_content_is_unhandled [where m = "PyDict [(''role'', PyStr ''assistant''), (''content'', PyNone)]" and ms = "[]"])
     (simp_all add: get_or_none_def dict_get_def nontext_content_def)

end
