(* ===== verification/ToolCalls.thy ===== *)
theory ToolCalls
  imports Json
begin

text \<open>
  \<open>api/tool_call_recovery.py\<close>: tool calls a model wrote into its text are found by two regular
  expressions and a brace scanner, filtered by the names the request advertised, moved
  into the structured field and cut out of the text. The regular expressions are written out as
  the matchers they denote; \<open>uuid4\<close> is the parameter \<open>ids\<close>, numbering the calls of a
  response.
\<close>

subsection \<open>Matchers\<close>

fun eat :: "string \<Rightarrow> string \<Rightarrow> string option" where
  "eat p s = (if starts_with p s then Some (drop (length p) s) else None)"

text \<open>The lazy \<open>.*?\<close> under \<open>DOTALL\<close>: the first position where the rest matches.\<close>

fun lazy_until :: "(string \<Rightarrow> nat option) \<Rightarrow> string \<Rightarrow> nat option" where
  "lazy_until f [] = f []"
| "lazy_until f (c # cs) =
     (case f (c # cs) of Some n \<Rightarrow> Some n | None \<Rightarrow> map_option Suc (lazy_until f cs))"

text \<open>A closing brace, white space, and \<open>q\<close>: the length of what was matched.\<close>

definition close_then :: "string \<Rightarrow> string \<Rightarrow> nat option" where
  "close_then q s =
     (if starts_with ''}'' s
      then map_option (\<lambda>r. length s - length r) (eat q (lstrip (tl s)))
      else None)"

definition XML_OPEN :: string where "XML_OPEN = ''<tool_call>''"
definition XML_CLOSE :: string where "XML_CLOSE = ''</tool_call>''"

text \<open>\<open>_XML_RE\<close> at the start of \<open>s\<close>: the offset of the body, and the length of the match.\<close>

definition xml_match :: "string \<Rightarrow> (nat \<times> nat) option" where
  "xml_match s =
     (case eat XML_OPEN s of None \<Rightarrow> None
      | Some r \<Rightarrow>
          (let b = lstrip r; off = length s - length b in
           if starts_with ''{'' b
           then map_option (\<lambda>n. (off, off + 1 + n)) (lazy_until (close_then XML_CLOSE) (tl b))
           else None))"

definition eat_ws :: "string \<Rightarrow> string option \<Rightarrow> string option" where
  "eat_ws p s = (case s of None \<Rightarrow> None | Some t \<Rightarrow> eat p (lstrip t))"

definition QUOTE :: string where "QUOTE = [CHR 0x22]"

text \<open>\<open>_CANONICAL_RE\<close>: the name, the offset of the arguments, and the length of the match.\<close>

definition canonical_match :: "string \<Rightarrow> ((string \<times> nat) \<times> nat) option" where
  "canonical_match s =
     (case eat_ws QUOTE (eat_ws '':'' (eat_ws (QUOTE @ ''name'' @ QUOTE) (eat ''{'' s))) of None \<Rightarrow> None
      | Some r \<Rightarrow>
          (let name = takeWhile (\<lambda>c. c \<noteq> CHR 0x22) r in
           if name = [] then None
           else
             (case eat_ws '':'' (eat_ws (QUOTE @ ''arguments'' @ QUOTE)
                     (eat_ws '','' (eat QUOTE (drop (length name) r)))) of None \<Rightarrow> None
              | Some r' \<Rightarrow>
                  (let a = lstrip r'; off = length s - length a in
                   if starts_with ''{'' a
                   then map_option (\<lambda>n. ((name, off), off + 1 + n)) (lazy_until (close_then ''}'') (tl a))
                   else None))))"

function finditer :: "(string \<Rightarrow> ('a \<times> nat) option) \<Rightarrow> nat \<Rightarrow> string \<Rightarrow> (nat \<times> 'a) list" where
  "finditer m i [] = []"
| "finditer m i (c # cs) =
     (case m (c # cs) of
        None \<Rightarrow> finditer m (Suc i) cs
      | Some (x, n) \<Rightarrow> (i, x) # finditer m (i + max 1 n) (drop (max 1 n) (c # cs)))"
  by pat_completeness auto
termination
  by (relation "measure (\<lambda>(_, _, s). length s)") (auto simp: max_def)

subsection \<open>The brace scanner\<close>

fun balance :: "nat \<Rightarrow> bool \<Rightarrow> bool \<Rightarrow> string \<Rightarrow> nat option" where
  "balance depth in_str escape [] = None"
| "balance depth in_str escape (c # cs) =
     map_option Suc
       (if in_str then
          (if escape then balance depth True False cs
           else if c = CHR 0x5C then balance depth True True cs
           else if c = CHR 0x22 then balance depth False False cs
           else balance depth True False cs)
        else if c = CHR 0x22 then balance depth True False cs
        else if c = CHR ''{'' then balance (Suc depth) False False cs
        else if c = CHR ''}'' then (if depth = 1 then Some 0 else balance (depth - 1) False False cs)
        else balance depth False False cs)"

definition balanced_object_at :: "string \<Rightarrow> nat \<Rightarrow> nat option" where
  "balanced_object_at s start =
     (if length s \<le> start \<or> s ! start \<noteq> CHR ''{'' then None
      else map_option (\<lambda>n. start + n) (balance 0 False False (drop start s)))"

subsection \<open>Candidates\<close>

type_synonym candidate = "nat \<times> nat \<times> string \<times> string"

definition slice :: "string \<Rightarrow> nat \<Rightarrow> nat \<Rightarrow> string" where
  "slice s i j = take (j - i) (drop i s)"

definition xml_arguments :: "(pyfloat \<Rightarrow> string) \<Rightarrow> pyval option \<Rightarrow> string option" where
  "xml_arguments fr args =
     (case args of
        Some (PyDict d) \<Rightarrow> Some (dumps fr (PyDict d))
      | Some (PyStr t) \<Rightarrow> (case loads t of None \<Rightarrow> None | Some _ \<Rightarrow> Some t)
      | _ \<Rightarrow> None)"

definition xml_candidate :: "(pyfloat \<Rightarrow> string) \<Rightarrow> string \<Rightarrow> nat \<times> nat \<Rightarrow> candidate option" where
  "xml_candidate fr s m =
     (case m of (start, off) \<Rightarrow>
      case balanced_object_at s (start + off) of None \<Rightarrow> None
      | Some e \<Rightarrow>
          (case loads (slice s (start + off) e) of
             Some (PyDict d) \<Rightarrow>
               (case (dict_get d ''name'', xml_arguments fr (dict_get d ''arguments'')) of
                  (Some (PyStr name), Some args) \<Rightarrow>
                    map_option (\<lambda>k. (start, e + k + length XML_CLOSE, name, args)) (find_sub XML_CLOSE (drop e s))
                | _ \<Rightarrow> None)
           | _ \<Rightarrow> None))"

definition outer_ws :: "char \<Rightarrow> bool" where
  "outer_ws c \<longleftrightarrow> code c = 32 \<or> code c = 9 \<or> code c = 13 \<or> code c = 10"

definition canonical_candidate :: "(pyfloat \<Rightarrow> string) \<Rightarrow> string \<Rightarrow> nat \<times> (string \<times> nat) \<Rightarrow> candidate option" where
  "canonical_candidate fr s m =
     (case m of (start, name, off) \<Rightarrow>
      case balanced_object_at s (start + off) of None \<Rightarrow> None
      | Some e \<Rightarrow>
          (case loads (slice s (start + off) e) of
             Some (PyDict d) \<Rightarrow>
               (let r = dropWhile outer_ws (drop e s) in
                if starts_with ''}'' r then Some (start, length s - length r + 1, name, dumps fr (PyDict d)) else None)
           | _ \<Rightarrow> None))"

definition in_covered :: "candidate list \<Rightarrow> nat \<Rightarrow> bool" where
  "in_covered cs i \<longleftrightarrow> list_ex (\<lambda>(s, e, _). s \<le> i \<and> i < e) cs"

definition iter_candidates :: "(pyfloat \<Rightarrow> string) \<Rightarrow> string \<Rightarrow> candidate list" where
  "iter_candidates fr s =
     (let xml = List.map_filter (xml_candidate fr s) (finditer xml_match 0 s);
          canonical = List.map_filter (canonical_candidate fr s)
                        (filter (\<lambda>m. \<not> in_covered xml (fst m)) (finditer canonical_match 0 s))
      in sort_key fst (xml @ canonical))"

subsection \<open>Recovery\<close>

definition known_name :: "pyval \<Rightarrow> string option" where
  "known_name entry =
     (case entry of
        PyDict e \<Rightarrow>
          (case dict_get e ''function'' of
             Some (PyDict fn) \<Rightarrow>
               (case dict_get fn ''name'' of Some (PyStr n) \<Rightarrow> if n = [] then None else Some n | _ \<Rightarrow> None)
           | _ \<Rightarrow> None)
      | _ \<Rightarrow> None)"

definition extract_known_names :: "pyval \<Rightarrow> string list" where
  "extract_known_names tools = (case tools of PyList es \<Rightarrow> List.map_filter known_name es | _ \<Rightarrow> [])"

definition cut_out :: "nat \<Rightarrow> nat \<Rightarrow> string \<Rightarrow> string" where
  "cut_out s e t = take s t @ drop e t"

text \<open>\<open>re.sub("\\n{3,}", "\\n\\n", s)\<close>, with the length of the run of newlines before the text.\<close>

fun squash_newlines :: "nat \<Rightarrow> string \<Rightarrow> string" where
  "squash_newlines k [] = []"
| "squash_newlines k (c # cs) =
     (if c = newline then (if k < 2 then c # squash_newlines (Suc k) cs else squash_newlines (Suc k) cs)
      else c # squash_newlines 0 cs)"

definition tool_call_entry :: "string \<Rightarrow> candidate \<Rightarrow> pyval" where
  "tool_call_entry cid c =
     (case c of (_, _, name, args) \<Rightarrow>
      PyDict [(''id'', PyStr (''call_'' @ cid)), (''type'', PyStr ''function''),
              (''function'', PyDict [(''name'', PyStr name), (''arguments'', PyStr args)])])"

definition think_split :: "string \<Rightarrow> nat" where
  "think_split content =
     (case rfind_sub ''</think>'' content of None \<Rightarrow> 0 | Some i \<Rightarrow> i + length ''</think>'')"

text \<open>The calls found in a text, and the text without them.\<close>

definition recover_from :: "(pyfloat \<Rightarrow> string) \<Rightarrow> string list \<Rightarrow> string \<Rightarrow> candidate list \<times> string" where
  "recover_from fr known content =
     (let i = think_split content; segment = drop i content;
          accepted = filter (\<lambda>(_, _, name, _). name \<in> set known) (iter_candidates fr segment);
          segment' = foldr (\<lambda>(s, e, _, _) t. cut_out s e t) accepted segment
      in (accepted, strip (squash_newlines 0 (take i content @ segment'))))"

definition recover_choice ::
  "(nat \<Rightarrow> string) \<Rightarrow> (pyfloat \<Rightarrow> string) \<Rightarrow> string list \<Rightarrow> (string \<times> pyval) list \<Rightarrow> (string \<times> pyval) list option" where
  "recover_choice ids fr known choice =
     (case dict_get choice ''message'' of
        Some (PyDict msg) \<Rightarrow>
          (case (dict_get msg ''tool_calls'', dict_get msg ''content'') of
             (Some (PyList (_ # _)), _) \<Rightarrow> None
           | (_, Some (PyStr content)) \<Rightarrow>
               if known = [] \<or> strip content = [] then None
               else
                 (case recover_from fr known content of (accepted, content') \<Rightarrow>
                    if accepted = [] then None
                    else
                      (let calls = map (\<lambda>(k, c). tool_call_entry (ids k) c) (enumerate 0 accepted);
                           msg' = dict_set (dict_set msg ''content'' (PyStr content')) ''tool_calls'' (PyList calls)
                       in Some (dict_set (dict_set choice ''message'' (PyDict msg')) ''finish_reason'' (PyStr ''tool_calls''))))
           | _ \<Rightarrow> None)
      | _ \<Rightarrow> None)"

definition maybe_recover_tool_calls ::
  "(nat \<Rightarrow> string) \<Rightarrow> (pyfloat \<Rightarrow> string) \<Rightarrow> pyval \<Rightarrow> pyval \<Rightarrow> pyval" where
  "maybe_recover_tool_calls ids fr result tools =
     (case result of
        PyDict r \<Rightarrow>
          (case dict_get r ''choices'' of
             Some (PyList (PyDict choice # rest)) \<Rightarrow>
               (case recover_choice ids fr (extract_known_names tools) choice of
                  None \<Rightarrow> result
                | Some choice' \<Rightarrow> PyDict (dict_set r ''choices'' (PyList (PyDict choice' # rest))))
           | _ \<Rightarrow> result)
      | _ \<Rightarrow> result)"

definition example_call :: string where
  "example_call = ''{\"name\": \"ls\", \"arguments\": {\"p\": {\"d\": 1}}}''"

lemma recover_evaluates:
  "recover_from (\<lambda>_. ''0.5'') [''ls''] (''ok '' @ example_call @ '' done'') =
     ([(3, 47, ''ls'', ''{\"p\": {\"d\": 1}}'')], ''ok  done'')"
  by code_simp

subsection \<open>The brace scanner finds the end of an object\<close>

text \<open>A scan that passes over \<open>t\<close> and goes on in the state it started in.\<close>

definition passes :: "nat \<Rightarrow> bool \<Rightarrow> string \<Rightarrow> bool" where
  "passes d in_str t \<longleftrightarrow> (\<forall>r. balance d in_str False (t @ r) = map_option (\<lambda>n. length t + n) (balance d in_str False r))"

lemma passes_Nil [simp]: "passes d i []"
  by (simp add: passes_def option.map_ident)

lemma passes_append: "passes d i s \<Longrightarrow> passes d i t \<Longrightarrow> passes d i (s @ t)"
  by (auto simp: passes_def option.map_comp comp_def add.assoc)

lemma passes_char:
  "c \<noteq> CHR 0x22 \<Longrightarrow> c \<noteq> CHR ''{'' \<Longrightarrow> c \<noteq> CHR ''}'' \<Longrightarrow> passes d False [c]"
  by (simp add: passes_def)

lemma passes_plain: "plain_text t \<Longrightarrow> passes d False t"
proof (induction t)
  case (Cons c t)
  then have "passes d False [c]" "passes d False t" by (auto simp: plain_text_def passes_char)
  then show ?case using passes_append [of d False "[c]" t] by simp
qed simp

definition inert :: "char \<Rightarrow> bool" where
  "inert c \<longleftrightarrow> c \<noteq> CHR 0x22 \<and> c \<noteq> CHR 0x5C"

lemma passes_inert: "list_all inert t \<Longrightarrow> passes d True t"
proof (induction t)
  case (Cons c t)
  then have "passes d True [c]" "passes d True t" by (auto simp: inert_def passes_def)
  then show ?case using passes_append [of d True "[c]" t] by simp
qed simp

lemma passes_pair: "passes d True [CHR 0x5C, e]"
proof -
  have "map_option Suc (map_option Suc b) = map_option (\<lambda>n. length [CHR 0x5C, e] + n) b" for b :: "nat option"
    by (cases b) simp_all
  then show ?thesis by (simp add: passes_def)
qed

lemma escape_shape:
  "(escape_char c = [c] \<and> inert c) \<or> (\<exists>e hs. escape_char c = [CHR 0x5C, e] @ hs \<and> list_all inert hs)"
proof -
  have h: "inert (hex_digit k)" if "k < 16" for k
    using hex_value_digit [OF that] by (auto simp: hex_value_def is_digit_def code_def inert_def)
  have "code c < 256" by (simp add: code_def)
  then have "code c div 16 < 16" "code c mod 16 < 16" by auto
  with h [of "code c div 16"] h [of "code c mod 16"] show ?thesis
    by (simp add: escape_char_def inert_def)
qed

lemma passes_escape: "passes d True (escape_char c)"
  using escape_shape [of c]
proof (elim disjE exE conjE)
  fix e hs
  assume "escape_char c = [CHR 0x5C, e] @ hs" "list_all inert hs"
  then show ?thesis using passes_append [OF passes_pair passes_inert] by metis
qed (simp add: passes_inert)

lemma passes_escaped: "passes d True (concat (map escape_char s))"
  by (induction s) (simp_all add: passes_append passes_escape)

lemma passes_quote: "passes d False (quote s)"
proof -
  have "balance d False False (quote s @ r) = map_option (\<lambda>n. length (quote s) + n) (balance d False False r)" for r
    using passes_escaped [of d s, unfolded passes_def, rule_format, of "CHR 0x22 # r"]
    by (cases "balance d False False r") (simp_all add: quote_def)
  then show ?thesis by (simp add: passes_def)
qed

lemma passes_join: "\<forall>w \<in> set ws. passes d False w \<Longrightarrow> passes d False (join '', '' ws)"
proof (induction ws)
  case (Cons w ws)
  have sep: "passes d False '', ''" by (rule passes_plain) (simp add: plain_text_def)
  show ?case
  proof (cases ws)
    case (Cons u us)
    with Cons.IH Cons.prems sep show ?thesis
      using passes_append [of d False "'', ''" "join '', '' ws"] passes_append [of d False w] by simp
  qed (use Cons.prems in simp)
qed simp

lemma passes_int: "passes d False (show_int i)"
proof (rule passes_plain)
  have "plain_text (show_nat n)" for n
  proof -
    have "is_digit c \<Longrightarrow> c \<noteq> CHR 0x22 \<and> c \<noteq> CHR ''{'' \<and> c \<noteq> CHR ''}''" for c
      by (auto simp: is_digit_def code_def)
    with show_nat_digits [of n] show ?thesis by (auto simp: plain_text_def list_all_iff)
  qed
  then show "plain_text (show_int i)" by (simp add: show_int_def plain_text_def)
qed

text \<open>Inside an object, a closing brace below the outermost one is passed over.\<close>

lemma passes_braces:
  assumes "passes (Suc (Suc d)) False t"
  shows "passes (Suc d) False (CHR ''{'' # t @ ''}'')"
proof -
  have "balance (Suc (Suc d)) False False (CHR ''}'' # r) = map_option Suc (balance (Suc d) False False r)" for r
    by simp
  then have "balance (Suc d) False False ((CHR ''{'' # t @ ''}'') @ r) =
      map_option (\<lambda>n. length (CHR ''{'' # t @ ''}'') + n) (balance (Suc d) False False r)" for r
    using assms by (cases "balance (Suc d) False False r") (simp_all add: passes_def)
  then show ?thesis by (simp only: passes_def simp_thms)
qed

lemma passes_dumps: "json_ok fr v \<Longrightarrow> passes (Suc d) False (dumps fr v)"
proof (induction fr v arbitrary: d rule: dumps.induct)
  case (6 fr vs)
  then have "passes (Suc d) False (join '', '' (map (dumps fr) vs))"
    by (intro passes_join) (auto simp: list_all_iff)
  then have "passes (Suc d) False (''['' @ join '', '' (map (dumps fr) vs) @ '']'')"
    by (intro passes_append) (auto intro: passes_char)
  then show ?case by simp
next
  case (7 fr kvs)
  have kv: "passes (Suc (Suc d)) False (quote (fst kv) @ '': '' @ dumps fr (snd kv))" if "kv \<in> set kvs" for kv
    using 7 that by (intro passes_append passes_quote passes_plain [of "'': ''"])
      (auto simp: plain_text_def list_all_iff)
  then show ?case by (simp del: append_Cons add: append_Cons [symmetric])
      (auto intro!: passes_braces passes_join)
qed (auto simp: passes_quote passes_int reads_back_def intro: passes_plain simp add: plain_text_def)

lemma balanced_extent:
  assumes "json_ok fr (PyDict d)"
  shows "balanced_object_at (u @ dumps fr (PyDict d) @ v) (length u) = Some (length u + length (dumps fr (PyDict d)))"
proof -
  let ?body = "join '', '' (map (\<lambda>kv. quote (fst kv) @ '': '' @ dumps fr (snd kv)) d)"
  have kv: "passes 1 False (quote (fst kv) @ '': '' @ dumps fr (snd kv))" if "kv \<in> set d" for kv
    using assms that passes_dumps [of fr "snd kv" 0]
    by (intro passes_append passes_quote passes_plain [of "'': ''"]) (auto simp: plain_text_def list_all_iff)
  then have "passes 1 False ?body" by (intro passes_join) auto
  then have "balance 0 False False (dumps fr (PyDict d) @ v) = Some (length (dumps fr (PyDict d)))"
    by (simp add: passes_def)
  moreover have "(u @ dumps fr (PyDict d) @ v) ! length u = CHR ''{''" by (simp add: nth_append)
  ultimately show ?thesis by (simp add: balanced_object_at_def)
qed

text \<open>
  The brace scanner finds the whole object: started at a JSON object printed by \<open>json.dumps\<close>,
  whatever braces and escaped quotes its strings hold and however deep it nests, it returns the
  position just past it.
\<close>

theorem balanced_object_is_exact:
  assumes "json_ok fr (PyDict d)"
  shows "balanced_object_at (u @ dumps fr (PyDict d) @ v) (length u) = Some (length u + length (dumps fr (PyDict d)))"
  using assms by (rule balanced_extent)

theorem balanced_object_is_exact_witness:
  "balanced_object_at (''x'' @ dumps (\<lambda>_. ''0.5'') (PyDict [(''a'', PyStr ''}\"'')]) @ ''}'') (length ''x'') =
     Some (length ''x'' + length (dumps (\<lambda>_. ''0.5'') (PyDict [(''a'', PyStr ''}\"'')])))"
  by (rule balanced_object_is_exact) (simp add: ascii_def code_def)

subsection \<open>What is recovered\<close>

definition first_message :: "pyval \<Rightarrow> (string \<times> pyval) list option" where
  "first_message result =
     (case result of
        PyDict r \<Rightarrow>
          (case dict_get r ''choices'' of
             Some (PyList (PyDict choice # _)) \<Rightarrow>
               (case dict_get choice ''message'' of Some (PyDict msg) \<Rightarrow> Some msg | _ \<Rightarrow> None)
           | _ \<Rightarrow> None)
      | _ \<Rightarrow> None)"

definition calls_of :: "pyval \<Rightarrow> pyval list" where
  "calls_of result =
     (case first_message result of
        Some msg \<Rightarrow> (case dict_get msg ''tool_calls'' of Some (PyList cs) \<Rightarrow> cs | _ \<Rightarrow> [])
      | None \<Rightarrow> [])"

definition allowed_call :: "(pyfloat \<Rightarrow> string) \<Rightarrow> string list \<Rightarrow> pyval \<Rightarrow> bool" where
  "allowed_call fr known call \<longleftrightarrow>
     (\<exists>cid name args s e. call = tool_call_entry cid (s, e, name, args) \<and> name \<in> set known \<and>
        ((\<exists>d. args = dumps fr (PyDict d)) \<or> loads args \<noteq> None))"

lemma candidate_arguments:
  assumes "(s, e, name, args) \<in> set (iter_candidates fr seg)"
  shows "(\<exists>d. args = dumps fr (PyDict d)) \<or> loads args \<noteq> None"
proof -
  have "xml_candidate fr seg m = Some (s, e, name, args) \<Longrightarrow> (\<exists>d. args = dumps fr (PyDict d)) \<or> loads args \<noteq> None" for m
    by (auto simp: xml_candidate_def xml_arguments_def split: prod.splits option.splits pyval.splits)
  moreover have "canonical_candidate fr seg m = Some (s, e, name, args) \<Longrightarrow> \<exists>d. args = dumps fr (PyDict d)" for m
    by (auto simp: canonical_candidate_def Let_def split: prod.splits option.splits pyval.splits if_splits)
  ultimately show ?thesis using assms
    by (auto simp: iter_candidates_def Let_def List.map_filter_def)
qed

lemma recover_choice_Some:
  assumes "recover_choice ids fr known choice = Some choice'"
  obtains msg content accepted content'
  where "dict_get choice ''message'' = Some (PyDict msg)"
    and "\<forall>c cs. dict_get msg ''tool_calls'' \<noteq> Some (PyList (c # cs))"
    and "dict_get msg ''content'' = Some (PyStr content)"
    and "recover_from fr known content = (accepted, content')" and "accepted \<noteq> []"
    and "choice' = dict_set (dict_set choice ''message''
           (PyDict (dict_set (dict_set msg ''content'' (PyStr content')) ''tool_calls''
              (PyList (map (\<lambda>(k, c). tool_call_entry (ids k) c) (enumerate 0 accepted))))))
           ''finish_reason'' (PyStr ''tool_calls'')"
  using assms
  by (auto simp: recover_choice_def Let_def split: option.splits pyval.splits list.splits if_splits prod.splits)

lemma recover_from_allowed:
  assumes "recover_from fr known content = (accepted, content')" "c \<in> set accepted"
  shows "allowed_call fr known (tool_call_entry cid c)"
proof -
  obtain s e name args where c: "c = (s, e, name, args)" by (metis prod_cases4)
  have "accepted = filter (\<lambda>(_, _, name, _). name \<in> set known) (iter_candidates fr (drop (think_split content) content))"
    using assms(1) by (simp add: recover_from_def Let_def)
  with assms(2) c have "name \<in> set known" "(s, e, name, args) \<in> set (iter_candidates fr (drop (think_split content) content))"
    by simp_all
  with candidate_arguments c show ?thesis unfolding allowed_call_def by blast
qed

lemma recovered_message:
  assumes "recover_choice ids fr known choice = Some choice'"
  shows "\<exists>msg' calls. dict_get choice' ''message'' = Some (PyDict msg') \<and>
    dict_get msg' ''tool_calls'' = Some (PyList calls) \<and> calls \<noteq> [] \<and> list_all (allowed_call fr known) calls"
  using assms
proof (rule recover_choice_Some)
  fix msg content accepted content'
  assume a: "recover_from fr known content = (accepted, content')" "accepted \<noteq> []"
    and c': "choice' = dict_set (dict_set choice ''message''
           (PyDict (dict_set (dict_set msg ''content'' (PyStr content')) ''tool_calls''
              (PyList (map (\<lambda>(k, c). tool_call_entry (ids k) c) (enumerate 0 accepted))))))
           ''finish_reason'' (PyStr ''tool_calls'')"
  let ?calls = "map (\<lambda>(k, c). tool_call_entry (ids k) c) (enumerate 0 accepted)"
  let ?msg = "dict_set (dict_set msg ''content'' (PyStr content')) ''tool_calls'' (PyList ?calls)"
  have "snd ` set (enumerate 0 accepted) = set accepted" by (metis list.set_map map_snd_enumerate)
  then have "list_all (allowed_call fr known) ?calls"
    using recover_from_allowed [OF a(1)] by (force simp: list_all_iff)
  moreover have "?calls \<noteq> []" using a(2) by (metis length_enumerate length_map length_0_conv)
  moreover have "dict_get choice' ''message'' = Some (PyDict ?msg)" by (simp add: c' dict_get_set)
  moreover have "dict_get ?msg ''tool_calls'' = Some (PyList ?calls)" by (simp add: dict_get_set)
  ultimately show ?thesis by blast
qed

text \<open>A response that recovery changes, with the choice it changes.\<close>

definition changes :: "(nat \<Rightarrow> string) \<Rightarrow> (pyfloat \<Rightarrow> string) \<Rightarrow> pyval \<Rightarrow> pyval \<Rightarrow> bool" where
  "changes ids fr result tools \<longleftrightarrow>
     (\<exists>r choice rest choice'. result = PyDict r \<and> dict_get r ''choices'' = Some (PyList (PyDict choice # rest)) \<and>
        recover_choice ids fr (extract_known_names tools) choice = Some choice')"

lemma not_changes: "\<not> changes ids fr result tools \<Longrightarrow> maybe_recover_tool_calls ids fr result tools = result"
  by (auto simp: changes_def maybe_recover_tool_calls_def split: pyval.splits option.splits list.splits)

lemma changes_ids: "changes ids' fr result tools \<longleftrightarrow> changes ids fr result tools"
proof -
  have "recover_choice ids' fr known choice = None \<longleftrightarrow> recover_choice ids fr known choice = None" for known choice
    by (simp add: recover_choice_def Let_def split: option.splits pyval.splits list.splits prod.splits)
  then show ?thesis unfolding changes_def by (metis not_Some_eq)
qed

lemma changesE:
  assumes "changes ids fr result tools"
  obtains r choice rest choice' where "result = PyDict r" "dict_get r ''choices'' = Some (PyList (PyDict choice # rest))"
    "recover_choice ids fr (extract_known_names tools) choice = Some choice'"
    "maybe_recover_tool_calls ids fr result tools = PyDict (dict_set r ''choices'' (PyList (PyDict choice' # rest)))"
  using assms by (auto simp: changes_def maybe_recover_tool_calls_def)

lemma no_calls_before:
  assumes "recover_choice ids fr known choice = Some choice'" "dict_get r ''choices'' = Some (PyList (PyDict choice # rest))"
  shows "calls_of (PyDict r) = []"
proof -
  from assms(1) obtain msg where "dict_get choice ''message'' = Some (PyDict msg)"
    and no: "\<forall>c cs. dict_get msg ''tool_calls'' \<noteq> Some (PyList (c # cs))" by (rule recover_choice_Some)
  with assms(2) have m: "first_message (PyDict r) = Some msg" by (simp add: first_message_def)
  from no show ?thesis unfolding calls_of_def m
    by (auto split: option.splits pyval.splits) (metis list.exhaust)
qed

text \<open>
  C18: Recovery invents nothing: when it changes a response, that response had no structured calls,
  and every call it adds names a function the request advertised, with arguments that are a
  printed JSON object or a string that \<open>json.loads\<close> accepts.
\<close>

theorem recovery_is_safe:
  "maybe_recover_tool_calls ids fr result tools = result \<or>
   (calls_of result = [] \<and> calls_of (maybe_recover_tool_calls ids fr result tools) \<noteq> [] \<and>
    list_all (allowed_call fr (extract_known_names tools)) (calls_of (maybe_recover_tool_calls ids fr result tools)))"
proof (cases "changes ids fr result tools")
  case True
  then obtain r choice rest choice' where r: "result = PyDict r" "dict_get r ''choices'' = Some (PyList (PyDict choice # rest))"
    and rc: "recover_choice ids fr (extract_known_names tools) choice = Some choice'"
    and m: "maybe_recover_tool_calls ids fr result tools = PyDict (dict_set r ''choices'' (PyList (PyDict choice' # rest)))"
    by (rule changesE)
  obtain msg' calls where "dict_get choice' ''message'' = Some (PyDict msg')"
    "dict_get msg' ''tool_calls'' = Some (PyList calls)" and
    calls: "calls \<noteq> []" "list_all (allowed_call fr (extract_known_names tools)) calls"
    using recovered_message [OF rc] by blast
  then have "calls_of (maybe_recover_tool_calls ids fr result tools) = calls"
    by (simp add: m calls_of_def first_message_def dict_get_set)
  with calls no_calls_before [OF rc r(2)] r(1) show ?thesis by simp
qed (simp add: not_changes)

text \<open>
  Recovery is idempotent, and a response with structured calls is left alone, whatever tools
  the request advertised.
\<close>

theorem recovery_is_idempotent:
  "maybe_recover_tool_calls ids' fr (maybe_recover_tool_calls ids fr result tools) tools =
     maybe_recover_tool_calls ids fr result tools"
proof (cases "changes ids fr result tools")
  case True
  then obtain r choice rest choice' where r: "dict_get r ''choices'' = Some (PyList (PyDict choice # rest))"
    and rc: "recover_choice ids fr (extract_known_names tools) choice = Some choice'"
    and m: "maybe_recover_tool_calls ids fr result tools = PyDict (dict_set r ''choices'' (PyList (PyDict choice' # rest)))"
    by (rule changesE)
  obtain msg' calls where "dict_get choice' ''message'' = Some (PyDict msg')"
    "dict_get msg' ''tool_calls'' = Some (PyList calls)" "calls \<noteq> []"
    using recovered_message [OF rc] by blast
  then have "recover_choice ids' fr known choice' = None" for known
    by (cases calls) (simp_all add: recover_choice_def)
  then show ?thesis by (simp add: m maybe_recover_tool_calls_def [of ids'] dict_get_set)
next
  case False
  then show ?thesis using changes_ids [of ids' fr result tools ids] by (simp add: not_changes)
qed

subsection \<open>A call after prose is found\<close>

lemma finditer_skip:
  "(\<And>k. k < length u \<Longrightarrow> m (drop k u @ s) = None) \<Longrightarrow> finditer m i (u @ s) = finditer m (i + length u) s"
proof (induction u arbitrary: i)
  case (Cons c u)
  from Cons.prems [of 0] have "m (c # u @ s) = None" by simp
  moreover have "finditer m (Suc i) (u @ s) = finditer m (Suc i + length u) s"
    using Cons.prems [of "Suc _"] by (intro Cons.IH) force
  ultimately show ?case by simp
qed simp

lemma finditer_ascending:
  "sorted (map fst (finditer m i s)) \<and> distinct (map fst (finditer m i s)) \<and>
   (\<forall>x \<in> set (finditer m i s). i \<le> fst x)"
proof (induction m i s rule: finditer.induct)
  case (2 m i c cs)
  show ?case
  proof (cases "m (c # cs)")
    case None
    with 2 show ?thesis by (auto dest: Suc_leD)
  next
    case (Some xn)
    obtain x n where xn: "xn = (x, n)" by force
    let ?rest = "finditer m (i + max 1 n) (drop (max 1 n) (c # cs))"
    have "sorted (map fst ?rest) \<and> distinct (map fst ?rest) \<and> (\<forall>x \<in> set ?rest. i + max 1 n \<le> fst x)"
      by (rule "2.IH"(2) [OF Some xn [symmetric]])
    moreover have "finditer m i (c # cs) = (i, x) # ?rest" using Some xn by simp
    moreover have "i + max 1 n > i" by simp
    ultimately show ?thesis by (auto simp del: finditer.simps drop_Suc_Cons)
  qed
qed simp

lemma finditer_none: "(\<And>k. m (drop k s) = None) \<Longrightarrow> finditer m i s = []"
proof (induction s arbitrary: i)
  case (Cons c s)
  from Cons.prems [of 0] have "m (c # s) = None" by simp
  moreover have "finditer m (Suc i) s = []" using Cons.prems [of "Suc _"] by (intro Cons.IH) force
  ultimately show ?case by simp
qed simp

lemma no_xml: "\<not> contains XML_OPEN s \<Longrightarrow> xml_match (drop k s) = None"
proof -
  assume "\<not> contains XML_OPEN s"
  then have "\<not> starts_with XML_OPEN (drop k s)"
    by (metis append_take_drop_id contains_iff starts_with_iff)
  then show ?thesis by (simp add: xml_match_def)
qed

lemma lazy_until_exists: "f t \<noteq> None \<Longrightarrow> \<exists>n. lazy_until f (s @ t) = Some n"
proof (induction s)
  case Nil
  then show ?case by (cases t) (auto split: option.splits)
next
  case (Cons c s)
  then show ?case by (auto split: option.splits)
qed

definition call_prefix :: "string \<Rightarrow> string" where
  "call_prefix name = ''{'' @ QUOTE @ ''name'' @ QUOTE @ '': '' @ QUOTE @ name @ QUOTE @ '', '' @ QUOTE @ ''arguments'' @ QUOTE @ '': ''"

text \<open>The canonical text of a call.\<close>

definition call_text :: "(pyfloat \<Rightarrow> string) \<Rightarrow> string \<Rightarrow> (string \<times> pyval) list \<Rightarrow> string" where
  "call_text fr name d = call_prefix name @ dumps fr (PyDict d) @ ''}''"

lemma lstrip_simps [simp]:
  "lstrip (CHR '' '' # s) = lstrip s" "lstrip (CHR 0x22 # s) = CHR 0x22 # s" "lstrip (CHR '','' # s) = CHR '','' # s"
  "lstrip (CHR '':'' # s) = CHR '':'' # s" "lstrip (CHR ''{'' # s) = CHR ''{'' # s" "lstrip (CHR ''}'' # s) = CHR ''}'' # s"
  by (simp_all add: lstrip_def is_space_def code_def)

lemma eat_append: "eat p (p @ s) = Some s"
  by (simp add: starts_with_def)

lemma canonical_match_call:
  assumes "name \<noteq> []" "CHR 0x22 \<notin> set name"
  shows "\<exists>n. canonical_match (call_prefix name @ (CHR ''{'' # t @ ''}}'') @ v) =
    Some ((name, length (call_prefix name)), n)"
proof -
  have tw: "takeWhile (\<lambda>c. c \<noteq> CHR 0x22) (name @ CHR 0x22 # r) = name" for r
    using assms(2) by (simp add: takeWhile_append2 takeWhile_tail)
       (metis (mono_tags, lifting) append_Nil2 takeWhile.simps(2) takeWhile_append2)?
  have "close_then ''}'' (''}}'' @ v) \<noteq> None" by (simp add: close_then_def starts_with_def)
  then obtain n where "lazy_until (close_then ''}'') (t @ ''}}'' @ v) = Some n"
    using lazy_until_exists by blast
  with assms(1) tw show ?thesis
    by (simp add: canonical_match_def call_prefix_def QUOTE_def eat_ws_def starts_with_def Let_def)
qed

lemma sort_key_id: "sorted (map fst xs) \<Longrightarrow> sort_key fst xs = xs"
  by (induction xs) (simp_all add: insort_is_Cons)

lemma map_filter_Cons: "List.map_filter f (x # xs) = (case f x of None \<Rightarrow> List.map_filter f xs | Some y \<Rightarrow> y # List.map_filter f xs)"
  by (simp add: List.map_filter_def split: option.splits)

lemma set_map_filter: "y \<in> set (List.map_filter f xs) \<longleftrightarrow> (\<exists>x \<in> set xs. f x = Some y)"
  by (induction xs) (auto simp: map_filter_Cons List.map_filter_def [of _ "[]"] split: option.splits)

lemma canonical_start: "canonical_candidate fr s m = Some c \<Longrightarrow> fst c = fst m"
  by (auto simp: canonical_candidate_def Let_def split: prod.splits option.splits pyval.splits if_splits)

lemma candidates_ascending:
  "sorted (map fst ms) \<Longrightarrow> sorted (map fst (List.map_filter (canonical_candidate fr s) ms))"
proof (induction ms)
  case (Cons m ms)
  have "\<forall>c \<in> set (List.map_filter (canonical_candidate fr s) ms). fst m \<le> fst c"
    using Cons.prems canonical_start by (fastforce simp: set_map_filter)
  moreover have "fst c = fst m" if "canonical_candidate fr s m = Some c" for c
    using that by (rule canonical_start)
  ultimately show ?case using Cons by (cases "canonical_candidate fr s m") (auto simp: map_filter_Cons)
qed (simp add: List.map_filter_def)

lemma canonical_candidate_call:
  assumes ok: "json_ok fr (PyDict d)" and s: "s = u @ call_text fr name d @ v"
  shows "canonical_candidate fr s (length u, name, length (call_prefix name)) =
    Some (length u, length u + length (call_text fr name d), name, dumps fr (PyDict d))"
proof -
  let ?a = "dumps fr (PyDict d)"
  let ?u = "u @ call_prefix name"
  have s': "s = ?u @ ?a @ ''}'' @ v" by (simp add: s call_text_def)
  have "balanced_object_at s (length ?u) = Some (length ?u + length ?a)"
    unfolding s' by (rule balanced_extent [OF ok])
  moreover have "slice s (length ?u) (length ?u + length ?a) = ?a" by (simp add: s' slice_def)
  moreover have "drop (length ?u + length ?a) s = ''}'' @ v" by (simp add: s')
  moreover have "\<not> outer_ws (CHR ''}'')" by code_simp
  ultimately show ?thesis
    by (simp add: canonical_candidate_def loads_dumps [OF ok] Let_def starts_with_def del: dumps.simps)
       (simp add: s call_text_def del: dumps.simps)
qed

text \<open>
  A call written after prose is recovered exactly: if the model's text is brace-free prose, then
  the canonical text of a call of an advertised function, then anything without the XML tag
  or a closing think tag, the first recovered call is that function with exactly those
  arguments, and its span is exactly the text of the call.
\<close>

theorem prose_call_is_recovered:
  assumes "json_ok fr (PyDict d)" "name \<noteq> []" "CHR 0x22 \<notin> set name" "name \<in> set known"
    and "CHR ''{'' \<notin> set u"
    and "\<not> contains XML_OPEN (u @ call_text fr name d @ v)"
    and "\<not> contains ''</think>'' (u @ call_text fr name d @ v)"
  shows "\<exists>more. fst (recover_from fr known (u @ call_text fr name d @ v)) =
    (length u, length u + length (call_text fr name d), name, dumps fr (PyDict d)) # more"
proof -
  let ?s = "u @ call_text fr name d @ v"
  let ?c = "(length u, length u + length (call_text fr name d), name, dumps fr (PyDict d))"
  obtain t where t: "dumps fr (PyDict d) = CHR ''{'' # t @ ''}''" by simp
  have ct: "call_text fr name d @ v = call_prefix name @ (CHR ''{'' # t @ ''}}'') @ v"
    by (simp add: call_text_def t del: dumps.simps)
  obtain n where cm: "canonical_match (call_text fr name d @ v) = Some ((name, length (call_prefix name)), n)"
    using canonical_match_call [OF assms(2,3)] ct by metis
  have "canonical_match (drop k u @ call_text fr name d @ v) = None" if "k < length u" for k
  proof -
    from that obtain x xs where "drop k u = x # xs" "x \<in> set u"
      by (metis Cons_nth_drop_Suc nth_mem)
    with assms(5) have "\<not> starts_with ''{'' (drop k u @ call_text fr name d @ v)" by (auto simp: starts_with_def)
    then show ?thesis by (simp add: canonical_match_def eat_ws_def)
  qed
  then have "finditer canonical_match 0 ?s = finditer canonical_match (length u) (call_text fr name d @ v)"
    using finditer_skip [of u canonical_match "call_text fr name d @ v" 0] by simp
  moreover obtain x xs where "call_text fr name d @ v = x # xs" by (simp add: call_text_def call_prefix_def)
  ultimately obtain ms where ms: "finditer canonical_match 0 ?s = (length u, name, length (call_prefix name)) # ms"
    using cm by simp
  have xml: "finditer xml_match 0 ?s = []" using no_xml [OF assms(6)] by (rule finditer_none)
  let ?found = "List.map_filter (canonical_candidate fr ?s) (finditer canonical_match 0 ?s)"
  have "sorted (map fst ?found)"
    using finditer_ascending [of canonical_match 0 ?s] by (intro candidates_ascending) blast
  then have "sort_key fst ?found = ?found" by (rule sort_key_id)
  moreover have "List.map_filter (xml_candidate fr ?s) (finditer xml_match 0 ?s) = []"
    by (simp add: xml List.map_filter_def)
  moreover have "filter (\<lambda>m. \<not> in_covered [] (fst m)) xs = xs" for xs :: "(nat \<times> string \<times> nat) list"
    by (simp add: in_covered_def)
  ultimately have "iter_candidates fr ?s = ?found"
    by (simp only: iter_candidates_def Let_def append_Nil)
  moreover have "?found = ?c # List.map_filter (canonical_candidate fr ?s) ms"
    by (simp add: ms map_filter_Cons canonical_candidate_call [OF assms(1) refl] del: dumps.simps)
  moreover have "think_split ?s = 0"
    using assms(7) by (simp add: think_split_def rfind_sub_None [THEN iffD2] split: option.splits)
  ultimately show ?thesis using assms(4) by (simp add: recover_from_def Let_def del: dumps.simps)
qed

theorem prose_call_is_recovered_witness:
  "\<exists>more. fst (recover_from (\<lambda>_. ''0.5'') [''ls''] (''ok '' @ call_text (\<lambda>_. ''0.5'') ''ls'' [] @ ''!'')) =
    (length ''ok '', length ''ok '' + length (call_text (\<lambda>_. ''0.5'') ''ls'' []), ''ls'', dumps (\<lambda>_. ''0.5'') (PyDict [])) # more"
proof (rule prose_call_is_recovered)
  have lit: "''ok '' @ call_text (\<lambda>_. ''0.5'') ''ls'' [] @ ''!'' = ''ok {\"name\": \"ls\", \"arguments\": {}}!''"
    by (simp add: call_text_def call_prefix_def QUOTE_def)
  show "\<not> contains XML_OPEN (''ok '' @ call_text (\<lambda>_. ''0.5'') ''ls'' [] @ ''!'')" unfolding lit by code_simp
  show "\<not> contains ''</think>'' (''ok '' @ call_text (\<lambda>_. ''0.5'') ''ls'' [] @ ''!'')" unfolding lit by code_simp
qed simp_all

subsection \<open>Nested calls\<close>

definition nested_call :: string where
  "nested_call = ''{\"name\":\"run\",\"arguments\":{\"o\":{\"x\":{}},\"c\":{\"name\":\"rm\",\"arguments\":{}}}} bye''"

text \<open>
  Data inside the arguments of a call can be taken for a second call: after an object that closes
  two braces at once, the search resumes inside the arguments, so an argument shaped like a
  call of an advertised function is returned as a call of its own, and cutting the two
  overlapping spans deletes the text that follows.
\<close>

theorem nested_argument_becomes_a_call:
  "recover_from (\<lambda>_. ''0.5'') [''run'', ''rm''] nested_call =
     ([(0, 74, ''run'', ''{\"o\": {\"x\": {}}, \"c\": {\"name\": \"rm\", \"arguments\": {}}}''),
       (44, 72, ''rm'', ''{}'')], [])"
  by code_simp

end
