(* ===== verification/ChatReply.thy ===== *)
theory ChatReply
  imports ChatRequest ToolCalls
begin

text \<open>
  What \<open>api/chat_completion.py\<close> does with a sidecar's answer: the completion function with its one
  retry for thinking models under a JSON schema, the typed errors and the HTTP status each
  becomes, the merge of reasoning into the content, and the reshaping into Ollama's form. The
  HTTP exchange is the list of replies, in order; \<open>jsonschema\<close> validation and the ISO date of
  a time stamp are parameters.
\<close>

subsection \<open>Thinking\<close>

definition THINK_CLOSE :: string where "THINK_CLOSE = ''</think>''"

definition strip_thinking_wrapper :: "pyval \<Rightarrow> pyval" where
  "strip_thinking_wrapper content =
     (case content of
        PyStr s \<Rightarrow>
          (case rfind_sub THINK_CLOSE s of
             Some i \<Rightarrow> PyStr (lstrip (drop (i + length THINK_CLOSE) s))
           | None \<Rightarrow> PyStr s)
      | v \<Rightarrow> v)"

text \<open>\<open>int(rb) > 0\<close> with \<open>TypeError\<close> and \<open>ValueError\<close> answered by \<open>False\<close>.\<close>

definition is_thinking_payload :: "(string \<times> pyval) list \<Rightarrow> py_exception + bool" where
  "is_thinking_payload manifest =
     (case (case dict_get manifest ''reasoning_budget'' of None \<Rightarrow> PyInt 0 | Some v \<Rightarrow> v) of
        PyInt i \<Rightarrow> Inr (0 < i)
      | PyBool b \<Rightarrow> Inr b
      | PyFloat (Finite x) \<Rightarrow> Inr (0 < trunc_rat x)
      | PyFloat NaN \<Rightarrow> Inr False
      | PyFloat _ \<Rightarrow> Inl OverflowError
      | PyStr s \<Rightarrow> Inr (case py_int s of Some v \<Rightarrow> 0 < v | None \<Rightarrow> False)
      | _ \<Rightarrow> Inr False)"

definition wants_json :: "pyval \<Rightarrow> bool" where
  "wants_json rf =
     (case rf of
        PyDict d \<Rightarrow> get_or_none d ''type'' \<in> {PyStr ''json_object'', PyStr ''json_schema''}
      | _ \<Rightarrow> False)"

definition merged_content :: "string \<Rightarrow> string \<Rightarrow> string" where
  "merged_content rc ct =
     (let think = ''<think>'' @ [newline] @ strip rc @ [newline] @ THINK_CLOSE in
      if strip ct = [] then think else think @ [newline, newline] @ ct)"

definition merge_choice :: "pyval \<Rightarrow> pyval" where
  "merge_choice ch =
     (case ch of
        PyDict c \<Rightarrow>
          (case dict_get c ''message'' of
             Some (PyDict msg) \<Rightarrow>
               (let rc = get_or_none msg ''reasoning_content''; ct = get_or_none msg ''content'' in
                case (if truthy rc then rc else PyStr [], if truthy ct then ct else PyStr []) of
                  (PyStr r, PyStr t) \<Rightarrow>
                    if strip r = [] then ch
                    else PyDict (dict_set c ''message''
                           (PyDict (dict_set msg ''content'' (PyStr (merged_content r t)))))
                | _ \<Rightarrow> ch)
           | _ \<Rightarrow> ch)
      | _ \<Rightarrow> ch)"

definition merge_reasoning_into_content :: "pyval \<Rightarrow> pyval \<Rightarrow> pyval" where
  "merge_reasoning_into_content result rf =
     (case result of
        PyDict r \<Rightarrow>
          if wants_json rf then result
          else (case dict_get r ''choices'' of
             Some (PyList cs) \<Rightarrow> PyDict (dict_set r ''choices'' (PyList (map merge_choice cs)))
           | _ \<Rightarrow> result)
      | _ \<Rightarrow> result)"

subsection \<open>The completion function\<close>

datatype sidecar_error =
    Unavailable
  | TimedOut
  | Upstream nat string
  | Evicted
  | RuntimeFailure string
  | Raised py_exception

datatype reply = Reply nat "pyval option" string | NetworkFailure | TimeoutFailure

text \<open>\<open>raise_for_status\<close>, then \<open>r.json()\<close>.\<close>

fun reply_json :: "reply \<Rightarrow> sidecar_error + pyval" where
  "reply_json (Reply status body txt) =
     (if 200 \<le> status \<and> status < 300 then (case body of Some v \<Rightarrow> Inr v | None \<Rightarrow> Inl (Raised ValueError))
      else Inl (Upstream status (take 500 txt)))"
| "reply_json NetworkFailure = Inl Unavailable"
| "reply_json TimeoutFailure = Inl TimedOut"

text \<open>
  \<open>result["choices"][0]["message"].get("content") or ""\<close>: the lookup errors the caller catches are
  \<open>None\<close>, the attribute error it does not is raised.
\<close>

definition content_of :: "pyval \<Rightarrow> sidecar_error + pyval option" where
  "content_of result =
     (case result of
        PyDict r \<Rightarrow>
          (case dict_get r ''choices'' of
             Some (PyList (PyDict c # _)) \<Rightarrow>
               (case dict_get c ''message'' of
                  Some (PyDict m) \<Rightarrow>
                    Inr (Some (let v = get_or_none m ''content'' in if truthy v then v else PyStr []))
                | Some _ \<Rightarrow> Inl (Raised AttributeError)
                | None \<Rightarrow> Inr None)
           | _ \<Rightarrow> Inr None)
      | _ \<Rightarrow> Inr None)"

definition text_valid :: "(pyval \<Rightarrow> bool) \<Rightarrow> pyval option \<Rightarrow> bool" where
  "text_valid valid content =
     (case content of None \<Rightarrow> False
      | Some c \<Rightarrow>
          (case strip_thinking_wrapper c of
             PyStr t \<Rightarrow> (case loads t of None \<Rightarrow> False | Some v \<Rightarrow> valid v)
           | _ \<Rightarrow> False))"

definition answer_valid :: "(pyval \<Rightarrow> bool) \<Rightarrow> pyval \<Rightarrow> sidecar_error + bool" where
  "answer_valid valid result = rbind (content_of result) (\<lambda>c. Inr (text_valid valid c))"

definition is_jinja :: "pyval \<Rightarrow> bool" where
  "is_jinja v = (case v of PyStr s \<Rightarrow> contains ''{{'' s \<or> contains ''{%'' s | _ \<Rightarrow> False)"

definition safe_template_kwargs :: "pyval \<Rightarrow> (string \<times> pyval) list" where
  "safe_template_kwargs raw =
     (case raw of
        PyDict kvs \<Rightarrow>
          fold (\<lambda>(k, v) d. if is_jinja v \<or> k \<noteq> ''enable_thinking'' then d else dict_set d k v) kvs
            [(''enable_thinking'', PyBool False)]
      | _ \<Rightarrow> [(''enable_thinking'', PyBool False)])"

definition retry_payload :: "(string \<times> pyval) list \<Rightarrow> (string \<times> pyval) list" where
  "retry_payload payload =
     dict_set payload ''chat_template_kwargs''
       (PyDict (safe_template_kwargs
          (let raw = get_or_none payload ''chat_template_kwargs'' in if truthy raw then raw else PyDict [])))"

definition schema_of :: "pyval \<Rightarrow> sidecar_error + pyval" where
  "schema_of rf =
     (case rf of
        PyDict d \<Rightarrow>
          (case dict_get d ''json_schema'' of
             None \<Rightarrow> Inr (PyDict [])
           | Some (PyDict js) \<Rightarrow> Inr (let s = get_or_none js ''schema'' in if truthy s then s else PyDict [])
           | Some _ \<Rightarrow> Inl (Raised AttributeError))
      | _ \<Rightarrow> Inr (PyDict []))"

record reply_env =
  re_lib :: bool
  re_valid :: "pyval \<Rightarrow> pyval \<Rightarrow> bool"
  re_float :: "pyfloat \<Rightarrow> string"
  re_ids :: "nat \<Rightarrow> string"

definition checks_schema :: "reply_env \<Rightarrow> (string \<times> pyval) list \<Rightarrow> sidecar_error + bool" where
  "checks_schema env meta =
     (case get_or_none meta ''response_format'' of
        PyDict rf \<Rightarrow>
          if get_or_none rf ''type'' = PyStr ''json_schema'' then
            (case is_thinking_payload (case get_or_none meta ''thinking_manifest'' of PyDict m \<Rightarrow> m | _ \<Rightarrow> []) of
               Inl e \<Rightarrow> Inl (Raised e)
             | Inr b \<Rightarrow> Inr (b \<and> re_lib env))
          else Inr False
      | _ \<Rightarrow> Inr False)"

text \<open>
  The answer after at most one retry, and the payloads posted; \<open>replies\<close> are the sidecar's answers to
  the first and the second post.
\<close>

definition validated_answer ::
  "reply_env \<Rightarrow> (string \<times> pyval) list \<Rightarrow> (string \<times> pyval) list \<Rightarrow> reply \<Rightarrow> reply
     \<Rightarrow> (sidecar_error + pyval) \<times> (string \<times> pyval) list list" where
  "validated_answer env meta payload r1 r2 =
     (case reply_json r1 of Inl e \<Rightarrow> (Inl e, [payload])
      | Inr result \<Rightarrow>
          (case checks_schema env meta of Inl e \<Rightarrow> (Inl e, [payload])
           | Inr False \<Rightarrow> (Inr result, [payload])
           | Inr True \<Rightarrow>
               (case schema_of (get_or_none meta ''response_format'') of Inl e \<Rightarrow> (Inl e, [payload])
                | Inr schema \<Rightarrow>
                    (case answer_valid (re_valid env schema) result of Inl e \<Rightarrow> (Inl e, [payload])
                     | Inr True \<Rightarrow> (Inr result, [payload])
                     | Inr False \<Rightarrow>
                         (rbind (reply_json r2) (\<lambda>retry.
                            rbind (answer_valid (re_valid env schema) retry) (\<lambda>ok.
                              if ok then Inr retry
                              else Inl (Upstream 200 ''model_jsonschema_noncompliance_after_retry''))),
                          [payload, retry_payload payload])))))"

definition complete ::
  "reply_env \<Rightarrow> pyval \<Rightarrow> (string \<times> pyval) list \<Rightarrow> reply \<Rightarrow> reply
     \<Rightarrow> (sidecar_error + pyval option) \<times> (string \<times> pyval) list list" where
  "complete env model meta r1 r2 =
     (let messages = get_or_none meta ''messages'' in
      if \<not> truthy messages then (Inr None, [])
      else
        (case validated_answer env meta (build_plain_payload meta model messages) r1 r2 of
           (res, posts) \<Rightarrow>
             (rbind res (\<lambda>result.
                Inr (Some (maybe_recover_tool_calls (re_ids env) (re_float env)
                  (merge_reasoning_into_content result (get_or_none meta ''response_format''))
                  (get_or_none meta ''tools'')))),
              posts)))"

subsection \<open>Errors at the route\<close>

fun route_error :: "sidecar_error \<Rightarrow> http_error" where
  "route_error Evicted = HttpError 499 ''client_closed_request'' None"
| "route_error Unavailable = HttpError 503 ''sidecar_unavailable'' (Some 30)"
| "route_error TimedOut = HttpError 504 ''sidecar_timeout'' (Some 60)"
| "route_error (Upstream st body) = HttpError 502 ''upstream_sidecar_error'' None"
| "route_error (RuntimeFailure msg) = HttpError 500 ''sidecar failed'' None"
| "route_error (Raised e) = Unhandled e"

definition openai_route :: "sidecar_error + pyval option \<Rightarrow> http_error + pyval" where
  "openai_route outcome =
     (case outcome of
        Inl e \<Rightarrow> Inl (route_error e)
      | Inr None \<Rightarrow> Inl (HttpError 503 ''no completion_fn wired'' None)
      | Inr (Some v) \<Rightarrow> Inr v)"

subsection \<open>Ollama's shape\<close>

definition MAX_TOOL_ARG_CHARS :: nat where "MAX_TOOL_ARG_CHARS = 262144"

definition coerce_created_at :: "(int \<Rightarrow> string) \<Rightarrow> pyval \<Rightarrow> pyval" where
  "coerce_created_at iso8601 v =
     (case v of PyInt i \<Rightarrow> PyStr (iso8601 i) | PyBool b \<Rightarrow> PyStr (iso8601 (if b then 1 else 0)) | v \<Rightarrow> v)"

definition ollama_arguments :: "pyval \<Rightarrow> pyval" where
  "ollama_arguments args =
     (case args of
        PyStr s \<Rightarrow>
          (let t = (if MAX_TOOL_ARG_CHARS < length s then take MAX_TOOL_ARG_CHARS s else s) in
           case loads t of Some v \<Rightarrow> v | None \<Rightarrow> PyStr t)
      | v \<Rightarrow> v)"

text \<open>One tool call; \<open>None\<close> is the attribute error of a call that is not an object.\<close>

definition ollama_call :: "pyval \<Rightarrow> pyval option" where
  "ollama_call tc =
     (case tc of
        PyDict t \<Rightarrow>
          (case (let f = get_or_none t ''function'' in if truthy f then f else PyDict []) of
             PyDict fn \<Rightarrow>
               Some (PyDict
                 ((''function'', PyDict [(''name'', get_or_none fn ''name''),
                     (''arguments'', ollama_arguments (case dict_get fn ''arguments'' of None \<Rightarrow> PyStr ''{}'' | Some a \<Rightarrow> a))]) #
                  (let i = get_or_none t ''id'' in if truthy i then [(''id'', i)] else [])))
           | _ \<Rightarrow> None)
      | _ \<Rightarrow> None)"

fun all_some :: "'a option list \<Rightarrow> 'a list option" where
  "all_some [] = Some []"
| "all_some (x # xs) = (case (x, all_some xs) of (Some y, Some ys) \<Rightarrow> Some (y # ys) | _ \<Rightarrow> None)"

definition ollama_tool_calls :: "pyval \<Rightarrow> (string \<times> pyval) list option" where
  "ollama_tool_calls tcs =
     (if \<not> truthy tcs then Some []
      else case tcs of
        PyList cs \<Rightarrow> map_option (\<lambda>vs. [(''tool_calls'', PyList vs)]) (all_some (map ollama_call cs))
      | _ \<Rightarrow> None)"

definition done_reason :: "pyval \<Rightarrow> string option" where
  "done_reason fr =
     (case fr of
        PyStr s \<Rightarrow> Some (if s = ''length'' then ''length'' else ''stop'')
      | PyList _ \<Rightarrow> None
      | PyDict _ \<Rightarrow> None
      | _ \<Rightarrow> Some ''stop'')"

definition ollama_shape :: "(int \<Rightarrow> string) \<Rightarrow> pyval \<Rightarrow> string \<Rightarrow> (string \<times> pyval) list \<Rightarrow> pyval option" where
  "ollama_shape iso8601 model thread result =
     (if dict_get result ''error'' \<noteq> None then Some (PyDict result)
      else case dict_get result ''choices'' of
        None \<Rightarrow> Some (PyDict result)
      | Some (PyList (choice # _)) \<Rightarrow>
          (case (case choice of
                   PyDict c \<Rightarrow> (case dict_get c ''message'' of None \<Rightarrow> Some [] | Some (PyDict m) \<Rightarrow> Some m | Some _ \<Rightarrow> None)
                 | _ \<Rightarrow> Some [],
                 done_reason (case choice of PyDict c \<Rightarrow> get_or_none c ''finish_reason'' | _ \<Rightarrow> PyNone)) of
             (Some msg, Some reason) \<Rightarrow>
               map_option (\<lambda>calls.
                 PyDict [(''model'', model), (''created_at'', coerce_created_at iso8601 (get_or_none result ''created'')),
                   (''message'', PyDict ([(''role'', PyStr ''assistant''),
                      (''content'', case dict_get msg ''content'' of None \<Rightarrow> PyStr [] | Some c \<Rightarrow> c)] @ calls)),
                   (''done'', PyBool True), (''done_reason'', PyStr reason), (''thread_id'', PyStr thread)])
                 (ollama_tool_calls (get_or_none msg ''tool_calls''))
           | _ \<Rightarrow> None)
      | Some _ \<Rightarrow> None)"

subsection \<open>The retry\<close>

lemma retry_payload_plain:
  assumes "get_or_none payload ''chat_template_kwargs'' = PyNone"
  shows "retry_payload payload = dict_set payload ''chat_template_kwargs'' (PyDict [(''enable_thinking'', PyBool False)])"
  using assms by (simp add: retry_payload_def safe_template_kwargs_def)

lemma plain_payload_kwargs: "get_or_none (build_plain_payload meta model messages) ''chat_template_kwargs'' = PyNone"
proof -
  have "''chat_template_kwargs'' \<notin> set COMMON_FORWARDED_KNOBS" by (simp add: COMMON_FORWARDED_KNOBS_def)
  then show ?thesis by (simp add: build_plain_payload_def get_or_none_def [of "set_all _ _"] set_all_get)
      (simp add: dict_get_def)
qed

lemma validated_answer_posts:
  "snd (validated_answer env meta payload r1 r2) = [payload] \<or>
   (checks_schema env meta = Inr True \<and> snd (validated_answer env meta payload r1 r2) = [payload, retry_payload payload])"
  by (simp add: validated_answer_def split: sum.splits bool.splits)

text \<open>
  A completion costs at most one retry: the sidecar is asked once, or not at all without
  messages; only for a thinking model under a JSON schema is it asked a second time, with the
  same payload and thinking switched off, whatever the client put in the request.
\<close>

theorem one_retry_without_thinking:
  fixes env meta model r1 r2
  defines "payload \<equiv> build_plain_payload meta model (get_or_none meta ''messages'')"
  shows "snd (complete env model meta r1 r2) \<in>
           {[], [payload], [payload, dict_set payload ''chat_template_kwargs'' (PyDict [(''enable_thinking'', PyBool False)])]} \<and>
         (length (snd (complete env model meta r1 r2)) = 2 \<longrightarrow> checks_schema env meta = Inr True)"
  using validated_answer_posts [of env meta payload r1 r2] retry_payload_plain [of payload]
    plain_payload_kwargs [of meta model "get_or_none meta ''messages''"]
  by (auto simp: complete_def Let_def payload_def split: prod.splits)

lemma validated_answer_valid:
  assumes "validated_answer env meta payload r1 r2 = (Inr v, posts)" "checks_schema env meta = Inr True"
    and "schema_of (get_or_none meta ''response_format'') = Inr schema"
  shows "answer_valid (re_valid env schema) v = Inr True"
  using assms by (auto simp: validated_answer_def split: sum.splits bool.splits if_splits)

lemma checks_wants_json: "checks_schema env meta = Inr True \<Longrightarrow> wants_json (get_or_none meta ''response_format'')"
  by (auto simp: checks_schema_def wants_json_def split: pyval.splits if_splits sum.splits)

lemma no_tools_no_recovery: "maybe_recover_tool_calls ids fr result PyNone = result"
proof -
  have "recover_choice ids fr [] choice = None" for choice
    by (simp add: recover_choice_def split: option.splits pyval.splits list.splits)
  then show ?thesis
    by (simp add: maybe_recover_tool_calls_def extract_known_names_def split: option.splits pyval.splits list.splits)
qed


definition example_reply_env :: reply_env where
  "example_reply_env = \<lparr>re_lib = True, re_valid = (\<lambda>schema v. v = PyInt 1), re_float = (\<lambda>_. ''0.5''), re_ids = (\<lambda>_. [])\<rparr>"

definition schema_meta :: "(string \<times> pyval) list" where
  "schema_meta = [(''messages'', PyList [PyNone]),
     (''response_format'', PyDict [(''type'', PyStr ''json_schema''), (''json_schema'', PyDict [(''schema'', PyDict [])])]),
     (''thinking_manifest'', PyDict [(''reasoning_budget'', PyInt 5)])]"

definition answer_with :: "string \<Rightarrow> pyval" where
  "answer_with t = PyDict [(''choices'', PyList [PyDict [(''message'', PyDict [(''content'', PyStr t)])]])]"


subsection \<open>Reasoning and content\<close>

lemma starts_with_hd: "starts_with (c # p) (d # s) \<Longrightarrow> c = d"
  by (simp add: starts_with_def)

lemma rfind_think:
  assumes "\<not> contains THINK_CLOSE v"
  shows "rfind_sub THINK_CLOSE (u @ THINK_CLOSE @ v) = Some (length u)"
proof (cases "rfind_sub THINK_CLOSE (u @ THINK_CLOSE @ v)")
  case None
  then show ?thesis by (auto simp: rfind_sub_None contains_iff)
next
  case (Some i)
  have here: "starts_with THINK_CLOSE (drop (length u) (u @ THINK_CLOSE @ v))" by (simp add: starts_with_def)
  have "length u \<le> i"
  proof (rule ccontr)
    assume "\<not> length u \<le> i"
    then obtain k where "drop (Suc i) (u @ THINK_CLOSE @ v) = k @ THINK_CLOSE @ v"
      by (metis Suc_leI append_take_drop_id drop_append diff_is_0_eq drop0 linorder_not_le)
    with rfind_sub_last [OF Some] show False by (auto simp: THINK_CLOSE_def contains_iff)
  qed
  moreover have False if k: "i = length u + k" "0 < k" "k < length THINK_CLOSE" for k
  proof -
    from rfind_sub_Some [OF Some] k(1) have "starts_with THINK_CLOSE (drop k (THINK_CLOSE @ v))" by simp
    moreover from k(2,3) have "k \<in> {1, 2, 3, 4, 5, 6, 7}" by (auto simp: THINK_CLOSE_def)
    ultimately show False by (auto simp: THINK_CLOSE_def starts_with_def)
  qed
  moreover have False if k: "i = length u + k" "length THINK_CLOSE \<le> k" for k
  proof -
    from rfind_sub_Some [OF Some] k have "starts_with THINK_CLOSE (drop (k - length THINK_CLOSE) v)" by simp
    with assms show False by (metis append_take_drop_id contains_iff starts_with_iff)
  qed
  ultimately have "i = length u" by (metis le_iff_add linorder_not_le not_gr_zero add_0_right)
  with Some show ?thesis by simp
qed

text \<open>
  Merging the reasoning loses no answer: a client that strips the think wrapper gets the answer
  back, up to leading white space, whenever the answer itself holds no closing think tag.
\<close>

theorem merged_answer_is_recoverable:
  assumes "\<not> contains THINK_CLOSE ct"
  shows "strip_thinking_wrapper (PyStr (merged_content rc ct)) = PyStr (if strip ct = [] then [] else lstrip ct)"
proof -
  let ?t = "''<think>'' @ [newline] @ strip rc @ [newline]"
  have nl: "is_space newline" by code_simp
  show ?thesis
  proof (cases "strip ct = []")
    case True
    have "\<not> contains THINK_CLOSE []" by (simp add: THINK_CLOSE_def)
    from rfind_think [OF this, of ?t] True show ?thesis
      by (simp add: strip_thinking_wrapper_def merged_content_def lstrip_def)
  next
    case False
    have "\<not> contains THINK_CLOSE (newline # newline # ct)"
      using assms by (simp add: THINK_CLOSE_def newline_def starts_with_def)
    from rfind_think [OF this, of ?t] False nl show ?thesis
      by (simp add: strip_thinking_wrapper_def merged_content_def lstrip_def)
  qed
qed

theorem merged_answer_is_recoverable_witness:
  "strip_thinking_wrapper (PyStr (merged_content ''why'' ''because'')) =
     PyStr (if strip ''because'' = [] then [] else lstrip ''because'')"
proof (rule merged_answer_is_recoverable)
  show "\<not> contains THINK_CLOSE ''because''" by code_simp
qed

subsection \<open>Statuses\<close>

text \<open>
  What a client sees of an upstream failure; back-pressure (a full or closed queue is a
  \<open>RuntimeError\<close>) has the status of an internal fault.
\<close>

lemma route_error_statuses:
  "route_error e = HttpError st detail ra \<Longrightarrow> st \<in> {499, 500, 502, 503, 504} \<and> (ra \<noteq> None \<longleftrightarrow> st \<in> {503, 504})"
  by (cases e) auto

lemma queue_full_is_internal_error:
  "route_error (RuntimeFailure ''queue full'') = HttpError 500 ''sidecar failed'' None"
  by simp

subsection \<open>Ollama's tool calls\<close>

lemma all_some_map: "all_some (map f xs) = Some ys \<Longrightarrow> length ys = length xs \<and> (\<forall>i < length xs. f (xs ! i) = Some (ys ! i))"
proof (induction xs arbitrary: ys)
  case (Cons x xs)
  then show ?case by (auto simp: nth_Cons split: option.splits nat.splits)
qed simp

text \<open>
  Arguments survive the two shapes: the text of a JSON value within the size limit reaches an
  Ollama client as that value.
\<close>

theorem ollama_arguments_roundtrip:
  assumes "json_ok fr v" "length (dumps fr v) \<le> MAX_TOOL_ARG_CHARS"
  shows "ollama_arguments (PyStr (dumps fr v)) = v"
  using assms loads_dumps [OF assms(1)] by (simp add: ollama_arguments_def Let_def)

theorem ollama_arguments_roundtrip_witness:
  "ollama_arguments (PyStr (dumps (\<lambda>_. ''0.5'') (PyDict [(''a'', PyInt 1)]))) = PyDict [(''a'', PyInt 1)]"
proof (rule ollama_arguments_roundtrip)
  have "dumps (\<lambda>_. ''0.5'') (PyDict [(''a'', PyInt 1)]) = ''{\"a\": 1}''" by code_simp
  then show "length (dumps (\<lambda>_. ''0.5'') (PyDict [(''a'', PyInt 1)])) \<le> MAX_TOOL_ARG_CHARS"
    by (simp add: MAX_TOOL_ARG_CHARS_def del: dumps.simps)
qed (simp add: ascii_def code_def)

end
