(* ===== verification/Ssrf.thy ===== *)
theory Ssrf
  imports PyStrings "HOL-Library.Word"
begin

unbundle bit_operations_syntax

text \<open>
  \<open>ssrf_guard.py\<close>: which addresses a pull may reach. The parts of \<open>ipaddress\<close> and
  \<open>urllib.parse\<close> the guard relies on are written out on ASCII text; the resolver is a parameter,
  asked once per query and free to answer every query differently.
\<close>

subsection \<open>Addresses\<close>

type_synonym ipv4 = "32 word"
type_synonym ipv6 = "128 word"

datatype ip_address = V4 ipv4 | V6 ipv6

definition netmask :: "nat \<Rightarrow> 'a::len word" where
  "netmask len = NOT (mask (LENGTH('a) - len))"

text \<open>\<open>ip in net\<close> of \<open>ipaddress\<close>.\<close>

definition in_net :: "'a::len word \<times> nat \<Rightarrow> 'a word \<Rightarrow> bool" where
  "in_net net ip \<longleftrightarrow> (case net of (base, len) \<Rightarrow> ip AND netmask len = base)"

definition octets :: "int \<Rightarrow> int \<Rightarrow> int \<Rightarrow> int \<Rightarrow> ipv4" where
  "octets a b c d = word_of_int (((a * 256 + b) * 256 + c) * 256 + d)"

text \<open>The denied networks.\<close>

definition DENY_IPV4_NETWORKS :: "(ipv4 \<times> nat) list" where
  "DENY_IPV4_NETWORKS =
     [(octets 10 0 0 0, 8), (octets 172 16 0 0, 12), (octets 192 168 0 0, 16), (octets 127 0 0 0, 8),
      (octets 169 254 0 0, 16), (octets 100 64 0 0, 10), (octets 0 0 0 0, 8), (octets 224 0 0 0, 4),
      (octets 240 0 0 0, 4)]"

definition DENY_IPV6_NETWORKS :: "(ipv6 \<times> nat) list" where
  "DENY_IPV6_NETWORKS =
     [(1, 128),
      (0xfc000000000000000000000000000000, 7),
      (0xfe800000000000000000000000000000, 10),
      (0xff000000000000000000000000000000, 8),
      (0x0064ff9b000000000000000000000000, 96),
      (0, 96),
      (0xffff00000000, 96),
      (0x20010db8000000000000000000000000, 32)]"

fun blocked :: "ip_address \<Rightarrow> bool" where
  "blocked (V4 ip) = list_ex (\<lambda>net. in_net net ip) DENY_IPV4_NETWORKS"
| "blocked (V6 ip) = list_ex (\<lambda>net. in_net net ip) DENY_IPV6_NETWORKS"

subsection \<open>Parsing addresses\<close>

fun number :: "int \<Rightarrow> int \<Rightarrow> string \<Rightarrow> int option" where
  "number base acc [] = Some acc"
| "number base acc (c # cs) =
     (case hex_value c of Some v \<Rightarrow> number base (base * acc + int v) cs | None \<Rightarrow> None)"

definition parse_octet :: "string \<Rightarrow> int option" where
  "parse_octet s =
     (if all_digits s \<and> length s \<le> 3 \<and> (s = ''0'' \<or> hd s \<noteq> CHR ''0'')
      then (case number 10 0 s of Some n \<Rightarrow> if n \<le> 255 then Some n else None | None \<Rightarrow> None)
      else None)"

definition parse_ipv4 :: "string \<Rightarrow> ipv4 option" where
  "parse_ipv4 s =
     (case map parse_octet (split_on (CHR ''.'') s) of
        [Some a, Some b, Some c, Some d] \<Rightarrow> Some (octets a b c d)
      | _ \<Rightarrow> None)"

text \<open>The pieces between the colons of an IPv6 address.\<close>

datatype part = Empty | Group int | Bad

definition parse_part :: "string \<Rightarrow> part" where
  "parse_part s =
     (if s = [] then Empty
      else if 4 < length s then Bad
      else case number 16 0 s of Some n \<Rightarrow> Group n | None \<Rightarrow> Bad)"

definition ipv6_parts :: "string \<Rightarrow> part list option" where
  "ipv6_parts s =
     (let ps = split_on (CHR '':'') s in
      if length ps < 3 then None
      else if CHR ''.'' \<in> set (last ps) then
        (case parse_ipv4 (last ps) of
           None \<Rightarrow> None
         | Some w \<Rightarrow> Some (map parse_part (butlast ps) @
                           [Group (uint w div 65536), Group (uint w mod 65536)]))
      else Some (map parse_part ps))"

fun groups_value :: "int \<Rightarrow> part list \<Rightarrow> int option" where
  "groups_value acc [] = Some acc"
| "groups_value acc (p # ps) = (case p of Group n \<Rightarrow> groups_value (65536 * acc + n) ps | _ \<Rightarrow> None)"

text \<open>What stands before and after the \<open>::\<close> at position \<open>i\<close>.\<close>

definition parts_hi :: "part list \<Rightarrow> nat \<Rightarrow> part list option" where
  "parts_hi ps i = (if hd ps = Empty then (if i = 1 then Some [] else None) else Some (take i ps))"

definition parts_lo :: "part list \<Rightarrow> nat \<Rightarrow> part list option" where
  "parts_lo ps i =
     (if last ps = Empty then (if i + 2 = length ps then Some [] else None) else Some (drop (Suc i) ps))"

definition expand_parts :: "part list \<Rightarrow> part list option" where
  "expand_parts ps =
     (if 9 < length ps then None
      else case filter (\<lambda>i. ps ! i = Empty) [1 ..< length ps - 1] of
        [] \<Rightarrow> if length ps = 8 then Some ps else None
      | [i] \<Rightarrow>
          (case (parts_hi ps i, parts_lo ps i) of
             (Some hi, Some lo) \<Rightarrow>
               if length hi + length lo < 8
               then Some (hi @ replicate (8 - (length hi + length lo)) (Group 0) @ lo) else None
           | _ \<Rightarrow> None)
      | _ \<Rightarrow> None)"

definition parse_ipv6 :: "string \<Rightarrow> ipv6 option" where
  "parse_ipv6 s =
     (let addr = (if CHR ''/'' \<in> set s then None
                  else case split_on (CHR ''%'') s of
                    [a] \<Rightarrow> Some a
                  | [a, zone] \<Rightarrow> if zone = [] then None else Some a
                  | _ \<Rightarrow> None)
      in case addr of None \<Rightarrow> None
         | Some a \<Rightarrow>
             (case ipv6_parts a of None \<Rightarrow> None
              | Some ps \<Rightarrow>
                  (case expand_parts ps of None \<Rightarrow> None
                   | Some gs \<Rightarrow> map_option word_of_int (groups_value 0 gs))))"

definition parse_ip :: "string \<Rightarrow> ip_address option" where
  "parse_ip s = (case parse_ipv4 s of Some w \<Rightarrow> Some (V4 w) | None \<Rightarrow> map_option V6 (parse_ipv6 s))"

definition is_blocked_ip :: "string \<Rightarrow> bool" where
  "is_blocked_ip s = (case parse_ip s of None \<Rightarrow> True | Some ip \<Rightarrow> blocked ip)"

lemma parse_ip_evaluates:
  "parse_ip ''127.0.0.1'' = Some (V4 0x7f000001)"
  "parse_ip ''127.0.0.01'' = None"
  "parse_ip ''::1'' = Some (V6 1)"
  "parse_ip ''fe80::1%eth0'' = Some (V6 0xfe800000000000000000000000000001)"
  "parse_ip ''::ffff:10.0.0.1'' = Some (V6 0xffff0a000001)"
  "parse_ip ''1:2:3:4:5:6:7::'' = Some (V6 0x00010002000300040005000600070000)"
  "parse_ip ''1::2::3'' = None"
  by code_simp+

subsection \<open>The denied ranges\<close>

lemma uint_and_netmask:
  "uint (ip AND NOT (mask k)) = uint ip div 2 ^ k * 2 ^ k" for ip :: "'a::len word"
proof -
  have "uint ip AND uint (NOT (mask k) :: 'a word) = uint ip AND NOT (mask k)"
    by (rule bit_eqI) (auto simp: bit_simps dest: bit_imp_le_length)
  then have "uint (ip AND NOT (mask k)) = uint ip AND NOT (mask k)" by (simp add: unsigned_and_eq)
  also have "\<dots> = push_bit k (drop_bit k (uint ip))"
    by (rule bit_eqI) (auto simp: bit_simps)
  finally show ?thesis by (simp add: push_bit_eq_mult drop_bit_eq_div)
qed

lemma div_interval: "0 < m \<Longrightarrow> x div m = c \<longleftrightarrow> c * m \<le> x \<and> x < c * m + m" for x m c :: int
proof
  assume m: "0 < m" and eq: "x div m = c"
  have "x = c * m + x mod m" using eq by (metis div_mult_mod_eq)
  with pos_mod_sign [OF m, of x] pos_mod_bound [OF m, of x] show "c * m \<le> x \<and> x < c * m + m" by linarith
next
  assume "0 < m" "c * m \<le> x \<and> x < c * m + m"
  then show "x div m = c" by (intro int_div_pos_eq [of x m c "x - c * m"]) (auto simp: algebra_simps)
qed

text \<open>A network is the interval of addresses that starts at its base.\<close>

lemma in_net_range:
  fixes ip base :: "'a::len word"
  assumes "uint base mod 2 ^ (LENGTH('a) - len) = 0"
  shows "in_net (base, len) ip \<longleftrightarrow> uint base \<le> uint ip \<and> uint ip < uint base + 2 ^ (LENGTH('a) - len)"
proof -
  let ?m = "2 ^ (LENGTH('a) - len) :: int"
  from assms obtain c where c: "uint base = c * ?m" by (metis add.right_neutral div_mult_mod_eq)
  have "in_net (base, len) ip \<longleftrightarrow> uint ip div ?m * ?m = uint base"
    using uint_and_netmask [of ip "LENGTH('a) - len"] by (simp add: in_net_def netmask_def word_uint_eq_iff)
  also have "\<dots> \<longleftrightarrow> uint ip div ?m = c" by (simp add: c)
  also have "\<dots> \<longleftrightarrow> c * ?m \<le> uint ip \<and> uint ip < c * ?m + ?m"
    by (rule div_interval) simp
  finally show ?thesis by (simp add: c)
qed

lemma uint_literals [simp]:
  "uint (octets 10 0 0 0) = 0x0A000000" "uint (octets 172 16 0 0) = 0xAC100000"
  "uint (octets 192 168 0 0) = 0xC0A80000" "uint (octets 127 0 0 0) = 0x7F000000"
  "uint (octets 169 254 0 0) = 0xA9FE0000" "uint (octets 100 64 0 0) = 0x64400000"
  "uint (octets 0 0 0 0) = 0" "uint (octets 224 0 0 0) = 0xE0000000"
  "uint (octets 240 0 0 0) = 0xF0000000"
  by (simp_all add: octets_def)

text \<open>
  The guard denies exactly these addresses: of IPv4 0/8, 10/8, 100.64/10, 127/8,
  169.254/16, 172.16/12, 192.168/16 and everything from 224.0.0.0 up; of IPv6 everything below
  two to the 32 (the loopback and every IPv4-compatible form), the IPv4-mapped and the NAT64 forms
  of every IPv4 address, 2001:db8::/32, fc00::/7, fe80::/10 and ff00::/8.
\<close>

theorem blocked_exactly:
  "(blocked (V4 a) \<longleftrightarrow>
     (uint a < 0x01000000 \<or> uint a \<in> {0x0A000000 ..< 0x0B000000} \<or> uint a \<in> {0x64400000 ..< 0x64800000} \<or>
      uint a \<in> {0x7F000000 ..< 0x80000000} \<or> uint a \<in> {0xA9FE0000 ..< 0xA9FF0000} \<or>
      uint a \<in> {0xAC100000 ..< 0xAC200000} \<or> uint a \<in> {0xC0A80000 ..< 0xC0A90000} \<or> 0xE0000000 \<le> uint a)) \<and>
   (blocked (V6 b) \<longleftrightarrow>
     (uint b < 0x100000000 \<or> uint b \<in> {0xffff00000000 ..< 0x1000000000000} \<or>
      uint b \<in> {0x0064ff9b000000000000000000000000 ..< 0x0064ff9b000000000000000100000000} \<or>
      uint b \<in> {0x20010db8000000000000000000000000 ..< 0x20010db9000000000000000000000000} \<or>
      uint b \<in> {0xfc000000000000000000000000000000 ..< 0xfe000000000000000000000000000000} \<or>
      uint b \<in> {0xfe800000000000000000000000000000 ..< 0xfec00000000000000000000000000000} \<or>
      0xff000000000000000000000000000000 \<le> uint b))"
proof
  have top: "uint a < 0x100000000" "uint b < 0x100000000000000000000000000000000"
    using uint_lt2p [of a] uint_lt2p [of b] by simp_all
  show "blocked (V4 a) \<longleftrightarrow>
     (uint a < 0x01000000 \<or> uint a \<in> {0x0A000000 ..< 0x0B000000} \<or> uint a \<in> {0x64400000 ..< 0x64800000} \<or>
      uint a \<in> {0x7F000000 ..< 0x80000000} \<or> uint a \<in> {0xA9FE0000 ..< 0xA9FF0000} \<or>
      uint a \<in> {0xAC100000 ..< 0xAC200000} \<or> uint a \<in> {0xC0A80000 ..< 0xC0A90000} \<or> 0xE0000000 \<le> uint a)"
    using top(1) by (simp add: DENY_IPV4_NETWORKS_def in_net_range) linarith
  show "blocked (V6 b) \<longleftrightarrow>
     (uint b < 0x100000000 \<or> uint b \<in> {0xffff00000000 ..< 0x1000000000000} \<or>
      uint b \<in> {0x0064ff9b000000000000000000000000 ..< 0x0064ff9b000000000000000100000000} \<or>
      uint b \<in> {0x20010db8000000000000000000000000 ..< 0x20010db9000000000000000000000000} \<or>
      uint b \<in> {0xfc000000000000000000000000000000 ..< 0xfe000000000000000000000000000000} \<or>
      uint b \<in> {0xfe800000000000000000000000000000 ..< 0xfec00000000000000000000000000000} \<or>
      0xff000000000000000000000000000000 \<le> uint b)"
    using top(2) by (simp add: DENY_IPV6_NETWORKS_def in_net_range) linarith
qed

subsection \<open>URLs\<close>

definition is_alpha :: "char \<Rightarrow> bool" where
  "is_alpha c \<longleftrightarrow> is_lower c \<or> is_upper c"

definition scheme_char :: "char \<Rightarrow> bool" where
  "scheme_char c \<longleftrightarrow> is_alpha c \<or> is_digit c \<or> c \<in> {CHR ''+'', CHR ''-'', CHR ''.''}"

definition url_clean :: "string \<Rightarrow> string" where
  "url_clean u = filter (\<lambda>c. code c \<notin> {9, 10, 13}) (dropWhile (\<lambda>c. code c \<le> 32) u)"

definition split_scheme :: "string \<Rightarrow> string \<times> string" where
  "split_scheme u =
     (case find_sub '':'' u of
        Some i \<Rightarrow>
          if 0 < i \<and> is_alpha (hd u) \<and> list_all scheme_char (take i u)
          then (lower (take i u), drop (Suc i) u) else ([], u)
      | None \<Rightarrow> ([], u))"

definition between_brackets :: "string \<Rightarrow> string" where
  "between_brackets s = takeWhile (\<lambda>c. c \<noteq> CHR '']'') (tl (dropWhile (\<lambda>c. c \<noteq> CHR ''['') s))"

text \<open>\<open>_check_bracketed_host\<close>: a future version, or an IPv6 literal.\<close>

definition bracketed_ok :: "string \<Rightarrow> bool" where
  "bracketed_ok h =
     (if starts_with ''v'' h then
        (case split_on (CHR ''.'') (tl h) of
           v # rest \<Rightarrow> v \<noteq> [] \<and> list_all (\<lambda>c. hex_value c \<noteq> None) v \<and> rest \<noteq> [] \<and> join ''.'' rest \<noteq> []
         | [] \<Rightarrow> False)
      else case parse_ip h of Some (V6 _) \<Rightarrow> True | _ \<Rightarrow> False)"

text \<open>Scheme and network location; \<open>None\<close> is the ValueError of an invalid bracketed host.\<close>

definition urlsplit :: "string \<Rightarrow> (string \<times> string) option" where
  "urlsplit url =
     (case split_scheme (url_clean url) of (scheme, rest) \<Rightarrow>
      let netloc = (if starts_with ''//'' rest then takeWhile (\<lambda>c. c \<notin> set ''/?#'') (drop 2 rest) else []);
          opened = CHR ''['' \<in> set netloc; closed = CHR '']'' \<in> set netloc
      in if opened \<noteq> closed \<or> (opened \<and> \<not> bracketed_ok (between_brackets netloc)) then None
         else Some (scheme, netloc))"

definition hostname :: "string \<Rightarrow> string option" where
  "hostname netloc =
     (let hostinfo = last (split_on (CHR ''@'') netloc);
          host = (if CHR ''['' \<in> set hostinfo then between_brackets hostinfo
                  else takeWhile (\<lambda>c. c \<noteq> CHR '':'') hostinfo);
          name = takeWhile (\<lambda>c. c \<noteq> CHR ''%'') host
      in if host = [] then None else Some (lower name @ drop (length name) host))"

lemma urlsplit_evaluates:
  "urlsplit ''https://user@EXAMPLE.org:8443/x?y'' = Some (''https'', ''user@EXAMPLE.org:8443'')"
  "hostname ''user@EXAMPLE.org:8443'' = Some ''example.org''"
  "urlsplit ''https://[::1'' = None"
  by code_simp+

subsection \<open>The guard\<close>

datatype url_error =
    InvalidUrl
  | BadScheme
  | NoHost
  | DeniedLiteral
  | ResolutionFailed
  | NoRecords
  | DeniedAddress

text \<open>
  \<open>dns n host\<close> is the resolver's answer to the \<open>n\<close>-th query: a failure, or the addresses in
  order.
\<close>

type_synonym resolver = "nat \<Rightarrow> string \<Rightarrow> string list option"

definition resolve_safely :: "resolver \<Rightarrow> nat \<Rightarrow> string \<Rightarrow> url_error + ip_address" where
  "resolve_safely dns n host =
     (case dns n host of
        None \<Rightarrow> Inl ResolutionFailed
      | Some [] \<Rightarrow> Inl NoRecords
      | Some (a # _) \<Rightarrow>
          (case parse_ip a of
             Some ip \<Rightarrow> if blocked ip then Inl DeniedAddress else Inr ip
           | None \<Rightarrow> Inl DeniedAddress))"

text \<open>Host, address, and the number of the next query.\<close>

definition validate_pull_url :: "resolver \<Rightarrow> nat \<Rightarrow> string \<Rightarrow> (url_error + string \<times> ip_address) \<times> nat" where
  "validate_pull_url dns n url =
     (case urlsplit url of
        None \<Rightarrow> (Inl InvalidUrl, n)
      | Some (scheme, netloc) \<Rightarrow>
          if scheme \<noteq> ''https'' then (Inl BadScheme, n)
          else case hostname netloc of
            None \<Rightarrow> (Inl NoHost, n)
          | Some host \<Rightarrow>
              (case parse_ip host of
                 Some ip \<Rightarrow> (if blocked ip then Inl DeniedLiteral else Inr (host, ip), n)
               | None \<Rightarrow> (rbind (resolve_safely dns n host) (\<lambda>ip. Inr (host, ip)), Suc n)))"

definition is_hf_host :: "string \<Rightarrow> string list \<Rightarrow> bool" where
  "is_hf_host host allowlist =
     list_ex (\<lambda>a. lower host = lower a \<or> ends_with (CHR ''.'' # lower a) (lower host)) allowlist"

text \<open>What the guard promises of a URL it lets through.\<close>

definition guarded :: "string \<Rightarrow> string \<Rightarrow> ip_address \<Rightarrow> bool" where
  "guarded url host ip \<longleftrightarrow>
     \<not> blocked ip \<and> host \<noteq> [] \<and> (\<exists>netloc. urlsplit url = Some (''https'', netloc) \<and> hostname netloc = Some host)"

lemma hostname_nonempty: "hostname netloc = Some h \<Longrightarrow> h \<noteq> []"
  by (auto simp: hostname_def Let_def lower_def split: if_splits)

lemma validate_guarded: "validate_pull_url dns n url = (Inr (host, ip), n') \<Longrightarrow> guarded url host ip"
  using hostname_nonempty
  by (auto simp: validate_pull_url_def guarded_def resolve_safely_def
      split: option.splits prod.splits if_splits list.splits sum.splits)

lemma validate_host:
  "validate_pull_url dns n url = (Inr (h, ip), n') \<Longrightarrow> validate_pull_url dns m url = (Inr (h', ip'), m') \<Longrightarrow> h = h'"
  using validate_guarded [of dns n url h ip n'] validate_guarded [of dns m url h' ip' m'] by (auto simp: guarded_def)

end
