(* ===== verification/BlobStore.thy ===== *)
theory BlobStore
  imports PyStrings "HOL-Library.List_Lexorder" "HOL-Library.Char_ord"
begin

text \<open>
  \<open>blob_store.py\<close>: the content-addressed store of model files. The directory tree is a list of
  paths and files; a write takes the chunks of its source one by one and can fail at every system
  call. SHA-256 (\<open>hexdigest\<close>) is the parameter \<open>sha\<close>, known only to answer 64
  lower-case hexadecimal digits.
\<close>

subsection \<open>Paths and files\<close>

datatype blob_path = Incoming string | Final string string

record blob_file =
  bf_content :: string
  bf_read_only :: bool
  bf_mtime :: time

type_synonym blob_tree = "(blob_path \<times> blob_file) list"

definition sha256_re :: "string \<Rightarrow> bool" where
  "sha256_re s = match_dollar (\<lambda>t. length t = 64 \<and> list_all is_hex_lower t) s"

datatype 'e blob_error =
    SizeExceeded
  | HashMismatch
  | InvalidHash
  | IntegrityFailure
  | OsFailure
  | SourceFailure 'e

definition final_path :: "string \<Rightarrow> 'e blob_error + blob_path" where
  "final_path sha256 = (if sha256_re sha256 then Inr (Final (take 2 sha256) sha256) else Inl InvalidHash)"

subsection \<open>Writing\<close>

text \<open>A source yields its chunks and ends, or raises an error of its own after them.\<close>

record 'e source =
  so_chunks :: "string list"
  so_error :: "'e option"

text \<open>
  Where a write can fail: opening the temporary file, writing the \<open>n\<close>-th chunk, \<open>fsync\<close>, creating
  the shard, the rename, \<open>fsync\<close> of the directory, \<open>chmod\<close>.
\<close>

datatype write_fault = NoFault | OpenFails | WriteFails nat | SyncFails | MkdirFails | RenameFails | DirSyncFails | ChmodFails

text \<open>The loop over the chunks: what was written, or the error that ends it.\<close>

fun receive :: "nat \<Rightarrow> write_fault \<Rightarrow> nat \<Rightarrow> string \<Rightarrow> string list \<Rightarrow> 'e option \<Rightarrow> 'e blob_error + string" where
  "receive limit fault i written [] err =
     (case err of Some e \<Rightarrow> Inl (SourceFailure e) | None \<Rightarrow> Inr written)"
| "receive limit fault i written (c # cs) err =
     (if c = [] then receive limit fault i written cs err
      else if limit < length written + length c then Inl SizeExceeded
      else if fault = WriteFails i then Inl OsFailure
      else receive limit fault (Suc i) (written @ c) cs err)"

definition check_expected :: "string option \<Rightarrow> string \<Rightarrow> 'e blob_error + unit" where
  "check_expected expected computed =
     (case expected of
        None \<Rightarrow> Inr ()
      | Some e \<Rightarrow> if \<not> sha256_re e then Inl InvalidHash else if computed \<noteq> e then Inl HashMismatch else Inr ())"

text \<open>
  The result and the tree it leaves. \<open>tmp\<close> is the name drawn for the temporary file, removed by
  the \<open>finally\<close> block whenever it is still there.
\<close>

definition write_stream_atomic ::
  "(string \<Rightarrow> string) \<Rightarrow> time \<Rightarrow> string \<Rightarrow> nat \<Rightarrow> string option \<Rightarrow> write_fault \<Rightarrow> 'e source \<Rightarrow> blob_tree
     \<Rightarrow> ('e blob_error + string \<times> nat) \<times> blob_tree" where
  "write_stream_atomic sha now tmp limit expected fault src t =
     (if fault = OpenFails \<or> dir_look t (Incoming tmp) \<noteq> None then (Inl OsFailure, dir_rm (Incoming tmp) t)
      else case receive limit fault 0 [] (so_chunks src) (so_error src) of
        Inl e \<Rightarrow> (Inl e, t)
      | Inr content \<Rightarrow>
          if fault = SyncFails then (Inl OsFailure, t)
          else case rbind (check_expected expected (sha content)) (\<lambda>_. final_path (sha content)) of
            Inl e \<Rightarrow> (Inl e, t)
          | Inr path \<Rightarrow>
              if fault \<in> {MkdirFails, RenameFails} then (Inl OsFailure, t)
              else
                (let blob = \<lparr>bf_content = content, bf_read_only = False, bf_mtime = now\<rparr>;
                     t' = dir_put path blob t
                 in if fault \<in> {DirSyncFails, ChmodFails} then (Inl OsFailure, t')
                    else (Inr (sha content, length content),
                          dir_put path (blob\<lparr>bf_read_only := True\<rparr>) t')))"

text \<open>The asynchronous variant repeats the body with an awaited loop over the chunks.\<close>

definition write_stream_atomic_async ::
  "(string \<Rightarrow> string) \<Rightarrow> time \<Rightarrow> string \<Rightarrow> nat \<Rightarrow> string option \<Rightarrow> write_fault \<Rightarrow> 'e source \<Rightarrow> blob_tree
     \<Rightarrow> ('e blob_error + string \<times> nat) \<times> blob_tree" where
  "write_stream_atomic_async = write_stream_atomic"

subsection \<open>Reading, deleting, collecting\<close>

definition blob_exists :: "string \<Rightarrow> blob_tree \<Rightarrow> 'e blob_error + bool" where
  "blob_exists sha256 t = rbind (final_path sha256) (\<lambda>path. Inr (dir_look t path \<noteq> None))"

definition verify_blob_on_stage :: "(string \<Rightarrow> string) \<Rightarrow> string \<Rightarrow> blob_tree \<Rightarrow> 'e blob_error + bool" where
  "verify_blob_on_stage sha expected t =
     rbind (final_path expected) (\<lambda>path.
       case dir_look t path of
         None \<Rightarrow> Inl IntegrityFailure
       | Some f \<Rightarrow> if sha (bf_content f) \<noteq> expected then Inl IntegrityFailure else Inr True)"

definition delete_blob :: "string \<Rightarrow> blob_tree \<Rightarrow> ('e blob_error + bool) \<times> blob_tree" where
  "delete_blob sha256 t =
     (case final_path sha256 of
        Inl e \<Rightarrow> (Inl e, t)
      | Inr path \<Rightarrow> if dir_look t path = None then (Inr False, t) else (Inr True, dir_rm path t))"

fun listed_name :: "blob_path \<Rightarrow> string option" where
  "listed_name (Incoming n) = None"
| "listed_name (Final shard n) = (if length shard = 2 \<and> sha256_re n then Some n else None)"

definition list_blobs :: "blob_tree \<Rightarrow> string list" where
  "list_blobs t = sort (List.map_filter (\<lambda>(p, _). listed_name p) t)"

fun stale :: "time \<Rightarrow> time \<Rightarrow> blob_path \<times> blob_file \<Rightarrow> bool" where
  "stale now max_age (Incoming n, f) = (max_age < now - bf_mtime f)"
| "stale now max_age (Final shard n, f) = False"

definition gc_stale_incoming :: "time \<Rightarrow> time \<Rightarrow> blob_tree \<Rightarrow> nat \<times> blob_tree" where
  "gc_stale_incoming now max_age t =
     (length (filter (stale now max_age) t), filter (\<lambda>x. \<not> stale now max_age x) t)"

subsection \<open>The invariant\<close>

text \<open>
  What the store promises of its tree: every name is there once, and every final file carries the hash
  of its content as its name, in the shard of that name.
\<close>

definition addressed :: "(string \<Rightarrow> string) \<Rightarrow> blob_path \<times> blob_file \<Rightarrow> bool" where
  "addressed sha x = (case x of (Final shard n, f) \<Rightarrow> n = sha (bf_content f) \<and> shard = take 2 n | _ \<Rightarrow> True)"

definition store_ok :: "(string \<Rightarrow> string) \<Rightarrow> blob_tree \<Rightarrow> bool" where
  "store_ok sha t \<longleftrightarrow> distinct (map fst t) \<and> list_all (addressed sha) t"

lemma dir_rm_subset: "set (dir_rm n t) \<subseteq> set t"
  by (auto simp: dir_rm_def)

lemma dir_rm_distinct: "distinct (map fst t) \<Longrightarrow> distinct (map fst (dir_rm n t))"
  by (induction t) (auto simp: dir_rm_def)

lemma dir_rm_keys: "n \<notin> set (map fst (dir_rm n t))"
  by (auto simp: dir_rm_def)

lemma store_ok_rm: "store_ok sha t \<Longrightarrow> store_ok sha (dir_rm n t)"
  using dir_rm_distinct [of t n] dir_rm_subset [of n t] by (auto simp: store_ok_def list_all_iff)

lemma store_ok_put: "store_ok sha t \<Longrightarrow> addressed sha (n, f) \<Longrightarrow> store_ok sha (dir_put n f t)"
  using store_ok_rm [of sha t n] dir_rm_keys [of n t] by (auto simp: store_ok_def dir_put_def)

lemma store_ok_filter: "store_ok sha t \<Longrightarrow> store_ok sha (filter P t)"
  by (auto simp: store_ok_def list_all_iff distinct_map_filter)

lemma final_path_addressed: "final_path (sha (bf_content f)) = Inr path \<Longrightarrow> addressed sha (path, f)"
  by (auto simp: final_path_def addressed_def split: if_splits)

text \<open>The operations of the store as one step.\<close>

datatype 'e blob_op =
    WriteBlob time string nat "string option" write_fault "'e source"
  | DeleteBlob string
  | CollectStale time time
  | KilledWrite time string string  \<comment> \<open>the process dies while it writes its temporary file\<close>

fun blob_step :: "(string \<Rightarrow> string) \<Rightarrow> 'e blob_op \<Rightarrow> blob_tree \<Rightarrow> blob_tree" where
  "blob_step sha (WriteBlob now tmp limit expected fault src) t =
     snd (write_stream_atomic sha now tmp limit expected fault src t)"
| "blob_step sha (DeleteBlob h) t = snd (delete_blob h t :: ('e blob_error + bool) \<times> blob_tree)"
| "blob_step sha (CollectStale now age) t = snd (gc_stale_incoming now age t)"
| "blob_step sha (KilledWrite now tmp content) t =
     dir_put (Incoming tmp) \<lparr>bf_content = content, bf_read_only = False, bf_mtime = now\<rparr> t"

lemma write_store_ok: "store_ok sha t \<Longrightarrow> store_ok sha (snd (write_stream_atomic sha now tmp limit expected fault src t))"
  by (auto simp: write_stream_atomic_def Let_def store_ok_rm intro!: store_ok_put final_path_addressed split: sum.splits)

lemma step_store_ok: "store_ok sha t \<Longrightarrow> store_ok sha (blob_step sha op t)"
  by (cases op)
     (auto simp: write_store_ok delete_blob_def gc_stale_incoming_def store_ok_rm store_ok_filter addressed_def
        intro!: store_ok_put split: sum.splits)

lemma run_store_ok: "store_ok sha t \<Longrightarrow> store_ok sha (fold (blob_step sha) ops t)"
  by (induction ops arbitrary: t) (auto simp: step_store_ok)

lemma store_ok_final:
  assumes "store_ok sha t"
  shows "(Final shard n, f) \<in> set t \<longleftrightarrow> dir_look t (Final shard n) = Some f"
  using assms by (auto simp: store_ok_def dir_look_def)

lemma store_ok_name: "store_ok sha t \<Longrightarrow> (Final shard n, f) \<in> set t \<Longrightarrow> n = sha (bf_content f) \<and> shard = take 2 n"
  by (auto simp: store_ok_def list_all_iff addressed_def)

lemma map_filter_set: "y \<in> set (List.map_filter f xs) \<longleftrightarrow> (\<exists>x \<in> set xs. f x = Some y)"
  by (force simp: List.map_filter_def)

lemma sha256_re_length: "sha256_re s \<Longrightarrow> length (take 2 s) = 2"
  by (auto simp: sha256_re_def match_dollar_def)

lemma listed_iff: "listed_name p = Some h \<longleftrightarrow> (\<exists>shard. p = Final shard h \<and> length shard = 2 \<and> sha256_re h)"
  by (cases p) auto

lemma list_blobs_exact:
  assumes "store_ok sha t"
  shows "h \<in> set (list_blobs t) \<longleftrightarrow> sha256_re h \<and> (\<exists>f. dir_look t (Final (take 2 h) h) = Some f \<and> sha (bf_content f) = h)"
proof -
  have "h \<in> set (list_blobs t) \<longleftrightarrow> sha256_re h \<and> (\<exists>shard f. (Final shard h, f) \<in> set t \<and> length shard = 2)"
    by (force simp: list_blobs_def map_filter_set listed_iff)
  also have "\<dots> \<longleftrightarrow> sha256_re h \<and> (\<exists>f. (Final (take 2 h) h, f) \<in> set t \<and> sha (bf_content f) = h)"
    using store_ok_name [OF assms] sha256_re_length by metis
  finally show ?thesis by (simp add: store_ok_final [OF assms])
qed

text \<open>
  C19: Whatever is written, deleted, collected or left behind by a killed process, and wherever a
  write fails, a hash is listed exactly when its blob exists and exactly when the blob passes
  verification: no blob ever carries a name that is not the hash of its content.
\<close>

theorem store_is_content_addressed:
  fixes ops :: "'e blob_op list"
  shows "let t = fold (blob_step sha) ops [] in
    (h \<in> set (list_blobs t)) = (blob_exists h t = (Inr True :: 'e blob_error + bool)) \<and>
    (h \<in> set (list_blobs t)) = (verify_blob_on_stage sha h t = (Inr True :: 'e blob_error + bool)) \<and>
    sorted (list_blobs t)"
proof -
  define t where "t = fold (blob_step sha) ops []"
  have ok: "store_ok sha t" unfolding t_def by (rule run_store_ok) (simp add: store_ok_def)
  have "sha (bf_content f) = h" if "dir_look t (Final (take 2 h) h) = Some f" for f
    using store_ok_name [OF ok] store_ok_final [OF ok] that by metis
  moreover have "sorted (list_blobs t)" by (simp add: list_blobs_def)
  ultimately show ?thesis unfolding t_def [symmetric]
    by (auto simp: list_blobs_exact [OF ok] blob_exists_def verify_blob_on_stage_def final_path_def
        split: option.splits if_splits)
qed

subsection \<open>What a write leaves\<close>

text \<open>The bytes of a source that ends and fits the limit.\<close>

definition delivers :: "nat \<Rightarrow> 'e source \<Rightarrow> bool" where
  "delivers limit src \<longleftrightarrow> so_error src = None \<and> length (concat (so_chunks src)) \<le> limit"

lemma receive_Inr:
  "receive limit fault i w cs err = Inr content \<Longrightarrow>
   err = None \<and> content = w @ concat cs \<and> (length w \<le> limit \<longrightarrow> length content \<le> limit)"
  by (induction limit fault i w cs err rule: receive.induct) (auto split: if_splits option.splits)

lemma receive_sound:
  "receive limit fault 0 [] (so_chunks src) (so_error src) = Inr content \<Longrightarrow>
   delivers limit src \<and> content = concat (so_chunks src)"
  using receive_Inr [of limit fault 0 "[]" "so_chunks src" "so_error src" content]
  by (auto simp: delivers_def)

lemma receive_complete:
  "length (w @ concat cs) \<le> limit \<Longrightarrow> receive limit NoFault i w cs None = Inr (w @ concat cs)"
  by (induction cs arbitrary: i w) auto

lemma check_expected_Inr: "check_expected expected h = Inr () \<longleftrightarrow> expected = None \<or> (expected = Some h \<and> sha256_re h)"
  by (auto simp: check_expected_def split: option.splits)

definition blob_at :: "blob_tree \<Rightarrow> string \<Rightarrow> blob_file option" where
  "blob_at t h = dir_look t (Final (take 2 h) h)"

lemma write_outcome:
  assumes "write_stream_atomic sha now tmp limit expected fault src t = (r, t')"
    and "dir_look t (Incoming tmp) = None"
  shows "case r of
      Inr (h, n) \<Rightarrow>
        delivers limit src \<and> h = sha (concat (so_chunks src)) \<and> n = length (concat (so_chunks src)) \<and>
        expected \<in> {None, Some h} \<and>
        dir_look t' = (dir_look t)(Final (take 2 h) h \<mapsto>
          \<lparr>bf_content = concat (so_chunks src), bf_read_only = True, bf_mtime = now\<rparr>)
    | Inl e \<Rightarrow>
        dir_look t' = dir_look t \<or>
        fault \<in> {DirSyncFails, ChmodFails} \<and>
        (\<exists>h. dir_look t' = (dir_look t)(Final (take 2 h) h \<mapsto>
          \<lparr>bf_content = concat (so_chunks src), bf_read_only = False, bf_mtime = now\<rparr>))"
proof -
  have same: "dir_look (dir_rm (Incoming tmp) t) = dir_look t"
    using assms(2) by (auto simp: files.look_rm)
  show ?thesis
  proof (cases "receive limit fault 0 [] (so_chunks src) (so_error src)")
    case (Inl e)
    with assms(1) same show ?thesis by (auto simp: write_stream_atomic_def split: if_splits)
  next
    case (Inr content)
    note content = receive_sound [OF Inr]
    show ?thesis
    proof (cases "rbind (check_expected expected (sha content)) (\<lambda>_. final_path (sha content))
        :: 'a blob_error + blob_path")
      case (Inl e)
      with Inr assms(1) same show ?thesis by (auto simp: write_stream_atomic_def split: if_splits)
    next
      case path: (Inr path)
      then have p: "path = Final (take 2 (sha content)) (sha content)" "expected \<in> {None, Some (sha content)}"
        by (auto simp: final_path_def check_expected_Inr split: if_splits)
      have put: "dir_look (dir_put path f t) = (dir_look t)(path \<mapsto> f)"
        "dir_look (dir_put path f (dir_put path g t)) = (dir_look t)(path \<mapsto> f)" for f g
        by (auto simp: files.look_put)
      show ?thesis
        using assms(1) path Inr same put p content
        by (auto simp: write_stream_atomic_def Let_def split: if_splits)
    qed
  qed
qed

text \<open>
  C16: A write that reports success took in a source that ended by itself within the limit, whose
  hash is the expected one if one was given; the blob is in place, complete and
  read-only, and nothing else changed. A write that fails changes nothing, unless it
  failed after the rename: then the complete blob is in place although the caller sees an error,
  and it is still writable.
\<close>

theorem write_is_all_or_nothing:
  assumes "write_stream_atomic sha now tmp limit expected fault src t = (r, t')"
    and "dir_look t (Incoming tmp) = None"
  shows "case r of
      Inr (h, n) \<Rightarrow>
        delivers limit src \<and> h = sha (concat (so_chunks src)) \<and> n = length (concat (so_chunks src)) \<and>
        expected \<in> {None, Some h} \<and>
        dir_look t' = (dir_look t)(Final (take 2 h) h \<mapsto>
          \<lparr>bf_content = concat (so_chunks src), bf_read_only = True, bf_mtime = now\<rparr>)
    | Inl e \<Rightarrow>
        dir_look t' = dir_look t \<or>
        fault \<in> {DirSyncFails, ChmodFails} \<and>
        (\<exists>h. dir_look t' = (dir_look t)(Final (take 2 h) h \<mapsto>
          \<lparr>bf_content = concat (so_chunks src), bf_read_only = False, bf_mtime = now\<rparr>))"
  by (rule write_outcome [OF assms])

definition two_chunks_source :: "nat source" where
  "two_chunks_source = \<lparr>so_chunks = [''GG'', ''UF''], so_error = None\<rparr>"

definition constant_hash :: "string \<Rightarrow> string" where
  "constant_hash content = replicate 64 (CHR ''a'')"

theorem write_is_all_or_nothing_witness:
  "dir_look (snd (write_stream_atomic constant_hash 5 ''t'' 10 None NoFault two_chunks_source []))
     (Final ''aa'' (replicate 64 (CHR ''a''))) =
   Some \<lparr>bf_content = ''GGUF'', bf_read_only = True, bf_mtime = 5\<rparr>"
proof -
  obtain r t' where w: "write_stream_atomic constant_hash 5 ''t'' 10 None NoFault two_chunks_source [] = (r, t')"
    by (cases "write_stream_atomic constant_hash 5 ''t'' 10 None NoFault two_chunks_source []") auto
  have "fst (write_stream_atomic constant_hash 5 ''t'' 10 None NoFault two_chunks_source []) =
      Inr (replicate 64 (CHR ''a''), 4)" by code_simp
  with w have r: "r = Inr (replicate 64 (CHR ''a''), 4)" by simp
  have "dir_look ([] :: blob_tree) (Incoming ''t'') = None" by (simp add: dir_look_def)
  moreover have "''aa'' = replicate 2 (CHR ''a'')" by (simp add: numeral_2_eq_2)
  ultimately show ?thesis using write_is_all_or_nothing [OF w] r w
    by (simp add: two_chunks_source_def)
qed

text \<open>A stage-time check sees every swap of a blob for content with another hash.\<close>

lemma swap_is_detected:
  "verify_blob_on_stage sha h (dir_put (Final (take 2 h) h) f t) = Inr True \<longleftrightarrow> sha256_re h \<and> sha (bf_content f) = h"
  by (auto simp: verify_blob_on_stage_def final_path_def files.look_put)

text \<open>Collection takes the old temporary files and nothing else.\<close>

lemma gc_exact:
  "(p, f) \<in> set (snd (gc_stale_incoming now age t)) \<longleftrightarrow>
     (p, f) \<in> set t \<and> \<not> ((\<exists>n. p = Incoming n) \<and> age < now - bf_mtime f)"
  by (cases p) (auto simp: gc_stale_incoming_def)

lemma gc_counts: "fst (gc_stale_incoming now age t) + length (snd (gc_stale_incoming now age t)) = length t"
  by (simp add: gc_stale_incoming_def sum_length_filter_compl)

end
