(* ===== verification/Pulls.thy ===== *)
theory Pulls
  imports Ssrf BlobStore
begin

text \<open>
  The routes that bring model files into the blob store, \<open>api/pull.py\<close> and \<open>api/import_.py\<close>:
  the double resolution, the redirect-following download with its check of every hop, the
  handling of the Hugging Face key, the checks of a local path, and the events and status
  every outcome becomes. The network (\<open>httpx\<close>), the resolver, \<open>urljoin\<close> and the file system
  below the import root are parameters.
\<close>

subsection \<open>Downloads\<close>

definition double_resolve_check :: "resolver \<Rightarrow> nat \<Rightarrow> string \<Rightarrow> (url_error + string \<times> ip_address) \<times> nat" where
  "double_resolve_check dns n url =
     (case validate_pull_url dns n url of
        (Inl e, n') \<Rightarrow> (Inl e, n')
      | (Inr (host1, ip1), n') \<Rightarrow>
          (case validate_pull_url dns n' url of
             (Inl e, n'') \<Rightarrow> (Inl e, n'')
           | (Inr (host2, ip2), n'') \<Rightarrow>
               (if host1 \<noteq> host2 then (Inl DeniedAddress, n'') else (Inr (host1, ip1), n''))))"

type_synonym headers = "(string \<times> string) list"

record http_request =
  rq_url :: string
  rq_host :: string
  rq_headers :: headers

text \<open>An answer: status, \<open>Location\<close>, the chunks of the body, and whether the body ends properly.\<close>

datatype http_reply = Answer nat "string option" "string list" bool | NoAnswer

datatype pull_failure =
    UnsafeUrl url_error
  | NotAllowed
  | TooManyRedirects
  | HttpFailure
  | NotGguf
  | ReadFailure

record network =
  nw_dns :: resolver
  nw_get :: "nat \<Rightarrow> http_request \<Rightarrow> http_reply"
  nw_join :: "string \<Rightarrow> string \<Rightarrow> string"

definition MAX_HOPS :: nat where "MAX_HOPS = 5"

definition is_authorization :: "string \<times> string \<Rightarrow> bool" where
  "is_authorization h \<longleftrightarrow> lower (fst h) = ''authorization''"

definition hop_headers :: "string option \<Rightarrow> string \<Rightarrow> headers \<Rightarrow> headers" where
  "hop_headers prev host hs =
     (if prev \<noteq> None \<and> prev \<noteq> Some host then filter (\<lambda>h. \<not> is_authorization h) hs else hs)"

text \<open>The requests made, the chunks yielded, and the failure that ends the stream.\<close>

fun stream_with_redirects ::
  "network \<Rightarrow> (string \<Rightarrow> bool) \<Rightarrow> nat \<Rightarrow> string \<Rightarrow> headers \<Rightarrow> string option \<Rightarrow> nat
     \<Rightarrow> http_request list \<times> string list \<times> pull_failure option" where
  "stream_with_redirects nw allowed 0 url hs prev n = ([], [], Some TooManyRedirects)"
| "stream_with_redirects nw allowed (Suc hops) url hs prev n =
     (case double_resolve_check (nw_dns nw) n url of
        (Inl e, n') \<Rightarrow> ([], [], Some (UnsafeUrl e))
      | (Inr (host, ip), n') \<Rightarrow>
          if \<not> allowed host then ([], [], Some NotAllowed)
          else
            (let hs' = hop_headers prev host hs; rq = \<lparr>rq_url = url, rq_host = host, rq_headers = hs'\<rparr> in
             case nw_get nw n' rq of
               NoAnswer \<Rightarrow> ([rq], [], Some HttpFailure)
             | Answer status location body ends \<Rightarrow>
                 if 300 \<le> status \<and> status < 400 \<and> location \<notin> {None, Some []} then
                   (case stream_with_redirects nw allowed hops (nw_join nw url (the location)) hs' (Some host) n' of
                      (rqs, chunks, failure) \<Rightarrow> (rq # rqs, chunks, failure))
                 else if 200 \<le> status \<and> status < 300
                 then ([rq], body, if ends then None else Some HttpFailure)
                 else ([rq], [], Some HttpFailure)))"

subsection \<open>The routes\<close>

datatype pull_event = Started | Failed string | Complete string nat

datatype pull_response = Pulled string nat | Http nat | Crash

text \<open>Where a write goes: the hash, the clock, the temporary name, the limit and the fault.\<close>

record write_env =
  we_sha :: "string \<Rightarrow> string"
  we_now :: time
  we_tmp :: string
  we_limit :: nat
  we_fault :: write_fault

fun expected_arg :: "pyval \<Rightarrow> string option" where
  "expected_arg PyNone = None"
| "expected_arg (PyStr e) = Some e"
| "expected_arg _ = Some []"

definition is_text_or_none :: "pyval \<Rightarrow> bool" where
  "is_text_or_none v \<longleftrightarrow> (case v of PyNone \<Rightarrow> True | PyStr _ \<Rightarrow> True | _ \<Rightarrow> False)"

text \<open>
  The handler's \<open>except\<close> clauses: response and last event; \<open>Crash\<close> is an exception no clause
  catches. A value for \<open>expected_sha256\<close> that is neither text nor null raises a TypeError where its
  format is tested.
\<close>

fun pull_outcome :: "pyval \<Rightarrow> pull_failure blob_error + string \<times> nat \<Rightarrow> pull_response \<times> pull_event list" where
  "pull_outcome ex (Inr (h, n)) = (Pulled h n, [Complete h n])"
| "pull_outcome ex (Inl SizeExceeded) = (Http 413, [Failed ''size-exceeded''])"
| "pull_outcome ex (Inl HashMismatch) = (Http 400, [Failed ''hash-mismatch''])"
| "pull_outcome ex (Inl InvalidHash) =
     (if is_text_or_none ex then (Http 500, [Failed ''blob-error'']) else (Crash, []))"
| "pull_outcome ex (Inl IntegrityFailure) = (Http 500, [Failed ''blob-error''])"
| "pull_outcome ex (Inl OsFailure) = (Crash, [])"
| "pull_outcome ex (Inl (SourceFailure HttpFailure)) = (Http 502, [Failed ''upstream-error''])"
| "pull_outcome ex (Inl (SourceFailure NotGguf)) = (Http 400, [Failed ''magic-check''])"
| "pull_outcome ex (Inl (SourceFailure f)) = (Crash, [])"

type_synonym writer =
  "(string \<Rightarrow> string) \<Rightarrow> time \<Rightarrow> string \<Rightarrow> nat \<Rightarrow> string option \<Rightarrow> write_fault \<Rightarrow> pull_failure source
     \<Rightarrow> blob_tree \<Rightarrow> (pull_failure blob_error + string \<times> nat) \<times> blob_tree"

definition store_source ::
  "writer \<Rightarrow> write_env \<Rightarrow> pyval \<Rightarrow> string list \<Rightarrow> pull_failure option \<Rightarrow> blob_tree
     \<Rightarrow> pull_response \<times> pull_event list \<times> blob_tree" where
  "store_source write we ex chunks failure t =
     (case write (we_sha we) (we_now we) (we_tmp we) (we_limit we) (expected_arg ex) (we_fault we)
             \<lparr>so_chunks = chunks, so_error = failure\<rparr> t of
        (r, t') \<Rightarrow> (case pull_outcome ex r of (resp, evs) \<Rightarrow> (resp, Started # evs, t')))"

text \<open>The generator is first pulled once the temporary file is open.\<close>

definition opens :: "write_env \<Rightarrow> blob_tree \<Rightarrow> bool" where
  "opens we t \<longleftrightarrow> we_fault we \<noteq> OpenFails \<and> dir_look t (Incoming (we_tmp we)) = None"

record pull_result =
  pl_response :: pull_response
  pl_events :: "pull_event list"
  pl_requests :: "http_request list"
  pl_tree :: blob_tree

definition refused :: "pull_response \<Rightarrow> blob_tree \<Rightarrow> pull_result" where
  "refused resp t = \<lparr>pl_response = resp, pl_events = [], pl_requests = [], pl_tree = t\<rparr>"

definition download ::
  "network \<Rightarrow> (string \<Rightarrow> bool) \<Rightarrow> write_env \<Rightarrow> pyval \<Rightarrow> string \<Rightarrow> headers \<Rightarrow> nat \<Rightarrow> blob_tree \<Rightarrow> pull_result" where
  "download nw allowed we ex url hs n t =
     (case stream_with_redirects nw allowed MAX_HOPS url hs None n of
        (rqs, chunks, failure) \<Rightarrow>
          (case store_source write_stream_atomic_async we ex chunks failure t of
             (resp, evs, t') \<Rightarrow>
               \<lparr>pl_response = resp, pl_events = evs, pl_requests = (if opens we t then rqs else []), pl_tree = t'\<rparr>))"

fun guard_refusal :: "url_error \<Rightarrow> pull_response" where
  "guard_refusal InvalidUrl = Crash"
| "guard_refusal _ = Http 400"

definition pull_url :: "network \<Rightarrow> write_env \<Rightarrow> (string \<times> pyval) list \<Rightarrow> blob_tree \<Rightarrow> pull_result" where
  "pull_url nw we payload t =
     (case get_or_none payload ''url'' of
        PyStr url \<Rightarrow>
          if url = [] then refused (Http 400) t
          else (case double_resolve_check (nw_dns nw) 0 url of
             (Inl e, n) \<Rightarrow> refused (guard_refusal e) t
           | (Inr _, n) \<Rightarrow> download nw (\<lambda>_. True) we (get_or_none payload ''expected_sha256'') url [] n t)
      | v \<Rightarrow> refused (if truthy v then Crash else Http 400) t)"

definition hf_url :: "string \<Rightarrow> string \<Rightarrow> string \<Rightarrow> string" where
  "hf_url repo revision filename =
     ''https://huggingface.co/'' @ repo @ ''/resolve/'' @ revision @ ''/'' @ filename"

text \<open>
  \<open>key\<close> is the value of the environment variable; \<open>show_py\<close> is \<open>str\<close> on values that are not text.
\<close>

definition pull_hf ::
  "network \<Rightarrow> write_env \<Rightarrow> (pyval \<Rightarrow> string) \<Rightarrow> string list \<Rightarrow> string \<Rightarrow> (string \<times> pyval) list \<Rightarrow> blob_tree
     \<Rightarrow> pull_result" where
  "pull_hf nw we show_py allowlist key payload t =
     (let repo = get_or_none payload ''repo_id''; filename = get_or_none payload ''filename'';
          revision = (case dict_get payload ''revision'' of None \<Rightarrow> PyStr ''main'' | Some r \<Rightarrow> r);
          str = (\<lambda>v. case v of PyStr s \<Rightarrow> s | _ \<Rightarrow> show_py v);
          url = hf_url (str repo) (str revision) (str filename)
      in if \<not> truthy repo \<or> \<not> truthy filename then refused (Http 400) t
         else case double_resolve_check (nw_dns nw) 0 url of
           (Inl e, n) \<Rightarrow> refused (guard_refusal e) t
         | (Inr (host, ip), n) \<Rightarrow>
             if \<not> is_hf_host host allowlist then refused (Http 403) t
             else download nw (\<lambda>h. is_hf_host h allowlist) we (get_or_none payload ''expected_sha256'') url
                    (if key = [] then [] else [(''Authorization'', ''Bearer '' @ key)]) n t)"

subsection \<open>Local imports and deletion\<close>

definition DENIED_PATH_PREFIXES :: "string list" where
  "DENIED_PATH_PREFIXES =
     [''/proc/'', ''/sys/'', ''/dev/'', ''/etc/'', ''/root/'', ''/var/run/'', ''/var/lib/dpkg/'', ''/boot/'']"

text \<open>
  The file system below a path: \<open>is_symlink\<close>, \<open>resolve\<close>, \<open>exists\<close>, \<open>is_file\<close>, and the content an
  \<open>open\<close> with \<open>O_NOFOLLOW\<close> reads (\<open>None\<close> when it fails).
\<close>

record fs_view =
  fv_symlink :: "string \<Rightarrow> bool"
  fv_resolve :: "string \<Rightarrow> string"
  fv_exists :: "string \<Rightarrow> bool"
  fv_is_file :: "string \<Rightarrow> bool"
  fv_read :: "string \<Rightarrow> string option"

definition path_parts :: "string \<Rightarrow> string list" where
  "path_parts p = filter (\<lambda>c. c \<noteq> []) (split_on (CHR ''/'') p)"

definition relative_to :: "string \<Rightarrow> string \<Rightarrow> bool" where
  "relative_to p root_path \<longleftrightarrow> (\<exists>rest. path_parts p = path_parts root_path @ rest)"

lemma relative_to_code [code]:
  "relative_to p root_path = (take (length (path_parts root_path)) (path_parts p) = path_parts root_path)"
  by (auto simp: relative_to_def) (metis append_take_drop_id)

datatype path_error = EmptyPath | NotAbsolute | DeniedPrefix | IsSymlink | EscapesRoot | Missing | NotRegular

definition validate_import_path :: "fs_view \<Rightarrow> string \<Rightarrow> string \<Rightarrow> path_error + string" where
  "validate_import_path fv root_path candidate =
     (if candidate = [] then Inl EmptyPath
      else if \<not> starts_with ''/'' candidate then Inl NotAbsolute
      else if list_ex (\<lambda>d. starts_with d candidate) DENIED_PATH_PREFIXES then Inl DeniedPrefix
      else if fv_symlink fv candidate then Inl IsSymlink
      else
        (let resolved = fv_resolve fv candidate in
         if \<not> relative_to resolved (fv_resolve fv root_path) then Inl EscapesRoot
         else if \<not> fv_exists fv resolved then Inl Missing
         else if \<not> fv_is_file fv resolved then Inl NotRegular
         else Inr resolved))"

definition GGUF_MAGIC :: string where "GGUF_MAGIC = ''GGUF''"

definition CHUNK_SIZE :: nat where "CHUNK_SIZE = 65536"

function chunked :: "nat \<Rightarrow> string \<Rightarrow> string list" where
  "chunked k s = (if s = [] \<or> k = 0 then [] else take k s # chunked k (drop k s))"
  by pat_completeness auto
termination by (relation "measure (\<lambda>(k, s). length s)") auto

declare chunked.simps [simp del]

definition stream_local_file :: "fs_view \<Rightarrow> string \<Rightarrow> string list \<times> pull_failure option" where
  "stream_local_file fv p =
     (case fv_read fv p of
        None \<Rightarrow> ([], Some ReadFailure)
      | Some content \<Rightarrow>
          if take 4 content \<noteq> GGUF_MAGIC then ([], Some NotGguf)
          else (take 4 content # chunked CHUNK_SIZE (drop 4 content), None))"

definition import_local ::
  "fs_view \<Rightarrow> string \<Rightarrow> write_env \<Rightarrow> (string \<times> pyval) list \<Rightarrow> blob_tree \<Rightarrow> pull_response \<times> pull_event list \<times> blob_tree" where
  "import_local fv root_path we payload t =
     (case (let raw = get_or_none payload ''path'' in if truthy raw then raw else PyStr []) of
        PyStr candidate \<Rightarrow>
          (case validate_import_path fv root_path candidate of
             Inl e \<Rightarrow> (Http 400, [], t)
           | Inr path \<Rightarrow>
               (case stream_local_file fv path of
                  (chunks, failure) \<Rightarrow> store_source write_stream_atomic we (get_or_none payload ''expected_sha256'') chunks failure t))
      | _ \<Rightarrow> (Http 400, [], t))"

definition removeprefix :: "string \<Rightarrow> string \<Rightarrow> string" where
  "removeprefix p s = (if starts_with p s then drop (length p) s else s)"

definition delete_blob_route :: "(string \<times> pyval) list \<Rightarrow> blob_tree \<Rightarrow> pull_response \<times> blob_tree" where
  "delete_blob_route payload t =
     (let sha = (if truthy (get_or_none payload ''sha256'') then Some (get_or_none payload ''sha256'')
                 else case dict_get payload ''digest'' of
                   None \<Rightarrow> Some (PyStr [])
                 | Some (PyStr d) \<Rightarrow> Some (PyStr (removeprefix ''sha256:'' d))
                 | Some _ \<Rightarrow> None)
      in case sha of
           Some (PyStr h) \<Rightarrow>
             if h = [] then (Http 400, t)
             else (case (delete_blob h t :: (unit blob_error + bool) \<times> blob_tree) of
                     (Inl e, t') \<Rightarrow> (Http 400, t')
                   | (Inr False, t') \<Rightarrow> (Http 404, t')
                   | (Inr True, t') \<Rightarrow> (Http 200, t'))
         | _ \<Rightarrow> (Crash, t))"

subsection \<open>The second resolution proves nothing\<close>

lemma double_resolve_guarded: "double_resolve_check dns n url = (Inr (host, ip), n') \<Longrightarrow> guarded url host ip"
  by (auto simp: double_resolve_check_def dest: validate_guarded split: prod.splits sum.splits if_splits)

text \<open>
  The second resolution of the rebinding check compares nothing that could differ: a URL passes
  exactly when it passes the guard twice in a row, whatever two addresses the resolver gave, and
  the address of the first answer is reported.
\<close>

theorem rebind_check_never_compares:
  "fst (double_resolve_check dns n url) =
     (case validate_pull_url dns n url of
        (Inl e, n') \<Rightarrow> Inl e
      | (Inr r, n') \<Rightarrow> rbind (fst (validate_pull_url dns n' url)) (\<lambda>_. Inr r))"
  using validate_host [of dns n url]
  by (fastforce simp: double_resolve_check_def split: prod.splits sum.splits)

subsection \<open>Where requests go\<close>

definition carries_key :: "http_request \<Rightarrow> bool" where
  "carries_key rq \<longleftrightarrow> list_ex is_authorization (rq_headers rq)"

definition safe_request :: "(string \<Rightarrow> bool) \<Rightarrow> http_request \<Rightarrow> bool" where
  "safe_request allowed rq \<longleftrightarrow> allowed (rq_host rq) \<and> (\<exists>ip. guarded (rq_url rq) (rq_host rq) ip)"

text \<open>The requests of one hop: none, one, or one and those of the hops it leads to.\<close>

lemma hop_cases:
  assumes "fst (stream_with_redirects nw allowed (Suc hops) url hs prev n) = rqs"
  obtains "rqs = []"
  | host ip n' rest where
      "double_resolve_check (nw_dns nw) n url = (Inr (host, ip), n')" "allowed host"
      "rqs = \<lparr>rq_url = url, rq_host = host, rq_headers = hop_headers prev host hs\<rparr> # rest"
      "rest = [] \<or>
       (\<exists>u. rest = fst (stream_with_redirects nw allowed hops u (hop_headers prev host hs) (Some host) n'))"
proof (cases "double_resolve_check (nw_dns nw) n url")
  case (Pair r n')
  show thesis
  proof (cases r)
    case (Inl e)
    with Pair assms that(1) show thesis by simp
  next
    case (Inr hi)
    obtain host ip where hi: "hi = (host, ip)" by force
    let ?rq = "\<lparr>rq_url = url, rq_host = host, rq_headers = hop_headers prev host hs\<rparr>"
    show thesis
    proof (cases "allowed host")
      case False
      with Pair Inr hi assms that(1) show thesis by simp
    next
      case True
      let ?again = "\<lambda>l. fst (stream_with_redirects nw allowed hops (nw_join nw url l) (hop_headers prev host hs) (Some host) n')"
      have "rqs = [?rq] \<or> (\<exists>l. rqs = ?rq # ?again l)"
        using assms Pair Inr hi True by (cases "nw_get nw n' ?rq") (auto simp: Let_def split_beta split: if_splits)
      then show thesis using that(2) [OF Pair [unfolded Inr hi] True] by blast
    qed
  qed
qed

declare stream_with_redirects.simps(2) [simp del]

lemma requests_are_safe:
  "list_all (safe_request allowed) (fst (stream_with_redirects nw allowed hops url hs prev n)) \<and>
   length (fst (stream_with_redirects nw allowed hops url hs prev n)) \<le> hops"
proof (induction hops arbitrary: url hs prev n)
  case (Suc hops)
  show ?case
  proof (rule hop_cases [OF refl, of nw allowed hops url hs prev n])
    fix host ip n' rest
    assume d: "double_resolve_check (nw_dns nw) n url = (Inr (host, ip), n')" "allowed host"
      and r: "fst (stream_with_redirects nw allowed (Suc hops) url hs prev n) =
          \<lparr>rq_url = url, rq_host = host, rq_headers = hop_headers prev host hs\<rparr> # rest"
      and rest: "rest = [] \<or>
          (\<exists>u. rest = fst (stream_with_redirects nw allowed hops u (hop_headers prev host hs) (Some host) n'))"
    have "safe_request allowed \<lparr>rq_url = url, rq_host = host, rq_headers = hop_headers prev host hs\<rparr>"
      using double_resolve_guarded [OF d(1)] d(2) by (auto simp: safe_request_def)
    moreover have "list_all (safe_request allowed) rest \<and> length rest \<le> hops"
      using rest Suc.IH by auto
    ultimately show ?thesis by (simp add: r)
  qed simp
qed simp

lemma hop_headers_subset: "set (hop_headers prev host hs) \<subseteq> set hs"
  by (auto simp: hop_headers_def)

lemma keyless_stays_keyless:
  "\<not> list_ex is_authorization hs \<Longrightarrow>
   \<not> list_ex carries_key (fst (stream_with_redirects nw allowed hops url hs prev n))"
proof (induction hops arbitrary: url hs prev n)
  case (Suc hops)
  have keyless: "\<not> list_ex is_authorization (hop_headers prev host hs)" for host
    using Suc.prems hop_headers_subset [of prev host hs] by (auto simp: list_ex_iff)
  show ?case
  proof (rule hop_cases [OF refl, of nw allowed hops url hs prev n])
    fix host ip n' rest
    assume r: "fst (stream_with_redirects nw allowed (Suc hops) url hs prev n) =
          \<lparr>rq_url = url, rq_host = host, rq_headers = hop_headers prev host hs\<rparr> # rest"
      and rest: "rest = [] \<or>
          (\<exists>u. rest = fst (stream_with_redirects nw allowed hops u (hop_headers prev host hs) (Some host) n'))"
    show ?thesis using rest Suc.IH [OF keyless] keyless by (auto simp: r carries_key_def)
  qed simp
qed simp

lemma key_stays_home:
  "rq \<in> set (fst (stream_with_redirects nw allowed hops url hs (Some home) n)) \<Longrightarrow> carries_key rq \<Longrightarrow> rq_host rq = home"
proof (induction hops arbitrary: url hs n)
  case (Suc hops)
  show ?case
  proof (rule hop_cases [OF refl, of nw allowed hops url hs "Some home" n])
    fix host ip n' rest
    let ?hs = "hop_headers (Some home) host hs"
    assume r: "fst (stream_with_redirects nw allowed (Suc hops) url hs (Some home) n) =
          \<lparr>rq_url = url, rq_host = host, rq_headers = ?hs\<rparr> # rest"
      and rest: "rest = [] \<or> (\<exists>u. rest = fst (stream_with_redirects nw allowed hops u ?hs (Some host) n'))"
    show ?thesis
    proof (cases "host = home")
      case True
      with Suc rest show ?thesis by (auto simp: r)
    next
      case False
      then have "\<not> list_ex is_authorization ?hs" by (auto simp: hop_headers_def list_ex_iff)
      with keyless_stays_keyless [OF this] rest Suc.prems show ?thesis
        by (auto simp: r carries_key_def list_ex_iff)
    qed
  qed (use Suc.prems in simp)
qed simp

lemma key_stays_at_first_host:
  assumes d: "double_resolve_check (nw_dns nw) n url = (Inr (home, ip), n')"
    and rq: "rq \<in> set (fst (stream_with_redirects nw allowed hops url hs None n))" "carries_key rq"
  shows "rq_host rq = home"
proof (cases hops)
  case (Suc k)
  show ?thesis
  proof (rule hop_cases [OF refl, of nw allowed k url hs None n])
    fix host ip' n'' rest
    assume "double_resolve_check (nw_dns nw) n url = (Inr (host, ip'), n'')"
      and "fst (stream_with_redirects nw allowed (Suc k) url hs None n) =
          \<lparr>rq_url = url, rq_host = host, rq_headers = hop_headers None host hs\<rparr> # rest"
      and "rest = [] \<or>
          (\<exists>u. rest = fst (stream_with_redirects nw allowed k u (hop_headers None host hs) (Some host) n''))"
    with d rq Suc key_stays_home show ?thesis by auto
  qed (use rq Suc in simp)
qed (use rq in simp)

lemma guarded_host: "guarded url h ip \<Longrightarrow> guarded url h' ip' \<Longrightarrow> h = h'"
  by (auto simp: guarded_def)

lemma request_urls_first:
  "rq \<in> set (fst (stream_with_redirects nw allowed hops url hs None n)) \<Longrightarrow> carries_key rq \<Longrightarrow>
   guarded url home ip \<Longrightarrow> rq_host rq = home"
proof -
  assume rq: "rq \<in> set (fst (stream_with_redirects nw allowed hops url hs None n))" "carries_key rq"
    and home: "guarded url home ip"
  then obtain h ip' n' where d: "double_resolve_check (nw_dns nw) n url = (Inr (h, ip'), n')"
    by (cases hops) (auto simp: stream_with_redirects.simps(2) split: prod.splits sum.splits)
  with double_resolve_guarded [OF d] guarded_host home key_stays_at_first_host [OF d rq] show ?thesis by blast
qed

lemma download_requests: "set (pl_requests (download nw allowed we ex url hs n t)) \<subseteq>
    set (fst (stream_with_redirects nw allowed MAX_HOPS url hs None n))"
  by (auto simp: download_def split: prod.splits)

text \<open>The Hugging Face URL stays on its host, whatever the caller puts into it.\<close>

lemma hf_url_host: "guarded (hf_url repo revision filename) host ip \<Longrightarrow> host = ''huggingface.co''"
proof -
  let ?rest = "repo @ ''/resolve/'' @ revision @ ''/'' @ filename"
  have clean: "url_clean (hf_url repo revision filename) =
      ''https://huggingface.co/'' @ filter (\<lambda>c. code c \<notin> {9, 10, 13}) ?rest"
    by (simp add: url_clean_def hf_url_def code_def)
  have "split_scheme (''https://huggingface.co/'' @ s) = (''https'', ''//huggingface.co/'' @ s)" for s
    by (simp add: split_scheme_def starts_with_def is_alpha_def scheme_char_def lower_def to_lower_def char_class_defs)
  then have "urlsplit (hf_url repo revision filename) = Some (''https'', ''huggingface.co'')"
    unfolding urlsplit_def clean by (simp add: starts_with_def Let_def)
  moreover have "hostname ''huggingface.co'' = Some ''huggingface.co''" by code_simp
  moreover assume "guarded (hf_url repo revision filename) host ip"
  ultimately show ?thesis by (auto simp: guarded_def)
qed


definition example_network :: network where
  "example_network =
     \<lparr>nw_dns = (\<lambda>n host. Some [''93.184.216.34'']),
      nw_get = (\<lambda>n rq. if rq_host rq = ''huggingface.co''
                        then Answer 302 (Some ''https://cdn.hf.co/x'') [] True else Answer 200 None [''GGUF''] True),
      nw_join = (\<lambda>base location. location)\<rparr>"

definition example_env :: write_env where
  "example_env =
     \<lparr>we_sha = constant_hash, we_now = 5, we_tmp = ''t'', we_limit = 100, we_fault = NoFault\<rparr>"

definition example_pull :: pull_result where
  "example_pull = pull_hf example_network example_env (\<lambda>_. []) [''huggingface.co'', ''hf.co''] ''k''
     [(''repo_id'', PyStr ''a/b''), (''filename'', PyStr ''m.gguf'')] []"


subsection \<open>What a pull reports\<close>

lemma guard_refusal_cases: "guard_refusal e \<in> {Http 400, Crash}"
  by (cases e) auto

lemma pull_url_cases:
  obtains resp where "resp \<in> {Http 400, Crash}" "pull_url nw we payload t = refused resp t"
  | ex url n where "pull_url nw we payload t = download nw (\<lambda>_. True) we ex url [] n t"
proof (cases "\<exists>resp. resp \<in> {Http 400, Crash} \<and> pull_url nw we payload t = refused resp t")
  case False
  then show thesis
    using that(2) guard_refusal_cases unfolding pull_url_def
    by (fastforce split: pyval.splits prod.splits sum.splits if_splits)
qed (use that(1) in blast)

text \<open>
  A pull's events tell its outcome: none when it was refused before the download (nothing was
  requested or stored), a start and a matching completion or failure when the client gets a
  result or an error status, and a start without an end exactly when an exception escapes the
  handler.
\<close>

theorem pull_events_tell_the_outcome:
  "case pl_events (pull_url nw we payload t) of
     [] \<Rightarrow> pl_response (pull_url nw we payload t) \<in> {Http 400, Crash} \<and>
            pl_requests (pull_url nw we payload t) = [] \<and> pl_tree (pull_url nw we payload t) = t
   | [Started] \<Rightarrow> pl_response (pull_url nw we payload t) = Crash
   | [Started, Complete h n] \<Rightarrow> pl_response (pull_url nw we payload t) = Pulled h n
   | [Started, Failed reason] \<Rightarrow>
       pl_response (pull_url nw we payload t) \<in> {Http 400, Http 413, Http 500, Http 502}
   | _ \<Rightarrow> False"
proof -
  have outcome: "case pull_outcome ex r of
      (resp, []) \<Rightarrow> resp = Crash
    | (resp, [Complete h n]) \<Rightarrow> resp = Pulled h n
    | (resp, [Failed reason]) \<Rightarrow> resp \<in> {Http 400, Http 413, Http 500, Http 502}
    | _ \<Rightarrow> False" for ex r
    by (cases "(ex, r)" rule: pull_outcome.cases) auto
  have dl: "\<exists>evs. pl_events (download nw a we ex url hs n t) = Started # evs \<and>
      (\<exists>r. pull_outcome ex r = (pl_response (download nw a we ex url hs n t), evs))" for a ex url hs n
    by (auto simp: download_def store_source_def split: prod.splits)
  show ?thesis
  proof (rule pull_url_cases [of nw we payload t])
    fix resp assume "resp \<in> {Http 400, Crash}" "pull_url nw we payload t = refused resp t"
    then show ?thesis by (auto simp: refused_def)
  next
    fix ex url n assume p: "pull_url nw we payload t = download nw (\<lambda>_. True) we ex url [] n t"
    from dl [of "\<lambda>_. True" ex url "[]" n] obtain evs r where
      e: "pl_events (pull_url nw we payload t) = Started # evs"
      "pull_outcome ex r = (pl_response (pull_url nw we payload t), evs)" unfolding p by blast
    from outcome [of ex r] show ?thesis unfolding e
      by (auto split: list.splits pull_event.splits)
  qed
qed

text \<open>A redirect to a denied address escapes the handler: a crash, and no failure event.\<close>

definition redirecting_network :: "string \<Rightarrow> network" where
  "redirecting_network target =
     \<lparr>nw_dns = (\<lambda>n host. Some [''93.184.216.34'']),
      nw_get = (\<lambda>n rq. Answer 302 (Some target) [] True),
      nw_join = (\<lambda>base location. location)\<rparr>"

lemma unsafe_redirect_escapes:
  "(let r = pull_url (redirecting_network ''https://169.254.169.254/'') example_env
              [(''url'', PyStr ''https://example.org/m'')] []
    in pl_response r = Crash \<and> pl_events r = [Started] \<and> length (pl_requests r) = 1)"
  by code_simp

subsection \<open>What an import takes\<close>

lemma concat_chunked: "0 < k \<Longrightarrow> concat (chunked k s) = s"
  by (induction k s rule: chunked.induct) (subst chunked.simps, auto)

lemma stream_local_file_ok:
  "stream_local_file fv p = (chunks, None) \<Longrightarrow>
   \<exists>content. fv_read fv p = Some content \<and> take 4 content = GGUF_MAGIC \<and> concat chunks = content"
proof -
  assume a: "stream_local_file fv p = (chunks, None)"
  then obtain content where c: "fv_read fv p = Some content" "take 4 content = GGUF_MAGIC"
    "chunks = take 4 content # chunked CHUNK_SIZE (drop 4 content)"
    by (auto simp: stream_local_file_def split: option.splits if_splits)
  have "concat chunks = content"
    unfolding c(3) by (simp only: concat.simps concat_chunked [of CHUNK_SIZE, unfolded CHUNK_SIZE_def, simplified]
        CHUNK_SIZE_def append_take_drop_id)
  with c show ?thesis by blast
qed

lemma validate_empty_path [simp]: "validate_import_path fv root_path [] = Inl EmptyPath"
  by (simp add: validate_import_path_def)

lemma validate_import_path_ok:
  "validate_import_path fv root_path c = Inr p \<Longrightarrow>
   p = fv_resolve fv c \<and> relative_to p (fv_resolve fv root_path) \<and> fv_is_file fv p \<and> fv_exists fv p \<and>
   \<not> fv_symlink fv c \<and> \<not> list_ex (\<lambda>d. starts_with d c) DENIED_PATH_PREFIXES"
  by (auto simp: validate_import_path_def Let_def split: if_splits)

lemma pull_outcome_Pulled: "pull_outcome ex r = (Pulled h n, evs) \<Longrightarrow> r = Inr (h, n)"
  by (cases "(ex, r)" rule: pull_outcome.cases) (auto split: if_splits)

text \<open>
  C29: An import that succeeds took the whole of one regular file below the import root: the
  caller's path is no symbolic link and has no denied prefix, it resolves to a path under the
  resolved root, the file starts with the GGUF magic, and the blob stored under its hash is
  its content, byte for byte.
\<close>

theorem import_takes_one_file_below_root:
  assumes imp: "import_local fv root_path we payload t = (Pulled h n, evs, t')"
    and fresh: "dir_look t (Incoming (we_tmp we)) = None"
  shows "\<exists>c content. get_or_none payload ''path'' = PyStr c \<and>
    \<not> fv_symlink fv c \<and> \<not> list_ex (\<lambda>d. starts_with d c) DENIED_PATH_PREFIXES \<and>
    relative_to (fv_resolve fv c) (fv_resolve fv root_path) \<and> fv_is_file fv (fv_resolve fv c) \<and>
    fv_read fv (fv_resolve fv c) = Some content \<and> take 4 content = GGUF_MAGIC \<and>
    h = we_sha we content \<and> n = length content \<and> map_option bf_content (blob_at t' h) = Some content"
proof -
  from imp obtain c p chunks failure where
    c: "get_or_none payload ''path'' = PyStr c" "validate_import_path fv root_path c = Inr p"
    and src: "stream_local_file fv p = (chunks, failure)"
    and st: "store_source write_stream_atomic we (get_or_none payload ''expected_sha256'') chunks failure t = (Pulled h n, evs, t')"
    by (auto simp: import_local_def Let_def split: pyval.splits sum.splits prod.splits if_splits)
  let ?w = "write_stream_atomic (we_sha we) (we_now we) (we_tmp we) (we_limit we)
      (expected_arg (get_or_none payload ''expected_sha256'')) (we_fault we) \<lparr>so_chunks = chunks, so_error = failure\<rparr> t"
  from st have "?w = (Inr (h, n), t')"
    by (auto simp: store_source_def dest!: pull_outcome_Pulled split: prod.splits)
  from write_outcome [OF this fresh] have w: "failure = None" "h = we_sha we (concat chunks)" "n = length (concat chunks)"
    "map_option bf_content (blob_at t' h) = Some (concat chunks)"
    by (auto simp: delivers_def blob_at_def)
  from src w(1) obtain content where "fv_read fv p = Some content" "take 4 content = GGUF_MAGIC" "concat chunks = content"
    using stream_local_file_ok by blast
  with c validate_import_path_ok [OF c(2)] w show ?thesis by auto
qed

definition example_view :: fs_view where
  "example_view =
     \<lparr>fv_symlink = (\<lambda>_. False), fv_resolve = (\<lambda>p. p), fv_exists = (\<lambda>_. True), fv_is_file = (\<lambda>_. True),
      fv_read = (\<lambda>_. Some ''GGUFdata'')\<rparr>"

theorem import_takes_one_file_below_root_witness:
  "map_option bf_content (blob_at (snd (snd (import_local example_view ''/srv'' example_env
     [(''path'', PyStr ''/srv/m.gguf'')] []))) (replicate 64 (CHR ''a''))) = Some ''GGUFdata''"
proof -
  obtain r evs t' where i: "import_local example_view ''/srv'' example_env [(''path'', PyStr ''/srv/m.gguf'')] [] = (r, evs, t')"
    by (metis prod_cases3)
  moreover have "fst (import_local example_view ''/srv'' example_env [(''path'', PyStr ''/srv/m.gguf'')] []) =
      Pulled (replicate 64 (CHR ''a'')) 8"
    by (simp add: import_local_def Let_def get_or_none_def dict_get_def validate_import_path_def example_view_def
        DENIED_PATH_PREFIXES_def starts_with_def relative_to_def path_parts_def stream_local_file_def GGUF_MAGIC_def
        chunked.simps CHUNK_SIZE_def store_source_def write_stream_atomic_def example_env_def dir_look_def
        check_expected_def final_path_def constant_hash_def sha256_re_def match_dollar_def list_all_iff is_hex_lower_def char_class_defs)
  ultimately have imp: "import_local example_view ''/srv'' example_env [(''path'', PyStr ''/srv/m.gguf'')] [] =
      (Pulled (replicate 64 (CHR ''a'')) 8, evs, t')" by simp
  have "dir_look ([] :: blob_tree) (Incoming (we_tmp example_env)) = None" by (simp add: dir_look_def)
  from import_takes_one_file_below_root [OF imp this]
  have "map_option bf_content (blob_at t' (replicate 64 (CHR ''a''))) = Some ''GGUFdata''"
    by (auto simp: example_view_def)
  then show ?thesis by (simp add: imp)
qed

text \<open>The prefixes are tested on the caller's text: under a root of \<open>/\<close> a doubled slash passes them.\<close>

lemma denied_prefix_is_textual:
  "validate_import_path (example_view\<lparr>fv_resolve := (\<lambda>p. if p = ''//etc/shadow'' then ''/etc/shadow'' else p)\<rparr>)
     ''/'' ''//etc/shadow'' = Inr ''/etc/shadow''"
  by code_simp

end
