(* ===== verification/Config.thy ===== *)
theory Config
  imports Queues Timers "HOL-Library.List_Lexorder" "HOL-Library.Char_ord"
begin

text \<open>
  \<open>config.py\<close>, \<open>api/config_put.py\<close>, the configuration views of \<open>api/main.py\<close> and the start
  of the process in \<open>__main__.py\<close>. The configuration classes are tables of fields with the
  kinds, defaults and bounds the sources give them. What pydantic makes of a value that does
  not have the field's kind already (\<open>"60"\<close> for an integer) is the parameter \<open>coercions\<close>;
  a value of the right kind is kept, an unknown key is an error (\<open>extra="forbid"\<close>), and a
  default is not validated. Paths are kept as written. \<open>float(s)\<close> is a parameter too.
\<close>

subsection \<open>Fields\<close>

datatype field_kind = KInt | KFloat | KBool | KStr | KPath | KStrs

datatype bound = Ge rat | Gt rat | Le rat

record field =
  f_name :: string
  f_kind :: field_kind
  f_default :: "pyval option"
  f_bounds :: "bound list"
  f_check :: "string \<Rightarrow> bool"

definition plain_field :: "string \<Rightarrow> field_kind \<Rightarrow> pyval option \<Rightarrow> field" where
  "plain_field n k d = \<lparr>f_name = n, f_kind = k, f_default = d, f_bounds = [], f_check = (\<lambda>_. True)\<rparr>"

definition checked_field :: "string \<Rightarrow> string \<Rightarrow> (string \<Rightarrow> bool) \<Rightarrow> field" where
  "checked_field n d ok = (plain_field n KStr (Some (PyStr d)))\<lparr>f_check := ok\<rparr>"

definition int_field :: "string \<Rightarrow> int \<Rightarrow> bound list \<Rightarrow> field" where
  "int_field n d bs = (plain_field n KInt (Some (PyInt d)))\<lparr>f_bounds := bs\<rparr>"

definition float_field :: "string \<Rightarrow> rat \<Rightarrow> bound list \<Rightarrow> field" where
  "float_field n d bs = (plain_field n KFloat (Some (PyFloat (Finite d))))\<lparr>f_bounds := bs\<rparr>"

definition bool_field :: "string \<Rightarrow> bool \<Rightarrow> field" where
  "bool_field n d = plain_field n KBool (Some (PyBool d))"

definition SERVER_FIELDS :: "field list" where
  "SERVER_FIELDS =
     [checked_field ''host'' ''127.0.0.1'' (\<lambda>v. v \<noteq> ''0.0.0.0''),
      int_field ''port'' 11401 [Ge 1, Le 65535],
      bool_field ''allow_public_bind'' False]"

definition STORAGE_FIELDS :: "field list" where
  "STORAGE_FIELDS =
     [plain_field ''blob_store_path'' KPath None, plain_field ''manifests_path'' KPath None,
      plain_field ''import_allowed_root'' KPath None, plain_field ''state_db_path'' KPath None]"

definition RUNTIME_PATHS_FIELDS :: "field list" where
  "RUNTIME_PATHS_FIELDS =
     [plain_field ''llama_server_binary'' KPath None,
      plain_field ''llama_server_binary_sha256'' KStr (Some (PyStr [])),
      int_field ''default_port_base'' 11500 [Ge 1024, Le 65000],
      checked_field ''gpu_backend'' ''auto'' (\<lambda>v. v \<in> set [''auto'', ''nvidia'', ''rocm''])]"

definition UI_FIELDS :: "field list" where
  "UI_FIELDS = [bool_field ''enabled'' True, plain_field ''static_path'' KPath None]"

definition QUEUE_FIELDS :: "field list" where
  "QUEUE_FIELDS =
     [int_field ''max_parallel_sidecars'' 1 [Ge 1, Le 32],
      int_field ''staging_queue_depth'' 100 [Ge 1, Le 10000],
      int_field ''acceptance_buffer_max'' 10000 [Ge 1],
      int_field ''max_consecutive_same_model'' 3 [Ge 1, Le 1000],
      float_field ''max_other_model_wait_s'' 20 [Ge 0, Le 3600],
      int_field ''grace_seconds'' 30 [Ge 0, Le 3600],
      int_field ''idle_hot_load_seconds'' 600 [Ge 0, Le 86400],
      bool_field ''safety_enabled'' True,
      int_field ''safety_min_free_ram_mib'' 1024 [Ge 0],
      int_field ''safety_min_free_vram_mib'' 512 [Ge 0],
      float_field ''safety_max_load_per_core'' (9 / 10) [Ge 0],
      float_field ''safety_max_iowait_percent'' 30 [Ge 0, Le 100],
      float_field ''safety_iowait_sample_window_s'' (2 / 5) [Ge (1 / 20), Le 5],
      int_field ''max_grace_extensions'' 5 [Ge 0, Le 1000],
      int_field ''loading_health_timeout_s'' 600 [Ge 10, Le 7200],
      int_field ''drained_sigterm_window_active_s'' 15 [Ge 1, Le 300],
      int_field ''drained_sigterm_window_cold_s'' 5 [Ge 1, Le 300],
      int_field ''background_sweep_interval_s'' 60 [Ge 1, Le 86400],
      int_field ''background_sweep_min_age_s'' 86400 [Ge 60, Le 2592000]]"

definition PULL_FIELDS :: "field list" where
  "PULL_FIELDS =
     [plain_field ''hf_api_key_env'' KStr (Some (PyStr ''HF_API_KEY'')),
      plain_field ''hf_host_allowlist'' KStrs
        (Some (PyList (map PyStr [''huggingface.co'', ''hf.co'', ''cdn-lfs.huggingface.co'',
           ''cdn-lfs-us-1.hf.co'', ''cdn-lfs-eu-1.hf.co'']))),
      bool_field ''pull_url_https_only'' True,
      int_field ''pull_concurrency'' 2 [Ge 1, Le 16],
      int_field ''pull_chunk_size_mb'' 64 [Ge 1, Le 1024],
      int_field ''per_stream_max_bytes'' 107374182400 [Ge 1]]"

definition MONITOR_FIELDS :: "field list" where
  "MONITOR_FIELDS = [bool_field ''enabled'' True, float_field ''poll_interval_s'' 1 [Gt 0, Le 60]]"

subsection \<open>Validation\<close>

record coercions =
  to_int :: "pyval \<Rightarrow> int option"
  to_float :: "pyval \<Rightarrow> pyfloat option"
  to_bool :: "pyval \<Rightarrow> bool option"
  to_text :: "pyval \<Rightarrow> string option"
  to_texts :: "pyval \<Rightarrow> string list option"

fun has_kind :: "field_kind \<Rightarrow> pyval \<Rightarrow> bool" where
  "has_kind KInt (PyInt _) = True"
| "has_kind KFloat (PyFloat _) = True"
| "has_kind KBool (PyBool _) = True"
| "has_kind KStr (PyStr _) = True"
| "has_kind KPath (PyStr _) = True"
| "has_kind KStrs (PyList vs) = list_all is_py_str vs"
| "has_kind _ _ = False"

fun convert :: "coercions \<Rightarrow> field_kind \<Rightarrow> pyval \<Rightarrow> pyval option" where
  "convert co KInt v = map_option PyInt (to_int co v)"
| "convert co KFloat v = map_option PyFloat (to_float co v)"
| "convert co KBool v = map_option PyBool (to_bool co v)"
| "convert co KStr v = map_option PyStr (to_text co v)"
| "convert co KPath v = map_option PyStr (to_text co v)"
| "convert co KStrs v = map_option (\<lambda>ts. PyList (map PyStr ts)) (to_texts co v)"

definition coerce :: "coercions \<Rightarrow> field_kind \<Rightarrow> pyval \<Rightarrow> pyval option" where
  "coerce co k v = (if has_kind k v then Some v else convert co k v)"

fun bound_ok :: "pyfloat \<Rightarrow> bound \<Rightarrow> bool" where
  "bound_ok x (Ge b) \<longleftrightarrow> x = Finite b \<or> float_lt (Finite b) x"
| "bound_ok x (Gt b) \<longleftrightarrow> float_lt (Finite b) x"
| "bound_ok x (Le b) \<longleftrightarrow> x = Finite b \<or> float_lt x (Finite b)"

fun constraint_ok :: "field \<Rightarrow> pyval \<Rightarrow> bool" where
  "constraint_ok f (PyInt i) = list_all (bound_ok (Finite (of_int i))) (f_bounds f)"
| "constraint_ok f (PyFloat x) = list_all (bound_ok x) (f_bounds f)"
| "constraint_ok f (PyStr s) = f_check f s"
| "constraint_ok f _ = True"

datatype config_error =
    Missing string
  | BadValue string
  | OutOfBounds string
  | Extra string
  | NotADict string
  | ConfigNotFound
  | RootNotMapping
  | BadEnv string

type_synonym fields = "(string \<times> pyval) list"

text \<open>\<open>C(**d)\<close> for a class of the tables: every error is collected, in pydantic's order.\<close>

definition field_value :: "coercions \<Rightarrow> fields \<Rightarrow> field \<Rightarrow> config_error + pyval" where
  "field_value co d f =
     (case dict_get d (f_name f) of
        None \<Rightarrow> (case f_default f of None \<Rightarrow> Inl (Missing (f_name f)) | Some v \<Rightarrow> Inr v)
      | Some raw \<Rightarrow>
          (case coerce co (f_kind f) raw of
             None \<Rightarrow> Inl (BadValue (f_name f))
           | Some v \<Rightarrow> if constraint_ok f v then Inr v else Inl (OutOfBounds (f_name f))))"

fun errors_of :: "(config_error + 'a) list \<Rightarrow> config_error list" where
  "errors_of [] = []"
| "errors_of (Inl e # rs) = e # errors_of rs"
| "errors_of (Inr _ # rs) = errors_of rs"

fun results_of :: "(config_error + 'a) list \<Rightarrow> 'a list" where
  "results_of [] = []"
| "results_of (Inl _ # rs) = results_of rs"
| "results_of (Inr v # rs) = v # results_of rs"

definition extra_errors :: "string list \<Rightarrow> string list \<Rightarrow> config_error list" where
  "extra_errors known keys = map Extra (filter (\<lambda>k. k \<notin> set known) keys)"

definition build_section :: "coercions \<Rightarrow> field list \<Rightarrow> fields \<Rightarrow> config_error list + fields" where
  "build_section co fs d =
     (let rs = map (field_value co d) fs;
          errs = errors_of rs @ extra_errors (map f_name fs) (map fst d)
      in if errs = [] then Inr (zip (map f_name fs) (results_of rs)) else Inl errs)"

type_synonym config = "(string \<times> fields) list"
type_synonym sections = "(string \<times> field list \<times> bool) list"

text \<open>A class made of sections; the flag marks a section with a default factory.\<close>

definition section_value ::
    "coercions \<Rightarrow> fields \<Rightarrow> string \<times> field list \<times> bool \<Rightarrow> config_error list + (string \<times> fields)" where
  "section_value co d sec =
     (case sec of (n, fs, opt) \<Rightarrow>
        (case dict_get d n of
           None \<Rightarrow> if opt then (case build_section co fs [] of Inl es \<Rightarrow> Inl es | Inr s \<Rightarrow> Inr (n, s))
                   else Inl [Missing n]
         | Some (PyDict s) \<Rightarrow> (case build_section co fs s of Inl es \<Rightarrow> Inl es | Inr s' \<Rightarrow> Inr (n, s'))
         | Some _ \<Rightarrow> Inl [NotADict n]))"

definition build_config :: "coercions \<Rightarrow> sections \<Rightarrow> fields \<Rightarrow> config_error list + config" where
  "build_config co secs d =
     (let rs = map (section_value co d) secs;
          extra = extra_errors (map fst secs) (map fst d)
      in if list_all is_ok rs \<and> extra = [] then Inr (map projr rs)
         else Inl (concat (map (case_sum (\<lambda>es. es) (\<lambda>_. [])) rs) @ extra))"

definition BOOT_CONFIG :: sections where
  "BOOT_CONFIG =
     [(''server'', SERVER_FIELDS, False), (''storage'', STORAGE_FIELDS, False),
      (''runtime'', RUNTIME_PATHS_FIELDS, False), (''ui'', UI_FIELDS, False)]"

definition RUNTIME_CONFIG :: sections where
  "RUNTIME_CONFIG =
     [(''queue'', QUEUE_FIELDS, False), (''pull'', PULL_FIELDS, False),
      (''monitor'', MONITOR_FIELDS, True)]"

definition TURBOHAUL_CONFIG :: sections where
  "TURBOHAUL_CONFIG =
     [(''server'', SERVER_FIELDS, False), (''storage'', STORAGE_FIELDS, False),
      (''runtime'', RUNTIME_PATHS_FIELDS, False), (''ui'', UI_FIELDS, False),
      (''queue'', QUEUE_FIELDS, False), (''pull'', PULL_FIELDS, False),
      (''monitor'', MONITOR_FIELDS, True)]"

definition sec :: "config \<Rightarrow> string \<Rightarrow> fields" where
  "sec c n = (case map_of c n of None \<Rightarrow> [] | Some s \<Rightarrow> s)"

definition split_config :: "config \<Rightarrow> config \<times> config" where
  "split_config c =
     (map (\<lambda>n. (n, sec c n)) [''server'', ''storage'', ''runtime'', ''ui''],
      map (\<lambda>n. (n, sec c n)) [''queue'', ''pull'', ''monitor''])"

definition model_dump :: "config \<Rightarrow> fields" where
  "model_dump c = map (\<lambda>(n, s). (n, PyDict s)) c"

subsection \<open>Loading\<close>

text \<open>\<open>load_config_yaml\<close>, given what \<open>yaml.safe_load\<close> read, or that there is no file.\<close>

definition load_config_yaml :: "coercions \<Rightarrow> pyval option \<Rightarrow> config_error list + config" where
  "load_config_yaml co file =
     (case file of
        None \<Rightarrow> Inl [ConfigNotFound]
      | Some (PyDict d) \<Rightarrow> build_config co TURBOHAUL_CONFIG d
      | Some _ \<Rightarrow> Inl [RootNotMapping])"

datatype cast = CastStr | CastInt | CastFloat

definition ENV_MAP :: "(string \<times> string \<times> string \<times> cast) list" where
  "ENV_MAP =
     [(''TURBOHAUL_HOST'', ''server'', ''host'', CastStr),
      (''TURBOHAUL_PORT'', ''server'', ''port'', CastInt),
      (''TURBOHAUL_MAX_PARALLEL'', ''queue'', ''max_parallel_sidecars'', CastInt),
      (''TURBOHAUL_STAGING_DEPTH'', ''queue'', ''staging_queue_depth'', CastInt),
      (''TURBOHAUL_ACCEPT_MAX'', ''queue'', ''acceptance_buffer_max'', CastInt),
      (''TURBOHAUL_GRACE_S'', ''queue'', ''grace_seconds'', CastInt),
      (''TURBOHAUL_IDLE_HOT_S'', ''queue'', ''idle_hot_load_seconds'', CastInt),
      (''TURBOHAUL_MAX_GRACE_EXT'', ''queue'', ''max_grace_extensions'', CastInt),
      (''TURBOHAUL_MAX_CONSECUTIVE_SAME_MODEL'', ''queue'', ''max_consecutive_same_model'', CastInt),
      (''TURBOHAUL_MAX_OTHER_MODEL_WAIT_S'', ''queue'', ''max_other_model_wait_s'', CastFloat),
      (''TURBOHAUL_GPU_BACKEND'', ''runtime'', ''gpu_backend'', CastStr)]"

fun cast_value :: "(string \<Rightarrow> pyfloat option) \<Rightarrow> cast \<Rightarrow> string \<Rightarrow> pyval option" where
  "cast_value float_of CastStr v = Some (PyStr v)"
| "cast_value float_of CastInt v = map_option PyInt (py_int v)"
| "cast_value float_of CastFloat v = map_option PyFloat (float_of v)"

fun set_in :: "config \<Rightarrow> string \<Rightarrow> string \<Rightarrow> pyval \<Rightarrow> config" where
  "set_in [] n k v = []"
| "set_in ((n', s) # c) n k v = (if n' = n then (n', dict_set s k v) # c else (n', s) # set_in c n k v)"

fun override_from ::
    "(string \<Rightarrow> pyfloat option) \<Rightarrow> (string \<Rightarrow> string option) \<Rightarrow> (string \<times> string \<times> string \<times> cast) list
     \<Rightarrow> config \<Rightarrow> config_error list + config" where
  "override_from float_of env [] c = Inr c"
| "override_from float_of env ((key, section, name, ty) # rest) c =
     (case env key of
        None \<Rightarrow> override_from float_of env rest c
      | Some s \<Rightarrow>
          (case cast_value float_of ty s of
             None \<Rightarrow> Inl [BadEnv key]
           | Some v \<Rightarrow> override_from float_of env rest (set_in c section name v)))"

definition apply_env_overrides ::
    "coercions \<Rightarrow> (string \<Rightarrow> pyfloat option) \<Rightarrow> (string \<Rightarrow> string option) \<Rightarrow> config
     \<Rightarrow> config_error list + config" where
  "apply_env_overrides co float_of env c =
     (case override_from float_of env ENV_MAP c of
        Inl es \<Rightarrow> Inl es
      | Inr c' \<Rightarrow> build_config co TURBOHAUL_CONFIG (model_dump c'))"

subsection \<open>The manager's copies\<close>

text \<open>
  What \<open>TurbohaulManager.__init__\<close> makes of the configuration: the queue and the two timers
  keep their own copies of their settings.
\<close>

definition int_setting :: "fields \<Rightarrow> string \<Rightarrow> int" where
  "int_setting s n = (case get_or_none s n of PyInt i \<Rightarrow> i | _ \<Rightarrow> 0)"

definition time_setting :: "fields \<Rightarrow> string \<Rightarrow> time" where
  "time_setting s n = (case get_or_none s n of PyFloat (Finite r) \<Rightarrow> r | _ \<Rightarrow> 0)"

record configured =
  c_boot :: config
  c_runtime :: config
  c_queue :: tq
  c_grace :: grace_timer
  c_idle :: idle_timer

definition init_manager :: "config \<Rightarrow> config \<Rightarrow> configured" where
  "init_manager boot runtime =
     (let q = sec runtime ''queue'' in
      \<lparr>c_boot = boot, c_runtime = runtime,
       c_queue = new_queue (nat (int_setting q ''staging_queue_depth'')) (nat (int_setting q ''acceptance_buffer_max''))
         (nat (int_setting q ''max_consecutive_same_model'')) (time_setting q ''max_other_model_wait_s''),
       c_grace = new_grace (of_int (int_setting q ''grace_seconds'')) (nat (int_setting q ''max_grace_extensions'')),
       c_idle = new_idle (of_int (int_setting q ''idle_hot_load_seconds''))\<rparr>)"

subsection \<open>PUT and GET\<close>

definition BOOT_SECTIONS :: "string list" where
  "BOOT_SECTIONS = [''server'', ''storage'', ''runtime'', ''ui'']"

definition VALID_SECTIONS :: "string list" where
  "VALID_SECTIONS = [''queue'', ''pull'']"

datatype put_error =
    BootOnly "string list"
  | UnknownSections "string list"
  | SectionNotObject string
  | Invalid "config_error list"

fun put_status :: "put_error \<Rightarrow> nat" where
  "put_status (BootOnly _) = 403"
| "put_status (UnknownSections _) = 400"
| "put_status (SectionNotObject _) = 400"
| "put_status (Invalid _) = 400"

record put_answer =
  pa_restart_required :: bool
  pa_applied :: "string list"
  pa_current :: config

fun merge_sections :: "config \<Rightarrow> fields \<Rightarrow> fields \<Rightarrow> put_error + fields" where
  "merge_sections current [] merged = Inr merged"
| "merge_sections current ((n, v) # rest) merged =
     (case v of
        PyDict upd \<Rightarrow> merge_sections current rest (dict_set merged n (PyDict (set_all upd (sec current n))))
      | _ \<Rightarrow> Inl (SectionNotObject n))"

definition refresh_timers :: "fields \<Rightarrow> configured \<Rightarrow> configured" where
  "refresh_timers q m =
     m\<lparr>c_grace := (c_grace m)\<lparr>g_seconds := of_int (int_setting q ''grace_seconds''),
                            g_max_extensions := nat (int_setting q ''max_grace_extensions'')\<rparr>,
       c_idle := (c_idle m)\<lparr>i_seconds := of_int (int_setting q ''idle_hot_load_seconds'')\<rparr>\<rparr>"

definition put_config :: "coercions \<Rightarrow> fields \<Rightarrow> configured \<Rightarrow> (put_error + put_answer) \<times> configured" where
  "put_config co payload m =
     (let keys = map fst payload;
          boot = filter (\<lambda>k. k \<in> set BOOT_SECTIONS) keys;
          unknown = filter (\<lambda>k. k \<notin> set VALID_SECTIONS) keys
      in if boot \<noteq> [] then (Inl (BootOnly (sort boot)), m)
         else if unknown \<noteq> [] then (Inl (UnknownSections (sort unknown)), m)
         else case merge_sections (c_runtime m) payload (model_dump (c_runtime m)) of
           Inl e \<Rightarrow> (Inl e, m)
         | Inr merged \<Rightarrow>
             (case build_config co RUNTIME_CONFIG merged of
                Inl es \<Rightarrow> (Inl (Invalid es), m)
              | Inr new \<Rightarrow>
                  (let m' = m\<lparr>c_runtime := new\<rparr>;
                       m'' = (if ''queue'' \<in> set keys then refresh_timers (sec new ''queue'') m' else m')
                   in (Inr \<lparr>pa_restart_required = False, pa_applied = sort keys, pa_current = new\<rparr>, m''))))"

text \<open>\<open>Path(p).name\<close>.\<close>

definition path_name :: "string \<Rightarrow> string" where
  "path_name p =
     (case rev (filter (\<lambda>w. w \<noteq> [] \<and> w \<noteq> ''.'') (split_on (CHR ''/'') p)) of [] \<Rightarrow> [] | w # _ \<Rightarrow> w)"

definition named :: "fields \<Rightarrow> string \<Rightarrow> string \<times> pyval" where
  "named s k = (k, case get_or_none s k of PyStr p \<Rightarrow> PyStr (path_name p) | v \<Rightarrow> v)"

definition same :: "fields \<Rightarrow> string \<Rightarrow> string \<times> pyval" where
  "same s k = (k, get_or_none s k)"

definition get_config :: "configured \<Rightarrow> config" where
  "get_config m =
     (let storage = sec (c_boot m) ''storage''; run = sec (c_boot m) ''runtime''; ui = sec (c_boot m) ''ui'' in
      [(''server'', sec (c_boot m) ''server''),
       (''storage'', map (named storage) [''blob_store_path'', ''manifests_path'', ''import_allowed_root'', ''state_db_path'']),
       (''runtime'', [named run ''llama_server_binary'', same run ''llama_server_binary_sha256'', same run ''default_port_base'']),
       (''ui'', [same ui ''enabled'', named ui ''static_path'']),
       (''queue'', sec (c_runtime m) ''queue''),
       (''pull'', sec (c_runtime m) ''pull'')])"

subsection \<open>Start of the process\<close>

record cli =
  cli_config :: "string option"
  cli_public :: bool
  cli_log_level :: "string option"

datatype start =
    Exited nat
  | BadLogLevel
  | Raised "config_error list"
  | Serving string int "pyval" configured

text \<open>The names \<open>logging.basicConfig\<close> knows, compared with \<open>level.upper()\<close>.\<close>

definition LOG_LEVELS :: "string list" where
  "LOG_LEVELS = [''critical'', ''fatal'', ''error'', ''warn'', ''warning'', ''info'', ''debug'', ''notset'']"

definition env_or :: "(string \<Rightarrow> string option) \<Rightarrow> string \<Rightarrow> string \<Rightarrow> string" where
  "env_or env k d = (case env k of None \<Rightarrow> d | Some v \<Rightarrow> v)"

definition public_bind :: "(string \<Rightarrow> string option) \<Rightarrow> cli \<Rightarrow> bool" where
  "public_bind env a \<longleftrightarrow> cli_public a \<or> env ''TURBOHAUL_ALLOW_PUBLIC_BIND'' = Some ''1''"

definition config_path :: "(string \<Rightarrow> string option) \<Rightarrow> cli \<Rightarrow> string" where
  "config_path env a =
     (case cli_config a of Some p \<Rightarrow> p
      | None \<Rightarrow> env_or env ''TURBOHAUL_CONFIG_PATH'' ''/etc/turbohaul/turbohaul.yaml'')"

definition log_level_of :: "(string \<Rightarrow> string option) \<Rightarrow> cli \<Rightarrow> string" where
  "log_level_of env a =
     (case cli_log_level a of Some l \<Rightarrow> l | None \<Rightarrow> env_or env ''TURBOHAUL_LOG_LEVEL'' ''info'')"

definition bind_host :: "config \<Rightarrow> (string \<Rightarrow> string option) \<Rightarrow> cli \<Rightarrow> string" where
  "bind_host boot env a =
     (if public_bind env a then ''0.0.0.0''
      else case get_or_none (sec boot ''server'') ''host'' of PyStr h \<Rightarrow> h | _ \<Rightarrow> [])"

definition serve_config :: "(string \<Rightarrow> string option) \<Rightarrow> cli \<Rightarrow> config \<Rightarrow> start" where
  "serve_config env a c =
     (case split_config c of (boot, runtime) \<Rightarrow>
        Serving (bind_host boot env a) (int_setting (sec boot ''server'') ''port'')
          (get_or_none (sec boot ''runtime'') ''gpu_backend'') (init_manager boot runtime))"

definition main ::
    "coercions \<Rightarrow> (string \<Rightarrow> pyfloat option) \<Rightarrow> (string \<Rightarrow> string option) \<Rightarrow> (string \<Rightarrow> pyval option)
     \<Rightarrow> cli \<Rightarrow> start" where
  "main co float_of env file a =
     (if log_level_of env a \<noteq> ''trace'' \<and> lower (log_level_of env a) \<notin> set LOG_LEVELS then BadLogLevel
      else if file (config_path env a) = None then Exited 2
      else case rbind (load_config_yaml co (file (config_path env a))) (apply_env_overrides co float_of env) of
        Inl es \<Rightarrow> Raised es
      | Inr c \<Rightarrow> serve_config env a c)"

subsection \<open>Validated sections\<close>

definition value_fits :: "field \<Rightarrow> pyval \<Rightarrow> bool" where
  "value_fits f v \<longleftrightarrow> has_kind (f_kind f) v \<and> constraint_ok f v"

definition valid_section :: "field list \<Rightarrow> fields \<Rightarrow> bool" where
  "valid_section fs s \<longleftrightarrow> list_all2 (\<lambda>f (n, v). n = f_name f \<and> value_fits f v) fs s"

fun section_fits :: "string \<times> field list \<times> bool \<Rightarrow> string \<times> fields \<Rightarrow> bool" where
  "section_fits (n, fs, _) (m, s) \<longleftrightarrow> m = n \<and> valid_section fs s"

definition valid_config :: "sections \<Rightarrow> config \<Rightarrow> bool" where
  "valid_config secs c \<longleftrightarrow> list_all2 section_fits secs c"

definition sane_fields :: "field list \<Rightarrow> bool" where
  "sane_fields fs \<longleftrightarrow> distinct (map f_name fs) \<and>
     list_all (\<lambda>f. case f_default f of None \<Rightarrow> True | Some v \<Rightarrow> value_fits f v) fs"

named_theorems field_defs

lemmas [field_defs] = plain_field_def checked_field_def int_field_def float_field_def bool_field_def

lemma tables_sane:
  "sane_fields SERVER_FIELDS" "sane_fields STORAGE_FIELDS" "sane_fields RUNTIME_PATHS_FIELDS"
  "sane_fields UI_FIELDS" "sane_fields QUEUE_FIELDS" "sane_fields PULL_FIELDS" "sane_fields MONITOR_FIELDS"
  by (simp_all add: sane_fields_def value_fits_def field_defs SERVER_FIELDS_def STORAGE_FIELDS_def
      RUNTIME_PATHS_FIELDS_def UI_FIELDS_def QUEUE_FIELDS_def PULL_FIELDS_def MONITOR_FIELDS_def)

lemma map_Inr_iff: "map f xs = map Inr ys \<longleftrightarrow> list_all2 (\<lambda>x y. f x = Inr y) xs ys"
  by (auto simp: list_all2_conv_all_nth list_eq_iff_nth_eq)

lemma coerce_has_kind: "coerce co k v = Some w \<Longrightarrow> has_kind k w"
  by (cases k) (auto simp: coerce_def list_all_iff split: if_splits)

lemma field_value_fits:
  assumes "field_value co d f = Inr v" "case f_default f of None \<Rightarrow> True | Some v \<Rightarrow> value_fits f v"
  shows "value_fits f v"
  using assms coerce_has_kind
  by (auto simp: field_value_def value_fits_def split: option.splits if_splits)

lemma field_value_kept:
  assumes "dict_get d (f_name f) = Some v" "value_fits f v"
  shows "field_value co d f = Inr v"
  using assms by (simp add: field_value_def coerce_def value_fits_def)

lemma no_errors: "errors_of rs = [] \<longleftrightarrow> rs = map Inr (results_of rs)"
  by (induction rs rule: errors_of.induct) auto

lemma errors_of_Inr [simp]: "errors_of (map Inr vs) = []" "results_of (map Inr vs) = vs"
  by (induction vs) auto

lemma no_extras: "extra_errors known keys = [] \<longleftrightarrow> set keys \<subseteq> set known"
  by (auto simp: extra_errors_def filter_empty_conv)

lemma build_section_Inr:
  "build_section co fs d = Inr s \<longleftrightarrow>
     set (map fst d) \<subseteq> set (map f_name fs) \<and>
     (\<exists>vs. map (field_value co d) fs = map Inr vs \<and> s = zip (map f_name fs) vs)"
  unfolding build_section_def Let_def
  by (auto simp: no_errors no_extras simp del: set_map)

lemma list_all2_zip_names:
  assumes "map (field_value co d) fs = map Inr vs" "\<And>f v. f \<in> set fs \<Longrightarrow> field_value co d f = Inr v \<Longrightarrow> P f v"
  shows "list_all2 (\<lambda>f (n, v). n = f_name f \<and> P f v) fs (zip (map f_name fs) vs)"
  using assms
proof (induction fs arbitrary: vs)
  case (Cons f fs)
  then obtain v vs' where "vs = v # vs'" by (cases vs) auto
  with Cons show ?case by simp
qed simp

lemma built_section_valid:
  assumes "sane_fields fs" "build_section co fs d = Inr s"
  shows "valid_section fs s"
proof -
  from assms(2) obtain vs where "map (field_value co d) fs = map Inr vs" "s = zip (map f_name fs) vs"
    by (auto simp: build_section_Inr)
  moreover have "value_fits f v" if "f \<in> set fs" "field_value co d f = Inr v" for f v
    using field_value_fits [OF that(2)] assms(1) that(1) by (simp add: sane_fields_def list_all_iff)
  ultimately show ?thesis
    unfolding valid_section_def by (auto intro: list_all2_zip_names)
qed

lemma valid_section_names: "valid_section fs s \<Longrightarrow> map fst s = map f_name fs"
  by (induction fs arbitrary: s) (auto simp: valid_section_def list_all2_Cons1)

lemma valid_section_lookup:
  "valid_section fs s \<Longrightarrow> distinct (map f_name fs) \<Longrightarrow> list_all2 (\<lambda>f v. dict_get s (f_name f) = Some v \<and> value_fits f v) fs (map snd s)"
proof (induction fs arbitrary: s)
  case (Cons f fs)
  then obtain v s' where s: "s = (f_name f, v) # s'" "value_fits f v" "valid_section fs s'"
    by (auto simp: valid_section_def list_all2_Cons1)
  have "list_all2 (\<lambda>g w. dict_get s (f_name g) = Some w \<and> value_fits g w) fs (map snd s')"
  proof (rule list.rel_mono_strong [OF Cons.IH [OF s(3)]])
    fix g w assume "g \<in> set fs" "dict_get s' (f_name g) = Some w \<and> value_fits g w"
    moreover from this Cons.prems(2) have "f_name g \<noteq> f_name f" by auto (metis imageI)
    ultimately show "dict_get s (f_name g) = Some w \<and> value_fits g w" by (simp add: s dict_get_def)
  qed (use Cons.prems(2) in simp)
  then show ?case by (simp add: s dict_get_def)
qed (simp add: valid_section_def)

lemma valid_section_rebuilds:
  assumes "sane_fields fs" "valid_section fs s"
  shows "build_section co fs s = Inr s"
proof -
  note names = valid_section_names [OF assms(2)]
  have "list_all2 (\<lambda>f v. dict_get s (f_name f) = Some v \<and> value_fits f v) fs (map snd s)"
    using valid_section_lookup assms by (simp add: sane_fields_def)
  then have "map (field_value co s) fs = map Inr (map snd s)"
    by (auto simp: list_eq_iff_nth_eq list_all2_conv_all_nth intro!: field_value_kept)
  moreover have "s = zip (map f_name fs) (map snd s)"
    unfolding names [symmetric] by (rule zip_map_fst_snd [symmetric])
  ultimately show ?thesis
    using names [THEN arg_cong, of set] unfolding build_section_Inr by blast
qed

lemma built_section_field:
  assumes "build_section co fs d = Inr s" "distinct (map f_name fs)" "f \<in> set fs"
  shows "\<exists>v. field_value co d f = Inr v \<and> dict_get s (f_name f) = Some v"
proof -
  from assms(1) obtain vs where vs: "map (field_value co d) fs = map Inr vs" "s = zip (map f_name fs) vs"
    by (auto simp: build_section_Inr)
  from assms(3) obtain i where i: "i < length fs" "fs ! i = f" by (auto simp: in_set_conv_nth)
  have len: "length vs = length fs" using arg_cong [OF vs(1), of length] by simp
  have "field_value co d f = Inr (vs ! i)"
    using arg_cong [OF vs(1), of "\<lambda>xs. xs ! i"] i len by simp
  moreover have "dict_get s (f_name f) = Some (vs ! i)"
    using map_of_zip_nth [of "map f_name fs" vs i] i len assms(2) by (simp add: vs(2) dict_get_def)
  ultimately show ?thesis by blast
qed

subsection \<open>Validated configurations\<close>

definition sane_sections :: "sections \<Rightarrow> bool" where
  "sane_sections secs \<longleftrightarrow> distinct (map fst secs) \<and> list_all (\<lambda>(_, fs, _). sane_fields fs) secs"

lemma section_tables_sane [simp]:
  "sane_sections BOOT_CONFIG" "sane_sections RUNTIME_CONFIG" "sane_sections TURBOHAUL_CONFIG"
  by (simp_all add: sane_sections_def tables_sane BOOT_CONFIG_def RUNTIME_CONFIG_def TURBOHAUL_CONFIG_def)

lemma all_ok_projr: "list_all is_ok rs \<and> c = map projr rs \<longleftrightarrow> rs = map Inr c"
proof (induction rs arbitrary: c)
  case (Cons r rs)
  show ?case
    using Cons [of "tl c"] by (cases c; cases r) (auto simp: is_ok_def)
qed auto

lemma build_config_Inr:
  "build_config co secs d = Inr c \<longleftrightarrow>
     list_all2 (\<lambda>x y. section_value co d x = Inr y) secs c \<and> set (map fst d) \<subseteq> set (map fst secs)"
  using all_ok_projr [of "map (section_value co d) secs" c]
  unfolding build_config_def Let_def map_Inr_iff [symmetric] by (auto simp: no_extras simp del: set_map)

lemma section_value_fits:
  assumes "section_value co d x = Inr y" "sane_fields (fst (snd x))"
  shows "section_fits x y"
  using assms built_section_valid
  by (cases x; cases y) (auto simp: section_value_def split: option.splits pyval.splits sum.splits if_splits)

lemma built_config_valid:
  assumes "build_config co secs d = Inr c" "sane_sections secs"
  shows "valid_config secs c"
  unfolding valid_config_def
proof (rule list.rel_mono_strong)
  show "list_all2 (\<lambda>x y. section_value co d x = Inr y) secs c" using assms(1) by (simp add: build_config_Inr)
  show "section_fits x y" if "x \<in> set secs" "section_value co d x = Inr y" for x y
    using section_value_fits [OF that(2)] assms(2) that(1) by (auto simp: sane_sections_def list_all_iff)
qed

lemma section_fits_rebuilds:
  assumes "section_fits x y" "map_of c (fst y) = Some (snd y)" "sane_fields (fst (snd x))"
  shows "section_value co (model_dump c) x = Inr y"
proof -
  have "dict_get (model_dump c) (fst y) = Some (PyDict (snd y))"
    using assms(2) by (induction c) (auto simp: dict_get_def model_dump_def)
  then show ?thesis
    using assms by (cases x; cases y) (auto simp: section_value_def valid_section_rebuilds)
qed

lemma valid_config_names: "valid_config secs c \<Longrightarrow> map fst c = map fst secs"
  unfolding valid_config_def by (induction rule: list_all2_induct) auto

lemma valid_config_rebuilds:
  assumes "valid_config secs c" "sane_sections secs"
  shows "build_config co secs (model_dump c) = Inr c"
  unfolding build_config_Inr
proof
  note names = valid_config_names [OF assms(1)]
  show "list_all2 (\<lambda>x y. section_value co (model_dump c) x = Inr y) secs c"
  proof (rule list.rel_mono_strong [OF assms(1) [unfolded valid_config_def]])
    fix x y assume "x \<in> set secs" "y \<in> set c" "section_fits x y"
    then show "section_value co (model_dump c) x = Inr y"
      using assms(2) names by (intro section_fits_rebuilds) (auto simp: sane_sections_def list_all_iff)
  qed
  show "set (map fst (model_dump c)) \<subseteq> set (map fst secs)"
    unfolding names [symmetric] by (simp add: model_dump_def split_def)
qed

subsection \<open>Any number of PUTs\<close>

definition puts :: "coercions \<Rightarrow> fields list \<Rightarrow> configured \<Rightarrow> configured" where
  "puts co payloads m = fold (\<lambda>p m. snd (put_config co p m)) payloads m"

definition in_step :: "configured \<Rightarrow> bool" where
  "in_step m \<longleftrightarrow>
     (let q = sec (c_runtime m) ''queue'' in
      g_seconds (c_grace m) = of_int (int_setting q ''grace_seconds'') \<and>
      g_max_extensions (c_grace m) = nat (int_setting q ''max_grace_extensions'') \<and>
      i_seconds (c_idle m) = of_int (int_setting q ''idle_hot_load_seconds''))"

lemma put_config_cases:
  obtains (refused) e where "put_config co payload m = (Inl e, m)"
  | (applied) merged new where "fst ` set payload \<subseteq> set VALID_SECTIONS"
      "merge_sections (c_runtime m) payload (model_dump (c_runtime m)) = Inr merged"
      "build_config co RUNTIME_CONFIG merged = Inr new"
      "put_config co payload m =
         (Inr \<lparr>pa_restart_required = False, pa_applied = sort (map fst payload), pa_current = new\<rparr>,
          if ''queue'' \<in> fst ` set payload then refresh_timers (sec new ''queue'') (m\<lparr>c_runtime := new\<rparr>)
          else m\<lparr>c_runtime := new\<rparr>)"
proof (cases "filter (\<lambda>k. k \<in> set BOOT_SECTIONS) (map fst payload) = [] \<and>
    filter (\<lambda>k. k \<notin> set VALID_SECTIONS) (map fst payload) = []")
  case False
  then have "\<exists>e. put_config co payload m = (Inl e, m)"
    by (simp add: put_config_def Let_def)
  then show ?thesis using that(1) by blast
next
  case keys: True
  then have "fst ` set payload \<subseteq> set VALID_SECTIONS" by (auto simp: filter_empty_conv)
  note step = put_config_def [of co payload m, unfolded Let_def, simplified keys, simplified]
  show ?thesis
  proof (cases "merge_sections (c_runtime m) payload (model_dump (c_runtime m))")
    case (Inl e)
    with step have "put_config co payload m = (Inl e, m)" by simp
    then show ?thesis by (rule that(1))
  next
    case (Inr merged)
    note merged = this
    show ?thesis
    proof (cases "build_config co RUNTIME_CONFIG merged")
      case (Inl es)
      with step merged have "put_config co payload m = (Inl (Invalid es), m)" by simp
      then show ?thesis by (rule that(1))
    next
      case (Inr new)
      with step merged show ?thesis
        by (intro that(2) [OF \<open>fst ` set payload \<subseteq> set VALID_SECTIONS\<close> merged Inr]) simp
    qed
  qed
qed

lemma merge_keeps:
  assumes "merge_sections c payload merged = Inr merged'" "n \<notin> fst ` set payload"
  shows "dict_get merged' n = dict_get merged n"
  using assms by (induction c payload merged rule: merge_sections.induct)
    (auto simp: dict_get_set split: pyval.splits)

lemma list_all2_map_of:
  assumes "list_all2 R xs ys" "\<And>x y. R x y \<Longrightarrow> fst y = fst x" "distinct (map fst xs)" "(n, z) \<in> set xs"
  shows "\<exists>w. map_of ys n = Some w \<and> R (n, z) (n, w)"
  using assms(1,3,4)
proof (induction rule: list_all2_induct)
  case (Cons x xs y ys)
  have y: "fst y = fst x" using assms(2) Cons.hyps(1) by blast
  show ?case
  proof (cases "x = (n, z)")
    case True
    then show ?thesis using Cons.hyps(1) y by (cases y) auto
  next
    case False
    with Cons.prems have "(n, z) \<in> set xs" "fst x \<noteq> n" by (auto simp: rev_image_eqI)
    then show ?thesis using Cons.IH Cons.prems(1) y by (cases y) auto
  qed
qed simp

lemma section_value_name: "section_value co d x = Inr y \<Longrightarrow> fst y = fst x"
  by (auto simp: section_value_def split: option.splits pyval.splits sum.splits if_splits prod.splits)

lemma built_config_section:
  assumes "build_config co secs d = Inr c" "sane_sections secs" "(n, fs, opt) \<in> set secs"
  shows "section_value co d (n, fs, opt) = Inr (n, sec c n)"
  using list_all2_map_of [of "\<lambda>x y. section_value co d x = Inr y" secs c n "(fs, opt)"] assms section_value_name
  by (auto simp: build_config_Inr sec_def sane_sections_def)

lemma section_fits_name: "section_fits x y \<Longrightarrow> fst y = fst x"
  by (cases x; cases y) simp

lemma valid_config_section:
  assumes "valid_config secs c" "sane_sections secs" "(n, fs, opt) \<in> set secs"
  shows "valid_section fs (sec c n)"
  using list_all2_map_of [of section_fits secs c n "(fs, opt)"] assms section_fits_name
  by (auto simp: valid_config_def sec_def sane_sections_def)

lemma kept_section:
  assumes "build_config co secs d = Inr c'" "dict_get d n = Some (PyDict (sec c n))"
    "valid_config secs c" "sane_sections secs" "(n, fs, opt) \<in> set secs"
  shows "sec c' n = sec c n"
proof -
  have "sane_fields fs" using assms(4,5) by (auto simp: sane_sections_def list_all_iff)
  then show ?thesis
    using built_config_section [OF assms(1,4,5)] valid_config_section [OF assms(3-5)]
    by (simp add: section_value_def assms(2) valid_section_rebuilds)
qed

lemma dict_get_model_dump: "dict_get (model_dump c) n = map_option PyDict (map_of c n)"
  by (simp add: dict_get_def model_dump_def map_of_map)

lemma unnamed_section_kept:
  assumes "valid_config RUNTIME_CONFIG (c_runtime m)"
    "merge_sections (c_runtime m) payload (model_dump (c_runtime m)) = Inr merged"
    "build_config co RUNTIME_CONFIG merged = Inr new" "n \<notin> fst ` set payload" "n \<in> fst ` set RUNTIME_CONFIG"
  shows "sec new n = sec (c_runtime m) n"
proof -
  obtain fs opt where x: "(n, fs, opt) \<in> set RUNTIME_CONFIG" using assms(5) by auto
  have "n \<in> fst ` set (c_runtime m)"
    using arg_cong [OF valid_config_names [OF assms(1)], of set] assms(5) by simp
  then have "map_of (c_runtime m) n \<noteq> None" by (simp add: map_of_eq_None_iff)
  then have "dict_get merged n = Some (PyDict (sec (c_runtime m) n))"
    using merge_keeps [OF assms(2,4)] by (auto simp: dict_get_model_dump sec_def)
  with assms(1,3) x show ?thesis by (intro kept_section) simp_all
qed

definition well_configured :: "configured \<Rightarrow> bool" where
  "well_configured m \<longleftrightarrow>
     valid_config BOOT_CONFIG (c_boot m) \<and> valid_config RUNTIME_CONFIG (c_runtime m) \<and> in_step m"

lemma put_config_keeps:
  assumes "well_configured m" and m': "m' = snd (put_config co payload m)"
  shows "well_configured m' \<and> c_boot m' = c_boot m \<and> c_queue m' = c_queue m \<and>
    sec (c_runtime m') ''monitor'' = sec (c_runtime m) ''monitor''"
proof (cases rule: put_config_cases [of co payload m])
  case (refused e)
  then show ?thesis using assms by simp
next
  case (applied merged new)
  have valid: "valid_config RUNTIME_CONFIG (c_runtime m)" using assms by (simp add: well_configured_def)
  note kept = unnamed_section_kept [OF valid applied(2,3)]
  have "valid_config RUNTIME_CONFIG new" using applied(3) by (rule built_config_valid) simp
  moreover have "sec new ''monitor'' = sec (c_runtime m) ''monitor''"
    using applied(1) by (intro kept) (auto simp: VALID_SECTIONS_def RUNTIME_CONFIG_def)
  moreover have "sec new ''queue'' = sec (c_runtime m) ''queue''" if "''queue'' \<notin> fst ` set payload"
    using that by (rule kept) (simp add: RUNTIME_CONFIG_def)
  moreover have "c_runtime m' = new" "c_boot m' = c_boot m" "c_queue m' = c_queue m"
    using applied(4) by (simp_all add: m' refresh_timers_def)
  moreover have "c_grace m' = c_grace m \<and> c_idle m' = c_idle m" if "''queue'' \<notin> fst ` set payload"
    using applied(4) that by (simp add: m')
  moreover have "in_step m'" if "''queue'' \<in> fst ` set payload"
    using applied(4) that by (simp add: m' in_step_def refresh_timers_def Let_def)
  ultimately show ?thesis
    using assms(1) by (cases "''queue'' \<in> fst ` set payload") (auto simp: well_configured_def in_step_def)
qed

lemma puts_keep:
  assumes "well_configured m"
  shows "well_configured (puts co payloads m) \<and> c_boot (puts co payloads m) = c_boot m \<and>
    c_queue (puts co payloads m) = c_queue m \<and>
    sec (c_runtime (puts co payloads m)) ''monitor'' = sec (c_runtime m) ''monitor''"
  using assms
proof (induction payloads arbitrary: m)
  case (Cons p payloads)
  with put_config_keeps [OF Cons.prems refl, of co p] show ?case
    using Cons.IH [of "snd (put_config co p m)"] by (simp add: puts_def)
qed (simp add: puts_def)

lemma split_valid:
  assumes "valid_config TURBOHAUL_CONFIG c" "split_config c = (b, r)"
  shows "valid_config BOOT_CONFIG b" "valid_config RUNTIME_CONFIG r"
proof -
  have "list_all (\<lambda>(n, fs, _). valid_section fs (sec c n)) TURBOHAUL_CONFIG"
    using valid_config_section [OF assms(1) section_tables_sane(3)] by (auto simp: list_all_iff)
  then show "valid_config BOOT_CONFIG b" "valid_config RUNTIME_CONFIG r"
    using assms(2) unfolding TURBOHAUL_CONFIG_def
    by (auto simp: split_config_def valid_config_def BOOT_CONFIG_def RUNTIME_CONFIG_def)
qed

lemma overridden_valid: "apply_env_overrides co float_of env c0 = Inr c \<Longrightarrow> valid_config TURBOHAUL_CONFIG c"
  by (auto simp: apply_env_overrides_def split: sum.splits intro: built_config_valid)

lemma main_serves:
  assumes "main co float_of env file a = Serving host port backend m"
  obtains c boot runtime where "valid_config TURBOHAUL_CONFIG c" "split_config c = (boot, runtime)"
    "m = init_manager boot runtime" "host = bind_host boot env a"
proof -
  from assms obtain c0 c where "apply_env_overrides co float_of env c0 = Inr c" "serve_config env a c = Serving host port backend m"
    unfolding main_def by (auto simp: rbind_eq_Inr split: if_splits sum.splits)
  moreover obtain boot runtime where "split_config c = (boot, runtime)" by fastforce
  ultimately show ?thesis
    using overridden_valid by (intro that [of c boot runtime]) (auto simp: serve_config_def)
qed

lemma started_well:
  assumes "main co float_of env file a = Serving host port backend m"
  shows "well_configured m"
proof -
  from assms obtain c boot runtime where c: "valid_config TURBOHAUL_CONFIG c" "split_config c = (boot, runtime)"
    and m: "m = init_manager boot runtime"
    by (rule main_serves)
  show ?thesis
    using split_valid [OF c]
    by (simp add: m well_configured_def in_step_def init_manager_def new_grace_def new_idle_def Let_def)
qed

subsection \<open>Properties\<close>

text \<open>
  C30: From the moment the process serves, no sequence of \<open>PUT /api/config\<close> requests, whatever
  their bodies, changes a boot setting or the monitor section, makes a runtime setting leave
  its declared type and bounds, or lets the grace and idle timers disagree with the settings
  they were made from. The queue keeps the limits it was built with.
\<close>

theorem config_puts_stay_in_bounds:
  assumes "main co float_of env file a = Serving host port backend m"
  shows "let m' = puts co payloads m in
    c_boot m' = c_boot m \<and> valid_config BOOT_CONFIG (c_boot m') \<and>
    valid_config RUNTIME_CONFIG (c_runtime m') \<and>
    sec (c_runtime m') ''monitor'' = sec (c_runtime m) ''monitor'' \<and>
    in_step m' \<and> c_queue m' = c_queue m"
  using puts_keep [OF started_well [OF assms], of co payloads] by (auto simp: well_configured_def Let_def)

definition strict :: coercions where
  "strict = \<lparr>to_int = (\<lambda>_. None), to_float = (\<lambda>_. None), to_bool = (\<lambda>_. None), to_text = (\<lambda>_. None),
     to_texts = (\<lambda>_. None)\<rparr>"

definition example_yaml :: pyval where
  "example_yaml = PyDict
     [(''server'', PyDict []),
      (''storage'', PyDict [(''blob_store_path'', PyStr ''/var/lib/blobs''), (''manifests_path'', PyStr ''/m''),
         (''import_allowed_root'', PyStr ''/i''), (''state_db_path'', PyStr ''/s/state.sqlite'')]),
      (''runtime'', PyDict [(''llama_server_binary'', PyStr ''/opt/llama/llama-server'')]),
      (''ui'', PyDict [(''static_path'', PyStr ''/u'')]),
      (''queue'', PyDict []), (''pull'', PyDict [])]"

definition example_cli :: cli where
  "example_cli = \<lparr>cli_config = Some ''c'', cli_public = False, cli_log_level = None\<rparr>"

definition started :: configured where
  "started =
     (case main strict (\<lambda>_. None) (\<lambda>_. None) (\<lambda>_. Some example_yaml) example_cli of
        Serving _ _ _ m \<Rightarrow> m
      | _ \<Rightarrow> init_manager [] [])"

lemma example_starts:
  "main strict (\<lambda>_. None) (\<lambda>_. None) (\<lambda>_. Some example_yaml) example_cli =
     Serving ''127.0.0.1'' 11401 (PyStr ''auto'') started"
proof -
  have "case main strict (\<lambda>_. None) (\<lambda>_. None) (\<lambda>_. Some example_yaml) example_cli of
      Serving h p b _ \<Rightarrow> h = ''127.0.0.1'' \<and> p = 11401 \<and> b = PyStr ''auto'' | _ \<Rightarrow> False"
    by code_simp
  then show ?thesis by (simp add: started_def split: start.splits)
qed

theorem config_puts_stay_in_bounds_witness:
  "in_step (puts strict [[(''queue'', PyDict [(''grace_seconds'', PyInt 45)])]] started) \<and>
   c_queue (puts strict [[(''queue'', PyDict [(''grace_seconds'', PyInt 45)])]] started) = c_queue started"
  using config_puts_stay_in_bounds
    [OF example_starts, of "[[(''queue'', PyDict [(''grace_seconds'', PyInt 45)])]]"]
  by (simp add: Let_def)

text \<open>
  A depth for the staging queue sent by PUT is answered with success, no restart required and
  the new depth as the current one, and the queue goes on with the old limit.
\<close>

lemma put_depth_has_no_effect:
  "let (answer, m') = put_config strict [(''queue'', PyDict [(''staging_queue_depth'', PyInt 5)])] started in
     is_ok answer \<and> \<not> pa_restart_required (projr answer) \<and>
     get_or_none (sec (pa_current (projr answer)) ''queue'') ''staging_queue_depth'' = PyInt 5 \<and>
     staging_max (c_queue m') = 100"
  by code_simp

text \<open>A PUT of the monitor section is refused as an unknown section.\<close>

lemma monitor_not_settable:
  "put_config co [(''monitor'', v)] m = (Inl (UnknownSections [''monitor'']), m)"
  by (simp add: put_config_def BOOT_SECTIONS_def VALID_SECTIONS_def)

text \<open>
  The process binds all IPv4 interfaces only when the operator asked for it with
  \<open>--allow-public-bind\<close> or with the environment variable of that name, whatever the file and
  the other overrides say.
\<close>

theorem public_bind_is_explicit:
  assumes "main co float_of env file a = Serving ''0.0.0.0'' port backend m"
  shows "cli_public a \<or> env ''TURBOHAUL_ALLOW_PUBLIC_BIND'' = Some ''1''"
proof (rule ccontr)
  assume "\<not> ?thesis"
  then have "\<not> public_bind env a" by (simp add: public_bind_def)
  moreover from assms obtain c boot runtime where c: "valid_config TURBOHAUL_CONFIG c" "split_config c = (boot, runtime)"
    and host: "''0.0.0.0'' = bind_host boot env a"
    by (rule main_serves)
  ultimately have "get_or_none (sec boot ''server'') ''host'' = PyStr ''0.0.0.0''"
    by (auto simp: bind_host_def split: pyval.splits)
  moreover have "valid_section SERVER_FIELDS (sec boot ''server'')"
    by (rule valid_config_section [OF split_valid(1) [OF c] section_tables_sane(1), where opt = False])
      (simp add: BOOT_CONFIG_def)
  then have "list_all2 (\<lambda>f v. dict_get (sec boot ''server'') (f_name f) = Some v \<and> value_fits f v) SERVER_FIELDS
      (map snd (sec boot ''server''))"
    using tables_sane(1) by (intro valid_section_lookup) (simp_all add: sane_fields_def)
  then obtain v where "dict_get (sec boot ''server'') ''host'' = Some v"
      "value_fits (checked_field ''host'' ''127.0.0.1'' (\<lambda>v. v \<noteq> ''0.0.0.0'')) v"
    by (auto simp: SERVER_FIELDS_def list_all2_Cons1 field_defs)
  ultimately show False by (auto simp: get_or_none_def value_fits_def field_defs)
qed

theorem public_bind_is_explicit_witness:
  "\<exists>m. main strict (\<lambda>_. None) [''TURBOHAUL_ALLOW_PUBLIC_BIND'' \<mapsto> ''1''] (\<lambda>_. Some example_yaml) example_cli =
      Serving ''0.0.0.0'' 11401 (PyStr ''auto'') m \<and>
    (cli_public example_cli \<or>
     [''TURBOHAUL_ALLOW_PUBLIC_BIND'' \<mapsto> ''1''] ''TURBOHAUL_ALLOW_PUBLIC_BIND'' = Some ''1'')"
proof -
  have "case main strict (\<lambda>_. None) (\<lambda>k. if k = ''TURBOHAUL_ALLOW_PUBLIC_BIND'' then Some ''1'' else None)
      (\<lambda>_. Some example_yaml) example_cli of
      Serving h p b _ \<Rightarrow> h = ''0.0.0.0'' \<and> p = 11401 \<and> b = PyStr ''auto'' | _ \<Rightarrow> False"
    by code_simp
  then obtain m where "main strict (\<lambda>_. None) [''TURBOHAUL_ALLOW_PUBLIC_BIND'' \<mapsto> ''1''] (\<lambda>_. Some example_yaml) example_cli =
      Serving ''0.0.0.0'' 11401 (PyStr ''auto'') m"
    by (auto simp: fun_upd_def split: start.splits)
  with public_bind_is_explicit [OF this] show ?thesis by blast
qed

text \<open>The IPv6 wildcard passes the validator and is bound without the flag.\<close>

lemma ipv6_wildcard_is_bound:
  "case main strict (\<lambda>_. None) (\<lambda>k. if k = ''TURBOHAUL_HOST'' then Some ''::'' else None)
      (\<lambda>_. Some example_yaml) example_cli of
     Serving h _ _ _ \<Rightarrow> h = ''::'' | _ \<Rightarrow> False"
  by code_simp

end
