(* ===== verification/Telemetry.thy ===== *)
theory Telemetry
  imports Json Slots "HOL-Library.AList" "HOL-Library.List_Lexorder" "HOL-Library.Char_ord"
begin

text \<open>
  \<open>telemetry.py\<close> and \<open>api/telemetry.py\<close>: the ring buffer of recent events with its cursor,
  the rotating JSONL log, the hooks with what they remember of each slot, and the two read
  routes. An event is the dict the source logs. Clock readings, the ISO time stamps and the
  modification times of files are arguments; the text printed is ASCII without DEL, where
  \<open>ensure_ascii=False\<close> makes no difference.
\<close>

type_synonym log_event = "(string \<times> pyval) list"

definition RING_BUFFER_SIZE :: nat where "RING_BUFFER_SIZE = 10000"
definition MAX_FILE_BYTES :: nat where "MAX_FILE_BYTES = 10 * 1024 * 1024"
definition MAX_FILES :: nat where "MAX_FILES = 5"

subsection \<open>The ring buffer\<close>

record ring =
  rb_capacity :: nat
  rb_buf :: "log_event list"
  rb_seq :: nat

definition new_ring :: "nat \<Rightarrow> ring" where
  "new_ring cap = \<lparr>rb_capacity = cap, rb_buf = [], rb_seq = 0\<rparr>"

text \<open>The dict is shared with the caller, so the numbered event is returned as well.\<close>

definition ring_append :: "log_event \<Rightarrow> ring \<Rightarrow> log_event \<times> ring" where
  "ring_append obj r =
     (let n = Suc (rb_seq r);
          obj' = dict_set obj ''_seq'' (PyInt (int n));
          buf = rb_buf r @ [obj']
      in (obj', r\<lparr>rb_seq := n,
                  rb_buf := (if rb_capacity r < length buf then last_n (rb_capacity r) buf else buf)\<rparr>))"

definition seq_of :: "log_event \<Rightarrow> int" where
  "seq_of e = (case get_or_none e ''_seq'' of PyInt i \<Rightarrow> i | _ \<Rightarrow> 0)"

definition of_type :: "string option \<Rightarrow> log_event \<Rightarrow> bool" where
  "of_type ty e \<longleftrightarrow> (case ty of None \<Rightarrow> True | Some t \<Rightarrow> get_or_none e ''event_type'' = PyStr t)"

definition ring_get :: "nat \<Rightarrow> string option \<Rightarrow> int \<Rightarrow> ring \<Rightarrow> log_event list \<times> int option" where
  "ring_get limit ty since r =
     (let matching = filter (\<lambda>e. since < seq_of e \<and> of_type ty e) (rb_buf r);
          page = (if limit < length matching then last_n limit matching else matching)
      in (page, if page \<noteq> [] \<and> length page = limit then Some (seq_of (last page)) else None))"

subsection \<open>The log files\<close>

record log_file =
  lf_name :: string
  lf_text :: string
  lf_mtime :: time

record jsonl =
  jw_files :: "log_file list"
  jw_current :: string

definition file_name :: "string \<Rightarrow> string" where
  "file_name stamp = ''flap_'' @ stamp @ ''.jsonl''"

definition log_path :: "string \<Rightarrow> bool" where
  "log_path n \<longleftrightarrow> starts_with ''flap_'' n \<and> ends_with ''.jsonl'' n"

definition find_file :: "string \<Rightarrow> log_file list \<Rightarrow> log_file option" where
  "find_file n fs = find (\<lambda>f. lf_name f = n) fs"

text \<open>\<open>open(path, "a")\<close>: an existing file is appended to.\<close>

definition open_new :: "string \<Rightarrow> time \<Rightarrow> log_file list \<Rightarrow> jsonl" where
  "open_new stamp now fs =
     (let n = file_name stamp in
      \<lparr>jw_files = (if find_file n fs = None then fs @ [\<lparr>lf_name = n, lf_text = [], lf_mtime = now\<rparr>] else fs),
       jw_current = n\<rparr>)"

text \<open>\<open>_prune\<close>; \<open>stuck\<close> are the files whose \<open>unlink\<close> fails.\<close>

definition victims :: "nat \<Rightarrow> log_file list \<Rightarrow> string list" where
  "victims keep fs =
     (let names = sort (filter log_path (map lf_name fs)) in take (length names - keep) names)"

definition prune :: "(string \<Rightarrow> bool) \<Rightarrow> nat \<Rightarrow> jsonl \<Rightarrow> jsonl" where
  "prune stuck keep w =
     w\<lparr>jw_files := filter (\<lambda>f. lf_name f \<notin> set (victims keep (jw_files w)) \<or> stuck (lf_name f)) (jw_files w)\<rparr>"

definition rotate :: "(string \<Rightarrow> bool) \<Rightarrow> string \<Rightarrow> time \<Rightarrow> jsonl \<Rightarrow> jsonl" where
  "rotate stuck stamp now w = prune stuck MAX_FILES (open_new stamp now (jw_files w))"

definition append_line :: "string \<Rightarrow> time \<Rightarrow> jsonl \<Rightarrow> jsonl" where
  "append_line line now w =
     w\<lparr>jw_files := map (\<lambda>f. if lf_name f = jw_current w
                           then f\<lparr>lf_text := lf_text f @ line @ [newline], lf_mtime := now\<rparr> else f) (jw_files w)\<rparr>"

text \<open>
  \<open>write\<close>; \<open>None\<close> is the FileNotFoundError of \<open>stat\<close> on a current file that is gone.
\<close>

definition log_write ::
    "(pyfloat \<Rightarrow> string) \<Rightarrow> (string \<Rightarrow> bool) \<Rightarrow> string \<Rightarrow> time \<Rightarrow> log_event \<Rightarrow> jsonl \<Rightarrow> jsonl option" where
  "log_write fr stuck stamp now obj w =
     (case find_file (jw_current w) (jw_files w) of
        None \<Rightarrow> None
      | Some f \<Rightarrow>
          Some (append_line (dumps fr (PyDict obj)) now
                 (if MAX_FILE_BYTES < length (lf_text f) then rotate stuck stamp now w else w)))"

datatype read_error = ReadAttributeError | ReadTypeError

text \<open>The filters of \<open>read_recent\<close> on one parsed line; \<open>Inr False\<close> is \<open>continue\<close>.\<close>

definition passes_since :: "int \<Rightarrow> pyval \<Rightarrow> read_error + bool" where
  "passes_since since v =
     (if since = 0 then Inr True
      else case v of
        PyDict d \<Rightarrow>
          (case dict_get d ''_seq'' of
             None \<Rightarrow> Inr (since < 0)
           | Some (PyInt i) \<Rightarrow> Inr (since < i)
           | Some (PyFloat x) \<Rightarrow> Inr (\<not> (float_lt x (Finite (of_int since)) \<or> x = Finite (of_int since)))
           | Some (PyBool b) \<Rightarrow> Inr (since < (if b then 1 else 0))
           | Some _ \<Rightarrow> Inl ReadTypeError)
      | _ \<Rightarrow> Inl ReadAttributeError)"

definition passes_type :: "string option \<Rightarrow> pyval \<Rightarrow> read_error + bool" where
  "passes_type ty v =
     (case ty of
        None \<Rightarrow> Inr True
      | Some t \<Rightarrow>
          if t = [] then Inr True
          else case v of PyDict d \<Rightarrow> Inr (get_or_none d ''event_type'' = PyStr t) | _ \<Rightarrow> Inl ReadAttributeError)"

fun scan_lines :: "nat \<Rightarrow> string option \<Rightarrow> int \<Rightarrow> string list \<Rightarrow> read_error + pyval list" where
  "scan_lines limit ty since [] = Inr []"
| "scan_lines limit ty since (l # ls) =
     (case loads (strip l) of
        None \<Rightarrow> scan_lines limit ty since ls
      | Some v \<Rightarrow>
          rbind (passes_since since v) (\<lambda>newer.
            if \<not> newer then scan_lines limit ty since ls
            else rbind (passes_type ty v) (\<lambda>typed.
              if \<not> typed then scan_lines limit ty since ls
              else if limit \<le> 1 then Inr [v]
              else rbind (scan_lines (limit - 1) ty since ls) (\<lambda>vs. Inr (v # vs)))))"

text \<open>Files in the order of their modification times, their lines read backwards.\<close>

definition read_recent :: "nat \<Rightarrow> string option \<Rightarrow> int \<Rightarrow> jsonl \<Rightarrow> read_error + pyval list" where
  "read_recent limit ty since w =
     (let fs = sort_key lf_mtime (filter (\<lambda>f. log_path (lf_name f)) (jw_files w))
      in scan_lines limit ty since (rev (concat (map (\<lambda>f. split_lines (lf_text f)) fs))))"

subsection \<open>The hooks\<close>

record telemetry =
  tm_enabled :: bool
  tm_ring :: ring
  tm_log :: jsonl
  tm_arrival :: "(string \<times> time) list"
  tm_queue_enter :: "(string \<times> time) list"
  tm_prefill_start :: "(string \<times> time) list"
  tm_first_token_at :: "(string \<times> time) list"
  tm_keep_alives :: "(string \<times> nat) list"
  tm_last_sample :: "string option"
  tm_sample_errors :: nat

text \<open>What a call sees of its surroundings.\<close>

record surroundings =
  sr_now :: time
  sr_iso :: string
  sr_stamp :: string
  sr_stuck :: "string \<Rightarrow> bool"
  sr_repr :: "pyfloat \<Rightarrow> string"

text \<open>\<open>_emit\<close>; \<open>False\<close> is an exception of the log, after the ring has the event.\<close>

definition emit :: "surroundings \<Rightarrow> string \<Rightarrow> log_event \<Rightarrow> telemetry \<Rightarrow> bool \<times> telemetry" where
  "emit sr ty payload t =
     (if \<not> tm_enabled t then (True, t)
      else case ring_append (dict_set (dict_set payload ''event_type'' (PyStr ty)) ''ts'' (PyStr (sr_iso sr))) (tm_ring t) of
        (obj, r) \<Rightarrow>
          (case log_write (sr_repr sr) (sr_stuck sr) (sr_stamp sr) (sr_now sr) obj (tm_log t) of
             None \<Rightarrow> (False, t\<lparr>tm_ring := r\<rparr>)
           | Some w \<Rightarrow> (True, t\<lparr>tm_ring := r, tm_log := w\<rparr>)))"

definition num :: "rat \<Rightarrow> pyval" where
  "num x = PyFloat (Finite x)"

definition opt_num :: "rat option \<Rightarrow> pyval" where
  "opt_num x = (case x of None \<Rightarrow> PyNone | Some r \<Rightarrow> num r)"

definition opt_int :: "int option \<Rightarrow> pyval" where
  "opt_int x = (case x of None \<Rightarrow> PyNone | Some i \<Rightarrow> PyInt i)"

definition slot_event :: "slot \<Rightarrow> log_event" where
  "slot_event sl =
     [(''slot_id'', PyStr (sl_id sl)), (''thread_id'', PyStr (sl_thread_id sl)),
      (''model_tag'', PyStr (sl_model_tag sl))]"

definition cleanup_slot :: "string \<Rightarrow> telemetry \<Rightarrow> telemetry" where
  "cleanup_slot k t =
     t\<lparr>tm_arrival := AList.delete k (tm_arrival t), tm_queue_enter := AList.delete k (tm_queue_enter t),
       tm_prefill_start := AList.delete k (tm_prefill_start t),
       tm_first_token_at := AList.delete k (tm_first_token_at t),
       tm_keep_alives := AList.delete k (tm_keep_alives t)\<rparr>"

definition keep_alives_of :: "telemetry \<Rightarrow> string \<Rightarrow> nat" where
  "keep_alives_of t k = (case map_of (tm_keep_alives t) k of None \<Rightarrow> 0 | Some n \<Rightarrow> n)"

definition elapsed :: "time \<Rightarrow> (string \<times> time) list \<Rightarrow> string \<Rightarrow> pyval" where
  "elapsed now m k = opt_num (map_option (\<lambda>t0. py_round 2 (now - t0)) (map_of m k))"

definition on_request_arrival :: "surroundings \<Rightarrow> slot \<Rightarrow> bool \<Rightarrow> telemetry \<Rightarrow> bool \<times> telemetry" where
  "on_request_arrival sr sl has_context t =
     emit sr ''request_arrival''
       [(''slot_id'', PyStr (sl_id sl)), (''model_tag'', PyStr (sl_model_tag sl)),
        (''thread_id'', PyStr (sl_thread_id sl)), (''has_context'', PyBool has_context)]
       (t\<lparr>tm_arrival := AList.update (sl_id sl) (sr_now sr) (tm_arrival t)\<rparr>)"

definition on_queue_state :: "surroundings \<Rightarrow> nat \<times> nat \<times> nat \<Rightarrow> slot \<Rightarrow> telemetry \<Rightarrow> bool \<times> telemetry" where
  "on_queue_state sr depth sl t =
     (case depth of (staging, staging_limit, accepted) \<Rightarrow>
        emit sr ''queue_enter''
          [(''slot_id'', PyStr (sl_id sl)), (''thread_id'', PyStr (sl_thread_id sl)),
           (''staging_depth'', PyInt (int staging)), (''staging_max'', PyInt (int staging_limit)),
           (''acceptance_depth'', PyInt (int accepted)), (''slot_state'', PyStr (state_value (sl_state sl)))]
          (t\<lparr>tm_queue_enter := AList.update (sl_id sl) (sr_now sr) (tm_queue_enter t)\<rparr>))"

definition on_slot_assign :: "surroundings \<Rightarrow> slot \<Rightarrow> telemetry \<Rightarrow> bool \<times> telemetry" where
  "on_slot_assign sr sl t =
     emit sr ''slot_assign''
       (slot_event sl @ [(''wait_in_queue_s'', elapsed (sr_now sr) (tm_queue_enter t) (sl_id sl)),
          (''pid'', opt_int (sl_pid sl)), (''port'', opt_int (sl_port sl))]) t"

definition on_prefill_start :: "surroundings \<Rightarrow> slot \<Rightarrow> telemetry \<Rightarrow> bool \<times> telemetry" where
  "on_prefill_start sr sl t =
     emit sr ''prefill_start'' (slot_event sl)
       (t\<lparr>tm_prefill_start := AList.update (sl_id sl) (sr_now sr) (tm_prefill_start t)\<rparr>)"

definition on_first_token :: "surroundings \<Rightarrow> slot \<Rightarrow> rat \<Rightarrow> telemetry \<Rightarrow> bool \<times> telemetry" where
  "on_first_token sr sl ttft_ms t =
     emit sr ''first_token'' (slot_event sl @ [(''ttft_ms'', num (py_round 1 ttft_ms))])
       (t\<lparr>tm_first_token_at := AList.update (sl_id sl) (sr_now sr) (tm_first_token_at t)\<rparr>)"

definition on_generation_tick :: "surroundings \<Rightarrow> slot \<Rightarrow> int \<Rightarrow> rat \<Rightarrow> telemetry \<Rightarrow> bool \<times> telemetry" where
  "on_generation_tick sr sl decoded tok_s t =
     (let since = (case map_of (tm_first_token_at t) (sl_id sl) of None \<Rightarrow> 0 | Some x \<Rightarrow> x) in
      if 0 < since \<and> sr_now sr - since < 1 then (True, t)
      else emit sr ''generation_tick''
        [(''slot_id'', PyStr (sl_id sl)), (''thread_id'', PyStr (sl_thread_id sl)),
         (''n_decoded'', PyInt decoded), (''tok_s'', num (py_round 1 tok_s))] t)"

definition on_keep_alive_emitted :: "surroundings \<Rightarrow> string \<Rightarrow> bool \<Rightarrow> string \<Rightarrow> telemetry \<Rightarrow> bool \<times> telemetry" where
  "on_keep_alive_emitted sr k is_queued thread t =
     (let n = Suc (keep_alives_of t k) in
      emit sr ''keep_alive''
        [(''slot_id'', PyStr k), (''thread_id'', PyStr thread), (''is_queued'', PyBool is_queued),
         (''count_for_slot'', PyInt (int n))]
        (t\<lparr>tm_keep_alives := AList.update k n (tm_keep_alives t)\<rparr>))"

text \<open>An exception of \<open>_emit\<close> skips the clean-up.\<close>

definition then_cleanup :: "string \<Rightarrow> bool \<times> telemetry \<Rightarrow> bool \<times> telemetry" where
  "then_cleanup k r = (case r of (ok, t) \<Rightarrow> if ok then (True, cleanup_slot k t) else (False, t))"

definition on_client_disconnect :: "surroundings \<Rightarrow> slot \<Rightarrow> string \<Rightarrow> rat \<Rightarrow> telemetry \<Rightarrow> bool \<times> telemetry" where
  "on_client_disconnect sr sl reason elapsed_s t =
     then_cleanup (sl_id sl)
       (emit sr ''client_disconnect''
          (slot_event sl @
           [(''reason'', PyStr reason), (''elapsed_s'', num (py_round 2 elapsed_s)),
            (''was_in_queue'', PyBool (map_of (tm_queue_enter t) (sl_id sl) \<noteq> None \<and>
                                      map_of (tm_prefill_start t) (sl_id sl) = None)),
            (''keep_alives_sent'', PyInt (int (keep_alives_of t (sl_id sl))))]) t)"

definition on_completion :: "surroundings \<Rightarrow> slot \<Rightarrow> string \<Rightarrow> telemetry \<Rightarrow> bool \<times> telemetry" where
  "on_completion sr sl reason t =
     then_cleanup (sl_id sl)
       (emit sr ''completion''
          (slot_event sl @
           [(''reason'', PyStr reason), (''total_lifecycle_s'', elapsed (sr_now sr) (tm_arrival t) (sl_id sl)),
            (''keep_alives_sent'', PyInt (int (keep_alives_of t (sl_id sl))))]) t)"

definition on_vram_sample :: "surroundings \<Rightarrow> int list option \<Rightarrow> rat option \<Rightarrow> telemetry \<Rightarrow> bool \<times> telemetry" where
  "on_vram_sample sr free rss t =
     (case emit sr ''resource_sample''
        [(''vram_free_mib'', case free of None \<Rightarrow> PyNone | Some xs \<Rightarrow> PyList (map PyInt xs)),
         (''process_rss_mib'', case rss of None \<Rightarrow> PyNone | Some x \<Rightarrow> if x = 0 then PyNone else num (py_round 1 x)),
         (''vram_sample_errors'', PyInt (int (tm_sample_errors t)))] t of
        (ok, t') \<Rightarrow> (ok, if ok then t'\<lparr>tm_last_sample := Some (sr_iso sr)\<rparr> else t'))"

definition on_slot_state_change :: "surroundings \<Rightarrow> slot \<Rightarrow> string \<Rightarrow> string \<Rightarrow> telemetry \<Rightarrow> bool \<times> telemetry" where
  "on_slot_state_change sr sl old new t =
     emit sr ''slot_state_change'' (slot_event sl @ [(''old_state'', PyStr old), (''new_state'', PyStr new)]) t"

subsection \<open>Reading\<close>

record page =
  pg_events :: "pyval list"
  pg_next_since :: pyval
  pg_source :: string

definition get_events :: "nat \<Rightarrow> string option \<Rightarrow> int \<Rightarrow> telemetry \<Rightarrow> page" where
  "get_events limit ty since t =
     (if \<not> tm_enabled t then \<lparr>pg_events = [], pg_next_since = PyNone, pg_source = ''disabled''\<rparr>
      else case ring_get limit ty since (tm_ring t) of
        (es, next) \<Rightarrow> \<lparr>pg_events = map PyDict es, pg_next_since = opt_int next, pg_source = ''ring_buffer''\<rparr>)"

definition get_events_from_file :: "nat \<Rightarrow> string option \<Rightarrow> int \<Rightarrow> telemetry \<Rightarrow> read_error + page" where
  "get_events_from_file limit ty since t =
     (if \<not> tm_enabled t then Inr \<lparr>pg_events = [], pg_next_since = PyNone, pg_source = ''disabled''\<rparr>
      else rbind (read_recent limit ty since (tm_log t)) (\<lambda>es.
        case rev es of
          [] \<Rightarrow> Inr \<lparr>pg_events = es, pg_next_since = PyNone, pg_source = ''jsonl''\<rparr>
        | PyDict d # _ \<Rightarrow> Inr \<lparr>pg_events = es, pg_next_since = get_or_none d ''_seq'', pg_source = ''jsonl''\<rparr>
        | _ \<Rightarrow> Inl ReadAttributeError))"

text \<open>The route; the bounds on \<open>limit\<close>, \<open>since\<close> and \<open>source\<close> are those of its query parameters.\<close>

definition query_ok :: "int \<Rightarrow> string option \<Rightarrow> int \<Rightarrow> string \<Rightarrow> bool" where
  "query_ok since ty limit source \<longleftrightarrow>
     0 \<le> since \<and> (case ty of None \<Rightarrow> True | Some t \<Rightarrow> length t \<le> 64) \<and> 1 \<le> limit \<and> limit \<le> 1000 \<and>
     (source = ''ring'' \<or> source = ''file'')"

definition get_telemetry_events ::
    "int \<Rightarrow> string option \<Rightarrow> int \<Rightarrow> string \<Rightarrow> telemetry \<Rightarrow> (read_error + page) option" where
  "get_telemetry_events since ty limit source t =
     (if \<not> query_ok since ty limit source then None
      else if source = ''file'' then Some (get_events_from_file (nat limit) ty since t)
      else Some (Inr (get_events (nat limit) ty since t)))"

definition new_telemetry :: "bool \<Rightarrow> string \<Rightarrow> time \<Rightarrow> log_file list \<Rightarrow> telemetry" where
  "new_telemetry enabled stamp now fs =
     \<lparr>tm_enabled = enabled, tm_ring = new_ring RING_BUFFER_SIZE, tm_log = open_new stamp now fs,
      tm_arrival = [], tm_queue_enter = [], tm_prefill_start = [], tm_first_token_at = [],
      tm_keep_alives = [], tm_last_sample = None, tm_sample_errors = 0\<rparr>"

text \<open>The directory of the log does not change after the start.\<close>

definition get_status :: "string \<Rightarrow> telemetry \<Rightarrow> (string \<times> pyval) list" where
  "get_status log_dir t =
     [(''enabled'', PyBool (tm_enabled t)), (''log_dir'', PyStr log_dir),
      (''last_vram_sample_at'', case tm_last_sample t of None \<Rightarrow> PyNone | Some s \<Rightarrow> PyStr s),
      (''vram_sample_errors'', PyInt (int (tm_sample_errors t))),
      (''active_slots_tracked'', PyInt (int (length (tm_arrival t)))),
      (''ring_buffer_size'', PyInt (if tm_enabled t then int (length (rb_buf (tm_ring t))) else 0))]"

subsection \<open>What the ring holds\<close>

definition ring_run :: "nat \<Rightarrow> log_event list \<Rightarrow> ring" where
  "ring_run cap ps = fold (\<lambda>p r. snd (ring_append p r)) ps (new_ring cap)"

definition numbered :: "log_event list \<Rightarrow> log_event list" where
  "numbered ps = map (\<lambda>(i, p). dict_set p ''_seq'' (PyInt (int i))) (enumerate 1 ps)"

lemma numbered_append: "numbered (ps @ [p]) = numbered ps @ [dict_set p ''_seq'' (PyInt (int (Suc (length ps))))]"
  by (simp add: numbered_def enumerate_append_eq)

lemma seq_of_set [simp]: "seq_of (dict_set p ''_seq'' (PyInt i)) = i"
  by (simp add: seq_of_def get_or_none_def dict_get_set)

lemma ring_append_step:
  "snd (ring_append p r) =
     r\<lparr>rb_seq := Suc (rb_seq r),
       rb_buf := last_n (rb_capacity r) (rb_buf r @ [dict_set p ''_seq'' (PyInt (int (Suc (rb_seq r))))])\<rparr>"
  by (simp add: ring_append_def Let_def last_n_all)

lemma ring_run_holds:
  "ring_run cap ps = \<lparr>rb_capacity = cap, rb_buf = last_n cap (numbered ps), rb_seq = length ps\<rparr>"
proof (induction ps rule: rev_induct)
  case Nil
  then show ?case by (simp add: ring_run_def new_ring_def numbered_def last_n_def)
next
  case (snoc p ps)
  then show ?case
    by (simp add: ring_run_def ring_append_step last_n_append numbered_append)
qed

definition ascending :: "log_event list \<Rightarrow> bool" where
  "ascending es \<longleftrightarrow> sorted_wrt (\<lambda>a b. seq_of a < seq_of b) es"

lemma numbered_ascending: "ascending (numbered ps)"
proof (induction ps rule: rev_induct)
  case (snoc p ps)
  have "seq_of e \<le> int (length ps)" if "e \<in> set (numbered ps)" for e
    using that by (auto simp: numbered_def in_set_enumerate_eq)
  with snoc show ?case by (fastforce simp: ascending_def numbered_append sorted_wrt_append)
qed (simp add: ascending_def numbered_def)

lemma ascending_last_n: "ascending es \<Longrightarrow> ascending (last_n n es)"
  by (simp add: ascending_def last_n_def sorted_wrt_drop)

lemma ascending_filter: "ascending es \<Longrightarrow> ascending (filter P es)"
  by (simp add: ascending_def sorted_wrt_filter)

lemma ascending_last: "ascending es \<Longrightarrow> e \<in> set es \<Longrightarrow> seq_of e \<le> seq_of (last es)"
  by (cases es rule: rev_cases) (auto simp: ascending_def sorted_wrt_append intro: less_imp_le)

lemma last_last_n: "last_n n es \<noteq> [] \<Longrightarrow> last (last_n n es) = last es"
  by (auto simp: last_n_def)

text \<open>
  The ring keeps the newest events in order, numbered by their place in the whole history,
  and a page holds the newest matching ones. The cursor a full page comes with points behind
  everything that is there: until new events arrive the page after it is empty, so the events
  before a full page are never delivered to a client that follows the cursor.
\<close>

theorem ring_pages_are_the_newest:
  assumes "ring_get limit ty since (ring_run cap ps) = (page, next)"
  shows "let matching = filter (\<lambda>e. since < seq_of e \<and> of_type ty e) (last_n cap (numbered ps)) in
      page = (if limit < length matching then last_n limit matching else matching) \<and>
      (next \<noteq> None \<longleftrightarrow> page \<noteq> [] \<and> length page = limit) \<and>
      (case next of None \<Rightarrow> True | Some n \<Rightarrow> ring_get limit' ty n (ring_run cap ps) = ([], None))"
proof -
  let ?held = "last_n cap (numbered ps)"
  let ?matching = "filter (\<lambda>e. since < seq_of e \<and> of_type ty e) ?held"
  have page: "page = (if limit < length ?matching then last_n limit ?matching else ?matching)"
    and nxt: "next = (if page \<noteq> [] \<and> length page = limit then Some (seq_of (last page)) else None)"
    using assms by (auto simp: ring_get_def ring_run_holds Let_def)
  have "ring_get limit' ty n (ring_run cap ps) = ([], None)" if "next = Some n" for n
  proof -
    from that nxt have n: "page \<noteq> []" "n = seq_of (last page)" by (auto split: if_splits)
    then have last: "last page = last ?matching" by (simp add: page last_last_n split: if_splits)
    have "\<not> (n < seq_of e \<and> of_type ty e)" if "e \<in> set ?held" for e
    proof
      assume e: "n < seq_of e \<and> of_type ty e"
      have "?matching \<noteq> []" using n(1) page by (auto simp: last_n_def split: if_splits)
      then have "since < n" using last_in_set [of ?matching] by (simp add: n(2) last)
      with e that have "e \<in> set ?matching" by simp
      then have "seq_of e \<le> seq_of (last ?matching)"
        by (intro ascending_last ascending_filter ascending_last_n numbered_ascending)
      with e show False by (simp add: n(2) last)
    qed
    then have "filter (\<lambda>e. n < seq_of e \<and> of_type ty e) ?held = []" by (simp add: filter_empty_conv)
    then show ?thesis by (simp add: ring_get_def ring_run_holds Let_def)
  qed
  with page nxt show ?thesis by (auto simp: Let_def split: option.splits)
qed

definition tick_event :: "string \<Rightarrow> log_event" where
  "tick_event s = [(''event_type'', PyStr s)]"

theorem ring_pages_are_the_newest_witness:
  "let r = ring_run 3 (map tick_event [''a'', ''b'', ''a'', ''a'']) in
     ring_get 1 (Some ''a'') 0 r = ([[(''event_type'', PyStr ''a''), (''_seq'', PyInt 4)]], Some 4) \<and>
     ring_get 1 (Some ''a'') 4 r = ([], None)"
proof -
  have page: "ring_get 1 (Some ''a'') 0 (ring_run 3 (map tick_event [''a'', ''b'', ''a'', ''a''])) =
      ([[(''event_type'', PyStr ''a''), (''_seq'', PyInt 4)]], Some 4)"
    by code_simp
  with ring_pages_are_the_newest [OF page, of 1] show ?thesis by (simp add: Let_def)
qed

subsection \<open>Reading the log back\<close>

lemma split_lines_concat:
  assumes "\<forall>l \<in> set ls. newline \<notin> set l"
  shows "split_lines (concat (map (\<lambda>l. l @ [newline]) ls)) = ls"
proof -
  have "split_on newline (concat (map (\<lambda>l. l @ [newline]) ls)) = ls @ [[]]"
    using assms by (induction ls) (simp_all add: split_on_append)
  then show ?thesis by (simp add: split_lines_def Let_def)
qed

lemma strip_dict: "strip (dumps fr (PyDict d)) = dumps fr (PyDict d)"
  by (simp add: strip_def lstrip_def char_class_defs)

definition loggable :: "(pyfloat \<Rightarrow> string) \<Rightarrow> log_event \<Rightarrow> bool" where
  "loggable fr e \<longleftrightarrow> json_ok fr (PyDict e) \<and> (\<exists>n > 0. dict_get e ''_seq'' = Some (PyInt n))"

lemma scan_dicts:
  assumes "list_all (loggable fr) es" "0 \<le> since" "ty \<noteq> Some []"
  shows "scan_lines limit ty since (map (\<lambda>e. dumps fr (PyDict e)) es) =
    Inr (map PyDict (take (max 1 limit) (filter (\<lambda>e. since < seq_of e \<and> of_type ty e) es)))"
  using assms(1)
proof (induction es arbitrary: limit)
  case (Cons e es)
  then have e: "loggable fr e" and rest: "list_all (loggable fr) es" by simp_all
  then have ok: "json_ok fr (PyDict e)" by (simp add: loggable_def del: json_ok.simps)
  from e obtain n where n: "0 < n" "dict_get e ''_seq'' = Some (PyInt n)" by (auto simp: loggable_def)
  have "loads (strip (dumps fr (PyDict e))) = Some (PyDict e)"
    unfolding strip_dict by (rule loads_dumps [OF ok])
  moreover have "passes_since since (PyDict e) = Inr (since < seq_of e)"
    using n assms(2) by (simp add: passes_since_def seq_of_def get_or_none_def)
  moreover have "passes_type ty (PyDict e) = Inr (of_type ty e)"
    using assms(3) by (simp add: passes_type_def of_type_def split: option.splits)
  ultimately show ?case
    using Cons.IH [OF rest, of "limit - 1"] Cons.IH [OF rest, of limit]
    by (cases limit) (simp_all add: max_def del: dumps.simps split: nat.splits)
qed simp

text \<open>Writing some events in a row, at the given times.\<close>

fun log_all :: "(pyfloat \<Rightarrow> string) \<Rightarrow> (string \<Rightarrow> bool) \<Rightarrow> string \<Rightarrow> (time \<times> log_event) list \<Rightarrow> jsonl \<Rightarrow> jsonl option" where
  "log_all fr stuck stamp [] w = Some w"
| "log_all fr stuck stamp ((now, e) # es) w =
     (case log_write fr stuck stamp now e w of None \<Rightarrow> None | Some w' \<Rightarrow> log_all fr stuck stamp es w')"

definition log_text :: "(pyfloat \<Rightarrow> string) \<Rightarrow> log_event list \<Rightarrow> string" where
  "log_text fr es = concat (map (\<lambda>l. l @ [newline]) (map (\<lambda>e. dumps fr (PyDict e)) es))"

lemma log_text_append [simp]:
  "log_text fr [] = []"
  "log_text fr (a @ b) = log_text fr a @ log_text fr b"
  "log_text fr [e] = dumps fr (PyDict e) @ [newline]"
  by (simp_all add: log_text_def)

lemma log_all_single:
  assumes "length (log_text fr (done' @ map snd es)) \<le> MAX_FILE_BYTES"
    "w = \<lparr>jw_files = [\<lparr>lf_name = n, lf_text = log_text fr done', lf_mtime = t\<rparr>], jw_current = n\<rparr>"
  shows "\<exists>t'. log_all fr stuck stamp es w =
    Some \<lparr>jw_files = [\<lparr>lf_name = n, lf_text = log_text fr (done' @ map snd es), lf_mtime = t'\<rparr>], jw_current = n\<rparr>"
  using assms
proof (induction es arbitrary: done' w t)
  case (Cons x es)
  obtain now e where x: "x = (now, e)" by (cases x)
  have small: "length (log_text fr done') \<le> MAX_FILE_BYTES" using Cons.prems(1) by simp
  have "log_write fr stuck stamp now e w =
      Some \<lparr>jw_files = [\<lparr>lf_name = n, lf_text = log_text fr (done' @ [e]), lf_mtime = now\<rparr>], jw_current = n\<rparr>"
    using small by (simp add: Cons.prems(2) log_write_def find_file_def append_line_def)
  with Cons.IH [of "done' @ [e]" _ now] Cons.prems(1) show ?case by (simp add: x)
qed simp

lemma log_path_file_name: "log_path (file_name stamp)"
  by (simp add: log_path_def file_name_def starts_with_def ends_with_def)


definition no_floats :: "pyfloat \<Rightarrow> string" where
  "no_floats x = ''nan''"

definition three_events :: "(time \<times> log_event) list" where
  "three_events = map (\<lambda>i. (1, [(''event_type'', PyStr ''tick''), (''_seq'', PyInt i)])) [1, 2, 3]"

lemma three_events_fit:
  "\<forall>x. newline \<notin> set (no_floats x)" "list_all (loggable no_floats) (map snd three_events)"
  "length (log_text no_floats (map snd three_events)) \<le> MAX_FILE_BYTES"
proof -
  show "\<forall>x. newline \<notin> set (no_floats x)" by (simp add: no_floats_def newline_def)
  show "list_all (loggable no_floats) (map snd three_events)"
    by (simp add: three_events_def loggable_def ascii_def code_def dict_get_def)
  have "length (log_text no_floats (map snd three_events)) \<le> 200" by code_simp
  then show "length (log_text no_floats (map snd three_events)) \<le> MAX_FILE_BYTES" by (simp add: MAX_FILE_BYTES_def)
qed


text \<open>
  The cursor of a file page is the number of its oldest event, so the page after it starts with
  the events the client has just read, and older ones stay out of reach.
\<close>

lemma file_cursor_goes_back:
  "get_events_from_file 2 None 0 t =
     Inr \<lparr>pg_events = map PyDict [[(''_seq'', PyInt 3)], [(''_seq'', PyInt 2)]], pg_next_since = PyInt 2, pg_source = ''jsonl''\<rparr> \<and>
   get_events_from_file 2 None 2 t =
     Inr \<lparr>pg_events = map PyDict [[(''_seq'', PyInt 3)]], pg_next_since = PyInt 3, pg_source = ''jsonl''\<rparr>"
  if "tm_enabled t" "tm_log t = \<lparr>jw_files = [\<lparr>lf_name = ''flap_s.jsonl'',
      lf_text = log_text no_floats [[(''_seq'', PyInt 1)], [(''_seq'', PyInt 2)], [(''_seq'', PyInt 3)]], lf_mtime = 0\<rparr>],
      jw_current = ''flap_s.jsonl''\<rparr>"
proof -
  let ?w = "\<lparr>jw_files = [\<lparr>lf_name = ''flap_s.jsonl'',
      lf_text = log_text no_floats [[(''_seq'', PyInt 1)], [(''_seq'', PyInt 2)], [(''_seq'', PyInt 3)]], lf_mtime = 0\<rparr>],
      jw_current = ''flap_s.jsonl''\<rparr>"
  have "read_recent 2 None 0 ?w = Inr (map PyDict [[(''_seq'', PyInt 3)], [(''_seq'', PyInt 2)]])"
    "read_recent 2 None 2 ?w = Inr (map PyDict [[(''_seq'', PyInt 3)]])"
    by code_simp+
  then show ?thesis using that by (simp add: get_events_from_file_def get_or_none_def dict_get_def)
qed

subsection \<open>The slots remembered\<close>

definition remembered :: "telemetry \<Rightarrow> string set" where
  "remembered t = dom (map_of (tm_arrival t)) \<union> dom (map_of (tm_queue_enter t)) \<union> dom (map_of (tm_prefill_start t)) \<union>
     dom (map_of (tm_first_token_at t)) \<union> dom (map_of (tm_keep_alives t))"

lemma emit_remembered: "remembered (snd (emit sr ty p t)) = remembered t"
  by (auto simp: emit_def remembered_def split: prod.splits option.splits)

lemma cleanup_remembered: "remembered (cleanup_slot k t) = remembered t - {k}"
  by (auto simp: remembered_def cleanup_slot_def delete_conv')

lemma then_cleanup_remembered: "fst (then_cleanup k r) \<Longrightarrow> remembered (snd (then_cleanup k r)) = remembered (snd r) - {k}"
  by (cases r) (auto simp: then_cleanup_def cleanup_remembered)

lemma completion_forgets:
  "fst (on_completion sr sl reason t) \<Longrightarrow> remembered (snd (on_completion sr sl reason t)) = remembered t - {sl_id sl}"
  "fst (on_client_disconnect sr sl reason e t) \<Longrightarrow> remembered (snd (on_client_disconnect sr sl reason e t)) = remembered t - {sl_id sl}"
  unfolding on_completion_def on_client_disconnect_def by (simp_all add: then_cleanup_remembered emit_remembered)

subsection \<open>Rotation\<close>

lemma rotation_keeps_newest:
  assumes "distinct (map lf_name (jw_files w))"
  shows "sort (filter log_path (map lf_name (jw_files (prune (\<lambda>_. False) keep w)))) =
    drop (length (filter log_path (map lf_name (jw_files w))) - keep) (sort (filter log_path (map lf_name (jw_files w))))"
proof -
  let ?names = "sort (filter log_path (map lf_name (jw_files w)))"
  let ?k = "length (filter log_path (map lf_name (jw_files w))) - keep"
  have "distinct ?names" using assms by simp
  then have split: "set (take ?k ?names) \<inter> set (drop ?k ?names) = {}"
    by (metis append_take_drop_id distinct_append)
  have "filter log_path (map lf_name (jw_files (prune (\<lambda>_. False) keep w))) =
      filter (\<lambda>n. n \<notin> set (take ?k ?names)) (filter log_path (map lf_name (jw_files w)))"
    by (simp add: prune_def victims_def Let_def filter_map comp_def conj_commute)
  then have "sort (filter log_path (map lf_name (jw_files (prune (\<lambda>_. False) keep w)))) =
      filter (\<lambda>n. n \<notin> set (take ?k ?names)) ?names"
    by (simp only: filter_sort)
  also have "\<dots> = filter (\<lambda>n. n \<notin> set (take ?k ?names)) (take ?k ?names @ drop ?k ?names)" by simp
  also have "\<dots> = drop ?k ?names"
    unfolding filter_append using split by (auto simp: filter_empty_conv intro!: filter_True)
  finally show ?thesis .
qed

text \<open>A clock that was set back makes the file just opened the oldest name, and it is removed.\<close>

lemma clock_set_back_loses_current:
  "find_file (jw_current w) (jw_files w) = None"
  if "w = rotate (\<lambda>_. False) ''2025'' 1 \<lparr>jw_files = map (\<lambda>y. \<lparr>lf_name = file_name y, lf_text = [], lf_mtime = 0\<rparr>)
        [''2026a'', ''2026b'', ''2026c'', ''2026d'', ''2026e''], jw_current = file_name ''2026e''\<rparr>"
  unfolding that by code_simp

end
