(* ===== verification/Singleton.thy ===== *)
theory Singleton
  imports StateDb GpuBackend
begin

text \<open>
  \<open>singleton.py\<close>: the lock on the state database, the walk to the sub-reaper, the scans of
  \<open>/proc\<close> for sidecars nobody owns, and their end. The directory \<open>/proc\<close> is a list of
  entries with the text of the files the source reads, \<open>None\<close> where reading fails. A process
  is identified by its start time, a pid is a place processes come and go in.
\<close>

subsection \<open>The lock\<close>

datatype flock_answer = Locked | WouldBlock | OtherOsError

datatype lock_result = LockHeld | SingletonViolation | LockOsError

definition acquire_state_lock :: "flock_answer \<Rightarrow> lock_result" where
  "acquire_state_lock a =
     (case a of Locked \<Rightarrow> LockHeld | WouldBlock \<Rightarrow> SingletonViolation | OtherOsError \<Rightarrow> LockOsError)"

subsection \<open>Reading /proc\<close>

record proc_entry =
  pe_name :: string
  pe_cmdline :: "string option"
  pe_status :: "string option"

definition nul :: char where "nul = CHR 0x00"

definition read_cmdline :: "string option \<Rightarrow> string" where
  "read_cmdline text =
     (case text of None \<Rightarrow> [] | Some t \<Rightarrow> strip (map (\<lambda>c. if c = nul then CHR '' '' else c) t))"

definition second_word :: "string \<Rightarrow> int option" where
  "second_word line = (case split_ws line of _ # w # _ \<Rightarrow> py_int w | _ \<Rightarrow> None)"

text \<open>\<open>_read_proc_ppid\<close>: a line that does not parse is passed over.\<close>

fun ppid_of_lines :: "string list \<Rightarrow> int option" where
  "ppid_of_lines [] = None"
| "ppid_of_lines (l # ls) =
     (if starts_with ''PPid:'' l then
        (case second_word l of Some p \<Rightarrow> Some p | None \<Rightarrow> ppid_of_lines ls)
      else ppid_of_lines ls)"

definition read_ppid :: "string option \<Rightarrow> int option" where
  "read_ppid text = (case text of None \<Rightarrow> None | Some t \<Rightarrow> ppid_of_lines (split_lines t))"

text \<open>The same in \<open>_detect_subreaper_pid\<close>, which stops at the first such line.\<close>

definition next_ppid :: "string \<Rightarrow> int option" where
  "next_ppid text =
     (case filter (starts_with ''PPid:'') (split_lines text) of [] \<Rightarrow> None | l # _ \<Rightarrow> second_word l)"

fun walk_up :: "nat \<Rightarrow> (int \<Rightarrow> string option) \<Rightarrow> int set \<Rightarrow> int \<Rightarrow> int" where
  "walk_up 0 status seen current = current"
| "walk_up (Suc n) status seen current =
     (if current \<in> seen \<or> current \<le> 1 then current
      else case status current of
        None \<Rightarrow> current
      | Some text \<Rightarrow>
          (case next_ppid text of
             None \<Rightarrow> current
           | Some p \<Rightarrow> if p \<le> 1 then current else walk_up n status (insert current seen) p))"

definition detect_subreaper_pid :: "(int \<Rightarrow> string option) \<Rightarrow> int option \<Rightarrow> int option" where
  "detect_subreaper_pid status getppid =
     (case getppid of
        None \<Rightarrow> None
      | Some ppid \<Rightarrow>
          if ppid = 1 then None
          else (let r = walk_up 50 status {} ppid in if 1 < r then Some r else None))"

subsection \<open>The scans\<close>

record orphan =
  or_pid :: int
  or_port :: int
  or_cmdline :: string

text \<open>The loop over the tokens: the first \<open>--port\<close> or \<open>-p\<close> that has a successor decides.\<close>

fun port_of_tokens :: "string list \<Rightarrow> int option" where
  "port_of_tokens [] = None"
| "port_of_tokens [t] = None"
| "port_of_tokens (t # v # ts) =
     (if t = ''--port'' \<or> t = ''-p'' then py_int v else port_of_tokens (v # ts))"

definition port_in_range :: "int \<Rightarrow> int \<Rightarrow> int \<Rightarrow> bool" where
  "port_in_range base width port \<longleftrightarrow> base \<le> port \<and> port < base + width"

definition pid_of_name :: "string \<Rightarrow> int option" where
  "pid_of_name n = (if all_digits n then py_int n else None)"

definition reapers :: "int option \<Rightarrow> int set" where
  "reapers subreaper = insert 1 (set_option subreaper)"

definition orphan_of :: "int option \<Rightarrow> int \<Rightarrow> int \<Rightarrow> proc_entry \<Rightarrow> orphan option" where
  "orphan_of subreaper base width e =
     (case pid_of_name (pe_name e) of
        None \<Rightarrow> None
      | Some pid \<Rightarrow>
          (let cmdline = read_cmdline (pe_cmdline e) in
           if \<not> contains ''llama-server'' cmdline then None
           else case read_ppid (pe_status e) of
             None \<Rightarrow> None
           | Some ppid \<Rightarrow>
               if ppid \<notin> reapers subreaper then None
               else (case port_of_tokens (split_ws cmdline) of
                       None \<Rightarrow> None
                     | Some port \<Rightarrow>
                         if port_in_range base width port
                         then Some \<lparr>or_pid = pid, or_port = port, or_cmdline = cmdline\<rparr> else None)))"

definition find_orphan_llama_servers :: "int option \<Rightarrow> int \<Rightarrow> int \<Rightarrow> proc_entry list \<Rightarrow> orphan list" where
  "find_orphan_llama_servers subreaper base width proc = List.map_filter (orphan_of subreaper base width) proc"

text \<open>\<open>re.search(r"--port\s+(\d+)", s)\<close> and its group.\<close>

fun port_search :: "string \<Rightarrow> string option" where
  "port_search [] = None"
| "port_search (c # cs) =
     (let r = drop 6 (c # cs); ds = takeWhile is_digit (dropWhile is_space r) in
      if starts_with ''--port'' (c # cs) \<and> takeWhile is_space r \<noteq> [] \<and> ds \<noteq> [] then Some ds
      else port_search cs)"

record scan_stats =
  st_scanned :: nat
  st_matched :: nat
  st_reaped :: nat
  st_errors :: nat

definition matched_port :: "int \<Rightarrow> int \<Rightarrow> string \<Rightarrow> bool" where
  "matched_port base width cmdline \<longleftrightarrow>
     contains ''llama-server'' cmdline \<and>
     (case port_search cmdline of
        None \<Rightarrow> False
      | Some ds \<Rightarrow> (case py_int ds of None \<Rightarrow> False | Some port \<Rightarrow> port_in_range base width port))"

text \<open>One entry; the pids that were sent SIGTERM are kept beside the counters.\<close>

definition scan_entry ::
    "int \<Rightarrow> int \<Rightarrow> int set \<Rightarrow> (int \<Rightarrow> kill_outcome) \<Rightarrow> proc_entry \<Rightarrow> scan_stats \<times> int list \<Rightarrow> scan_stats \<times> int list" where
  "scan_entry base width known kill e acc =
     (case (pid_of_name (pe_name e), acc) of
        (None, _) \<Rightarrow> acc
      | (Some pid, (st, sent)) \<Rightarrow>
          (let st = st\<lparr>st_scanned := Suc (st_scanned st)\<rparr> in
           if \<not> matched_port base width (read_cmdline (pe_cmdline e)) then (st, sent)
           else (let st = st\<lparr>st_matched := Suc (st_matched st)\<rparr> in
                 if pid \<in> known then (st, sent)
                 else case kill pid of
                   Delivered \<Rightarrow> (st\<lparr>st_reaped := Suc (st_reaped st)\<rparr>, sent @ [pid])
                 | NoSuchProcess \<Rightarrow> (st, sent)
                 | NotPermitted \<Rightarrow> (st\<lparr>st_errors := Suc (st_errors st)\<rparr>, sent))))"

definition intra_lifetime_orphan_scan ::
    "int \<Rightarrow> int \<Rightarrow> int set \<Rightarrow> (int \<Rightarrow> kill_outcome) \<Rightarrow> proc_entry list option \<Rightarrow> scan_stats \<times> int list" where
  "intra_lifetime_orphan_scan base width known kill proc =
     (let zero = \<lparr>st_scanned = 0, st_matched = 0, st_reaped = 0, st_errors = 0\<rparr> in
      case proc of None \<Rightarrow> (zero, []) | Some es \<Rightarrow> fold (scan_entry base width known kill) es (zero, []))"

subsection \<open>Ending an orphan\<close>

text \<open>Field 22 of \<open>/proc/pid/stat\<close>.\<close>

definition read_starttime :: "string option \<Rightarrow> int option" where
  "read_starttime text =
     (case text of
        None \<Rightarrow> None
      | Some t \<Rightarrow>
          (case rfind_sub '')'' t of
             None \<Rightarrow> None
           | Some rp \<Rightarrow>
               (let rest = split_ws (drop (rp + 1) t) in if length rest < 20 then None else py_int (rest ! 19))))"

text \<open>
  What happens around one reaping: who holds the pid at each call (by start time), whether
  start times can be read at the two readings, and which processes may be signalled.
\<close>

record reap_story =
  rs_holder :: "int option"
  rs_start_read :: bool
  rs_term :: "int option"
  rs_rounds :: "(time \<times> int option) list"
  rs_kill :: "int option"
  rs_after :: "int option"
  rs_after_read :: bool
  rs_mine :: "int \<Rightarrow> bool"

datatype signal_kind = SIGTERM | SIGKILL | Probe

datatype reap_result = Reaped string | NotReaped string | ReapRaised

definition signal :: "reap_story \<Rightarrow> int option \<Rightarrow> kill_outcome" where
  "signal x holder =
     (case holder of None \<Rightarrow> NoSuchProcess | Some s \<Rightarrow> if rs_mine x s then Delivered else NotPermitted)"

text \<open>The calls made so far, with the holder each one met, are the last component.\<close>

definition kill_and_check :: "reap_story \<Rightarrow> (signal_kind \<times> int option) list \<Rightarrow> reap_result \<times> (signal_kind \<times> int option) list" where
  "kill_and_check x calls =
     (let calls = calls @ [(SIGKILL, rs_kill x)] in
      case signal x (rs_kill x) of
        NoSuchProcess \<Rightarrow> (Reaped ''sigkill-clean'', calls)
      | NotPermitted \<Rightarrow> (NotReaped ''permission-denied-sigkill'', calls)
      | Delivered \<Rightarrow>
          (let calls = calls @ [(Probe, rs_after x)] in
           case signal x (rs_after x) of
             NoSuchProcess \<Rightarrow> (Reaped ''sigkill-clean'', calls)
           | NotPermitted \<Rightarrow> (NotReaped ''permission-denied-sigkill'', calls)
           | Delivered \<Rightarrow>
               if rs_start_read x \<and> rs_holder x \<noteq> None \<and> rs_after_read x \<and> rs_after x \<noteq> rs_holder x
               then (Reaped ''sigkill-clean-pid-reused'', calls)
               else (NotReaped ''sigkill-failed-still-alive'', calls)))"

fun poll_exit ::
    "reap_story \<Rightarrow> time \<Rightarrow> (signal_kind \<times> int option) list \<Rightarrow> (time \<times> int option) list
     \<Rightarrow> (reap_result \<times> (signal_kind \<times> int option) list) option" where
  "poll_exit x deadline calls [] = None"
| "poll_exit x deadline calls ((now, holder) # rounds) =
     (if deadline \<le> now then Some (kill_and_check x calls)
      else case signal x holder of
        NoSuchProcess \<Rightarrow> Some (Reaped ''sigterm-clean'', calls @ [(Probe, holder)])
      | NotPermitted \<Rightarrow> Some (ReapRaised, calls @ [(Probe, holder)])
      | Delivered \<Rightarrow> poll_exit x deadline (calls @ [(Probe, holder)]) rounds)"

definition reap_orphan ::
    "time \<Rightarrow> time \<Rightarrow> reap_story \<Rightarrow> (reap_result \<times> (signal_kind \<times> int option) list) option" where
  "reap_orphan start wait x =
     (let calls = [(SIGTERM, rs_term x)] in
      case signal x (rs_term x) of
        NoSuchProcess \<Rightarrow> Some (Reaped ''already-gone'', calls)
      | NotPermitted \<Rightarrow> Some (NotReaped ''permission-denied-sigterm'', calls)
      | Delivered \<Rightarrow> poll_exit x (start + wait) calls (rs_rounds x))"

subsection \<open>The boot-time reaper\<close>

record reap_report =
  rr_found :: nat
  rr_reaped :: nat
  rr_failed :: nat
  rr_touched :: "int list"

text \<open>\<open>None\<close> is an exception of \<open>reap_orphan\<close>; \<open>outcome\<close> is what it answers for a pid.\<close>

fun reap_each :: "int set \<Rightarrow> (int \<Rightarrow> reap_result) \<Rightarrow> orphan list \<Rightarrow> reap_report \<Rightarrow> reap_report option" where
  "reap_each known outcome [] r = Some r"
| "reap_each known outcome (orph # os) r =
     (if or_pid orph \<in> known then reap_each known outcome os r
      else
        (let r = r\<lparr>rr_touched := rr_touched r @ [or_pid orph]\<rparr> in
         case outcome (or_pid orph) of
           Reaped _ \<Rightarrow> reap_each known outcome os (r\<lparr>rr_reaped := Suc (rr_reaped r)\<rparr>)
         | NotReaped _ \<Rightarrow> reap_each known outcome os (r\<lparr>rr_failed := Suc (rr_failed r)\<rparr>)
         | ReapRaised \<Rightarrow> None))"

definition boot_orphan_reaper ::
    "int option \<Rightarrow> int \<Rightarrow> int set \<Rightarrow> (int \<Rightarrow> reap_result) \<Rightarrow> proc_entry list \<Rightarrow> reap_report option" where
  "boot_orphan_reaper subreaper base known outcome proc =
     (let os = find_orphan_llama_servers subreaper base 100 proc in
      reap_each known outcome os \<lparr>rr_found = length os, rr_reaped = 0, rr_failed = 0, rr_touched = []\<rparr>)"

subsection \<open>Foreign GPU processes\<close>

definition scan_gpu_compute_apps :: "backend option \<Rightarrow> gpu_tools \<Rightarrow> (int \<times> int) list" where
  "scan_gpu_compute_apps b t =
     (case b of
        None \<Rightarrow> []
      | Some Nvidia \<Rightarrow> nvidia_scan_compute_apps (nv_apps t)
      | Some Rocm \<Rightarrow> rocm_scan_compute_apps (rocm_pids t))"

definition detect_foreign_gpu_apps ::
    "(int \<Rightarrow> string option) \<Rightarrow> int set \<Rightarrow> (int \<times> int) list \<Rightarrow> (int \<times> int \<times> string) list" where
  "detect_foreign_gpu_apps cmdline known apps =
     map (\<lambda>(pid, used). (pid, used, let c = read_cmdline (cmdline pid) in if c = [] then ''<unknown>'' else c))
       (filter (\<lambda>(pid, _). pid \<notin> known) apps)"

subsection \<open>Lemmas\<close>

definition parent_of :: "(int \<Rightarrow> string option) \<Rightarrow> (int \<times> int) set" where
  "parent_of status = {(a, b). \<exists>t. status a = Some t \<and> next_ppid t = Some b}"

lemma walk_up_ancestor: "(current, walk_up n status seen current) \<in> (parent_of status)\<^sup>*"
proof (induction n status seen current rule: walk_up.induct)
  case (2 n status seen current)
  then show ?case
    by (auto simp: parent_of_def split: option.splits intro: converse_rtrancl_into_rtrancl)
qed simp

lemma subreaper_is_ancestor:
  "detect_subreaper_pid status (Some ppid) = Some r \<Longrightarrow> (ppid, r) \<in> (parent_of status)\<^sup>* \<and> 1 < r"
  using walk_up_ancestor [of ppid 50 status "{}"]
  by (auto simp: detect_subreaper_pid_def Let_def split: if_splits)

text \<open>Which processes the scan takes for lost sidecars.\<close>

definition lost_sidecar :: "int \<Rightarrow> int \<Rightarrow> int set \<Rightarrow> proc_entry \<Rightarrow> int option" where
  "lost_sidecar base width known e =
     (case pid_of_name (pe_name e) of
        None \<Rightarrow> None
      | Some pid \<Rightarrow>
          if matched_port base width (read_cmdline (pe_cmdline e)) \<and> pid \<notin> known then Some pid else None)"

definition numeric_entry :: "proc_entry \<Rightarrow> bool" where
  "numeric_entry e \<longleftrightarrow> pid_of_name (pe_name e) \<noteq> None"

definition matching_entry :: "int \<Rightarrow> int \<Rightarrow> proc_entry \<Rightarrow> bool" where
  "matching_entry base width e \<longleftrightarrow> numeric_entry e \<and> matched_port base width (read_cmdline (pe_cmdline e))"

lemma scan_fold:
  "fold (scan_entry base width known kill) es (st, sent) =
     (let lost = List.map_filter (lost_sidecar base width known) es in
      (\<lparr>st_scanned = st_scanned st + length (filter numeric_entry es),
        st_matched = st_matched st + length (filter (matching_entry base width) es),
        st_reaped = st_reaped st + length (filter (\<lambda>p. kill p = Delivered) lost),
        st_errors = st_errors st + length (filter (\<lambda>p. kill p = NotPermitted) lost)\<rparr>,
       sent @ filter (\<lambda>p. kill p = Delivered) lost))"
proof (induction es arbitrary: st sent)
  case Nil
  then show ?case by (simp add: Let_def List.map_filter_def)
next
  case (Cons e es)
  note defs_e = scan_entry_def [of base width known kill e] lost_sidecar_def [of base width known e]
    numeric_entry_def [of e] matching_entry_def [of base width e]
  show ?case
  proof (cases "pid_of_name (pe_name e)")
    case None
    then show ?thesis
      by (simp add: Cons.IH Let_def defs_e map_filter_simps)
  next
    case (Some pid)
    then show ?thesis
      by (cases "kill pid")
        (simp_all add: Cons.IH Let_def defs_e map_filter_simps)
  qed
qed

text \<open>
  C33: The scan during the life of the manager sends SIGTERM to exactly the processes that look
  like a sidecar on a port of its range and are not among the handles it was given, and what
  it reports is how many entries it saw, how many matched, how many it signalled and how many
  it was not allowed to.
\<close>

theorem scan_signals_exactly_the_lost:
  "intra_lifetime_orphan_scan base width known kill (Some es) =
     (let lost = List.map_filter (lost_sidecar base width known) es in
      (\<lparr>st_scanned = length (filter numeric_entry es), st_matched = length (filter (matching_entry base width) es),
        st_reaped = length (filter (\<lambda>p. kill p = Delivered) lost),
        st_errors = length (filter (\<lambda>p. kill p = NotPermitted) lost)\<rparr>,
       filter (\<lambda>p. kill p = Delivered) lost)) \<and>
   set (snd (intra_lifetime_orphan_scan base width known kill (Some es))) \<inter> known = {}"
  by (auto simp: intra_lifetime_orphan_scan_def scan_fold Let_def List.map_filter_def lost_sidecar_def
      split: option.splits if_splits)

text \<open>The reaper: what it touches, and that its counters account for all of it.\<close>

lemma reap_each_report:
  assumes "reap_each known outcome os r = Some r'"
  shows "rr_touched r' = rr_touched r @ filter (\<lambda>p. p \<notin> known) (map or_pid os) \<and>
    rr_reaped r' + rr_failed r' = rr_reaped r + rr_failed r + length (filter (\<lambda>p. p \<notin> known) (map or_pid os)) \<and>
    rr_found r' = rr_found r"
  using assms
  by (induction known outcome os r rule: reap_each.induct)
    (auto simp: Let_def split: if_splits reap_result.splits)

lemma orphan_of_Some:
  assumes "orphan_of subreaper base width e = Some orph"
  shows "pid_of_name (pe_name e) = Some (or_pid orph)" "contains ''llama-server'' (or_cmdline orph)"
    "\<exists>ppid. read_ppid (pe_status e) = Some ppid \<and> ppid \<in> reapers subreaper"
    "port_in_range base width (or_port orph)"
  using assms by (auto simp: orphan_of_def Let_def split: option.splits if_splits)

lemma boot_reaper_touches_orphans_only:
  assumes "boot_orphan_reaper subreaper base known outcome proc = Some r" "pid \<in> set (rr_touched r)"
  shows "\<exists>e \<in> set proc. pid_of_name (pe_name e) = Some pid \<and>
    (\<exists>ppid. read_ppid (pe_status e) = Some ppid \<and> ppid \<in> reapers subreaper)"
proof -
  have "pid \<in> set (map or_pid (find_orphan_llama_servers subreaper base 100 proc))"
    using reap_each_report [OF assms(1) [unfolded boot_orphan_reaper_def Let_def]] assms(2) by auto
  then obtain e orph where "e \<in> set proc" "orphan_of subreaper base 100 e = Some orph" "or_pid orph = pid"
    by (auto simp: find_orphan_llama_servers_def List.map_filter_def)
  with orphan_of_Some [of subreaper base 100 e orph] show ?thesis by auto
qed

text \<open>
  A manager that is process 1 of its container is the parent of its own sidecars, which are
  orphans to the reaper. The teardowns call it with no known pids.
\<close>

definition own_sidecar :: proc_entry where
  "own_sidecar = \<lparr>pe_name = ''42'', pe_cmdline = Some ''/opt/llama/llama-server --model m --port 11500'',
     pe_status = Some (join [newline] [''Name: llama-server'', ''PPid: 1'', ''Threads: 8''])\<rparr>"

lemma own_children_are_orphans:
  "detect_subreaper_pid (\<lambda>_. None) (Some 0) = None"
  "map_option rr_touched (boot_orphan_reaper None 11500 {} (\<lambda>_. Reaped ''sigterm-clean'') [own_sidecar]) = Some [42]"
  by code_simp+

text \<open>A \<open>-p\<close> option of the sidecar, its prompt, hides the port behind it.\<close>

lemma prompt_hides_port:
  "port_of_tokens (split_ws ''llama-server -p hello --port 11500'') = None"
  by code_simp

lemma kill_and_check_true:
  assumes "kill_and_check x calls = (Reaped st, trace)" "rs_holder x = Some s"
  shows "snd (last trace) \<noteq> Some s"
  using assms by (auto simp: kill_and_check_def signal_def Let_def split: option.splits if_splits kill_outcome.splits)

text \<open>
  When the reaper reports an orphan as gone, the process it was called for does not hold
  the pid any more: the last call it made met no process or another one.
\<close>

theorem reap_success_is_true:
  assumes "reap_orphan start wait x = Some (Reaped st, trace)" "rs_holder x = Some s"
  shows "trace \<noteq> [] \<and> snd (last trace) \<noteq> Some s"
proof -
  have "trace \<noteq> [] \<and> snd (last trace) \<noteq> Some s"
    if "poll_exit x deadline calls rounds = Some (Reaped st, trace)" "calls \<noteq> []" "rs_holder x = Some s"
    for deadline calls rounds
    using that
  proof (induction x deadline calls rounds rule: poll_exit.induct)
    case (2 x deadline calls now holder rounds)
    show ?case
    proof (cases "deadline \<le> now")
      case True
      with 2 have "kill_and_check x calls = (Reaped st, trace)" by simp
      moreover from this have "trace \<noteq> []"
        by (auto simp: kill_and_check_def Let_def split: if_splits kill_outcome.splits)
      ultimately show ?thesis using kill_and_check_true 2 by blast
    next
      case False
      with 2 show ?thesis by (auto simp: signal_def split: option.splits if_splits kill_outcome.splits)
    qed
  qed simp
  then show ?thesis
    using assms by (auto simp: reap_orphan_def signal_def Let_def split: option.splits if_splits kill_outcome.splits)
qed

definition tame :: reap_story where
  "tame = \<lparr>rs_holder = Some 7, rs_start_read = True, rs_term = Some 7, rs_rounds = [(0, Some 7), (6, None)],
     rs_kill = Some 7, rs_after = None, rs_after_read = True, rs_mine = (\<lambda>_. True)\<rparr>"

theorem reap_success_is_true_witness:
  "reap_orphan 0 5 tame =
     Some (Reaped ''sigkill-clean'', [(SIGTERM, Some 7), (Probe, Some 7), (SIGKILL, Some 7), (Probe, None)]) \<and>
   snd (last [(SIGTERM, Some 7), (Probe, Some 7), (SIGKILL, Some 7), (Probe, None)]) \<noteq> Some (7 :: int)"
proof -
  have run: "reap_orphan 0 5 tame =
      Some (Reaped ''sigkill-clean'', [(SIGTERM, Some 7), (Probe, Some 7), (SIGKILL, Some 7), (Probe, None)])"
    by code_simp
  with reap_success_is_true [OF run, of 7] show ?thesis by (simp add: tame_def)
qed

text \<open>
  The start time is compared after the SIGKILL only: when the orphan exits on SIGTERM and its
  pid is taken between two probes, the process that took it is killed.
\<close>

lemma sigkill_hits_a_stranger:
  "map_option snd (reap_orphan 0 5 (tame\<lparr>rs_rounds := [(0, Some 7), (1, Some 9), (6, Some 9)], rs_kill := Some 9\<rparr>)) =
     Some [(SIGTERM, Some 7), (Probe, Some 7), (Probe, Some 9), (SIGKILL, Some 9), (Probe, None)]"
  by code_simp

text \<open>A probe that is not permitted is not handled: the exception ends the whole reaping.\<close>

lemma foreign_successor_raises:
  "map_option fst (reap_orphan 0 5 (tame\<lparr>rs_rounds := [(0, Some 9)], rs_mine := (\<lambda>s. s = 7)\<rparr>)) = Some ReapRaised"
  "reap_each {} (\<lambda>_. ReapRaised) (orph # os) r = None"
  by (code_simp, simp)

subsection \<open>Boot reconciliation\<close>

text \<open>
  \<open>boot_reconcile\<close> of \<open>manager.py\<close> as a whole: reap, look for foreign GPU processes, end the
  rows of dead processes. An exception of the reaper leaves the rows as they were.
\<close>

record reconcile_summary =
  rc_reaped :: nat
  rc_failed :: nat
  rc_foreign :: "(int \<times> int \<times> string) list"
  rc_slots :: nat

definition boot_reconcile ::
    "int option \<Rightarrow> int \<Rightarrow> (int \<Rightarrow> reap_result) \<Rightarrow> proc_entry list \<Rightarrow> (int \<Rightarrow> string option) \<Rightarrow> (int \<times> int) list
     \<Rightarrow> (int \<Rightarrow> bool) \<Rightarrow> string \<Rightarrow> row list \<Rightarrow> reconcile_summary option \<times> row list" where
  "boot_reconcile subreaper base outcome proc cmdline apps alive now rows =
     (case boot_orphan_reaper subreaper base {} outcome proc of
        None \<Rightarrow> (None, rows)
      | Some rep \<Rightarrow>
          (case boot_reconcile_rows rows now alive of
             (n, rows') \<Rightarrow>
               (Some \<lparr>rc_reaped = rr_reaped rep, rc_failed = rr_failed rep,
                      rc_foreign = detect_foreign_gpu_apps cmdline {} apps, rc_slots = n\<rparr>, rows')))"

end
