(* ===== verification/AuditLog.thy ===== *)
theory AuditLog
  imports Json
begin

text \<open>
  \<open>api/logging.py\<close>, the paginated view of the audit table, with the event bus of \<open>manager.py\<close>
  whose denylist it shares and the \<open>/ws/state\<close> socket that the bus feeds (\<open>api/ws_state.py\<close>).
  A row of the table is given by its columns; the payload column holds JSON text.
\<close>

subsection \<open>The event bus\<close>

definition REDACTED_KEYS :: "string list" where
  "REDACTED_KEYS = [''prompt'', ''response'', ''context'', ''stderr'', ''stdout'', ''messages'']"

type_synonym dict = "(string \<times> pyval) list"

type_synonym event_bus = "(nat \<times> dict list) list"

definition WS_QUEUE_MAX :: nat where "WS_QUEUE_MAX = 1000"

definition subscribe :: "nat \<Rightarrow> event_bus \<Rightarrow> event_bus" where
  "subscribe i bus = (if i \<in> fst ` set bus then bus else bus @ [(i, [])])"

definition unsubscribe :: "nat \<Rightarrow> event_bus \<Rightarrow> event_bus" where
  "unsubscribe i bus = filter (\<lambda>(j, _). j \<noteq> i) bus"

definition subscriber_count :: "event_bus \<Rightarrow> nat" where
  "subscriber_count bus = length bus"

definition safe_event :: "dict \<Rightarrow> dict" where
  "safe_event ev = filter (\<lambda>(k, _). k \<notin> set REDACTED_KEYS) ev"

definition publish_nowait :: "dict \<Rightarrow> event_bus \<Rightarrow> event_bus" where
  "publish_nowait ev bus = map (\<lambda>(i, q). (i, put_nowait WS_QUEUE_MAX (safe_event ev) q)) bus"

text \<open>
  One \<open>/ws/state\<close> connection: it subscribes, sends the snapshot, then what it takes from its
  queue. \<open>sent\<close> says of each send whether it went through; a send that fails, or an exception,
  ends the handler, which unsubscribes in every case.
\<close>

fun relay :: "dict list \<Rightarrow> bool list \<Rightarrow> dict list" where
  "relay (e # es) (True # oks) = e # relay es oks"
| "relay _ _ = []"

definition ws_state :: "dict \<Rightarrow> dict list \<Rightarrow> bool list \<Rightarrow> dict list" where
  "ws_state snapshot queued sent =
     relay ([(''event'', PyStr ''connected''), (''snapshot'', PyDict snapshot)] # queued) sent"

subsection \<open>Constants\<close>

definition MAX_RESPONSE_TOKENS :: nat where "MAX_RESPONSE_TOKENS = 20000"
definition APPROX_CHARS_PER_TOKEN :: nat where "APPROX_CHARS_PER_TOKEN = 4"
definition MAX_RESPONSE_CHARS :: nat where "MAX_RESPONSE_CHARS = MAX_RESPONSE_TOKENS * APPROX_CHARS_PER_TOKEN"
definition ENVELOPE_OVERHEAD_CHARS :: nat where "ENVELOPE_OVERHEAD_CHARS = 512"
definition EFFECTIVE_BUDGET :: nat where "EFFECTIVE_BUDGET = MAX_RESPONSE_CHARS - ENVELOPE_OVERHEAD_CHARS"
definition REDACT_DEPTH_CAP :: nat where "REDACT_DEPTH_CAP = 10"
definition LIMIT_MIN :: int where "LIMIT_MIN = 1"
definition LIMIT_MAX :: int where "LIMIT_MAX = 500"
definition FILTER_LEN_CAP :: nat where "FILTER_LEN_CAP = 128"

subsection \<open>One row\<close>

function redact :: "nat \<Rightarrow> pyval \<Rightarrow> pyval" where
  "redact depth v =
     (if REDACT_DEPTH_CAP < depth then v
      else case v of
        PyDict kvs \<Rightarrow> PyDict (map (\<lambda>kv. (fst kv, redact (Suc depth) (snd kv)))
                        (filter (\<lambda>kv. fst kv \<notin> set REDACTED_KEYS) kvs))
      | PyList vs \<Rightarrow> PyList (map (redact (Suc depth)) vs)
      | _ \<Rightarrow> v)"
  by pat_completeness auto
termination
  by (relation "measure (\<lambda>(d, _). Suc REDACT_DEPTH_CAP - d)") auto

declare redact.simps [simp del]

definition decode_error :: "string \<Rightarrow> dict" where
  "decode_error text = [(''_decode_error'', PyBool True), (''_raw_len'', PyInt (int (length text)))]"

definition decode_payload :: "string option \<Rightarrow> dict" where
  "decode_payload text =
     (case text of
        None \<Rightarrow> []
      | Some t \<Rightarrow>
          if t = [] then []
          else case loads t of Some (PyDict d) \<Rightarrow> d | _ \<Rightarrow> decode_error t)"

record audit_row =
  ar_id :: int
  ar_slot :: "string option"
  ar_type :: string
  ar_payload :: "string option"
  ar_at :: string

definition row_to_event :: "audit_row \<Rightarrow> pyval" where
  "row_to_event r = PyDict
     [(''event_id'', PyInt (ar_id r)), (''slot_id'', case ar_slot r of None \<Rightarrow> PyNone | Some s \<Rightarrow> PyStr s),
      (''event_type'', PyStr (ar_type r)), (''payload'', redact 0 (PyDict (decode_payload (ar_payload r)))),
      (''occurred_at'', PyStr (ar_at r))]"

subsection \<open>One page\<close>

record log_query =
  lq_since :: int
  lq_slot :: "string option"
  lq_type :: "string option"
  lq_limit :: int

definition query_accepted :: "log_query \<Rightarrow> bool" where
  "query_accepted q \<longleftrightarrow> 0 \<le> lq_since q \<and>
     list_all (\<lambda>f. case f of None \<Rightarrow> True | Some s \<Rightarrow> length s \<le> FILTER_LEN_CAP) [lq_slot q, lq_type q]"

definition clamp_limit :: "int \<Rightarrow> nat" where
  "clamp_limit n = nat (if n < LIMIT_MIN then LIMIT_MIN else if LIMIT_MAX < n then LIMIT_MAX else n)"

definition selected :: "log_query \<Rightarrow> audit_row \<Rightarrow> bool" where
  "selected q r \<longleftrightarrow>
     lq_since q \<le> ar_id r \<and>
     (case lq_slot q of None \<Rightarrow> True | s \<Rightarrow> ar_slot r = s) \<and>
     (case lq_type q of None \<Rightarrow> True | Some t \<Rightarrow> ar_type r = t)"

definition fetch_rows :: "log_query \<Rightarrow> audit_row list \<Rightarrow> audit_row list" where
  "fetch_rows q rows = take (clamp_limit (lq_limit q)) (sort_key ar_id (filter (selected q) rows))"

text \<open>The loop over the rows: the rows that fit, and the row it broke off at.\<close>

fun fitting :: "(audit_row \<Rightarrow> nat) \<Rightarrow> nat \<Rightarrow> audit_row list \<Rightarrow> audit_row list \<times> audit_row option" where
  "fitting size_of used [] = ([], None)"
| "fitting size_of used (r # rs) =
     (if EFFECTIVE_BUDGET < used + size_of r then ([], Some r)
      else case fitting size_of (used + size_of r) rs of (es, b) \<Rightarrow> (r # es, b))"

record log_page =
  lp_rows :: "audit_row list"
  lp_next :: "int option"
  lp_oversized :: bool

definition page_of :: "(audit_row \<Rightarrow> nat) \<Rightarrow> nat \<Rightarrow> audit_row list \<Rightarrow> log_page" where
  "page_of size_of limit rows =
     (case fitting size_of 0 rows of
        (es, broke) \<Rightarrow>
          (let next = (case broke of
                  Some r \<Rightarrow> Some (ar_id r)
                | None \<Rightarrow> if length rows = limit \<and> es \<noteq> [] then Some (ar_id (last es) + 1) else None)
           in case (es, rows) of
                ([], r # _) \<Rightarrow> \<lparr>lp_rows = [r], lp_next = Some (ar_id r + 1), lp_oversized = True\<rparr>
              | _ \<Rightarrow> \<lparr>lp_rows = es, lp_next = next, lp_oversized = False\<rparr>))"

definition event_chars :: "(pyfloat \<Rightarrow> string) \<Rightarrow> audit_row \<Rightarrow> nat" where
  "event_chars fr r = length (dumps fr (row_to_event r))"

definition get_logging :: "(pyfloat \<Rightarrow> string) \<Rightarrow> audit_row list \<Rightarrow> log_query \<Rightarrow> log_page option" where
  "get_logging fr rows q =
     (if query_accepted q
      then Some (page_of (event_chars fr) (clamp_limit (lq_limit q)) (fetch_rows q rows)) else None)"

definition page_json :: "log_page \<Rightarrow> dict" where
  "page_json p =
     [(''events'', PyList (map row_to_event (lp_rows p))),
      (''next_since'', case lp_next p of None \<Rightarrow> PyNone | Some n \<Rightarrow> PyInt n),
      (''oversized'', PyBool (lp_oversized p))]"

subsection \<open>A client that follows the cursor\<close>

text \<open>The pages of a whole reading, \<open>n\<close> requests at most.\<close>

fun read_pages :: "(pyfloat \<Rightarrow> string) \<Rightarrow> nat \<Rightarrow> audit_row list \<Rightarrow> log_query \<Rightarrow> log_page list option" where
  "read_pages fr 0 rows q = None"
| "read_pages fr (Suc n) rows q =
     (case get_logging fr rows q of
        None \<Rightarrow> None
      | Some p \<Rightarrow>
          (case lp_next p of
             None \<Rightarrow> Some [p]
           | Some since \<Rightarrow> map_option (Cons p) (read_pages fr n rows (q\<lparr>lq_since := since\<rparr>))))"

definition by_id :: "audit_row list \<Rightarrow> bool" where
  "by_id rows \<longleftrightarrow> sorted_wrt (\<lambda>a b. ar_id a < ar_id b) rows"

lemma by_id_sort: "by_id rows \<Longrightarrow> sort_key ar_id rows = rows"
  by (rule sort_key_id_if_sorted) (auto simp: by_id_def sorted_wrt_map intro: sorted_wrt_mono_rel [rotated])

lemma by_id_filter: "by_id rows \<Longrightarrow> by_id (filter P rows)"
  by (simp add: by_id_def sorted_wrt_filter)

lemma by_id_from:
  assumes "by_id rows" "k \<le> length rows" "\<And>r. r \<in> set (take k rows) \<Longrightarrow> ar_id r < n"
    "k < length rows \<Longrightarrow> n \<le> ar_id (rows ! k)"
  shows "filter (\<lambda>r. n \<le> ar_id r) rows = drop k rows"
proof -
  have "n \<le> ar_id r" if r: "r \<in> set (drop k rows)" for r
  proof -
    from r obtain i where i: "i < length rows" "k \<le> i" "r = rows ! i"
      by (auto simp: in_set_conv_nth) (metis add.commute le_add2 less_diff_conv nth_drop)
    with assms(1) have "ar_id (rows ! k) \<le> ar_id r"
      by (cases "k = i") (auto simp: by_id_def sorted_wrt_iff_nth_less less_imp_le)
    with i assms(4) show ?thesis by linarith
  qed
  then have "filter (\<lambda>r. n \<le> ar_id r) (take k rows @ drop k rows) = drop k rows"
    unfolding filter_append using assms(3) by (auto simp: filter_empty_conv not_le intro!: filter_True)
  then show ?thesis by simp
qed

lemma fitting_prefix:
  "fitting size_of used rows = (es, b) \<Longrightarrow> used \<le> EFFECTIVE_BUDGET \<Longrightarrow>
     (\<exists>zs. rows = es @ zs \<and> b = (case zs of [] \<Rightarrow> None | z # _ \<Rightarrow> Some z)) \<and>
     used + sum_list (map size_of es) \<le> EFFECTIVE_BUDGET"
proof (induction size_of used rows arbitrary: es b rule: fitting.induct)
  case (2 size_of used r rs)
  show ?case
  proof (cases "EFFECTIVE_BUDGET < used + size_of r")
    case False
    then obtain es' b' where "fitting size_of (used + size_of r) rs = (es', b')" "es = r # es'" "b = b'"
      using 2(2) by (auto split: prod.splits)
    with 2(1) [OF False this(1)] False show ?thesis by auto
  qed (use 2 in auto)
qed simp

text \<open>What a page takes off the front of the rows that are left, and where its cursor points.\<close>

lemma page_of_front:
  assumes "by_id left" "1 \<le> limit" "p = page_of size_of limit (take limit left)"
  obtains k where "lp_rows p = take k left" "k \<le> limit" "left \<noteq> [] \<longrightarrow> 0 < k"
    "lp_next p = None \<longrightarrow> take k left = left"
    "\<forall>n. lp_next p = Some n \<longrightarrow> 0 < k \<and> filter (\<lambda>r. n \<le> ar_id r) left = drop k left \<and> (\<exists>r \<in> set left. ar_id r \<le> n)"
    "sum_list (map size_of (lp_rows p)) \<le> EFFECTIVE_BUDGET \<or> (lp_oversized p \<and> length (lp_rows p) = 1)"
proof -
  obtain es b where fit: "fitting size_of 0 (take limit left) = (es, b)" by fastforce
  then obtain zs where zs: "take limit left = es @ zs" "b = (case zs of [] \<Rightarrow> None | z # _ \<Rightarrow> Some z)"
    and small: "sum_list (map size_of es) \<le> EFFECTIVE_BUDGET"
    using fitting_prefix [OF fit] by auto
  let ?k = "length es"
  have es: "es = take ?k left" "?k \<le> limit" "?k \<le> length left"
    using arg_cong [OF zs(1), of "take ?k"] arg_cong [OF zs(1), of length] by (auto simp: min_def split: if_splits)
  have below: "ar_id r < ar_id (left ! ?k)" if "r \<in> set es" "?k < length left" for r
    using that assms(1) es(1) by (auto simp: by_id_def sorted_wrt_iff_nth_less in_set_conv_nth) (metis nth_take)
  show ?thesis
  proof (cases es)
    case Nil
    show ?thesis
    proof (cases left)
      case Nil
      with fit assms(3) have "p = \<lparr>lp_rows = [], lp_next = None, lp_oversized = False\<rparr>"
        by (simp add: page_of_def)
      then show ?thesis using that [of 0] Nil by simp
    next
      case (Cons r rest)
      with assms(2) obtain rs where front: "take limit left = r # rs" by (cases limit) auto
      with fit \<open>es = []\<close> assms(3) have p: "p = \<lparr>lp_rows = [r], lp_next = Some (ar_id r + 1), lp_oversized = True\<rparr>"
        by (simp add: page_of_def Let_def)
      have "filter (\<lambda>x. ar_id r + 1 \<le> ar_id x) left = drop 1 left"
        using assms(1) Cons by (intro by_id_from) (auto simp: by_id_def neq_Nil_conv)
      then show ?thesis using that [of 1] p Cons assms(2) by simp
    qed
  next
    case (Cons e es')
    then have left: "left \<noteq> []" using es by auto
    show ?thesis
    proof (cases zs)
      case (Cons z zs')
      then obtain rest where left_eq: "left = es @ z # rest"
        using zs(1) by (metis append.assoc append_Cons append_take_drop_id)
      then have "?k < length left" "left ! ?k = z" by simp_all
      then have "filter (\<lambda>r. ar_id z \<le> ar_id r) left = drop ?k left"
        using below es by (intro by_id_from [OF assms(1)]) auto
      moreover have "p = \<lparr>lp_rows = es, lp_next = Some (ar_id z), lp_oversized = False\<rparr>"
        using fit assms(3) zs(2) Cons \<open>es = e # es'\<close> by (simp add: page_of_def Let_def)
      moreover have "z \<in> set left" using \<open>left ! ?k = z\<close> \<open>?k < length left\<close> by auto
      moreover have "0 < ?k" using \<open>es = e # es'\<close> by simp
      ultimately show ?thesis
        by (intro that [of ?k]) (simp_all add: es(1) [symmetric] es(2) small, blast)
    next
      case Nil
      then have all: "take limit left = es" using zs by simp
      have p: "p = \<lparr>lp_rows = es, lp_next = (if ?k = limit then Some (ar_id (last es) + 1) else None), lp_oversized = False\<rparr>"
        using fit assms(3) zs(2) Nil \<open>es = e # es'\<close> all by (simp add: page_of_def Let_def)
      have "filter (\<lambda>r. ar_id (last es) + 1 \<le> ar_id r) left = drop ?k left"
      proof (rule by_id_from [OF assms(1) es(3)])
        show "ar_id r < ar_id (last es) + 1" if "r \<in> set (take ?k left)" for r
        proof -
          have "by_id es" using assms(1) es(1) by (metis by_id_def sorted_wrt_take)
          moreover have "r \<in> set es" using that es(1) by simp
          ultimately show ?thesis by (cases es rule: rev_cases) (auto simp: by_id_def sorted_wrt_append)
        qed
        show "ar_id (last es) + 1 \<le> ar_id (left ! ?k)" if "?k < length left"
          using below [OF last_in_set that] Cons by simp
      qed
      moreover have "last es \<in> set left" using Cons es(1) by (metis in_set_takeD last_in_set list.distinct(1))
      moreover have "take ?k left = left" if "?k \<noteq> limit" using all that es by (auto simp: min_def split: if_splits)
      moreover have "0 < ?k" using Cons by simp
      ultimately show ?thesis
        by (intro that [of ?k]) (auto simp: p es(1) [symmetric] es(2) small intro: bexI [of _ "last es"] split: if_splits)
    qed
  qed
qed

lemma clamp_limit_bounds: "1 \<le> clamp_limit n \<and> clamp_limit n \<le> 500"
  by (simp add: clamp_limit_def LIMIT_MIN_def LIMIT_MAX_def nat_le_iff le_nat_iff)

definition page_in_budget :: "(audit_row \<Rightarrow> nat) \<Rightarrow> log_page \<Rightarrow> bool" where
  "page_in_budget size_of p \<longleftrightarrow> length (lp_rows p) \<le> 500 \<and>
     (sum_list (map size_of (lp_rows p)) \<le> EFFECTIVE_BUDGET \<or> lp_oversized p \<and> length (lp_rows p) = 1)"

lemma read_pages_all:
  assumes "by_id rows" "query_accepted q" "length (filter (selected q) rows) < n"
  shows "\<exists>ps. read_pages fr n rows q = Some ps \<and> concat (map lp_rows ps) = filter (selected q) rows \<and>
    list_all (page_in_budget (event_chars fr)) ps"
  using assms
proof (induction fr n rows q rule: read_pages.induct)
  case (2 fr n rows q)
  let ?left = "filter (selected q) rows" and ?limit = "clamp_limit (lq_limit q)"
  define p where "p = page_of (event_chars fr) ?limit (take ?limit ?left)"
  have page: "get_logging fr rows q = Some p"
    using 2(2,3) by (simp add: get_logging_def fetch_rows_def p_def by_id_sort by_id_filter)
  obtain k where k: "lp_rows p = take k ?left" "k \<le> ?limit" "?left \<noteq> [] \<longrightarrow> 0 < k"
    "lp_next p = None \<longrightarrow> take k ?left = ?left"
    "\<forall>n. lp_next p = Some n \<longrightarrow> 0 < k \<and> filter (\<lambda>r. n \<le> ar_id r) ?left = drop k ?left \<and> (\<exists>r \<in> set ?left. ar_id r \<le> n)"
    "sum_list (map (event_chars fr) (lp_rows p)) \<le> EFFECTIVE_BUDGET \<or> (lp_oversized p \<and> length (lp_rows p) = 1)"
    using page_of_front [OF by_id_filter [OF 2(2)] _ p_def] clamp_limit_bounds by metis
  have ok: "page_in_budget (event_chars fr) p"
    using k(1,2,6) clamp_limit_bounds [of "lq_limit q"] by (auto simp: page_in_budget_def)
  show ?case
  proof (cases "lp_next p")
    case None
    with page k ok show ?thesis by simp
  next
    case (Some since)
    with k(5) have k0: "0 < k" and rest: "filter (\<lambda>r. since \<le> ar_id r) ?left = drop k ?left"
      and "\<exists>r \<in> set ?left. ar_id r \<le> since" by auto
    then obtain r where r: "r \<in> set ?left" "ar_id r \<le> since" by blast
    then have le: "lq_since q \<le> since" by (auto simp: selected_def)
    have ne: "?left \<noteq> []" using r(1) by (metis empty_iff list.set(1))
    have "selected (q\<lparr>lq_since := since\<rparr>) r \<longleftrightarrow> selected q r \<and> since \<le> ar_id r" for r
      using le
      by (auto simp: selected_def)
    then have "filter (selected (q\<lparr>lq_since := since\<rparr>)) rows = filter (\<lambda>r. since \<le> ar_id r) ?left"
      unfolding filter_filter by (intro filter_cong refl) blast
    with rest have left': "filter (selected (q\<lparr>lq_since := since\<rparr>)) rows = drop k ?left" by (rule trans [rotated])
    have "query_accepted (q\<lparr>lq_since := since\<rparr>)" using 2(3) le by (auto simp: query_accepted_def)
    moreover have "length (filter (selected (q\<lparr>lq_since := since\<rparr>)) rows) < n"
    proof -
      have "0 < length ?left" by (rule length_greater_0_conv [THEN iffD2, OF ne])
      then have "length (drop k ?left) < length ?left" using k0 by (simp only: length_drop diff_less)
      with 2(4) show ?thesis unfolding left' by linarith
    qed
    ultimately obtain ps where "read_pages fr n rows (q\<lparr>lq_since := since\<rparr>) = Some ps"
      "concat (map lp_rows ps) = drop k ?left" "list_all (page_in_budget (event_chars fr)) ps"
      using 2(1) [OF page Some 2(2)] unfolding left' by blast
    with page Some k(1) ok show ?thesis by simp
  qed
qed simp

text \<open>
  C34: A client that asks for pages and follows the cursor gets every event its filters select,
  once and in the order of the table, after at most one request more than there are events;
  and no page has more than 500 events or more characters than the budget, unless it is a
  single event that is larger.
\<close>

theorem pagination_is_complete:
  assumes "by_id rows" "query_accepted q"
  shows "\<exists>ps. read_pages fr (Suc (length (filter (selected q) rows))) rows q = Some ps \<and>
    concat (map lp_rows ps) = filter (selected q) rows \<and> list_all (page_in_budget (event_chars fr)) ps"
  by (rule read_pages_all [OF assms lessI])

definition example_audit :: "audit_row list" where
  "example_audit =
     [\<lparr>ar_id = 1, ar_slot = Some ''s1'', ar_type = ''submit'', ar_payload = Some ''{}'', ar_at = ''t1''\<rparr>,
      \<lparr>ar_id = 2, ar_slot = None, ar_type = ''boot_reconcile'', ar_payload = None, ar_at = ''t2''\<rparr>,
      \<lparr>ar_id = 5, ar_slot = Some ''s1'', ar_type = ''teardown'', ar_payload = Some ''[1]'', ar_at = ''t3''\<rparr>]"

definition all_events :: log_query where
  "all_events = \<lparr>lq_since = 0, lq_slot = None, lq_type = None, lq_limit = 1\<rparr>"

theorem pagination_is_complete_witness:
  "\<exists>ps. read_pages (\<lambda>_. ''nan'') (Suc (length (filter (selected all_events) example_audit))) example_audit all_events = Some ps \<and>
     concat (map lp_rows ps) = filter (selected all_events) example_audit \<and>
     list_all (page_in_budget (event_chars (\<lambda>_. ''nan''))) ps"
  by (rule pagination_is_complete) (simp_all add: by_id_def example_audit_def query_accepted_def all_events_def)

subsection \<open>Redaction\<close>

text \<open>No redacted key down to the given depth.\<close>

fun scrubbed :: "nat \<Rightarrow> pyval \<Rightarrow> bool" where
  "scrubbed 0 v = True"
| "scrubbed (Suc n) v =
     (case v of
        PyDict kvs \<Rightarrow> list_all (\<lambda>kv. fst kv \<notin> set REDACTED_KEYS \<and> scrubbed n (snd kv)) kvs
      | PyList vs \<Rightarrow> list_all (scrubbed n) vs
      | _ \<Rightarrow> True)"

lemma redact_scrubs: "scrubbed (Suc REDACT_DEPTH_CAP - d) (redact d v)"
proof (induction d v rule: redact.induct)
  case (1 d v)
  show ?case
  proof (cases "REDACT_DEPTH_CAP < d")
    case False
    then have "Suc REDACT_DEPTH_CAP - d = Suc (Suc REDACT_DEPTH_CAP - Suc d)" by simp
    then show ?thesis
      using 1 False by (subst redact.simps) (auto simp: list_all_iff split: pyval.splits)
  qed simp
qed

lemma payload_scrubbed:
  "\<exists>v. row_to_event r = PyDict
     [(''event_id'', PyInt (ar_id r)), (''slot_id'', case ar_slot r of None \<Rightarrow> PyNone | Some s \<Rightarrow> PyStr s),
      (''event_type'', PyStr (ar_type r)), (''payload'', v), (''occurred_at'', PyStr (ar_at r))] \<and> scrubbed 11 v"
  using redact_scrubs [of 0 "PyDict (decode_payload (ar_payload r))"]
  by (auto simp: row_to_event_def REDACT_DEPTH_CAP_def numeral_eq_Suc)

text \<open>Below the cap nothing is scrubbed, and the bus only looks at the top level.\<close>

fun nested :: "nat \<Rightarrow> pyval \<Rightarrow> pyval" where
  "nested 0 v = v"
| "nested (Suc n) v = PyList [nested n v]"

lemma deep_key_survives: "redact 0 (nested 11 (PyDict [(''prompt'', v)])) = nested 11 (PyDict [(''prompt'', v)])"
  by (simp add: redact.simps REDACT_DEPTH_CAP_def numeral_eq_Suc)

lemma bus_keeps_nested: "safe_event [(''detail'', PyDict [(''prompt'', v)])] = [(''detail'', PyDict [(''prompt'', v)])]"
  by (simp add: safe_event_def REDACTED_KEYS_def)

definition published :: "dict list \<Rightarrow> event_bus \<Rightarrow> event_bus" where
  "published evs bus = fold publish_nowait evs bus"


end
