(* ===== verification/Status.thy ===== *)
theory Status
  imports RegistryRuns LiveSlots Subprocess
begin

text \<open>
  What \<open>/status\<close> shows (\<open>status_snapshot\<close> and \<open>_residents_snapshot\<close> of \<open>manager.py\<close>), and
  the setters that keep the manager's own scalars and their mirror on the singleton resident
  in step. A snapshot is the dictionary the route returns; the readings of
  \<open>time.monotonic()\<close> within one call are taken as one. A generation block is the record of
  the metrics plane with the time stamp it was made at.
\<close>

subsection \<open>The manager's scalars and their mirror\<close>

record scalars =
  sc_active_handle :: "handle option"
  sc_active_slot :: "slot option"
  sc_idle_handle :: "handle option"
  sc_idle_tag :: "string option"
  sc_idle_expires :: "time option"
  sc_keep_alive :: "int option"
  sc_spawn_seq :: nat

type_synonym mirrored = "scalars \<times> scalars option"

definition set_both :: "(scalars \<Rightarrow> scalars) \<Rightarrow> mirrored \<Rightarrow> mirrored" where
  "set_both f s = (case s of (g, r) \<Rightarrow> (f g, map_option f r))"

definition set_active_handle :: "handle option \<Rightarrow> mirrored \<Rightarrow> mirrored" where
  "set_active_handle h = set_both (sc_active_handle_update (\<lambda>_. h))"

definition set_active_slot :: "slot option \<Rightarrow> mirrored \<Rightarrow> mirrored" where
  "set_active_slot sl = set_both (sc_active_slot_update (\<lambda>_. sl))"

definition set_idle_expires_at :: "time option \<Rightarrow> mirrored \<Rightarrow> mirrored" where
  "set_idle_expires_at t = set_both (sc_idle_expires_update (\<lambda>_. t))"

definition set_idle_holder :: "handle option \<Rightarrow> string option \<Rightarrow> time option \<Rightarrow> mirrored \<Rightarrow> mirrored" where
  "set_idle_holder h tag t = set_both (\<lambda>s. s\<lparr>sc_idle_handle := h, sc_idle_tag := tag, sc_idle_expires := t\<rparr>)"

definition clear_idle_holder :: "mirrored \<Rightarrow> mirrored" where
  "clear_idle_holder = set_idle_holder None None None"

definition set_latest_keep_alive :: "int option \<Rightarrow> mirrored \<Rightarrow> mirrored" where
  "set_latest_keep_alive v = set_both (sc_keep_alive_update (\<lambda>_. v))"

definition bump_spawn_seq :: "mirrored \<Rightarrow> mirrored" where
  "bump_spawn_seq s =
     (case s of (g, r) \<Rightarrow>
        (let n = Suc (sc_spawn_seq g) in (g\<lparr>sc_spawn_seq := n\<rparr>, map_option (sc_spawn_seq_update (\<lambda>_. n)) r)))"

definition active_spawn_seq :: "mirrored \<Rightarrow> nat" where
  "active_spawn_seq s = (case s of (g, r) \<Rightarrow> (case r of Some x \<Rightarrow> sc_spawn_seq x | None \<Rightarrow> sc_spawn_seq g))"

definition spawn_seq_for_model :: "mgr \<Rightarrow> mirrored \<Rightarrow> string \<Rightarrow> nat" where
  "spawn_seq_for_model m s tag =
     (case live_resident_for m tag of Some rid \<Rightarrow> r_spawn_seq (res m rid) | None \<Rightarrow> active_spawn_seq s)"

subsection \<open>Generation blocks\<close>

type_synonym stamped = "string \<times> generation"
type_synonym dict = "(string \<times> pyval) list"

fun gen_state_name :: "gen_state \<Rightarrow> string" where
  "gen_state_name GIdle = ''idle''"
| "gen_state_name GTransitioning = ''transitioning''"
| "gen_state_name GLoading = ''loading''"
| "gen_state_name GPrefill = ''prefill''"
| "gen_state_name GGenerating = ''generating''"
| "gen_state_name GStalled = ''stalled''"
| "gen_state_name GFinishing = ''finishing''"

definition float_of :: "rat \<Rightarrow> pyval" where
  "float_of x = PyFloat (Finite x)"

definition or_none :: "('a \<Rightarrow> pyval) \<Rightarrow> 'a option \<Rightarrow> pyval" where
  "or_none f x = (case x of None \<Rightarrow> PyNone | Some v \<Rightarrow> f v)"

definition generation_dict :: "stamped \<Rightarrow> dict" where
  "generation_dict sg =
     (case sg of (stamp, g) \<Rightarrow>
       [(''state'', PyStr (gen_state_name (gn_state g))), (''tok_s'', or_none float_of (gn_tok_s g)),
        (''tok_s_instant'', float_of (gn_tok_s_instant g)), (''n_decoded'', PyInt (gn_n_decoded g)),
        (''max_tokens'', or_none PyInt (gn_max_tokens g)), (''n_remain'', or_none PyInt (gn_n_remain g)),
        (''n_prompt_tokens'', PyInt (gn_n_prompt_tokens g)), (''n_ctx'', or_none PyInt (gn_n_ctx g)),
        (''prompt_progress'', or_none float_of (gn_prompt_progress g)), (''pct'', or_none float_of (gn_pct g)),
        (''eta_s'', or_none float_of (gn_eta_s g)), (''stalled'', PyBool (gn_stalled g)),
        (''streaming'', PyBool (gn_streaming g)), (''generation_id'', or_none PyStr (gn_id g)),
        (''riders'', PyInt (int (gn_riders g))), (''measured_at_iso'', PyStr stamp)])"

definition idle_generation :: "string \<Rightarrow> stamped" where
  "idle_generation stamp = (stamp, base_generation GIdle None)"

subsection \<open>The snapshot\<close>

record manager_state =
  ms_queue :: tq
  ms_scalars :: scalars
  ms_inflight :: "slot list"
  ms_grace :: grace_timer
  ms_idle :: idle_timer
  ms_max_sidecars :: int
  ms_evictions :: nat
  ms_last_evicted :: "string option"
  ms_last_sweep :: "string option"
  ms_finalized :: nat
  ms_live :: "stamped option"
  ms_live_generations :: "(string \<times> stamped) list"
  ms_residents :: "(string \<times> resident) list"
  ms_vram_free :: "int list option"
  ms_vram_total :: "int list option"

definition prefix8 :: "string \<Rightarrow> string" where
  "prefix8 s = take 8 s"

definition active_info :: "manager_state \<Rightarrow> dict option" where
  "active_info s =
     (case (sc_active_slot (ms_scalars s), sc_active_handle (ms_scalars s)) of
        (Some sl, Some h) \<Rightarrow>
          (if state_value (sl_state sl) = ''ACTIVE'' \<or> state_value (sl_state sl) = ''ACTIVE_MATCH'' then
             Some [(''slot_id'', PyStr (sl_id sl)), (''model_tag'', PyStr (sl_model_tag sl)),
                   (''state'', PyStr (state_value (sl_state sl))),
                   (''thread_id_prefix'', PyStr (prefix8 (sl_thread_id sl))),
                   (''pid'', PyInt (h_pid h)), (''port'', PyInt (h_port h))]
           else None)
      | _ \<Rightarrow> None)"

text \<open>
  The two attributes \<open>elapsed_s\<close> is computed from, \<open>started_loading_at\<close> and
  \<open>received_at\<close>, are no fields of \<open>Slot\<close> and are set nowhere: \<open>getattr\<close> finds neither.
\<close>

definition loading_started :: "slot \<Rightarrow> time option" where
  "loading_started sl = None"

definition loading_info :: "time \<Rightarrow> manager_state \<Rightarrow> dict option" where
  "loading_info now s =
     (case sc_active_slot (ms_scalars s) of
        None \<Rightarrow> None
      | Some sl \<Rightarrow>
          (if state_value (sl_state sl) \<in> {''STAGED'', ''PRE_LOADING'', ''LOADING'', ''READY''} then
             (let elapsed = (case loading_started sl of None \<Rightarrow> 0 | Some t \<Rightarrow> max 0 (now - t)) in
              Some [(''slot_id'', PyStr (sl_id sl)), (''model_tag'', PyStr (sl_model_tag sl)),
                    (''state'', PyStr (state_value (sl_state sl))),
                    (''thread_id_prefix'', PyStr (prefix8 (sl_thread_id sl))),
                    (''elapsed_s'', float_of (py_round 1 elapsed)),
                    (''pid'', or_none (\<lambda>h. PyInt (h_pid h)) (sc_active_handle (ms_scalars s))),
                    (''port'', or_none (\<lambda>h. PyInt (h_port h)) (sc_active_handle (ms_scalars s)))])
           else None))"

definition grace_info :: "time \<Rightarrow> manager_state \<Rightarrow> dict option" where
  "grace_info now s =
     (let g = ms_grace s in
      if grace_expired g now then None
      else Some [(''remaining_s'', PyInt (trunc_rat (grace_remaining g now))),
                 (''extension_count'', PyInt (int (g_extension_count g))),
                 (''max_extensions'', PyInt (int (g_max_extensions g))),
                 (''thread_id_prefix'', PyStr (case g_thread_id g of None \<Rightarrow> [] | Some t \<Rightarrow> prefix8 t)),
                 (''model_tag'', or_none PyStr (g_model_tag g))])"

definition idle_info :: "time \<Rightarrow> manager_state \<Rightarrow> dict option" where
  "idle_info now s =
     (let by_timer = (if idle_expired (ms_idle s) now then None
                      else Some [(''remaining_s'', PyInt (trunc_rat (idle_remaining (ms_idle s) now))),
                                 (''model_tag'', or_none PyStr (i_model_tag (ms_idle s)))])
      in case (sc_idle_handle (ms_scalars s), sc_idle_expires (ms_scalars s)) of
           (Some h, Some t) \<Rightarrow>
             (if now < t then Some [(''remaining_s'', PyInt (trunc_rat (t - now))),
                                    (''model_tag'', or_none PyStr (sc_idle_tag (ms_scalars s)))]
              else by_timer)
         | _ \<Rightarrow> by_timer)"

fun resident_state_name :: "resident_state \<Rightarrow> string" where
  "resident_state_name ReservedLoading = ''RESERVED_LOADING''"
| "resident_state_name RActive = ''ACTIVE''"
| "resident_state_name RGrace = ''GRACE''"
| "resident_state_name IdleEvictable = ''IDLE_EVICTABLE''"
| "resident_state_name Dead = ''DEAD''"

definition resident_dict :: "time \<Rightarrow> (string \<times> stamped) list \<Rightarrow> resident \<Rightarrow> dict" where
  "resident_dict now gens r =
     [(''model_tag'', PyStr (r_tag r)), (''state'', PyStr (resident_state_name (r_state r))),
      (''port'', or_none PyInt (r_port r)),
      (''pid'', or_none PyInt (if r_handle r \<noteq> None then r_handle r else r_booting r)),
      (''spawn_seq'', PyInt (int (r_spawn_seq r))), (''reserved_need_mib'', PyInt (r_need r)),
      (''parallel'', PyInt (r_parallel r)), (''main_gpu'', PyInt (r_main_gpu r)),
      (''split_mode'', PyStr (r_split r)), (''inflight'', PyInt (int (length (r_inflight r)))),
      (''idle_expires_in_s'',
         case r_idle_expires r of
           Some t \<Rightarrow> if r_state r = IdleEvictable then PyInt (max 0 (trunc_rat (t - now))) else PyNone
         | None \<Rightarrow> PyNone),
      (''generation'', or_none (\<lambda>g. PyDict (generation_dict g)) (map_of gens (r_tag r)))]"

definition residents_snapshot :: "time \<Rightarrow> manager_state \<Rightarrow> dict list" where
  "residents_snapshot now s =
     map (\<lambda>(k, r). resident_dict now (ms_live_generations s) r)
       (filter (\<lambda>(k, r). k \<noteq> SINGLETON \<and> r_state r \<noteq> Dead) (ms_residents s))"

definition slots_max :: "manager_state \<Rightarrow> int" where
  "slots_max s =
     (case sc_active_handle (ms_scalars s) of
        Some h \<Rightarrow> if h_parallel h \<noteq> 0 then h_parallel h else ms_max_sidecars s
      | None \<Rightarrow> ms_max_sidecars s)"

definition slots_used :: "manager_state \<Rightarrow> nat" where
  "slots_used s =
     (if ms_inflight s \<noteq> [] then length (ms_inflight s)
      else if sc_active_handle (ms_scalars s) \<noteq> None then 1 else 0)"

definition status_snapshot :: "time \<Rightarrow> string \<Rightarrow> manager_state \<Rightarrow> dict" where
  "status_snapshot now stamp s =
     [(''queue'', PyDict [(''acceptance_buffer_depth'', PyInt (int (acceptance_buffer_depth (depth (ms_queue s))))),
         (''staging_queue_depth'', PyInt (int (staging_queue_depth (depth (ms_queue s))))),
         (''staging_queue_max'', PyInt (int (staging_queue_max (depth (ms_queue s)))))]),
      (''active'', or_none PyDict (active_info s)), (''loading'', or_none PyDict (loading_info now s)),
      (''grace'', or_none PyDict (grace_info now s)), (''idle_hot'', or_none PyDict (idle_info now s)),
      (''evictions'', PyDict [(''total_lifetime'', PyInt (int (ms_evictions s))),
         (''last_evicted_at'', or_none PyStr (ms_last_evicted s))]),
      (''background_sweeper'', PyDict [(''last_sweep_iso'', or_none PyStr (ms_last_sweep s)),
         (''slots_finalized_lifetime'', PyInt (int (ms_finalized s)))]),
      (''parallel_slots'', PyDict [(''used'', PyInt (int (slots_used s))), (''max'', PyInt (slots_max s))]),
      (''generation'', PyDict (generation_dict (case ms_live s of Some g \<Rightarrow> g | None \<Rightarrow> idle_generation stamp))),
      (''residents'', PyList (map PyDict (residents_snapshot now s))),
      (''vram'', or_none (\<lambda>xs. PyList (map PyInt xs)) (ms_vram_free s)),
      (''vram_total_mib'', or_none (\<lambda>xs. PyList (map PyInt xs)) (ms_vram_total s))]"

subsection \<open>What holds of it\<close>

text \<open>Every setter keeps the mirror in step with the manager's own scalars.\<close>

definition in_mirror :: "mirrored \<Rightarrow> bool" where
  "in_mirror s \<longleftrightarrow> snd s = Some (fst s)"

lemmas setter_defs = set_active_handle_def set_active_slot_def set_idle_expires_at_def set_idle_holder_def
  clear_idle_holder_def set_latest_keep_alive_def bump_spawn_seq_def set_both_def Let_def

lemma setters_keep_mirror:
  assumes "in_mirror s"
  shows "in_mirror (set_active_handle h s)" "in_mirror (set_active_slot sl s)" "in_mirror (set_idle_holder h tag t s)"
    "in_mirror (clear_idle_holder s)" "in_mirror (set_idle_expires_at t s)" "in_mirror (set_latest_keep_alive v s)"
    "in_mirror (bump_spawn_seq s)" "active_spawn_seq s = sc_spawn_seq (fst s)"
  using assms by (auto simp: in_mirror_def setter_defs active_spawn_seq_def split: prod.splits)

text \<open>
  What \<open>/status\<close> must not show: prompts, client metadata and all of a thread id but its first
  eight characters, wherever the manager holds a request.
\<close>

definition hide_slot :: "slot \<Rightarrow> slot" where
  "hide_slot sl = sl\<lparr>sl_prompt := [], sl_thread_id := prefix8 (sl_thread_id sl), sl_client_meta := []\<rparr>"

definition hide_resident :: "resident \<Rightarrow> resident" where
  "hide_resident r =
     r\<lparr>r_inflight := map hide_slot (r_inflight r), r_active := map_option hide_slot (r_active r),
       r_inbox := map_option (map hide_slot) (r_inbox r)\<rparr>"

definition hide_secrets :: "manager_state \<Rightarrow> manager_state" where
  "hide_secrets s =
     s\<lparr>ms_queue := (ms_queue s)\<lparr>staging := map hide_slot (staging (ms_queue s)),
                                 accept_buf := map hide_slot (accept_buf (ms_queue s))\<rparr>,
       ms_scalars := (ms_scalars s)\<lparr>sc_active_slot := map_option hide_slot (sc_active_slot (ms_scalars s))\<rparr>,
       ms_inflight := map hide_slot (ms_inflight s),
       ms_grace := (ms_grace s)\<lparr>g_thread_id := map_option prefix8 (g_thread_id (ms_grace s))\<rparr>,
       ms_residents := map (map_prod id hide_resident) (ms_residents s)\<rparr>"

lemma prefix8_prefix8 [simp]: "prefix8 (prefix8 s) = prefix8 s"
  by (simp add: prefix8_def)

lemma hide_slot_fields [simp]:
  "sl_id (hide_slot sl) = sl_id sl" "sl_model_tag (hide_slot sl) = sl_model_tag sl"
  "sl_state (hide_slot sl) = sl_state sl" "sl_thread_id (hide_slot sl) = prefix8 (sl_thread_id sl)"
  by (simp_all add: hide_slot_def)

lemma resident_dict_hide [simp]: "resident_dict now gens (hide_resident r) = resident_dict now gens r"
  by (simp add: resident_dict_def hide_resident_def split: option.split)

lemma residents_snapshot_hide: "residents_snapshot now (hide_secrets s) = residents_snapshot now s"
proof -
  have "r_state (hide_resident r) = r_state r" for r by (simp add: hide_resident_def)
  then show ?thesis
    by (simp add: residents_snapshot_def hide_secrets_def filter_map comp_def case_prod_unfold)
qed

lemma info_hide:
  "active_info (hide_secrets s) = active_info s" "loading_info now (hide_secrets s) = loading_info now s"
  "grace_info now (hide_secrets s) = grace_info now s" "idle_info now (hide_secrets s) = idle_info now s"
  by (simp_all add: active_info_def loading_info_def grace_info_def idle_info_def hide_secrets_def loading_started_def
      grace_expired_def grace_remaining_def Let_def split: option.splits)

text \<open>
  C32: Redaction. The status snapshot is a function of the state without its secrets: prompts,
  client metadata and thread ids beyond their first eight characters, of the active request, the
  queued ones, the riders and those of every resident, have no influence on a single field of it.
\<close>

theorem status_reveals_prefixes_only:
  "status_snapshot now stamp (hide_secrets s) = status_snapshot now stamp s"
proof -
  have "depth (ms_queue (hide_secrets s)) = depth (ms_queue s)" "slots_used (hide_secrets s) = slots_used s"
    "slots_max (hide_secrets s) = slots_max s"
    by (simp_all add: hide_secrets_def depth_def slots_used_def slots_max_def split: option.split)
  moreover have "ms_evictions (hide_secrets s) = ms_evictions s" "ms_last_evicted (hide_secrets s) = ms_last_evicted s"
    "ms_last_sweep (hide_secrets s) = ms_last_sweep s" "ms_finalized (hide_secrets s) = ms_finalized s"
    "ms_live (hide_secrets s) = ms_live s" "ms_vram_free (hide_secrets s) = ms_vram_free s"
    "ms_vram_total (hide_secrets s) = ms_vram_total s" by (simp_all add: hide_secrets_def)
  ultimately show ?thesis by (simp only: status_snapshot_def info_hide residents_snapshot_hide)
qed

text \<open>Active and loading exclude each other, and the age of a load is always zero.\<close>

lemma active_excludes_loading: "active_info s = None \<or> loading_info now s = None"
  by (cases "sc_active_slot (ms_scalars s)") (auto simp: active_info_def loading_info_def split: option.splits)

lemma loading_age_is_zero: "loading_info now s = Some d \<Longrightarrow> dict_get d ''elapsed_s'' = Some (float_of 0)"
  by (auto simp: loading_info_def loading_started_def dict_get_def py_round_def round_half_even_def
      split: option.splits if_splits)

text \<open>The registry's part of the state, as \<open>/status\<close> reads it.\<close>

definition reads_registry :: "manager_state \<Rightarrow> mgr \<Rightarrow> bool" where
  "reads_registry s m \<longleftrightarrow> ms_residents s = map (\<lambda>(k, rid). (k, res m rid)) (m_dict m)"

lemma snapshot_of_registry:
  assumes "reads_registry s m"
  shows "residents_snapshot now s = map (\<lambda>rid. resident_dict now (ms_live_generations s) (res m rid)) (model_residents m)"
  using assms by (simp add: reads_registry_def residents_snapshot_def model_residents_def filter_map comp_def case_prod_unfold)

text \<open>
  What the operator sees of several residents is within bounds. In every reachable state of
  the registry \<open>/status\<close> lists at most \<open>max_parallel_sidecars\<close> residents, each with a port of
  its own in the window that starts at the configured base.
\<close>

theorem status_residents_bounded:
  assumes "mreach (init_mgr q cap port_base idle_default) m" "cap \<le> 99" "reads_registry s m"
  shows "\<exists>ports. map (\<lambda>d. dict_get d ''port'') (residents_snapshot now s) = map (\<lambda>p. Some (PyInt p)) ports \<and>
    length ports \<le> cap \<and> distinct ports \<and> set ports \<subseteq> {port_base ..< port_base + 100}"
proof -
  have s: "safe m" using reach_safe [OF assms(1) init_safe [OF assms(2)]] .
  have "m_cap m = cap" "m_port_base m = port_base" using reach_static [OF assms(1)] by (simp_all add: init_mgr_def)
  with s have len: "length (model_residents m) \<le> cap" and dis: "distinct (model_residents m)"
    and port: "\<forall>a \<in> set (model_residents m). \<exists>p. r_port (res m a) = Some p \<and> port_base \<le> p \<and> p < port_base + 100"
    and apart: "\<forall>a \<in> set (model_residents m). \<forall>b \<in> set (model_residents m). a \<noteq> b \<longrightarrow> r_port (res m a) \<noteq> r_port (res m b)"
    unfolding model_residents_eq [OF s] by (simp_all add: safe_def in_window_def apart_def)
  define ports where "ports = map (\<lambda>a. the (r_port (res m a))) (model_residents m)"
  have "inj_on (\<lambda>a. the (r_port (res m a))) (set (model_residents m))"
  proof (rule inj_onI)
    fix a b assume ab: "a \<in> set (model_residents m)" "b \<in> set (model_residents m)"
      "the (r_port (res m a)) = the (r_port (res m b))"
    with port obtain p where "r_port (res m a) = Some p" "r_port (res m b) = Some p" by fastforce
    with apart ab show "a = b" by metis
  qed
  with dis have "distinct ports" by (simp add: ports_def distinct_map)
  moreover have "set ports \<subseteq> {port_base ..< port_base + 100}" using port by (fastforce simp: ports_def)
  moreover have "dict_get (resident_dict now gens (res m a)) ''port'' = Some (PyInt (the (r_port (res m a))))"
    if "a \<in> set (model_residents m)" for a gens
    using bspec [OF port that] by (auto simp: resident_dict_def dict_get_def or_none_def)
  then have "map (\<lambda>d. dict_get d ''port'') (residents_snapshot now s) = map (\<lambda>p. Some (PyInt p)) ports"
    by (simp add: snapshot_of_registry [OF assms(3)] ports_def)
  ultimately show ?thesis using len by (intro exI [of _ ports]) (simp add: ports_def)
qed

definition shown_state :: "mgr \<Rightarrow> manager_state" where
  "shown_state m =
     \<lparr>ms_queue = m_queue m,
      ms_scalars = \<lparr>sc_active_handle = None, sc_active_slot = None, sc_idle_handle = None, sc_idle_tag = None,
        sc_idle_expires = None, sc_keep_alive = None, sc_spawn_seq = 0\<rparr>,
      ms_inflight = [], ms_grace = new_grace 30 5, ms_idle = new_idle 60, ms_max_sidecars = int (m_cap m),
      ms_evictions = m_evictions m, ms_last_evicted = None, ms_last_sweep = None, ms_finalized = 0,
      ms_live = None, ms_live_generations = [], ms_residents = map (\<lambda>(k, rid). (k, res m rid)) (m_dict m),
      ms_vram_free = None, ms_vram_total = None\<rparr>"

theorem status_residents_bounded_witness:
  "\<exists>m ports. fires busy_run two_places = Some m \<and> length (residents_snapshot 9 (shown_state m)) = 2 \<and>
     map (\<lambda>d. dict_get d ''port'') (residents_snapshot 9 (shown_state m)) = map (\<lambda>p. Some (PyInt p)) ports \<and>
     distinct ports \<and> set ports \<subseteq> {8000 ..< 8100}"
proof -
  obtain m where m: "fires busy_run two_places = Some m" and r: "model_residents m = [1, 2]"
    using busy_run_residents by (auto simp: map_option_eq_Some)
  have c: "(2::nat) \<le> 99" by simp
  have reads: "reads_registry (shown_state m) m" by (simp add: reads_registry_def shown_state_def)
  then have "length (residents_snapshot 9 (shown_state m)) = 2" by (simp add: snapshot_of_registry r)
  with m status_residents_bounded [OF run_reach [OF m] c reads, of 9] show ?thesis by auto
qed

end
