(* ===== verification/Routes.thy ===== *)
theory Routes
  imports WorkerRuns ChatReply Pulls
begin

text \<open>
  The request routes from end to end: the disconnect watcher, the two chat handlers of
  \<open>api/chat_completion.py\<close> over the checks of \<open>ChatRequest\<close> and the reply shaping of
  \<open>ChatReply\<close>, \<open>api/embeddings.py\<close>, \<open>api/ollama.py\<close>, and the static files of \<open>api/main.py\<close>.
  What the manager answers to a submission is an argument, and so is the exchange with the
  sidecar.
\<close>

subsection \<open>The disconnect watcher\<close>

datatype disconnect_poll = StillThere | ClientGone | PollError

text \<open>
  The polls made until the task returns or is cancelled (the list ends), and whether the event
  is set then.
\<close>

fun watch_disconnect :: "bool \<Rightarrow> disconnect_poll list \<Rightarrow> bool \<times> nat" where
  "watch_disconnect True ps = (True, 0)"
| "watch_disconnect False [] = (False, 0)"
| "watch_disconnect False (p # ps) =
     (if p = ClientGone then (True, 1)
      else case watch_disconnect False ps of (gone, n) \<Rightarrow> (gone, Suc n))"

subsection \<open>Submitting\<close>

text \<open>What becomes of an accepted request: its future, or the two hours \<open>submit_and_wait\<close> waits.\<close>

datatype completion = Completed "sidecar_error + pyval option" | WaitedOut

definition refusal :: "queue_error \<Rightarrow> sidecar_error" where
  "refusal e =
     (case e of QueueHop _ \<Rightarrow> Raised ValueError
      | QueueFull n \<Rightarrow> RuntimeFailure (''acceptance buffer at max '' @ show_int (int n)) | QueueClosed \<Rightarrow> RuntimeFailure ''queue closed'')"

definition submit_and_wait :: "queue_error + completion \<Rightarrow> sidecar_error + pyval option" where
  "submit_and_wait q =
     (case q of
        Inl e \<Rightarrow> Inl (refusal e)
      | Inr (Completed r) \<Rightarrow> r
      | Inr WaitedOut \<Rightarrow> Inl (Raised TimeoutError))"

record submission =
  su_model :: pyval
  su_prompt :: string
  su_thread :: pyval
  su_meta :: "(string \<times> pyval) list"

definition submission_of :: "chat_request \<Rightarrow> (string \<times> pyval) list \<Rightarrow> submission" where
  "submission_of r meta = \<lparr>su_model = cr_model r, su_prompt = cr_prompt r, su_thread = cr_thread r, su_meta = meta\<rparr>"

subsection \<open>The chat handlers\<close>

datatype chat_answer = Answer "http_error + pyval" | EventStream

text \<open>The submission a handler makes, if it gets that far, and its answer.\<close>

definition openai_chat_completions_stream ::
    "chat_request \<Rightarrow> queue_error + completion \<Rightarrow> submission option \<times> chat_answer" where
  "openai_chat_completions_stream r q =
     (case openai_stream_meta r of
        Inl e \<Rightarrow> (None, Answer (Inl (Unhandled e)))
      | Inr meta \<Rightarrow>
          (Some (submission_of r meta),
           case q of Inl e \<Rightarrow> Answer (Inl (route_error (refusal e))) | Inr _ \<Rightarrow> EventStream))"

definition openai_chat_completions ::
    "chat_env \<Rightarrow> (string \<times> pyval) list \<Rightarrow> queue_error + completion \<Rightarrow> submission option \<times> chat_answer" where
  "openai_chat_completions env payload q =
     (case base_request env payload of
        Inl e \<Rightarrow> (None, Answer (Inl e))
      | Inr r \<Rightarrow>
          if truthy (get_or_none (cr_payload r) ''stream'') then openai_chat_completions_stream r q
          else case openai_meta env r of
            Inl e \<Rightarrow> (None, Answer (Inl (Unhandled e)))
          | Inr meta \<Rightarrow> (Some (submission_of r meta), Answer (openai_route (submit_and_wait q))))"

text \<open>
  The end of \<open>ollama_chat\<close>: the membership tests and lookups on a result that is no dictionary
  raise, or pass it through. Any lookup error of the shaping stands as an attribute error.
\<close>

definition ollama_result :: "(int \<Rightarrow> string) \<Rightarrow> pyval \<Rightarrow> string \<Rightarrow> pyval \<Rightarrow> http_error + pyval" where
  "ollama_result iso8601 model thread result =
     (case result of
        PyDict d \<Rightarrow> (case ollama_shape iso8601 model thread d of Some v \<Rightarrow> Inr v | None \<Rightarrow> Inl (Unhandled AttributeError))
      | PyStr s \<Rightarrow> if contains ''choices'' s then Inl (Unhandled TypeError) else Inr result
      | PyList vs \<Rightarrow> if PyStr ''choices'' \<in> set vs then Inl (Unhandled TypeError) else Inr result
      | _ \<Rightarrow> Inl (Unhandled TypeError))"

definition ollama_chat ::
    "chat_env \<Rightarrow> (int \<Rightarrow> string) \<Rightarrow> (string \<times> pyval) list \<Rightarrow> string \<Rightarrow> queue_error + completion
     \<Rightarrow> submission option \<times> (http_error + pyval)" where
  "ollama_chat env iso8601 payload thread q =
     (case base_request env payload of
        Inl e \<Rightarrow> (None, Inl e)
      | Inr r \<Rightarrow>
          (case ollama_meta env r of
             Inl e \<Rightarrow> (None, Inl e)
           | Inr meta \<Rightarrow>
               (Some (submission_of r meta),
                rbind (openai_route (submit_and_wait q)) (ollama_result iso8601 (cr_model r) thread))))"

text \<open>The frame an error takes inside a stream.\<close>

definition stream_error_frame :: "(pyfloat \<Rightarrow> string) \<Rightarrow> string \<Rightarrow> string \<Rightarrow> (string \<times> pyval) list \<Rightarrow> string" where
  "stream_error_frame fr error message extra =
     ''data: '' @ dumps fr (PyDict [(''error'', PyDict (set_all extra
        [(''type'', PyStr error), (''message'', PyStr (take 500 message))]))]) @ [newline, newline]"

subsection \<open>Embeddings\<close>

definition MAX_REQUEST_BYTES :: int where "MAX_REQUEST_BYTES = 32768 * 64"
definition BATCH_CAP :: nat where "BATCH_CAP = 64"

text \<open>\<open>_content_length_gate\<close>: the status it refuses with.\<close>

definition content_length_gate :: "string option \<Rightarrow> nat option" where
  "content_length_gate header =
     (case header of
        None \<Rightarrow> None
      | Some t \<Rightarrow>
          (case py_int t of None \<Rightarrow> Some 400 | Some n \<Rightarrow> if MAX_REQUEST_BYTES < n then Some 413 else None))"

datatype embed_input = OneText string | Texts "string list"

record embed_request =
  em_model :: string
  em_input :: embed_input
  em_encoding :: "string option"
  em_dimensions :: "int option"

fun texts_of :: "embed_input \<Rightarrow> string list" where
  "texts_of (OneText t) = [t]"
| "texts_of (Texts ts) = ts"

fun input_json :: "embed_input \<Rightarrow> pyval" where
  "input_json (OneText t) = PyStr t"
| "input_json (Texts ts) = PyList (map PyStr ts)"

datatype embed_post = PostReply nat "pyval option" | PostTimeout | PostTransport | PostOther

text \<open>
  What happens to an accepted request: whether the slot gets ready in time, the port of the
  handle it then carries, and the sidecar's answer.
\<close>

record embed_course =
  ec_ready :: bool
  ec_port :: "int option"
  ec_post :: embed_post

datatype embed_answer = Embeddings pyval | Refuse nat "nat option" | ServerError

definition embed_preflight :: "codec \<Rightarrow> dir \<Rightarrow> embed_request \<Rightarrow> embed_answer option" where
  "embed_preflight c d r =
     (if map_option lower (em_encoding r) = Some ''base64'' then Some (Refuse 400 None)
      else if em_dimensions r \<noteq> None then Some (Refuse 400 None)
      else if BATCH_CAP < length (texts_of (em_input r)) then Some (Refuse 413 None)
      else case read_manifest c d (em_model r) of
        Inl NotFound \<Rightarrow> Some (Refuse 404 None)
      | Inl _ \<Rightarrow> Some ServerError
      | Inr mf \<Rightarrow> if truthy (get_or_none (mf_flags mf) ''embeddings'') then None else Some (Refuse 400 None))"

definition embed_submission :: "embed_request \<Rightarrow> submission" where
  "embed_submission r =
     \<lparr>su_model = PyStr (em_model r),
      su_prompt = (case texts_of (em_input r) of [] \<Rightarrow> [] | t # _ \<Rightarrow> take 256 t), su_thread = PyStr [],
      su_meta = [(''kind'', PyStr ''openai-embeddings''), (''model'', PyStr (em_model r)),
                 (''stream'', PyBool True), (''keep_alive_s'', PyInt 0)]\<rparr>"

definition embed_payload :: "embed_request \<Rightarrow> (string \<times> pyval) list" where
  "embed_payload r = [(''model'', PyStr (em_model r)), (''input'', input_json (em_input r))]"

definition embed_forward :: "embed_course \<Rightarrow> embed_answer" where
  "embed_forward co =
     (if \<not> ec_ready co then Refuse 504 None
      else case ec_port co of
        None \<Rightarrow> Refuse 500 None
      | Some _ \<Rightarrow>
          (case ec_post co of
             PostTimeout \<Rightarrow> Refuse 504 None
           | PostTransport \<Rightarrow> Refuse 502 None
           | PostOther \<Rightarrow> ServerError
           | PostReply status body \<Rightarrow>
               if 400 \<le> status then Refuse 502 None
               else (case body of Some v \<Rightarrow> Embeddings v | None \<Rightarrow> ServerError)))"

text \<open>
  The route: its answer, what it posted to which port, and the done event of the slot it
  acquired (\<open>None\<close> when it acquired none).
\<close>

definition post_embeddings ::
    "codec \<Rightarrow> dir \<Rightarrow> string option \<Rightarrow> embed_request \<Rightarrow> queue_error + embed_course
     \<Rightarrow> embed_answer \<times> (int \<times> (string \<times> pyval) list) option \<times> bool option" where
  "post_embeddings c d header r q =
     (case content_length_gate header of
        Some st \<Rightarrow> (Refuse st None, None, None)
      | None \<Rightarrow>
          (case embed_preflight c d r of
             Some a \<Rightarrow> (a, None, None)
           | None \<Rightarrow>
               (case q of
                  Inl (QueueHop _) \<Rightarrow> (ServerError, None, None)
                | Inl _ \<Rightarrow> (Refuse 503 (Some 5), None, None)
                | Inr co \<Rightarrow>
                    (embed_forward co,
                     if ec_ready co then map_option (\<lambda>p. (p, embed_payload r)) (ec_port co) else None,
                     Some True))))"

subsection \<open>Ollama listing\<close>

definition tag_entry :: "manifest \<Rightarrow> pyval" where
  "tag_entry m =
     PyDict [(''name'', PyStr (mf_tag m)), (''model'', PyStr (mf_tag m)), (''size'', PyInt (mf_size m)),
       (''digest'', PyStr (''sha256:'' @ mf_sha256 m)),
       (''details'', PyDict [(''format'', PyStr ''gguf''), (''context_length'', PyInt (mf_context m)),
          (''expected_vram_bytes'', PyInt (mf_vram m)), (''display_name'', PyStr (mf_display m)),
          (''description'', PyStr (mf_description m))]),
       (''revision'', PyInt (mf_revision m))]"

text \<open>
  The loop of \<open>get_tags\<close>: a missing manifest and a refusal of the store are passed over, any
  other error, a ValidationError of pydantic among them, is not caught.
\<close>

fun tag_entries :: "codec \<Rightarrow> dir \<Rightarrow> string list \<Rightarrow> store_error + pyval list" where
  "tag_entries c d [] = Inr []"
| "tag_entries c d (t # ts) =
     (case read_manifest c d t of
        Inl NotFound \<Rightarrow> tag_entries c d ts
      | Inl (Refused _) \<Rightarrow> tag_entries c d ts
      | Inl e \<Rightarrow> Inl e
      | Inr m \<Rightarrow> rbind (tag_entries c d ts) (\<lambda>es. Inr (tag_entry m # es)))"

definition get_tags :: "codec \<Rightarrow> dir \<Rightarrow> http_error + pyval" where
  "get_tags c d =
     (case tag_entries c d (list_manifests (Some d)) of
        Inl _ \<Rightarrow> Inl (Unhandled ValueError)
      | Inr es \<Rightarrow> Inr (PyDict [(''models'', PyList es)]))"

definition get_show :: "codec \<Rightarrow> dir \<Rightarrow> string \<Rightarrow> http_error + pyval" where
  "get_show c d name =
     (case read_manifest c d name of
        Inl NotFound \<Rightarrow> Inl (HttpError 404 ''model not found'' None)
      | Inl (Refused _) \<Rightarrow> Inl (HttpError 400 ''invalid manifest'' None)
      | Inl _ \<Rightarrow> Inl (Unhandled ValueError)
      | Inr m \<Rightarrow>
          Inr (PyDict [(''name'', PyStr (mf_tag m)), (''model'', PyStr (mf_tag m)), (''size'', PyInt (mf_size m)),
            (''digest'', PyStr (''sha256:'' @ mf_sha256 m)), (''context_length'', PyInt (mf_context m)),
            (''expected_vram_bytes'', PyInt (mf_vram m)), (''display_name'', PyStr (mf_display m)),
            (''description'', PyStr (mf_description m)), (''revision'', PyInt (mf_revision m)),
            (''llama_server_flags'', PyDict (mf_flags m)),
            (''prompt_template'', PyDict [(''system_default'', PyStr (mf_system m)),
               (''stop_tokens'', PyList (map PyStr (mf_stops m)))])]))"

subsection \<open>Static files\<close>

definition HASHED_ASSET_EXTENSIONS :: "string list" where
  "HASHED_ASSET_EXTENSIONS =
     [''.js'', ''.css'', ''.svg'', ''.png'', ''.jpg'', ''.jpeg'', ''.gif'', ''.ico'', ''.webp'', ''.woff'', ''.woff2'']"

text \<open>\<open>Path.suffix\<close>: from the last dot of the name on, unless the dot leads or ends it.\<close>

definition suffix_of :: "string \<Rightarrow> string" where
  "suffix_of p =
     (case rev (path_parts p) of
        [] \<Rightarrow> []
      | n # _ \<Rightarrow>
          (case rfind_sub ''.'' n of
             Some i \<Rightarrow> if 0 < i \<and> Suc i < length n then drop i n else []
           | None \<Rightarrow> []))"

text \<open>\<open>root / p\<close>: an absolute \<open>p\<close> replaces the root.\<close>

definition join_path :: "string \<Rightarrow> string \<Rightarrow> string" where
  "join_path r p = (if starts_with ''/'' p then p else r @ ''/'' @ p)"

text \<open>A file comes with these headers, and the cache header of the reply.\<close>

definition quoted :: "string \<Rightarrow> string" where
  "quoted s = CHR 0x27 # s @ [CHR 0x27]"

definition CSP_HEADER :: string where
  "CSP_HEADER = concat
     [''default-src '' @ quoted ''self'' @ ''; '',
      ''script-src '' @ quoted ''self'' @ ''; '',
      ''style-src '' @ quoted ''self'' @ '' '' @ quoted ''unsafe-inline'' @ ''; '',
      ''img-src '' @ quoted ''self'' @ '' data: blob:; '',
      ''connect-src '' @ quoted ''self'' @ '' ws: wss:; '',
      ''font-src '' @ quoted ''self'' @ '' data:; '',
      ''frame-ancestors '' @ quoted ''none'' @ ''; '',
      ''base-uri '' @ quoted ''self'' @ ''; '',
      ''form-action '' @ quoted ''self'' @ ''; '',
      ''object-src '' @ quoted ''none'']"

definition ui_security_headers :: "(string \<times> string) list" where
  "ui_security_headers =
     [(''Content-Security-Policy'', CSP_HEADER), (''X-Content-Type-Options'', ''nosniff''),
      (''X-Frame-Options'', ''DENY''), (''Referrer-Policy'', ''same-origin'')]"

datatype ui_reply = UiFile string string | UiMissing

definition CACHE_FOREVER :: string where "CACHE_FOREVER = ''public, max-age=31536000, immutable''"
definition CACHE_NEVER :: string where "CACHE_NEVER = ''no-cache, must-revalidate''"

definition serve_ui :: "fs_view \<Rightarrow> string \<Rightarrow> string \<Rightarrow> ui_reply" where
  "serve_ui fv ui_root full_path =
     (let candidate = fv_resolve fv (join_path ui_root full_path);
          index = ui_root @ ''/index.html''
      in if full_path \<noteq> [] \<and> relative_to candidate ui_root \<and> fv_is_file fv candidate
         then UiFile candidate (if lower (suffix_of candidate) \<in> set HASHED_ASSET_EXTENSIONS then CACHE_FOREVER else CACHE_NEVER)
         else if fv_is_file fv index then UiFile index CACHE_NEVER else UiMissing)"

definition ui_headers :: "ui_reply \<Rightarrow> (string \<times> string) list" where
  "ui_headers u = (case u of UiFile _ cache \<Rightarrow> ui_security_headers @ [(''Cache-Control'', cache)] | UiMissing \<Rightarrow> [])"

subsection \<open>Health and version\<close>

definition health :: "string \<Rightarrow> (string \<times> pyval) list" where
  "health version = [(''status'', PyStr ''ok''), (''version'', PyStr version)]"

definition api_version :: "string \<Rightarrow> string \<Rightarrow> (string \<times> pyval) list" where
  "api_version version expected_sha =
     [(''version'', PyStr version), (''backend'', PyStr ''turboquant-llama-cpp''),
      (''backend_sha_pinned'', PyBool (expected_sha \<noteq> [])), (''api_compat'', PyStr ''ollama-superset''),
      (''user_agent'', PyStr (''Turbohaul-Manager/'' @ version @ '' (Ollama-compatible)''))]"

subsection \<open>Admission and answers of the chat routes\<close>

lemma watcher_sees_the_client_leave: "fst (watch_disconnect False ps) \<longleftrightarrow> ClientGone \<in> set ps"
  by (induction ps) (auto split: prod.splits)

lemma base_request_status:
  "base_request env payload = Inl (HttpError st detail ra) \<Longrightarrow> st \<in> {400, 422} \<and> ra = None"
  by (auto simp: base_request_def check_response_format_def Let_def
      split: prod.splits bool.splits pyval.splits list.splits sum.splits if_splits option.splits
      simp: rbind_eq_Inl)

lemma openai_route_status:
  "openai_route out = Inl (HttpError st detail ra) \<Longrightarrow> st \<in> {499, 500, 502, 503, 504} \<and> (ra \<noteq> None \<longrightarrow> st \<in> {503, 504})"
  using route_error_statuses by (auto simp: openai_route_def split: sum.splits option.splits)


definition hello :: "(string \<times> pyval) list" where
  "hello = [(''model'', PyStr ''m''), (''messages'', PyList [PyDict [(''content'', PyStr ''hi'')]])]"

lemma hello_refused:
  "\<exists>su. openai_chat_completions ChatRequest.example_env hello (Inl (QueueFull 4)) =
      (Some su, Answer (Inl (HttpError 500 ''sidecar failed'' None)))"
  by (simp add: openai_chat_completions_def base_request_def hello_def get_or_none_def dict_get_def prompt_of_def
      check_response_format_def openai_meta_def openai_route_def submit_and_wait_def refusal_def)


text \<open>
  A request for a stream in Ollama's shape is served without one: the manager's single reply is
  the answer.
\<close>

lemma ollama_never_streams:
  "ollama_chat env iso8601 payload thread q = (Some su, a) \<Longrightarrow>
     a = rbind (openai_route (submit_and_wait q)) (ollama_result iso8601 (su_model su) thread)"
  by (auto simp: ollama_chat_def submission_of_def split: sum.splits)

subsection \<open>Error frames\<close>

text \<open>
  An error inside a stream reaches the client as one server-sent event. The frame is a single
  \<open>data:\<close> line and a blank one, whatever the error text holds, and the line parses back to the
  error object with its type and the first 500 characters of the message.
\<close>

theorem error_frames_parse:
  assumes "\<And>x. newline \<notin> set (fr x)" "ascii error" "ascii message" "json_ok fr (PyDict extra)"
    and "''type'' \<notin> fst ` set extra" "''message'' \<notin> fst ` set extra"
  shows "\<exists>body err. stream_error_frame fr error message extra = ''data: '' @ body @ [newline, newline] \<and>
    newline \<notin> set body \<and> loads body = Some (PyDict [(''error'', PyDict err)]) \<and>
    dict_get err ''type'' = Some (PyStr error) \<and> dict_get err ''message'' = Some (PyStr (take 500 message)) \<and>
    (\<forall>k. k \<notin> {''type'', ''message''} \<longrightarrow> dict_get err k = dict_get extra k)"
proof -
  let ?err = "set_all extra [(''type'', PyStr error), (''message'', PyStr (take 500 message))]"
  let ?body = "dumps fr (PyDict [(''error'', PyDict ?err)])"
  have d: "distinct (map fst extra)" using assms(4) by simp
  have e: "?err = [(''type'', PyStr error), (''message'', PyStr (take 500 message))] @ extra"
    using assms(5,6) by (intro set_all_fresh [OF d]) auto
  have "ascii (take 500 message)" using assms(3) by (auto simp: ascii_def dest: in_set_takeD)
  with assms(2,4,5,6) have "json_ok fr (PyDict [(''error'', PyDict ?err)])"
    unfolding e by (auto simp: ascii_def code_def)
  then have "loads ?body = Some (PyDict [(''error'', PyDict ?err)])" by (rule loads_dumps)
  moreover have "newline \<notin> set ?body" using assms(1) by (rule dumps_line)
  moreover have "dict_get ?err ''type'' = Some (PyStr error)" "dict_get ?err ''message'' = Some (PyStr (take 500 message))"
    "\<forall>k. k \<notin> {''type'', ''message''} \<longrightarrow> dict_get ?err k = dict_get extra k"
    unfolding e by (auto simp: dict_get_def)
  ultimately show ?thesis unfolding stream_error_frame_def by blast
qed

theorem error_frames_parse_witness:
  "\<exists>body err. stream_error_frame (\<lambda>_. ''0'') ''sidecar_timeout'' ''read timed out'' [(''cause'', PyStr ''slow'')] =
       ''data: '' @ body @ [newline, newline] \<and> loads body = Some (PyDict [(''error'', PyDict err)]) \<and>
     dict_get err ''message'' = Some (PyStr ''read timed out'') \<and> dict_get err ''cause'' = Some (PyStr ''slow'')"
proof -
  let ?fr = "\<lambda>_ :: pyfloat. ''0''" and ?extra = "[(''cause'', PyStr ''slow'')]"
  have h: "\<And>x. newline \<notin> set (?fr x)" "ascii ''sidecar_timeout''" "ascii ''read timed out''"
    "json_ok ?fr (PyDict ?extra)" "''type'' \<notin> fst ` set ?extra" "''message'' \<notin> fst ` set ?extra"
    by (simp_all add: newline_def ascii_def code_def)
  from error_frames_parse [OF h] obtain body err where
    "stream_error_frame ?fr ''sidecar_timeout'' ''read timed out'' ?extra = ''data: '' @ body @ [newline, newline]"
    "loads body = Some (PyDict [(''error'', PyDict err)])"
    "dict_get err ''message'' = Some (PyStr (take 500 ''read timed out''))"
    "\<forall>k. k \<notin> {''type'', ''message''} \<longrightarrow> dict_get err k = dict_get ?extra k" by blast
  moreover from this(4) [rule_format, of "''cause''"] have "dict_get err ''cause'' = Some (PyStr ''slow'')"
    by (simp add: dict_get_def)
  moreover have "take 500 ''read timed out'' = ''read timed out''" by simp
  ultimately show ?thesis by (intro exI [of _ body] exI [of _ err]) (simp only: simp_thms)
qed

subsection \<open>Embeddings\<close>

lemma embed_preflight_None:
  "embed_preflight c d r = None \<longleftrightarrow>
     (\<exists>mf. map_option lower (em_encoding r) \<noteq> Some ''base64'' \<and> em_dimensions r = None \<and>
       length (texts_of (em_input r)) \<le> BATCH_CAP \<and> read_manifest c d (em_model r) = Inr mf \<and>
       truthy (get_or_none (mf_flags mf) ''embeddings''))"
proof (cases "read_manifest c d (em_model r)")
  case (Inl e)
  then show ?thesis by (cases e) (simp_all add: embed_preflight_def)
qed (simp add: embed_preflight_def not_less)

lemma embed_preflight_answer: "embed_preflight c d r \<noteq> Some (Embeddings v)"
proof (cases "read_manifest c d (em_model r)")
  case (Inl e)
  then show ?thesis by (cases e) (simp_all add: embed_preflight_def)
qed (simp add: embed_preflight_def)

lemma embed_forward_Embeddings:
  "embed_forward co = Embeddings v \<longleftrightarrow>
     (\<exists>port st. co = \<lparr>ec_ready = True, ec_port = Some port, ec_post = PostReply st (Some v)\<rparr> \<and> st < 400)"
  by (cases co) (auto simp: embed_forward_def split: option.split embed_post.split)

text \<open>
  C36: An embeddings answer is the sidecar's. The route answers with embeddings exactly when the
  body is within bounds, the encoding is not base64, no dimension is asked for, at most 64 texts
  are given, the model's manifest reads and declares embeddings, the queue accepted the request,
  its slot got ready with a handle and the sidecar answered below 400 with JSON; the answer is that
  JSON, what was posted is the model and the input alone, and the slot has been released.
\<close>

theorem embeddings_are_the_sidecars:
  "post_embeddings c d header r q = (Embeddings v, sent, done) \<longleftrightarrow>
     (\<exists>mf port st. content_length_gate header = None \<and> map_option lower (em_encoding r) \<noteq> Some ''base64'' \<and>
        em_dimensions r = None \<and> length (texts_of (em_input r)) \<le> BATCH_CAP \<and>
        read_manifest c d (em_model r) = Inr mf \<and> truthy (get_or_none (mf_flags mf) ''embeddings'') \<and>
        q = Inr \<lparr>ec_ready = True, ec_port = Some port, ec_post = PostReply st (Some v)\<rparr> \<and> st < 400 \<and>
        sent = Some (port, embed_payload r) \<and> done = Some True)"
proof -
  have "post_embeddings c d header r q = (Embeddings v, sent, done) \<longleftrightarrow>
      content_length_gate header = None \<and> embed_preflight c d r = None \<and>
      (\<exists>co. q = Inr co \<and> embed_forward co = Embeddings v \<and> done = Some True \<and>
         sent = (if ec_ready co then map_option (\<lambda>p. (p, embed_payload r)) (ec_port co) else None))"
    using embed_preflight_answer [of c d r v]
    by (simp add: post_embeddings_def split: option.split sum.split queue_error.split) blast
  then show ?thesis unfolding embed_preflight_None embed_forward_Embeddings by auto
qed

text \<open>
  No embeddings request keeps a slot. Once the queue accepted it, its done event is set on
  every course, with an answer or an error, so the worker can go on; a request refused before
  that holds none.
\<close>

theorem embeddings_release_the_slot:
  "snd (snd (post_embeddings c d header r q)) =
     (if content_length_gate header = None \<and> embed_preflight c d r = None \<and> is_ok q then Some True else None)"
  by (auto simp: post_embeddings_def is_ok_def split: option.splits sum.splits queue_error.splits)

subsection \<open>Listing\<close>

definition readable :: "codec \<Rightarrow> dir \<Rightarrow> string \<Rightarrow> bool" where
  "readable c d t \<longleftrightarrow> is_ok (read_manifest c d t)"

lemma tag_entries_Inr:
  "tag_entries c d ts = Inr es \<longleftrightarrow>
     (\<forall>t \<in> set ts. case read_manifest c d t of Inl e \<Rightarrow> e = NotFound \<or> (\<exists>x. e = Refused x) | Inr _ \<Rightarrow> True) \<and>
     es = map (\<lambda>t. tag_entry (projr (read_manifest c d t))) (filter (readable c d) ts)"
  by (induction ts arbitrary: es) (auto simp: readable_def is_ok_def split: sum.splits store_error.splits)

definition agree_on :: "string list \<Rightarrow> pyval \<Rightarrow> pyval \<Rightarrow> bool" where
  "agree_on ks x y \<longleftrightarrow> (\<exists>a b. x = PyDict a \<and> y = PyDict b \<and> (\<forall>k \<in> set ks. dict_get a k \<noteq> None \<and> dict_get a k = dict_get b k))"

text \<open>
  What \<open>/api/tags\<close> lists can be shown. When every stored manifest names itself as its file
  does, a listing that succeeds has one entry for each readable manifest, in the order of the
  tags, and \<open>/api/show\<close> of a listed name succeeds and agrees with the entry on name, size,
  digest and revision.
\<close>

theorem listed_models_can_be_shown:
  assumes "\<And>t mf. read_manifest c d t = Inr mf \<Longrightarrow> mf_tag mf = t"
    and "get_tags c d = Inr listing"
  shows "\<exists>entries. listing = PyDict [(''models'', PyList entries)] \<and>
    list_all2 (\<lambda>t e. agree_on [''name''] (PyDict [(''name'', PyStr t)]) e \<and>
        (\<exists>shown. get_show c d t = Inr shown \<and> agree_on [''name'', ''model'', ''size'', ''digest'', ''revision''] e shown))
      (filter (readable c d) (list_manifests (Some d))) entries"
proof -
  from assms(2) obtain es where es: "tag_entries c d (list_manifests (Some d)) = Inr es"
    "listing = PyDict [(''models'', PyList es)]" by (auto simp: get_tags_def split: sum.splits)
  have "agree_on [''name''] (PyDict [(''name'', PyStr t)]) (tag_entry (projr (read_manifest c d t))) \<and>
      (\<exists>shown. get_show c d t = Inr shown \<and>
        agree_on [''name'', ''model'', ''size'', ''digest'', ''revision''] (tag_entry (projr (read_manifest c d t))) shown)"
    if "readable c d t" for t
    using that assms(1) [of t] by (cases "read_manifest c d t") (auto simp: readable_def is_ok_def get_show_def agree_on_def tag_entry_def dict_get_def)
  then show ?thesis using es unfolding tag_entries_Inr
    by (auto simp: list_all2_map2 list_all2_same)
qed

definition one_model :: dir where
  "one_model = [(''m.yaml'', Regular ''4'')]"

theorem listed_models_can_be_shown_witness:
  "\<exists>entry shown. get_tags example_codec one_model = Inr (PyDict [(''models'', PyList [entry])]) \<and>
     get_show example_codec one_model ''m'' = Inr shown \<and>
     agree_on [''name''] (PyDict [(''name'', PyStr ''m'')]) entry \<and> agree_on [''digest''] entry shown"
proof -
  have m: "read_manifest example_codec one_model ''m'' = Inr (example_manifest\<lparr>mf_revision := 4\<rparr>)" by code_simp
  have named: "mf_tag mf = t" if "read_manifest example_codec one_model t = Inr mf" for t mf
  proof -
    from that have "dir_look one_model (t @ ''.yaml'') \<noteq> None"
      by (cases "dir_look one_model (t @ ''.yaml'')") (simp_all add: read_manifest_def safe_manifest_path_def split: sum.splits)
    then have "t @ ''.yaml'' = ''m'' @ ''.yaml''" by (simp add: one_model_def dir_look_def split: if_splits)
    then have "t = ''m''" by (simp only: append_same_eq)
    with that m show ?thesis by (auto simp: example_manifest_def)
  qed
  have list: "list_manifests (Some one_model) = [''m'']" "readable example_codec one_model ''m''" by code_simp+
  from m obtain listing where l: "get_tags example_codec one_model = Inr listing"
    by (simp add: get_tags_def list(1))
  from listed_models_can_be_shown [OF named l] show ?thesis
    by (auto simp: list list_all2_Cons1 l agree_on_def)
qed

text \<open>One manifest pydantic refuses makes the listing fail for every model.\<close>

lemma one_bad_manifest_hides_all:
  assumes "t \<in> set (list_manifests (Some d))" "read_manifest c d t = Inl (Invalid e)"
  shows "get_tags c d = Inl (Unhandled ValueError)"
proof -
  have "\<not> (\<exists>es. tag_entries c d (list_manifests (Some d)) = Inr es)"
    using assms by (auto simp: tag_entries_Inr intro!: bexI [of _ t])
  then show ?thesis by (auto simp: get_tags_def split: sum.splits)
qed

subsection \<open>Static files\<close>

lemma split_on_at: "split_on d (p @ d # q) = split_on d p @ split_on d q"
  by (induction d p rule: split_on.induct) (auto split: list.splits)

lemma path_parts_slash: "path_parts (p @ CHR ''/'' # q) = path_parts p @ path_parts q"
  by (simp add: path_parts_def split_on_at)



subsection \<open>Ollama's stream flag and the fan-out\<close>

text \<open>
  The manager recognises a streaming request by its metadata in one place and by its events in
  another. \<open>ollama_chat\<close> copies the client's \<open>stream\<close> flag into the metadata but submits through
  \<open>submit_and_wait\<close>, which arms no events. As the first request of a fan-out such a slot
  always runs into the assertion before the drain, outside the block that clears
  \<open>_inflight\<close>.
\<close>

lemma unarmed_stream_aborts_fanout:
  assumes "wants_stream sl" "sl_stream_done sl = None"
  shows "w_phase (admission_over sl h kas w) = WUnwinding sl (Some (OtherExc ''AssertionError''))"
    "w_stale (admission_over sl h kas w) = inflight_count w"
  using assms by (simp_all add: admission_over_def admission_aborted_def goto_def inflight_count_def Let_def)

definition streamed_hello :: "(string \<times> pyval) list" where
  "streamed_hello = hello @ [(''stream'', PyBool True)]"

definition streamed_meta :: "(string \<times> pyval) list" where
  "streamed_meta =
     [(''kind'', PyStr ''ollama-chat''), (''messages'', PyList [PyDict [(''content'', PyStr ''hi'')]]),
      (''model'', PyStr ''m''), (''stream'', PyBool True), (''keep_alive_s'', PyNone), (''thinking_manifest'', PyDict []),
      (''options'', PyNone), (''response_format'', PyNone), (''tools'', PyNone), (''tool_choice'', PyNone),
      (''parallel_tool_calls'', PyNone), (''function_call'', PyNone), (''functions'', PyNone)]"

lemma streamed_hello_meta:
  "map_option su_meta (fst (ollama_chat env iso8601 streamed_hello thread q)) = Some streamed_meta"
  by (simp add: ollama_chat_def base_request_def streamed_hello_def hello_def get_or_none_def dict_get_def prompt_of_def
      check_response_format_def ollama_meta_def rejects_tool_stream_def TOOL_KNOBS_def ollama_keep_alive_def
      copied_def thinking_manifest_def wants_schema_def submission_of_def streamed_meta_def)

text \<open>The request alone on a model with two slots, then a plain one for another model.\<close>

definition wedged_by :: "(string \<times> pyval) list \<Rightarrow> wevent list" where
  "wedged_by meta =
     [Submit 0 (req ''a'' ''m'' meta), Poll 1, Open no_text 1 (Inr two_slot_manifest), GateSpawn [] 101, Health True,
      Wake 2, Admit 2 Exits, Unwind Exits, Rescue Exits Exits True, Submit 9 (req ''c'' ''n'' [])] @ cold_start 10 102 @
     [ServeDone (Inr PyNone), ToGrace 12, Unwind Exits]"

text \<open>
  One ordinary Ollama request wedges the worker. Whatever else the route is given,
  \<open>/api/chat\<close> with \<open>stream: true\<close> for a model with two parallel slots is answered with an
  AssertionError without reaching the sidecar, and the next request, for another model, is
  served but then trips over the entry left in \<open>_inflight\<close>: its warm sidecar is killed.
\<close>

theorem ollama_stream_wedges_the_worker:
  "\<exists>meta w sl. map_option su_meta (fst (ollama_chat env iso8601 streamed_hello thread q)) = Some meta \<and>
     wrun (wedged_by meta) idle_worker = Some w \<and>
     settled_ids (w_done w) = [(''slot-a'', Some (future.Failed (OtherExc ''AssertionError'')))] \<and>
     w_phase w = WRescuing sl (OtherExc ''AssertionError'') \<and> sl_id sl = ''slot-c'' \<and>
     sl_future sl = Some (Resolved PyNone) \<and> w_procs w = [] \<and> w_idle w = None"
proof -
  have run: "map_option (\<lambda>w. (settled_ids (w_done w),
      (case w_phase w of WRescuing sl e \<Rightarrow> Some (sl_id sl, sl_future sl, e) | _ \<Rightarrow> None), map h_pid (w_procs w), map_option snd (w_idle w)))
      (wrun (wedged_by streamed_meta) idle_worker) =
      Some ([(''slot-a'', Some (future.Failed (OtherExc ''AssertionError'')))],
        Some (''slot-c'', Some (Resolved PyNone), OtherExc ''AssertionError''), [], None)"
    by code_simp
  then obtain w where w: "wrun (wedged_by streamed_meta) idle_worker = Some w"
    "settled_ids (w_done w) = [(''slot-a'', Some (future.Failed (OtherExc ''AssertionError'')))]"
    "(case w_phase w of WRescuing sl e \<Rightarrow> Some (sl_id sl, sl_future sl, e) | _ \<Rightarrow> None) =
        Some (''slot-c'', Some (Resolved PyNone), OtherExc ''AssertionError'')" "w_procs w = []" "w_idle w = None"
    by (auto simp: map_option_eq_Some)
  from w(3) obtain sl where "w_phase w = WRescuing sl (OtherExc ''AssertionError'')" "sl_id sl = ''slot-c''"
    "sl_future sl = Some (Resolved PyNone)" by (auto split: wphase.splits)
  with w streamed_hello_meta show ?thesis by blast
qed

end
