(* ===== verification/Lifecycle.thy ===== *)
theory Lifecycle
  imports Routes StateDb AuditLog LiveSlots
begin

text \<open>
  The process around the components: the start and end of the application (\<open>lifespan\<close> of
  \<open>api/main.py\<close>, \<open>shutdown\<close> and \<open>_drain_bg_tasks\<close> of \<open>manager.py\<close>), its background loops, the
  audit helpers of the manager with the connection pool of \<open>state.py\<close>, the spawn gate of the
  resident drivers and the VRAM cache of \<open>live_monitor.py\<close>.
\<close>

subsection \<open>Start\<close>

record start_flags =
  sf_start_worker :: bool
  sf_reconcile :: bool
  sf_monitor :: bool
  sf_max_sidecars :: int

datatype app_task = WorkerLoop | Sweeper | SlotsPoller | ResidentsSupervisor

definition lifespan_tasks :: "start_flags \<Rightarrow> app_task list" where
  "lifespan_tasks f =
     (if \<not> sf_start_worker f then []
      else [WorkerLoop, Sweeper] @
        (if \<not> sf_monitor f then [] else if 2 \<le> sf_max_sidecars f then [ResidentsSupervisor] else [SlotsPoller]))"

text \<open>
  The descriptor \<open>verify_binary\<close> leaves on the manager, given the binary as it is at the check and
  at the pinning; its verdict is only logged, so the tasks start whatever it is.
\<close>

definition boot_fd :: "('c \<Rightarrow> string) \<Rightarrow> string \<Rightarrow> 'c option \<Rightarrow> 'c option \<Rightarrow> int \<Rightarrow> int option" where
  "boot_fd sha256 expected at_check at_pin fd = map_option (\<lambda>_. fd) (snd (verify_binary sha256 expected at_check at_pin))"

definition lifespan_start ::
    "('c \<Rightarrow> string) \<Rightarrow> string \<Rightarrow> 'c option \<Rightarrow> 'c option \<Rightarrow> int \<Rightarrow> start_flags \<Rightarrow> app_task list \<times> int option" where
  "lifespan_start sha256 expected at_check at_pin fd f =
     (lifespan_tasks f, if sf_reconcile f then boot_fd sha256 expected at_check at_pin fd else None)"

subsection \<open>Background loops\<close>

text \<open>
  The poller, the supervisor and the sweeper share their loop: an exception of one turn is
  logged, a cancellation ends the task, and the stop event is looked at after every turn.
\<close>

datatype 'a turn = Turn 'a | TurnFails | TurnCancelled

datatype loop_end = StillRunning | LoopExited | LoopCancelled

fun guarded_loop :: "bool \<Rightarrow> ('a turn \<times> bool) list \<Rightarrow> 'a list \<times> loop_end" where
  "guarded_loop True turns = ([], LoopExited)"
| "guarded_loop False [] = ([], StillRunning)"
| "guarded_loop False ((t, stop) # turns) =
     (case t of
        TurnCancelled \<Rightarrow> ([], LoopCancelled)
      | TurnFails \<Rightarrow> guarded_loop stop turns
      | Turn x \<Rightarrow> (case guarded_loop stop turns of (xs, e) \<Rightarrow> (x # xs, e)))"

definition sweep_interval :: "int \<Rightarrow> int" where
  "sweep_interval configured = max 1 configured"

definition sweep_min_age :: "int \<Rightarrow> int" where
  "sweep_min_age configured = max 60 configured"

text \<open>
  The sweeper: each turn is one sweep of the table, at the given time and cutoff. Each row is
  committed on its own, so a sweep that raises after \<open>m\<close> rows leaves those ended and is not
  counted.
\<close>

record sweep =
  sw_now :: string
  sw_cutoff :: string
  sw_raises_after :: "nat option"

definition sweep_turn :: "row list \<Rightarrow> sweep \<Rightarrow> nat \<times> row list" where
  "sweep_turn rs w =
     (case sw_raises_after w of
        None \<Rightarrow> run_one_sweep rs (sw_now w) (sw_cutoff w)
      | Some m \<Rightarrow>
          (0, mark_all rs (sw_now w) ''background_sweeper_evicted''
                (take m (take 100 (map db_slot_id (filter (sweepable (sw_cutoff w)) rs))))))"

fun sweeps :: "row list \<Rightarrow> sweep list \<Rightarrow> nat \<times> row list" where
  "sweeps rs [] = (0, rs)"
| "sweeps rs (w # ws) =
     (case sweep_turn rs w of (n, rs') \<Rightarrow>
        case sweeps rs' ws of (k, rs'') \<Rightarrow> (n + k, rs''))"

definition periodic_terminal_park_sweep ::
    "row list \<Rightarrow> bool \<Rightarrow> (sweep turn \<times> bool) list \<Rightarrow> (nat \<times> row list) \<times> loop_end" where
  "periodic_terminal_park_sweep rs stop turns =
     (case guarded_loop stop turns of (ts, e) \<Rightarrow> (sweeps rs ts, e))"

definition poll_sleep :: "rat \<Rightarrow> rat \<Rightarrow> rat" where
  "poll_sleep interval elapsed = max 0 (max (1/10) interval - elapsed)"

subsection \<open>The VRAM cache\<close>

record vram_cache =
  vc_free :: "int list option"
  vc_total :: "int list option"

datatype vram_probe = ProbeRaised | Probed "int list option"

fun probed :: "vram_probe \<Rightarrow> int list option" where
  "probed ProbeRaised = None"
| "probed (Probed v) = v"

text \<open>\<open>_refresh_vram\<close> of the single poller, and that of the supervisor.\<close>

definition refresh_vram_single :: "bool \<Rightarrow> vram_probe \<Rightarrow> vram_probe \<Rightarrow> vram_cache \<Rightarrow> vram_cache" where
  "refresh_vram_single stop free total_probe c =
     (if stop then c
      else c\<lparr>vc_free := probed free, vc_total := (if vc_total c = None then probed total_probe else vc_total c)\<rparr>)"

definition refresh_vram_residents :: "bool \<Rightarrow> vram_probe \<Rightarrow> vram_cache \<Rightarrow> vram_cache" where
  "refresh_vram_residents stop free c = (if stop then c else c\<lparr>vc_free := probed free\<rparr>)"

text \<open>The event of \<open>_poll_one\<close>: without content, for the front end to fetch the status again.\<close>

definition publish_tick :: "gen_state \<Rightarrow> event_bus \<Rightarrow> event_bus" where
  "publish_tick st bus =
     (if active_gen st then publish_nowait [(''event'', PyStr ''generation_tick'')] bus else bus)"

subsection \<open>Audit\<close>

definition audit_fields :: "slot \<Rightarrow> slot_fields" where
  "audit_fields sl =
     \<lparr>f_slot_id = sl_id sl, f_model_tag = sl_model_tag sl, f_thread_id = Some (sl_thread_id sl),
      f_state = state_value (sl_state sl), f_port = sl_port sl, f_pid = sl_pid sl, f_created_at = None,
      f_ended_at = None, f_end_reason = None, f_extension_count = sl_extension_count sl,
      f_client_meta = sl_client_meta sl\<rparr>"

definition audit_message :: "string \<Rightarrow> slot \<Rightarrow> dict" where
  "audit_message ev sl =
     [(''event'', PyStr ev), (''slot_id'', PyStr (sl_id sl)), (''model_tag'', PyStr (sl_model_tag sl)),
      (''state'', PyStr (state_value (sl_state sl))), (''thread_id_prefix'', PyStr (take 8 (sl_thread_id sl)))]"

datatype audit_fault = NoDbFault | UpsertFails | RecordFails

text \<open>\<open>_audit\<close>: the row, the audit event, then the bus; a database error leaves the rest undone.\<close>

definition audit :: "audit_fault \<Rightarrow> string \<Rightarrow> string \<Rightarrow> slot \<Rightarrow> db \<times> event_bus \<Rightarrow> bool \<times> db \<times> event_bus" where
  "audit fault now ev sl s =
     (case s of (d, bus) \<Rightarrow>
        if fault = UpsertFails then (False, d, bus)
        else let d1 = d\<lparr>slots_tbl := upsert_slot (slots_tbl d) now (audit_fields sl)\<rparr> in
          if fault = RecordFails then (False, d1, bus)
          else (True,
                record_audit_event d1 now ev (Some [(''state'', PyStr (state_value (sl_state sl)))]) (Some (sl_id sl)),
                publish_nowait (audit_message ev sl) bus))"

definition audit_event_only :: "bool \<Rightarrow> string \<Rightarrow> string option \<Rightarrow> string \<Rightarrow> dict option \<Rightarrow> db \<Rightarrow> bool \<times> db" where
  "audit_event_only ok now sid ev payload d =
     (if ok then (True, record_audit_event d now ev payload sid) else (False, d))"

text \<open>
  The pool of \<open>state.py\<close>: the threads that hold an open connection. A session refuses a thread
  that runs an event loop, and opens a connection of its own where the pool has none.
\<close>

datatype session = SyncOnlyError | Pooled | PerCall | NoPathError

definition init_audit_pool :: "nat \<Rightarrow> nat set \<Rightarrow> nat set" where
  "init_audit_pool t p = insert t p"

definition close_audit_pool :: "nat \<Rightarrow> nat set \<Rightarrow> nat set" where
  "close_audit_pool t p = p - {t}"

definition audit_db_session :: "(nat \<Rightarrow> bool) \<Rightarrow> bool \<Rightarrow> nat \<Rightarrow> nat set \<Rightarrow> session" where
  "audit_db_session runs_loop has_path t p =
     (if runs_loop t then SyncOnlyError
      else if t \<in> p then Pooled
      else if has_path then PerCall else NoPathError)"

subsection \<open>The spawn gate of a resident driver\<close>

text \<open>The verdict of the gates; \<open>Inl\<close> is an error of the manifest that is not caught.\<close>

definition run_spawn_safety_gate :: "store_error + manifest \<Rightarrow> host_probe \<Rightarrow> gate_limits \<Rightarrow> store_error + bool" where
  "run_spawn_safety_gate read host limits =
     (case (case read of Inr m \<Rightarrow> Inr (spawn_request (Some m)) | Inl NotFound \<Rightarrow> Inr (spawn_request None) | Inl e \<Rightarrow> Inl e) of
        Inl e \<Rightarrow> Inl e
      | Inr (expected, r) \<Rightarrow> Inr (failed_gates (all_safety_gates host limits expected r) = []))"

subsection \<open>Shutdown\<close>

definition BG_DRAIN_GRACE_S :: rat where "BG_DRAIN_GRACE_S = 10"

text \<open>
  \<open>_drain_bg_tasks\<close>: each pending task with the time it still needs (\<open>None\<close> is for ever). A
  timeout cancels what is not done. The result is how long it took and which finished.
\<close>

definition drain_bg_tasks :: "rat option list \<Rightarrow> rat \<times> bool list" where
  "drain_bg_tasks tasks =
     (let late = (\<lambda>t. case t of None \<Rightarrow> True | Some s \<Rightarrow> BG_DRAIN_GRACE_S < s) in
      (if list_ex late tasks then BG_DRAIN_GRACE_S else foldr max (map the tasks) 0, map (\<lambda>t. \<not> late t) tasks))"

text \<open>
  What a cancelled worker task ends with, and what \<open>shutdown\<close> finds: the tasks not done yet, the
  queue as it is when it is closed (cancelled drivers put their inboxes back into it), the idle
  holder and the descriptor.
\<close>

datatype worker_end = EndsCancelled | EndsRaising exn

record running_app =
  ra_observers :: "app_task list"
  ra_worker :: "worker_end option"
  ra_drivers :: "string list"
  ra_bg :: "rat option list"
  ra_sweeper :: bool
  ra_queue :: tq
  ra_idle :: bool
  ra_fd :: "int option"

datatype shutdown_action =
    SetStop
  | CancelObserver app_task
  | CancelWorker
  | CancelDrivers "string list"
  | DrainBg
  | CancelSweeper
  | CloseQueue
  | TeardownIdle
  | CloseFd int

text \<open>
  The actions taken, and the requests failed at the end. An exception of the worker task other
  than its cancellation is not caught: nothing after it is done.
\<close>

definition shutdown :: "running_app \<Rightarrow> shutdown_action list \<times> slot list \<times> exn option" where
  "shutdown a =
     (let observers = SetStop # map CancelObserver (ra_observers a);
          rest = (if ra_drivers a = [] then [] else [CancelDrivers (ra_drivers a)]) @ [DrainBg] @
                 (if ra_sweeper a then [CancelSweeper] else []) @ [CloseQueue] @
                 (if ra_idle a then [TeardownIdle] else []) @
                 (case ra_fd a of None \<Rightarrow> [] | Some fd \<Rightarrow> [CloseFd fd]);
          failed = map (\<lambda>sl. fail_completion_future sl Cancelled) (fst (close (ra_queue a)))
      in case ra_worker a of
           Some (EndsRaising e) \<Rightarrow> (observers @ [CancelWorker], [], Some e)
         | Some EndsCancelled \<Rightarrow> (observers @ [CancelWorker] @ rest, failed, None)
         | None \<Rightarrow> (observers @ rest, failed, None))"

subsection \<open>The binary pin\<close>

text \<open>
  What a sidecar is executed from. The application starts the same tasks whatever the check of
  the binary said. Sidecars are executed from the pinned descriptor exactly when a digest is
  configured and both the check and the pinning found it, and then the pinned content has that
  digest; in every other case, a binary with the wrong digest included, they are executed from
  the path.
\<close>

theorem pin_failure_executes_the_path:
  assumes "lifespan_start sha256 expected at_check at_pin n f = (tasks, fd)" "sf_reconcile f" "0 \<le> n"
    and "\<not> starts_with ''/proc/self/fd/'' binary"
  shows "tasks = lifespan_tasks f \<and>
    hd (sidecar_cmd binary fd gguf port argv) = (if fd = None then binary else ''/proc/self/fd/'' @ show_int n) \<and>
    (hd (sidecar_cmd binary fd gguf port argv) \<noteq> binary \<longleftrightarrow>
       expected \<noteq> [] \<and> (\<exists>c c'. at_check = Some c \<and> sha256 c = expected \<and> at_pin = Some c' \<and> sha256 c' = expected))"
proof -
  from assms(1,2) have t: "tasks = lifespan_tasks f" and fd: "fd = boot_fd sha256 expected at_check at_pin n"
    by (auto simp: lifespan_start_def)
  have "(\<exists>k. fd = Some k) \<longleftrightarrow>
      expected \<noteq> [] \<and> (\<exists>c c'. at_check = Some c \<and> sha256 c = expected \<and> at_pin = Some c' \<and> sha256 c' = expected)"
    unfolding fd boot_fd_def verify_binary_def verify_binary_sha256_def open_and_verify_binary_def
    by (auto split: option.splits if_splits)
  moreover have "fd = None \<or> fd = Some n" by (simp add: fd boot_fd_def option.map_sel) 
      (cases "snd (verify_binary sha256 expected at_check at_pin)"; simp)
  moreover have "binary \<noteq> ''/proc/self/fd/'' @ show_int n"
    using assms(4) by (auto simp: starts_with_def)
  ultimately show ?thesis using t by (auto simp: sidecar_cmd_def)
qed

theorem pin_failure_executes_the_path_witness:
  "hd (sidecar_cmd ''/opt/llama-server'' (snd (lifespan_start (\<lambda>c. c) ''good'' (Some ''evil'') (Some ''evil'') 7
      \<lparr>sf_start_worker = True, sf_reconcile = True, sf_monitor = True, sf_max_sidecars = 1\<rparr>)) ''m.gguf'' 11500 []) =
     ''/opt/llama-server'' \<and>
   fst (lifespan_start (\<lambda>c. c) ''good'' (Some ''evil'') (Some ''evil'') 7
      \<lparr>sf_start_worker = True, sf_reconcile = True, sf_monitor = True, sf_max_sidecars = 1\<rparr>) =
     [WorkerLoop, Sweeper, SlotsPoller]"
proof -
  let ?f = "\<lparr>sf_start_worker = True, sf_reconcile = True, sf_monitor = True, sf_max_sidecars = 1\<rparr>"
  obtain tasks fd where l: "lifespan_start (\<lambda>c. c) ''good'' (Some ''evil'') (Some ''evil'') 7 ?f = (tasks, fd)" by (cases "lifespan_start (\<lambda>c. c) ''good'' (Some ''evil'') (Some ''evil'') 7 ?f")
  have h: "sf_reconcile ?f" "(0 :: int) \<le> 7" "\<not> starts_with ''/proc/self/fd/'' ''/opt/llama-server''"
    by (simp_all add: starts_with_def)
  from pin_failure_executes_the_path [OF l h, of "''m.gguf''" 11500 "[]"] show ?thesis
    by (auto simp: l lifespan_tasks_def split: if_splits)
qed

subsection \<open>The loops\<close>

text \<open>A failing turn ends no loop, and costs only itself.\<close>

lemma loop_survives_errors:
  assumes "\<forall>(t, stop) \<in> set turns. t \<noteq> TurnCancelled \<and> \<not> stop"
  shows "guarded_loop False turns = (List.map_filter (\<lambda>(t, _). case t of Turn x \<Rightarrow> Some x | _ \<Rightarrow> None) turns, StillRunning)"
  using assms by (induction turns) (auto simp: map_filter_simps split: turn.splits prod.splits)

lemma loop_takes_turns: "guarded_loop stop turns = (ts, e) \<Longrightarrow> Turn ` set ts \<subseteq> fst ` set turns"
proof (induction stop turns arbitrary: ts e rule: guarded_loop.induct)
  case (3 t stop turns)
  obtain us f where g: "guarded_loop stop turns = (us, f)" by (metis surj_pair)
  show ?case
  proof (cases t)
    case (Turn x)
    then have "Turn ` set us \<subseteq> fst ` set turns" using "3.IH"(1) [OF Turn g] by simp
    moreover from Turn "3.prems" g have "ts = x # us" by simp
    ultimately show ?thesis using Turn by (simp add: subset_insertI2)
  next
    case TurnFails
    with 3 have "Turn ` set ts \<subseteq> fst ` set turns" by simp
    then show ?thesis by auto
  next
    case TurnCancelled
    with 3 show ?thesis by simp
  qed
qed auto

lemma sweep_turn_keeps:
  assumes "keyed rs" "r \<in> set rs" "\<not> sweepable (sw_cutoff w) r"
  shows "r \<in> set (snd (sweep_turn rs w))" "keyed (snd (sweep_turn rs w))"
proof -
  have "db_slot_id r \<notin> db_slot_id ` set (filter (sweepable (sw_cutoff w)) rs)"
    using assms by (auto simp: keyed_def distinct_map inj_on_def)
  then have "db_slot_id r \<notin> set (take k (take 100 (map db_slot_id (filter (sweepable (sw_cutoff w)) rs))))"
    and "db_slot_id r \<notin> set (take 100 (map db_slot_id (filter (sweepable (sw_cutoff w)) rs)))" for k
    by (metis (no_types, lifting) in_set_takeD list.set_map)+
  with assms(2) show "r \<in> set (snd (sweep_turn rs w))"
    by (force simp: sweep_turn_def run_one_sweep_def mark_all_map split: option.split)
  show "keyed (snd (sweep_turn rs w))"
    using assms(1) by (simp add: sweep_turn_def run_one_sweep_def mark_keyed split: option.split)
qed

lemma sweeps_keep:
  assumes "keyed rs" "r \<in> set rs" "\<forall>w \<in> set ws. \<not> sweepable (sw_cutoff w) r"
  shows "r \<in> set (snd (sweeps rs ws))"
  using assms
proof (induction ws arbitrary: rs)
  case (Cons w ws)
  obtain n rs' where s: "sweep_turn rs w = (n, rs')" by (cases "sweep_turn rs w")
  from Cons.prems have "r \<in> set rs'" "keyed rs'" using sweep_turn_keeps [of rs r w] by (simp_all add: s)
  then show ?case using Cons.IH [of rs'] Cons.prems(3) by (auto simp: s split: prod.splits)
qed simp

text \<open>
  The sweeper only ends abandoned rows. Through any course of its loop, with turns that fail
  before or in the middle of their updates and whenever it is stopped, a row that was at no sweep
  still STAGED, without a process, not ended and older than the cutoff stays exactly as it is.
\<close>

theorem sweeper_spares_live_rows:
  assumes "keyed rs" "r \<in> set rs" "periodic_terminal_park_sweep rs stop turns = ((n, rs'), e)"
    and "\<forall>w stopped. (Turn w, stopped) \<in> set turns \<longrightarrow>
      \<not> (db_state r = ''STAGED'' \<and> db_created_at r < sw_cutoff w \<and> db_pid r = None \<and> db_ended_at r = None)"
  shows "r \<in> set rs'"
proof -
  obtain ts where l: "guarded_loop stop turns = (ts, e)" and rs': "(n, rs') = sweeps rs ts"
    using assms(3) by (auto simp: periodic_terminal_park_sweep_def split: prod.splits)
  have "\<not> sweepable (sw_cutoff w) r" if "w \<in> set ts" for w
  proof -
    from that loop_takes_turns [OF l] have "Turn w \<in> fst ` set turns" by blast
    then obtain stopped where "(Turn w, stopped) \<in> set turns" by force
    with assms(4) show ?thesis unfolding sweepable_def by blast
  qed
  then have "\<forall>w \<in> set ts. \<not> sweepable (sw_cutoff w) r" by blast
  from sweeps_keep [OF assms(1,2) this] show ?thesis by (simp flip: rs')
qed

theorem sweeper_spares_live_rows_witness:
  "\<lparr>db_slot_id = ''b'', db_model_tag = ''m'', db_thread_id = None, db_state = ''STAGED'', db_port = None,
    db_pid = Some 7, db_created_at = ''2025-01-01'', db_updated_at = ''2025-01-01'', db_ended_at = None,
    db_end_reason = None, db_extension_count = 0, db_client_meta = []\<rparr> \<in>
   set (snd (fst (periodic_terminal_park_sweep
     [\<lparr>db_slot_id = ''a'', db_model_tag = ''m'', db_thread_id = None, db_state = ''STAGED'', db_port = None,
       db_pid = None, db_created_at = ''2025-01-01'', db_updated_at = ''2025-01-01'', db_ended_at = None,
       db_end_reason = None, db_extension_count = 0, db_client_meta = []\<rparr>,
      \<lparr>db_slot_id = ''b'', db_model_tag = ''m'', db_thread_id = None, db_state = ''STAGED'', db_port = None,
       db_pid = Some 7, db_created_at = ''2025-01-01'', db_updated_at = ''2025-01-01'', db_ended_at = None,
       db_end_reason = None, db_extension_count = 0, db_client_meta = []\<rparr>] False
     [(TurnFails, False),
      (Turn \<lparr>sw_now = ''2025-02-02'', sw_cutoff = ''2025-02-01'', sw_raises_after = None\<rparr>, True)])))"
  (is "?b \<in> set (snd (fst (periodic_terminal_park_sweep ?rs False ?turns)))")
proof -
  obtain n rs' e where p: "periodic_terminal_park_sweep ?rs False ?turns = ((n, rs'), e)"
    by (metis surj_pair)
  have k: "keyed ?rs" "?b \<in> set ?rs" by (simp_all add: keyed_def)
  have "\<forall>w stopped. (Turn w, stopped) \<in> set ?turns \<longrightarrow>
      \<not> (db_state ?b = ''STAGED'' \<and> db_created_at ?b < sw_cutoff w \<and> db_pid ?b = None \<and> db_ended_at ?b = None)"
    by simp
  from sweeper_spares_live_rows [OF k p this] show ?thesis by (simp add: p)
qed

subsection \<open>The VRAM cache\<close>

text \<open>Under the supervisor the total of the cards is never read.\<close>

lemma totals_missing_with_residents:
  "vc_total (fold (\<lambda>(stop, p). refresh_vram_residents stop p) ps c) = vc_total c"
  by (induction ps arbitrary: c) (auto simp: refresh_vram_residents_def)

lemma totals_read_once:
  "vc_total c = Some xs \<Longrightarrow> vc_total (refresh_vram_single stop free p c) = Some xs"
  by (simp add: refresh_vram_single_def)

lemma free_never_stale:
  "vc_free (refresh_vram_single False ProbeRaised p c) = None" "vc_free (refresh_vram_residents False ProbeRaised c) = None"
  by (simp_all add: refresh_vram_single_def refresh_vram_residents_def)

subsection \<open>Audit\<close>

lemma upsert_row:
  "\<exists>r \<in> set (upsert_slot rs now (audit_fields sl)). db_slot_id r = sl_id sl \<and> db_state r = state_value (sl_state sl)"
proof (cases "\<exists>r \<in> set rs. db_slot_id r = sl_id sl")
  case True
  then obtain r where "r \<in> set rs" "db_slot_id r = sl_id sl" by blast
  then have "update_row now (audit_fields sl) r \<in> set (upsert_slot rs now (audit_fields sl))"
    by (auto simp: upsert_slot_def audit_fields_def intro!: rev_image_eqI)
  moreover have "db_state (update_row now (audit_fields sl) r) = state_value (sl_state sl)"
    by (simp add: update_row_def audit_fields_def)
  ultimately show ?thesis using \<open>db_slot_id r = sl_id sl\<close> by (metis update_row_id)
qed (simp add: upsert_slot_def audit_fields_def new_row_def)

text \<open>
  C40: What is on the bus is in the database. An audit call that publishes has written the slot's
  row with the state it announces, and then the audit event; subscribers get the message
  complete, with the first eight characters of the thread id, and an audit call that fails
  publishes nothing.
\<close>

theorem published_states_are_recorded:
  assumes "audit fault now ev sl (d, bus) = (ok, d', bus')"
  shows "(ok \<longrightarrow> (\<exists>r \<in> set (slots_tbl d'). db_slot_id r = sl_id sl \<and> db_state r = state_value (sl_state sl)) \<and>
            (\<exists>e. audit_tbl d' = audit_tbl d @ [e] \<and> ev_slot_id e = Some (sl_id sl) \<and> ev_type e = ev) \<and>
            bus' = map (\<lambda>(i, q). (i, put_nowait WS_QUEUE_MAX (audit_message ev sl) q)) bus) \<and>
         (\<not> ok \<longrightarrow> bus' = bus \<and> audit_tbl d' = audit_tbl d)"
proof -
  have "safe_event (audit_message ev sl) = audit_message ev sl"
    by (simp add: safe_event_def audit_message_def REDACTED_KEYS_def)
  moreover have "\<exists>r \<in> set (upsert_slot (slots_tbl d) now (audit_fields sl)).
      db_slot_id r = sl_id sl \<and> db_state r = state_value (sl_state sl)"
    by (rule upsert_row)
  ultimately show ?thesis using assms
    by (auto simp: audit_def Let_def record_audit_event_def publish_nowait_def split: if_splits)
qed

theorem published_states_are_recorded_witness:
  "\<exists>d' bus'. audit NoDbFault ''t1'' ''slot_created'' (new_slot ''a'' 0 ''m'' [] ''thread-secret'' [])
       (\<lparr>slots_tbl = [], audit_tbl = []\<rparr>, [(1, [])]) = (True, d', bus') \<and>
     (\<exists>r \<in> set (slots_tbl d'). db_slot_id r = ''slot-a'' \<and> db_state r = ''RECEIVED'')"
proof -
  let ?sl = "new_slot ''a'' 0 ''m'' [] ''thread-secret'' []"
  obtain ok d' bus' where a: "audit NoDbFault ''t1'' ''slot_created'' ?sl (\<lparr>slots_tbl = [], audit_tbl = []\<rparr>, [(1, [])]) =
      (ok, d', bus')" by (metis surj_pair)
  moreover from a have ok by (simp add: audit_def Let_def)
  moreover have "sl_id ?sl = ''slot-a''" "state_value (sl_state ?sl) = ''RECEIVED''" by (simp_all add: new_slot_def)
  ultimately show ?thesis using published_states_are_recorded [OF a] by auto
qed

text \<open>
  The pool is filled by the thread that runs the event loop, the one thread a session refuses:
  no session ever uses a pooled connection.
\<close>

lemma pool_is_never_used:
  assumes "\<forall>op \<in> set ops. op = init_audit_pool t0 \<or> op = close_audit_pool t0" "runs_loop t0"
  shows "audit_db_session runs_loop has_path t (fold (\<lambda>op p. op p) ops {}) \<noteq> Pooled"
proof -
  have "fold (\<lambda>op p. op p) ops p \<subseteq> {t0}" if "p \<subseteq> {t0}" for p
    using assms(1) that
  proof (induction ops arbitrary: p)
    case (Cons op ops)
    then have "op p \<subseteq> {t0}" by (auto simp: init_audit_pool_def close_audit_pool_def)
    with Cons.IH [of "op p"] Cons.prems(1) show ?case by simp
  qed simp
  from this [of "{}"] assms(2) show ?thesis by (auto simp: audit_db_session_def)
qed

subsection \<open>The two spawn gates\<close>

text \<open>The gate of the resident drivers gives the verdict of the single-slot path.\<close>

lemma spawn_gates_agree:
  "run_spawn_safety_gate (Inr m) host limits = Inr (failed_gates (spawn_gates (Some (host, limits)) (Some m)) = [])"
  "run_spawn_safety_gate (Inl NotFound) host limits = Inr (failed_gates (spawn_gates (Some (host, limits)) None) = [])"
  by (simp_all add: run_spawn_safety_gate_def spawn_gates_def split: prod.split)

subsection \<open>Shutdown\<close>

lemma drain_is_bounded: "list_all (\<lambda>t. case t of None \<Rightarrow> True | Some s \<Rightarrow> 0 \<le> s) tasks \<Longrightarrow> fst (drain_bg_tasks tasks) \<le> BG_DRAIN_GRACE_S"
proof (induction tasks)
  case (Cons t ts)
  then show ?case by (cases t) (auto simp: drain_bg_tasks_def Let_def split: if_splits)
qed (simp add: drain_bg_tasks_def BG_DRAIN_GRACE_S_def)

fun rank :: "shutdown_action \<Rightarrow> nat" where
  "rank SetStop = 0"
| "rank (CancelObserver _) = 1"
| "rank CancelWorker = 2"
| "rank (CancelDrivers _) = 3"
| "rank DrainBg = 4"
| "rank CancelSweeper = 5"
| "rank CloseQueue = 6"
| "rank TeardownIdle = 7"
| "rank (CloseFd _) = 8"

lemma rank_observers [simp]: "sorted (map (\<lambda>x. Suc 0) xs)"
  by (induction xs) simp_all

text \<open>
  C31: A shutdown leaves no queued caller waiting. Unless the worker task dies with an error of its own,
  \<open>shutdown\<close> stops the observers before the worker, the worker before the resident drivers, drains
  the detached tasks, and only then closes the queue; every request still in the queue has its
  future resolved, in queue order, and the idle sidecar and the pinned descriptor are released.
\<close>

theorem shutdown_fails_every_queued_request:
  assumes "shutdown a = (actions, failed, None)"
  shows "sorted (map rank actions) \<and> map sl_id failed = pending (ra_queue a) \<and> list_all settled failed \<and>
    set actions = {SetStop, DrainBg, CloseQueue} \<union> CancelObserver ` set (ra_observers a) \<union>
      (if ra_worker a = None then {} else {CancelWorker}) \<union>
      (if ra_drivers a = [] then {} else {CancelDrivers (ra_drivers a)}) \<union>
      (if ra_sweeper a then {CancelSweeper} else {}) \<union> (if ra_idle a then {TeardownIdle} else {}) \<union>
      CloseFd ` set_option (ra_fd a)"
proof (cases "ra_worker a")
  case None
  with assms show ?thesis
    by (auto simp: shutdown_def Let_def close_def pending_def o_def list_all_iff sorted_append
        split: option.split)
next
  case (Some w)
  with assms show ?thesis
    by (cases w) (auto simp: shutdown_def Let_def close_def pending_def o_def list_all_iff sorted_append
        split: option.split)
qed

theorem shutdown_fails_every_queued_request_witness:
  "\<exists>actions failed.
     shutdown \<lparr>ra_observers = [ResidentsSupervisor], ra_worker = Some EndsCancelled, ra_drivers = [''m''],
       ra_bg = [Some 3], ra_sweeper = True, ra_queue = two_slot_queue, ra_idle = False, ra_fd = Some 7\<rparr> =
       (actions, failed, None) \<and>
     sorted (map rank actions) \<and> map sl_id failed = [''slot-a'', ''slot-b''] \<and> list_all settled failed"
  (is "\<exists>actions failed. shutdown ?a = _ \<and> _")
proof -
  obtain actions failed x where s: "shutdown ?a = (actions, failed, x)" by (metis surj_pair)
  then have "x = None" by (simp add: shutdown_def Let_def)
  with s have s': "shutdown ?a = (actions, failed, None)" by simp
  have "pending two_slot_queue = [''slot-a'', ''slot-b'']"
    by (simp add: pending_def two_slot_queue_def new_slot_def new_queue_def)
  with s' shutdown_fails_every_queued_request [OF s'] show ?thesis by simp
qed

text \<open>An error of the worker task ends the shutdown before the drivers and the queue.\<close>

lemma worker_error_aborts_shutdown:
  "ra_worker a = Some (EndsRaising e) \<Longrightarrow>
     shutdown a = (SetStop # map CancelObserver (ra_observers a) @ [CancelWorker], [], Some e)"
  by (simp add: shutdown_def Let_def)

end
