(* ===== verification/Spec2Isabelle.thy ===== *)
theory Spec2Isabelle
  imports StateDb RegistryRuns WorkerRuns LiveSlots ChatStream ChatReply Pulls Config Telemetry Singleton
    AuditLog Status Routes Lifecycle
begin

text \<open>
  Verification development of Turbohaul Manager, the package \<open>src/src/turbohaul\<close>.

  \<^bold>\<open>The program.\<close> Turbohaul puts a request queue in front of \<open>llama-server\<close> processes
  (sidecars). A chat request enters through \<open>api/chat_completion.py\<close>, is checked and
  rewritten there, and becomes a \<open>Slot\<close> (\<open>slot.py\<close>) of \<open>TurbohaulQueue\<close>
  (\<open>queue.py\<close>). The manager (\<open>manager.py\<close>) takes slots from the queue, boots or reuses
  a sidecar for the slot's model and hands the slot's future to the route, which talks to
  the sidecar and shapes the reply. With \<open>max_parallel_sidecars\<close> at most 1 a single
  worker loop does that; from 2 on a dispatcher, one driver per resident sidecar and
  detached tasks share a registry. Models are described by manifests (\<open>manifest.py\<close>)
  whose files lie in a content-addressed store (\<open>blob_store.py\<close>) that the pull and import
  routes fill. Before a boot the safety gates (\<open>safety.py\<close>) judge GPU and RAM headroom
  through the GPU back ends (\<open>gpu_backend.py\<close>); each state change of a slot is written
  to SQLite (\<open>state.py\<close>) and read back at start. A live monitor shows what the sidecars
  produce while they produce it; the status snapshot, the event bus, the log endpoint and the
  telemetry show what the manager does. The process is configured by a file and the
  environment (\<open>config.py\<close>), reaps the sidecars an earlier process left behind
  (\<open>singleton.py\<close>), and is started and stopped by \<open>api/main.py\<close>.

  \<^bold>\<open>Theories and sources.\<close>
  \<^item> \<open>Prelude\<close>, \<open>PyStrings\<close>, \<open>Json\<close>: what the sources use of Python (dict, list,
    string and \<open>json\<close> operations), the shared collections of lemmas, and the two
    interfaces of the development as locales: \<open>directory\<close> (a file system directory as
    the stores use it) and, in \<open>Queues\<close>, \<open>fifo_queue\<close>.
  \<^item> \<open>Slots\<close>: \<open>slot.py\<close>; \<open>Fsm\<close>: the transition table of \<open>fsm.py\<close>.
  \<^item> \<open>Queues\<close>, \<open>QueueRuns\<close>: \<open>TurbohaulQueue\<close>, one definition per method, and its runs
    under every interleaving of clients; \<open>Timers\<close>: the grace, idle, keep-alive and
    probe windows of \<open>queue.py\<close>.
  \<^item> \<open>StateDb\<close>: \<open>state.py\<close> and the boot reconciliation and retention sweep that use it.
  \<^item> \<open>GpuBackend\<close>, \<open>Safety\<close>: \<open>gpu_backend.py\<close>, \<open>safety.py\<close>.
  \<^item> \<open>Manifests\<close>, \<open>ManifestStore\<close>: \<open>manifest.py\<close> and \<open>api/manifests.py\<close>.
  \<^item> \<open>Registry\<close>, \<open>RegistryBooks\<close>, \<open>RegistrySafety\<close>, \<open>RegistryProcs\<close>, \<open>RegistryRuns\<close>:
    the multi-sidecar half of \<open>manager.py\<close>.
  \<^item> \<open>Worker\<close>, \<open>WorkerBooks\<close>, \<open>WorkerSafety\<close>, \<open>WorkerRuns\<close>: the single-sidecar half.
  \<^item> \<open>Subprocess\<close>: \<open>subprocess_mgr.py\<close>, the command line of a sidecar, its readiness
    wait and its termination.
  \<^item> \<open>LiveOutput\<close>, \<open>LiveStream\<close>, \<open>LiveSlots\<close>: \<open>live_monitor.py\<close> and
    \<open>api/live_stream.py\<close>.
  \<^item> \<open>ChatRequest\<close>, \<open>ChatReply\<close>, \<open>ChatStream\<close>: \<open>api/chat_completion.py\<close>, admission of
    the request, shaping of the answer, the streaming generator; \<open>ToolCalls\<close>:
    \<open>api/tool_call_recovery.py\<close>.
  \<^item> \<open>Ssrf\<close>: \<open>ssrf_guard.py\<close>; \<open>BlobStore\<close>: \<open>blob_store.py\<close>; \<open>Pulls\<close>: \<open>api/pull.py\<close> and
    \<open>api/import_.py\<close>.
  \<^item> \<open>Config\<close>: \<open>config.py\<close>, \<open>api/config_put.py\<close>, \<open>__main__.py\<close>, a section as a list of field
    declarations that one checker interprets; \<open>Singleton\<close>: \<open>singleton.py\<close> and the two orphan
    scans of \<open>manager.py\<close>.
  \<^item> \<open>Telemetry\<close>: \<open>telemetry.py\<close> and \<open>api/telemetry.py\<close>; \<open>AuditLog\<close>: \<open>EventBus\<close>,
    \<open>api/ws_state.py\<close> and \<open>api/logging.py\<close>; \<open>Status\<close>: \<open>status_snapshot\<close> of \<open>manager.py\<close> and
    the setters of the scalars it reads.
  \<^item> \<open>Routes\<close>: the handlers of \<open>api/chat_completion.py\<close> composed from \<open>ChatRequest\<close>, the
    submission and \<open>ChatReply\<close>; \<open>api/embeddings.py\<close>, \<open>api/ollama.py\<close>, and the static mount,
    health and version of \<open>api/main.py\<close>.
  \<^item> \<open>Lifecycle\<close>: the start (\<open>lifespan\<close>) and the end (\<open>shutdown\<close>) of the application, its
    background loops, the audit helpers and the connection pool of \<open>state.py\<close>, the spawn gate
    of the resident drivers and the VRAM cache.

  \<^bold>\<open>How state and steps correspond.\<close> A class is a record with the source's attributes, a
  method a function on it, a raised exception a value of an error type. What runs under a
  lock or without an \<open>await\<close> is one step; between two steps every other task may move.
  The manager is therefore a transition function over events, where an event names the
  task that moves and the outcome of the call it waited for (the sidecar answered, the
  boot failed, the client left), and a run is a list of events. Everything outside the
  process is an argument: probe readings, the answers of a sidecar, the clock, DNS
  answers, digests (\<open>sha\<close> is a function of the content about which nothing is assumed
  unless a lemma says so). Times are integers or rationals in the unit of the source.

  \<^bold>\<open>What the lemmas show.\<close> \<open>Books\<close> theories keep an account of requests as multisets:
  every accepted request is in one place. \<open>Safety\<close> and \<open>Procs\<close> theories hold one
  preservation lemma per step for the bounds on residents, GPUs, ports and processes;
  \<open>Runs\<close> theories carry them to every run and add the concrete runs in which the code
  does something its comments do not promise. The queue refines a FIFO with bounded
  overtaking; the text plane refines the list of bytes each generation has produced
  (\<open>plane_view\<close>); manifest and blob files meet the laws of \<open>directory\<close>; the KV-cache
  estimate and the schema checker are equivalent to declarative specifications. \<open>Config\<close>
  carries the declared bounds of every setting from the start through every sequence of
  updates. \<open>Status\<close> and \<open>AuditLog\<close> state redaction as noninterference and as the absence of
  keys, and paging as completeness of the pages read by a client that follows the cursor;
  \<open>Telemetry\<close> has the ring as the newest part of the history and the log file as a printer
  whose lines parse back. \<open>Singleton\<close> says which processes the scans signal and what their
  counters mean. \<open>Routes\<close> and \<open>Lifecycle\<close> compose the components: what a status tells the
  client about its request, when a slot is released, and what a shutdown leaves behind.

  \<^bold>\<open>Bounds and fuel.\<close> The JSON parser takes \<open>2 * length + 2\<close> steps of fuel, more than any
  text can use, since each call consumes a character or descends from one that did.
  Redirects are followed \<open>MAX_HOPS\<close> times as in the source. The polling loops of
  \<open>subprocess_mgr.py\<close> and of the streaming generator recurse on the time left; their
  termination is part of the properties. Machine words occur only in \<open>Ssrf\<close>, where
  addresses are 32 and 128 bits wide.

  \<^bold>\<open>Not modelled.\<close> The HTTP framework and \<open>httpx\<close>, \<open>pydantic\<close> beyond the declared bounds
  (its lax conversions are the record \<open>coercions\<close>), the SQLite engine, \<open>pynvml\<close> and
  \<open>rocm-smi\<close>, and \<open>llama-server\<close> itself are outside the repository. Of the repository: opening
  and migrating the database (\<open>open_state_db\<close>, SQL text for the engine), the construction of
  the FastAPI object and the inclusion of its routers, the telemetry calls inside the
  streaming generator (the hooks themselves are in \<open>Telemetry\<close>), the wording of log messages,
  the React front end and the images. The Ollama registry route of \<open>api/pull.py\<close> is a constant
  501. Strings are ASCII: what Python does to other characters is not stated anywhere here.
\<close>

end
